(* ===== verification/Rln_Prelude.thy ===== *)
theory Rln_Prelude
  imports
    Main
    "HOL-Library.Word"
    "HOL-Library.Char_ord"
    "HOL-Library.List_Lexorder"
    "HOL-Library.Extended_Nat"
begin

text \<open>
  Shared vocabulary of the development: the machine integers and byte strings of the Rust
  sources, \<open>Result\<close> as a sum with its combinators, \<open>BTreeMap\<close> as a sorted association list,
  the parts of \<open>std\<close> (saturating arithmetic, string trimming and splitting, iterator searches)
  the modules call, and the generic lemmas about them.

  A Rust \<open>String\<close> is its UTF-8 byte sequence; a HOL \<open>char\<close> is eight bits, so \<open>string\<close> is that
  sequence and \<open>length\<close> is \<open>str::len\<close>.
\<close>

section \<open>Collections of simplification rules\<close>

named_theorems result_simps \<open>equations for the result combinators\<close>
named_theorems bt_simps \<open>equations for sorted association lists\<close>
named_theorems enc_simps \<open>lengths and injectivity of byte encodings\<close>

section \<open>Machine integers\<close>

type_synonym u8 = "8 word"
type_synonym u32 = "32 word"
type_synonym u64 = "64 word"
type_synonym u128 = "128 word"
type_synonym byte = "8 word"
type_synonym bytes = "byte list"

definition saturating_add :: "'a::len word \<Rightarrow> 'a word \<Rightarrow> 'a word" where
  "saturating_add a b = (if a + b < a then - 1 else a + b)"

definition saturating_sub :: "'a::len word \<Rightarrow> 'a word \<Rightarrow> 'a word" where
  "saturating_sub a b = (if a < b then 0 else a - b)"

definition saturating_mul :: "'a::len word \<Rightarrow> 'a word \<Rightarrow> 'a word" where
  "saturating_mul a b = (if unat a * unat b < 2 ^ LENGTH('a) then a * b else - 1)"

lemma unat_all_ones: "unat (- 1 :: 'a::len word) = 2 ^ LENGTH('a) - 1"
  by (simp add: unsigned_minus_1_eq_mask mask_eq_exp_minus_1)

lemma saturating_sub_le: "saturating_sub a b \<le> a"
  by (simp add: saturating_sub_def word_sub_le linorder_not_less)

lemma unat_saturating_sub: "unat (saturating_sub a b) = unat a - unat b"
proof (cases "a < b")
  case True
  then show ?thesis by (simp add: saturating_sub_def word_less_nat_alt)
next
  case False
  then show ?thesis by (simp add: saturating_sub_def unat_sub linorder_not_less)
qed

lemma saturating_add_ge: "a \<le> saturating_add a b"
  by (auto simp: saturating_add_def linorder_not_less)

lemma unat_saturating_add:
  "unat (saturating_add (a::'a::len word) b) = min (unat a + unat b) (2 ^ LENGTH('a) - 1)"
proof (cases "unat a + unat b < 2 ^ LENGTH('a)")
  case True
  then have s: "unat (a + b) = unat a + unat b" by (rule unat_add_lem [THEN iffD1])
  then have "\<not> a + b < a" by (simp add: word_less_nat_alt)
  with s True show ?thesis by (simp add: saturating_add_def)
next
  case False
  then have "unat (a + b) = unat a + unat b - 2 ^ LENGTH('a)"
    by (simp add: unat_plus_if' not_less)
  moreover have "unat b < 2 ^ LENGTH('a)" by (rule unsigned_less)
  ultimately have "unat (a + b) < unat a" using False by linarith
  then have "a + b < a" by (simp add: word_less_nat_alt)
  with False show ?thesis by (simp add: saturating_add_def unat_all_ones)
qed

lemma unat_saturating_mul:
  "unat (saturating_mul (a::'a::len word) b) = min (unat a * unat b) (2 ^ LENGTH('a) - 1)"
proof (cases "unat a * unat b < 2 ^ LENGTH('a)")
  case True
  then have "unat (a * b) = unat a * unat b" by (simp add: unat_mult_lem [THEN iffD1])
  with True show ?thesis by (simp add: saturating_mul_def)
next
  case False
  then show ?thesis by (simp add: saturating_mul_def unat_all_ones)
qed

lemma unat_inc_less:
  fixes a b :: "'a::len word"
  assumes "a < b"
  shows "unat (a + 1) = Suc (unat a)"
proof -
  have "unat a < unat b" using assms by (simp add: word_less_nat_alt)
  moreover have "unat b < 2 ^ LENGTH('a)" by (rule unsigned_less)
  ultimately have "unat a + unat (1::'a word) < 2 ^ LENGTH('a)" by (simp only: unat_1)
  then have "unat (a + 1) = unat a + unat (1::'a word)" by (rule unat_add_lem [THEN iffD1])
  then show ?thesis by simp
qed

section \<open>Results\<close>

text \<open>
  \<open>Result<T, E>\<close> is \<open>'e + 'a\<close> with \<open>Inl\<close> the error. \<open>and_then\<close> is \<open>Result::and_then\<close> and also
  the \<open>?\<close> operator: an error leaves the function, a value goes on.
\<close>

definition and_then :: "'e + 'a \<Rightarrow> ('a \<Rightarrow> 'e + 'b) \<Rightarrow> 'e + 'b" where
  "and_then r f = (case r of Inl e \<Rightarrow> Inl e | Inr x \<Rightarrow> f x)"

definition map_err :: "('e \<Rightarrow> 'f) \<Rightarrow> 'e + 'a \<Rightarrow> 'f + 'a" where
  "map_err g r = (case r of Inl e \<Rightarrow> Inl (g e) | Inr x \<Rightarrow> Inr x)"

definition ok_or :: "'e \<Rightarrow> 'a option \<Rightarrow> 'e + 'a" where
  "ok_or e m = (case m of None \<Rightarrow> Inl e | Some x \<Rightarrow> Inr x)"

definition is_ok :: "'e + 'a \<Rightarrow> bool" where
  "is_ok r = (case r of Inl _ \<Rightarrow> False | Inr _ \<Rightarrow> True)"

lemma and_then_simps [simp, result_simps]:
  "and_then (Inl e) f = Inl e"
  "and_then (Inr x) f = f x"
  by (simp_all add: and_then_def)

lemma map_err_simps [simp, result_simps]:
  "map_err g (Inl e) = Inl (g e)"
  "map_err g (Inr x) = Inr x"
  by (simp_all add: map_err_def)

lemma ok_or_simps [simp, result_simps]:
  "ok_or e None = Inl e"
  "ok_or e (Some x) = Inr x"
  by (simp_all add: ok_or_def)

lemma is_ok_simps [simp, result_simps]:
  "is_ok (Inr x)"
  "\<not> is_ok (Inl e)"
  by (simp_all add: is_ok_def)

lemma and_then_eq_Inr:
  "and_then r f = Inr y \<longleftrightarrow> (\<exists>x. r = Inr x \<and> f x = Inr y)"
  by (cases r) auto

lemma and_then_eq_Inl:
  "and_then r f = Inl e \<longleftrightarrow> r = Inl e \<or> (\<exists>x. r = Inr x \<and> f x = Inl e)"
  by (cases r) auto

lemma map_err_eq_Inr: "map_err g r = Inr y \<longleftrightarrow> r = Inr y"
  by (cases r) auto

lemma map_err_eq_Inl: "map_err g r = Inl f \<longleftrightarrow> (\<exists>e. r = Inl e \<and> g e = f)"
  by (cases r) auto

lemma ok_or_eq_Inr: "ok_or e m = Inr x \<longleftrightarrow> m = Some x"
  by (cases m) auto

lemma ok_or_eq_Inl: "ok_or e m = Inl f \<longleftrightarrow> m = None \<and> e = f"
  by (cases m) auto

lemmas result_iffs = and_then_eq_Inr and_then_eq_Inl map_err_eq_Inr map_err_eq_Inl
  ok_or_eq_Inr ok_or_eq_Inl

section \<open>Iterator helpers\<close>

text \<open>\<open>iter_mut().find(p)\<close> followed by a write through the reference changes the first match.\<close>

fun update_first :: "('a \<Rightarrow> bool) \<Rightarrow> ('a \<Rightarrow> 'a) \<Rightarrow> 'a list \<Rightarrow> 'a list" where
  "update_first p f [] = []"
| "update_first p f (x # xs) = (if p x then f x # xs else x # update_first p f xs)"

lemma length_update_first [simp]: "length (update_first p f xs) = length xs"
  by (induction xs) auto

lemma update_first_no_match: "find p xs = None \<Longrightarrow> update_first p f xs = xs"
  by (induction xs) (auto split: if_splits)

lemma map_update_first:
  "(\<And>x. g (f x) = g x) \<Longrightarrow> map g (update_first p f xs) = map g xs"
  by (induction xs) auto

lemma find_update_first_same:
  "find p xs = Some x \<Longrightarrow> p (f x) \<Longrightarrow> find p (update_first p f xs) = Some (f x)"
  by (induction xs) (auto split: if_splits)

lemma find_update_first_other:
  "(\<And>x. p x \<Longrightarrow> \<not> q x \<and> \<not> q (f x)) \<Longrightarrow> find q (update_first p f xs) = find q xs"
  by (induction xs) auto

lemma find_filter:
  "(\<And>x. p x \<Longrightarrow> q x) \<Longrightarrow> find p (filter q xs) = find p xs"
  by (induction xs) auto

lemma find_append:
  "find p (xs @ ys) = (case find p xs of None \<Rightarrow> find p ys | Some x \<Rightarrow> Some x)"
  by (induction xs) auto

text \<open>\<open>Iterator::max\<close>: \<open>None\<close> on an empty iterator.\<close>

fun iter_max :: "'a::linorder list \<Rightarrow> 'a option" where
  "iter_max [] = None"
| "iter_max (x # xs) = (case iter_max xs of None \<Rightarrow> Some x | Some y \<Rightarrow> Some (max x y))"

lemma iter_max_None [simp]: "iter_max xs = None \<longleftrightarrow> xs = []"
  by (cases xs) (auto split: option.splits)

lemma iter_max_Max: "xs \<noteq> [] \<Longrightarrow> iter_max xs = Some (Max (set xs))"
proof (induction xs)
  case Nil
  then show ?case by simp
next
  case (Cons x xs)
  then show ?case by (cases "xs = []") (auto simp: Max_insert)
qed

section \<open>Ordered maps\<close>

text \<open>
  \<open>BTreeMap<K, V>\<close> as the association list its iterators yield: keys strictly increasing.
  \<open>bt_get\<close>, \<open>bt_insert\<close>, \<open>bt_remove\<close> and \<open>bt_contains\<close> are the map's operations, and
  \<open>bt_or_insert\<close> is \<open>entry(k).or_insert(v)\<close>.
\<close>

type_synonym ('k, 'v) btmap = "('k \<times> 'v) list"

definition bt_wf :: "('k::linorder, 'v) btmap \<Rightarrow> bool" where
  "bt_wf m \<longleftrightarrow> sorted_wrt (<) (map fst m)"

definition bt_get :: "('k, 'v) btmap \<Rightarrow> 'k \<Rightarrow> 'v option" where
  "bt_get m k = map_of m k"

definition bt_contains :: "('k, 'v) btmap \<Rightarrow> 'k \<Rightarrow> bool" where
  "bt_contains m k \<longleftrightarrow> bt_get m k \<noteq> None"

fun bt_insert :: "'k::linorder \<Rightarrow> 'v \<Rightarrow> ('k, 'v) btmap \<Rightarrow> ('k, 'v) btmap" where
  "bt_insert k v [] = [(k, v)]"
| "bt_insert k v ((a, b) # m) =
     (if k < a then (k, v) # (a, b) # m
      else if k = a then (k, v) # m
      else (a, b) # bt_insert k v m)"

definition bt_remove :: "'k \<Rightarrow> ('k, 'v) btmap \<Rightarrow> ('k, 'v) btmap" where
  "bt_remove k m = filter (\<lambda>(a, _). a \<noteq> k) m"

definition bt_or_insert :: "'k::linorder \<Rightarrow> 'v \<Rightarrow> ('k, 'v) btmap \<Rightarrow> ('k, 'v) btmap" where
  "bt_or_insert k v m = (if bt_contains m k then m else bt_insert k v m)"

abbreviation bt_keys :: "('k, 'v) btmap \<Rightarrow> 'k list" where
  "bt_keys m \<equiv> map fst m"

abbreviation bt_values :: "('k, 'v) btmap \<Rightarrow> 'v list" where
  "bt_values m \<equiv> map snd m"

lemma bt_get_Nil [simp, bt_simps]: "bt_get [] k = None"
  by (simp add: bt_get_def)

lemma bt_get_Cons [bt_simps]: "bt_get ((a, b) # m) k = (if k = a then Some b else bt_get m k)"
  by (simp add: bt_get_def)

lemma bt_get_insert [simp, bt_simps]:
  "bt_get (bt_insert k v m) k' = (if k' = k then Some v else bt_get m k')"
  by (induction k v m rule: bt_insert.induct) (auto simp: bt_get_def)

lemma bt_get_remove [simp, bt_simps]:
  "bt_get (bt_remove k m) k' = (if k' = k then None else bt_get m k')"
  by (induction m) (auto simp: bt_get_def bt_remove_def)

lemma bt_get_or_insert [simp, bt_simps]:
  "bt_get (bt_or_insert k v m) k' =
     (if k' = k then Some (case bt_get m k of None \<Rightarrow> v | Some x \<Rightarrow> x) else bt_get m k')"
  by (auto simp: bt_or_insert_def bt_contains_def split: option.splits)

lemma bt_contains_iff: "bt_contains m k \<longleftrightarrow> k \<in> set (bt_keys m)"
  by (simp add: bt_contains_def bt_get_def map_of_eq_None_iff)

lemma bt_get_SomeD: "bt_get m k = Some v \<Longrightarrow> (k, v) \<in> set m"
  by (simp add: bt_get_def map_of_SomeD)

lemma bt_wf_Nil [simp]: "bt_wf []"
  by (simp add: bt_wf_def)

lemma bt_wf_distinct: "bt_wf m \<Longrightarrow> distinct (bt_keys m)"
  by (simp add: bt_wf_def strict_sorted_iff)

lemma set_keys_bt_insert: "set (bt_keys (bt_insert k v m)) = insert k (set (bt_keys m))"
  by (induction k v m rule: bt_insert.induct) auto

lemma bt_wf_insert [simp]: "bt_wf m \<Longrightarrow> bt_wf (bt_insert k v m)"
proof (induction k v m rule: bt_insert.induct)
  case (1 k v)
  then show ?case by (simp add: bt_wf_def)
next
  case (2 k v a b m)
  then show ?case
    using set_keys_bt_insert [of k v m] by (auto simp: bt_wf_def)
qed

lemma bt_wf_filter: "bt_wf m \<Longrightarrow> bt_wf (filter p m)"
  by (induction m) (auto simp: bt_wf_def)

lemma bt_wf_remove [simp]: "bt_wf m \<Longrightarrow> bt_wf (bt_remove k m)"
  by (simp add: bt_remove_def bt_wf_filter)

lemma bt_wf_or_insert [simp]: "bt_wf m \<Longrightarrow> bt_wf (bt_or_insert k v m)"
  by (simp add: bt_or_insert_def)

lemma bt_get_filter_key:
  "bt_get (filter (\<lambda>(k, _). p k) m) k' = (if p k' then bt_get m k' else None)"
  by (induction m) (auto simp: bt_get_def)

lemma bt_get_map_values:
  "bt_get (map (\<lambda>(k, v). (k, f k v)) m) k' = map_option (f k') (bt_get m k')"
  by (induction m) (auto simp: bt_get_def)

lemma bt_wf_map_values: "bt_wf m \<Longrightarrow> bt_wf (map (\<lambda>(k, v). (k, f k v)) m)"
  by (simp add: bt_wf_def comp_def case_prod_unfold)

lemma bt_get_Some_iff: "bt_wf m \<Longrightarrow> bt_get m k = Some v \<longleftrightarrow> (k, v) \<in> set m"
  by (simp add: bt_get_def bt_wf_distinct)

end
