(* ===== verification/Rust_Text.thy ===== *)
theory Rust_Text
  imports Rln_Prelude
begin

text \<open>
  The parts of \<open>str\<close>, \<open>char\<close> and \<open>u8\<close> the sources use: trimming, splitting, prefixes, ASCII
  classes and case, decimal formatting, and the crate's hex encoder and decoder
  (\<open>registry_id.rs\<close>). Strings are UTF-8 byte sequences; \<open>trim\<close> strips the encodings of every
  character with the Unicode \<open>White_Space\<close> property, which is what \<open>str::trim\<close> does.
\<close>

unbundle bit_operations_syntax

section \<open>ASCII classes\<close>

definition is_ascii_digit :: "char \<Rightarrow> bool" where
  "is_ascii_digit c \<longleftrightarrow> CHR ''0'' \<le> c \<and> c \<le> CHR ''9''"

definition is_ascii_lowercase :: "char \<Rightarrow> bool" where
  "is_ascii_lowercase c \<longleftrightarrow> CHR ''a'' \<le> c \<and> c \<le> CHR ''z''"

definition is_ascii_uppercase :: "char \<Rightarrow> bool" where
  "is_ascii_uppercase c \<longleftrightarrow> CHR ''A'' \<le> c \<and> c \<le> CHR ''Z''"

definition is_ascii_alphanumeric :: "char \<Rightarrow> bool" where
  "is_ascii_alphanumeric c \<longleftrightarrow> is_ascii_digit c \<or> is_ascii_lowercase c \<or> is_ascii_uppercase c"

definition is_ascii_graphic :: "char \<Rightarrow> bool" where
  "is_ascii_graphic c \<longleftrightarrow> CHR ''!'' \<le> c \<and> c \<le> CHR ''~''"

definition lower_char :: "char \<Rightarrow> char" where
  "lower_char c = (if is_ascii_uppercase c then char_of (of_char c + 32 :: nat) else c)"

definition to_ascii_lowercase :: "string \<Rightarrow> string" where
  "to_ascii_lowercase s = map lower_char s"

lemmas ascii_defs = is_ascii_digit_def is_ascii_lowercase_def is_ascii_uppercase_def
  is_ascii_alphanumeric_def is_ascii_graphic_def less_eq_char_def less_char_def

lemma is_ascii_alphanumeric_lower [simp]:
  "is_ascii_alphanumeric c \<Longrightarrow> is_ascii_alphanumeric (lower_char c)"
  by (auto simp: lower_char_def ascii_defs of_char_of)

lemma lower_char_idem [simp]: "lower_char (lower_char c) = lower_char c"
  by (auto simp: lower_char_def ascii_defs of_char_of)

lemma lower_char_other [simp]: "\<not> is_ascii_uppercase c \<Longrightarrow> lower_char c = c"
  by (simp add: lower_char_def)

lemma to_ascii_lowercase_idem [simp]: "to_ascii_lowercase (to_ascii_lowercase s) = to_ascii_lowercase s"
  by (simp add: to_ascii_lowercase_def)

lemma length_to_ascii_lowercase [simp]: "length (to_ascii_lowercase s) = length s"
  by (simp add: to_ascii_lowercase_def)

lemma alphanumeric_graphic: "is_ascii_alphanumeric c \<Longrightarrow> is_ascii_graphic c"
  by (auto simp: ascii_defs)

section \<open>Trimming\<close>

definition whitespace_encodings :: "string list" where
  "whitespace_encodings =
     map (\<lambda>c. [c]) [CHR 0x09, CHR 0x0A, CHR 0x0B, CHR 0x0C, CHR 0x0D, CHR 0x20] @
     [[CHR 0xC2, CHR 0x85], [CHR 0xC2, CHR 0xA0], [CHR 0xE1, CHR 0x9A, CHR 0x80]] @
     map (\<lambda>c. [CHR 0xE2, CHR 0x80, c])
       [CHR 0x80, CHR 0x81, CHR 0x82, CHR 0x83, CHR 0x84, CHR 0x85, CHR 0x86, CHR 0x87,
        CHR 0x88, CHR 0x89, CHR 0x8A, CHR 0xA8, CHR 0xA9, CHR 0xAF] @
     [[CHR 0xE2, CHR 0x81, CHR 0x9F], [CHR 0xE3, CHR 0x80, CHR 0x80]]"

text \<open>
  \<open>strip_leading\<close> removes occurrences of the given non-empty words from the front as long as
  one matches.
\<close>

function strip_leading :: "string list \<Rightarrow> string \<Rightarrow> string" where
  "strip_leading ws s =
     (case find (\<lambda>w. w \<noteq> [] \<and> take (length w) s = w) ws of
        None \<Rightarrow> s
      | Some w \<Rightarrow> strip_leading ws (drop (length w) s))"
  by pat_completeness auto

termination
proof (relation "measure (\<lambda>(ws, s). length s)")
  fix ws :: "string list" and s w
  assume "find (\<lambda>w. w \<noteq> [] \<and> take (length w) s = w) ws = Some w"
  then have "w \<noteq> []" "take (length w) s = w" by (auto simp: find_Some_iff)
  then show "((ws, drop (length w) s), (ws, s)) \<in> measure (\<lambda>(ws, s). length s)"
    by (cases s) (auto simp: neq_Nil_conv)
qed simp

declare strip_leading.simps [simp del]

definition trim_start :: "string \<Rightarrow> string" where
  "trim_start s = strip_leading whitespace_encodings s"

definition trim_end :: "string \<Rightarrow> string" where
  "trim_end s = rev (strip_leading (map rev whitespace_encodings) (rev s))"

definition trim :: "string \<Rightarrow> string" where
  "trim s = trim_end (trim_start s)"

lemma strip_leading_id:
  assumes "s = [] \<or> hd s \<notin> hd ` {w \<in> set ws. w \<noteq> []}"
  shows "strip_leading ws s = s"
proof -
  have "find (\<lambda>w. w \<noteq> [] \<and> take (length w) s = w) ws = None"
  proof (cases s)
    case Nil
    then show ?thesis by (auto simp: find_None_iff)
  next
    case (Cons c r)
    have "take (length w) s \<noteq> w" if "w \<in> set ws" "w \<noteq> []" for w
    proof
      assume t: "take (length w) s = w"
      have "hd (take (length w) s) = hd s" using that(2) Cons by (cases w) auto
      with t have "hd w = hd s" by simp
      then show False using assms that Cons by (metis (mono_tags, lifting) image_eqI list.distinct(1) mem_Collect_eq)
    qed
    then show ?thesis by (auto simp: find_None_iff)
  qed
  then show ?thesis by (subst strip_leading.simps) simp
qed

lemma graphic_not_whitespace:
  "is_ascii_graphic c \<Longrightarrow> c \<notin> hd ` {w \<in> set whitespace_encodings. w \<noteq> []}"
  "is_ascii_graphic c \<Longrightarrow> c \<notin> hd ` {w \<in> set (map rev whitespace_encodings). w \<noteq> []}"
  by (auto simp: whitespace_encodings_def ascii_defs)

lemma trim_graphic:
  assumes "s \<noteq> [] \<Longrightarrow> is_ascii_graphic (hd s) \<and> is_ascii_graphic (last s)"
  shows "trim s = s"
proof -
  have "trim_start s = s"
    unfolding trim_start_def by (rule strip_leading_id) (use assms graphic_not_whitespace(1) in blast)
  moreover have "trim_end s = s"
    unfolding trim_end_def
    by (subst strip_leading_id) (use assms graphic_not_whitespace(2) in \<open>auto simp: hd_rev\<close>)
  ultimately show ?thesis by (simp add: trim_def)
qed

section \<open>Splitting and prefixes\<close>

fun split_on :: "char \<Rightarrow> string \<Rightarrow> string list" where
  "split_on d [] = [[]]"
| "split_on d (c # s) =
     (if c = d then [] # split_on d s
      else (case split_on d s of [] \<Rightarrow> [[c]] | p # ps \<Rightarrow> (c # p) # ps))"

lemma split_on_nonempty [simp]: "split_on d s \<noteq> []"
  by (induction s) (auto split: list.splits)

lemma split_on_none: "d \<notin> set s \<Longrightarrow> split_on d s = [s]"
  by (induction s) auto

lemma split_on_append: "d \<notin> set s \<Longrightarrow> split_on d (s @ d # r) = s # split_on d r"
  by (induction s) auto

lemma split_on_members: "p \<in> set (split_on d s) \<Longrightarrow> d \<notin> set p"
  by (induction s arbitrary: p) (fastforce split: if_splits list.splits)+

definition strip_prefix :: "string \<Rightarrow> string \<Rightarrow> string option" where
  "strip_prefix p s = (if take (length p) s = p then Some (drop (length p) s) else None)"

definition starts_with :: "string \<Rightarrow> string \<Rightarrow> bool" where
  "starts_with p s \<longleftrightarrow> take (length p) s = p"

fun show_nat :: "nat \<Rightarrow> string" where
  "show_nat n = (if n < 10 then [char_of (48 + n)]
                 else show_nat (n div 10) @ [char_of (48 + n mod 10)])"

declare show_nat.simps [simp del]

section \<open>Bytes of a string\<close>

definition as_bytes :: "string \<Rightarrow> bytes" where
  "as_bytes s = map of_char s"

lemma length_as_bytes [simp]: "length (as_bytes s) = length s"
  by (simp add: as_bytes_def)

lemma of_char_byte_inj: "(of_char c :: byte) = of_char d \<longleftrightarrow> c = d"
proof
  assume "(of_char c :: byte) = of_char d"
  then have "unat (of_nat (of_char c) :: byte) = unat (of_nat (of_char d) :: byte)"
    by (simp only: of_nat_of_char)
  then have "(of_char c :: nat) = of_char d"
    by (simp add: unat_of_nat)
  then show "c = d" by simp
qed simp

lemma as_bytes_inj [simp]: "as_bytes s = as_bytes t \<longleftrightarrow> s = t"
  unfolding as_bytes_def by (rule inj_map_eq_map) (auto simp: inj_def of_char_byte_inj)

section \<open>Unsigned decimals\<close>

text \<open>\<open>str::parse\<close> at an unsigned type: an optional plus sign, then digits, no overflow.\<close>

definition digits_value :: "string \<Rightarrow> nat" where
  "digits_value ds = foldl (\<lambda>n c. 10 * n + (of_char c - 48)) 0 ds"

definition parse_uint :: "string \<Rightarrow> 'a::len word option" where
  "parse_uint s =
     (let ds = (case s of c # r \<Rightarrow> if c = CHR ''+'' then r else s | [] \<Rightarrow> []) in
      if ds = [] \<or> \<not> list_all is_ascii_digit ds then None
      else if digits_value ds < 2 ^ LENGTH('a) then Some (of_nat (digits_value ds)) else None)"

lemma digits_value_append: "digits_value (ds @ [c]) = 10 * digits_value ds + (of_char c - 48)"
  by (simp add: digits_value_def)

lemma show_nat_digits: "show_nat n \<noteq> [] \<and> list_all is_ascii_digit (show_nat n) \<and> digits_value (show_nat n) = n"
proof (induction n rule: less_induct)
  case (less n)
  have digit: "is_ascii_digit (char_of (48 + d))" if "d < 10" for d :: nat
    using that by (simp add: is_ascii_digit_def less_eq_char_def)
  show ?case
  proof (cases "n < 10")
    case True
    then have "show_nat n = [char_of (48 + n)]" by (subst show_nat.simps) simp
    then show ?thesis using True digit [of n] by (simp add: digits_value_def)
  next
    case False
    then have e: "show_nat n = show_nat (n div 10) @ [char_of (48 + n mod 10)]" by (subst show_nat.simps) simp
    have "n mod 10 < 10" by simp
    then show ?thesis
      using less [of "n div 10"] False digit [of "n mod 10"] unfolding e digits_value_append by simp
  qed
qed

text \<open>A printed word parses back.\<close>

lemma parse_uint_show_nat [simp]: "parse_uint (show_nat (unat (w :: 'a::len word))) = Some w"
proof -
  obtain c s where s: "show_nat (unat w) = c # s" using show_nat_digits [of "unat w"] by (cases "show_nat (unat w)") auto
  then have "is_ascii_digit c" using show_nat_digits [of "unat w"] by simp
  then have "c \<noteq> CHR ''+''" by (auto simp: is_ascii_digit_def less_eq_char_def)
  then show ?thesis
    using show_nat_digits [of "unat w"] unsigned_less [of w, where 'a = nat] s by (simp add: parse_uint_def)
qed

section \<open>Hex\<close>

definition HEX :: string where
  "HEX = ''0123456789abcdef''"

definition hex_of_byte :: "byte \<Rightarrow> string" where
  "hex_of_byte b = [HEX ! unat (drop_bit 4 b), HEX ! unat (b AND 0xf)]"

definition bytes_to_hex :: "bytes \<Rightarrow> string" where
  "bytes_to_hex data = concat (map hex_of_byte data)"

definition to_digit16 :: "char \<Rightarrow> u32 option" where
  "to_digit16 c =
     (if is_ascii_digit c then Some (of_char c - of_char CHR ''0'')
      else if CHR ''a'' \<le> c \<and> c \<le> CHR ''f'' then Some (of_char c - of_char CHR ''a'' + 10)
      else if CHR ''A'' \<le> c \<and> c \<le> CHR ''F'' then Some (of_char c - of_char CHR ''A'' + 10)
      else None)"

fun hex_pairs :: "string \<Rightarrow> bytes option" where
  "hex_pairs (a # b # s) =
     Option.bind (to_digit16 a) (\<lambda>hi. Option.bind (to_digit16 b) (\<lambda>lo.
       map_option ((#) (ucast (push_bit 4 hi OR lo))) (hex_pairs s)))"
| "hex_pairs _ = Some []"

definition hex_to_vec :: "string \<Rightarrow> bytes option" where
  "hex_to_vec hex =
     (let s = trim hex;
          s = (case strip_prefix ''0x'' s of
                 Some r \<Rightarrow> r
               | None \<Rightarrow> (case strip_prefix ''0X'' s of Some r \<Rightarrow> r | None \<Rightarrow> s))
      in if \<not> even (length s) then None else hex_pairs s)"

definition hex_to_bytes32 :: "string \<Rightarrow> bytes option" where
  "hex_to_bytes32 hex =
     (case hex_to_vec hex of
        None \<Rightarrow> None
      | Some v \<Rightarrow> if length v = 32 then Some v else None)"

lemma HEX_nth_digit:
  assumes "n < 16"
  shows "to_digit16 (HEX ! n) = Some (of_nat n)" "HEX ! n \<noteq> CHR ''x''" "HEX ! n \<noteq> CHR ''X''"
    "is_ascii_alphanumeric (HEX ! n)"
proof -
  have "n \<in> {0, 1, 2, 3, 4, 5, 6, 7, 8, 9, 10, 11, 12, 13, 14, 15}" using assms by simp arith
  then show "to_digit16 (HEX ! n) = Some (of_nat n)" "HEX ! n \<noteq> CHR ''x''"
    "HEX ! n \<noteq> CHR ''X''" "is_ascii_alphanumeric (HEX ! n)"
    by (auto simp: HEX_def to_digit16_def ascii_defs)
qed

lemma nibbles_less: "unat (drop_bit 4 (b::byte)) < 16" "unat ((b::byte) AND 0xf) < 16"
proof -
  have "unat b < 2 ^ 8" using unsigned_less [of b] by simp
  then show "unat (drop_bit 4 b) < 16" by (simp add: drop_bit_eq_div unat_div)
  have "b AND 0xf = take_bit 4 b" by (simp add: take_bit_eq_mask mask_eq_exp_minus_1)
  then show "unat (b AND 0xf) < 16"
    by (simp add: take_bit_eq_mod unat_mod)
qed

lemma nibbles_join:
  "ucast (push_bit 4 (ucast (drop_bit 4 b) :: u32) OR ucast (b AND 0xf)) = (b :: byte)"
proof -
  have "b AND 0xf = take_bit 4 b" by (simp add: take_bit_eq_mask mask_eq_exp_minus_1)
  then show ?thesis
    by (intro bit_word_eqI) (auto simp: bit_simps)
qed

lemma hex_pairs_hex: "hex_pairs (bytes_to_hex bs) = Some bs"
  by (induction bs) (simp_all add: bytes_to_hex_def hex_of_byte_def HEX_nth_digit nibbles_less nibbles_join)

lemma length_bytes_to_hex [simp]: "length (bytes_to_hex bs) = 2 * length bs"
  by (induction bs) (simp_all add: bytes_to_hex_def hex_of_byte_def)

lemma bytes_to_hex_alphanumeric: "\<forall>c \<in> set (bytes_to_hex bs). is_ascii_alphanumeric c"
  by (induction bs) (auto simp: bytes_to_hex_def hex_of_byte_def HEX_nth_digit nibbles_less)

lemma bytes_to_hex_no_prefix:
  "strip_prefix ''0x'' (bytes_to_hex bs) = None" "strip_prefix ''0X'' (bytes_to_hex bs) = None"
  by (cases bs; simp add: strip_prefix_def bytes_to_hex_def hex_of_byte_def HEX_nth_digit nibbles_less)+

lemma trim_bytes_to_hex: "trim (bytes_to_hex bs) = bytes_to_hex bs"
  using bytes_to_hex_alphanumeric [of bs] by (intro trim_graphic) (simp add: alphanumeric_graphic)

lemma hex_to_vec_hex [simp]: "hex_to_vec (bytes_to_hex bs) = Some bs"
  by (simp add: hex_to_vec_def trim_bytes_to_hex bytes_to_hex_no_prefix hex_pairs_hex)

lemma hex_to_bytes32_hex [simp]:
  "hex_to_bytes32 (bytes_to_hex bs) = (if length bs = 32 then Some bs else None)"
  by (simp add: hex_to_bytes32_def)

lemma bytes_to_hex_inj: "bytes_to_hex a = bytes_to_hex b \<longleftrightarrow> a = b"
  by (metis hex_to_vec_hex option.inject)

lemma hex_to_bytes32_length: "hex_to_bytes32 s = Some v \<Longrightarrow> length v = 32"
  by (auto simp: hex_to_bytes32_def split: option.splits if_splits)

end
