(* ===== verification/Json.thy ===== *)
theory Json
  imports Rust_Text
begin

text \<open>
  JSON values as \<open>serde_json::Value\<close> has them, with the accessors the sources use. Parsing JSON
  text is third-party code: the handlers take a parser \<open>string \<Rightarrow> string + json\<close> as an argument.
  A number is an integer, or the finite double \<open>m * 2 ^ e\<close> (\<open>JFloat m e\<close>), which no accessor here reads.
\<close>

datatype json =
    JNull
  | JBool bool
  | JInt int
  | JFloat int int
  | JStr string
  | JArr "json list"
  | JObj "(string \<times> json) list"

fun j_get :: "json \<Rightarrow> string \<Rightarrow> json option" where
  "j_get (JObj fs) key = map_of fs key"
| "j_get _ key = None"

fun as_str :: "json \<Rightarrow> string option" where
  "as_str (JStr s) = Some s"
| "as_str _ = None"

fun as_u64 :: "json \<Rightarrow> u64 option" where
  "as_u64 (JInt i) = (if 0 \<le> i \<and> i < 2 ^ 64 then Some (word_of_int i) else None)"
| "as_u64 _ = None"

fun as_bool :: "json \<Rightarrow> bool option" where
  "as_bool (JBool b) = Some b"
| "as_bool _ = None"

fun as_array :: "json \<Rightarrow> json list option" where
  "as_array (JArr xs) = Some xs"
| "as_array _ = None"

fun is_object :: "json \<Rightarrow> bool" where
  "is_object (JObj _) = True"
| "is_object _ = False"

definition get_str :: "json \<Rightarrow> string \<Rightarrow> string option" where
  "get_str v key = Option.bind (j_get v key) as_str"

definition get_u64 :: "json \<Rightarrow> string \<Rightarrow> u64 option" where
  "get_u64 v key = Option.bind (j_get v key) as_u64"

definition get_bool :: "json \<Rightarrow> string \<Rightarrow> bool option" where
  "get_bool v key = Option.bind (j_get v key) as_bool"

definition j_u64 :: "u64 \<Rightarrow> json" where
  "j_u64 n = JInt (uint n)"

lemma as_u64_j_u64 [simp]: "as_u64 (j_u64 n) = Some n"
  using uint_lt2p [of n] by (simp add: j_u64_def)

lemma get_simps [simp]:
  "get_str (JObj fs) k = Option.bind (map_of fs k) as_str"
  "get_u64 (JObj fs) k = Option.bind (map_of fs k) as_u64"
  "get_bool (JObj fs) k = Option.bind (map_of fs k) as_bool"
  by (simp_all add: get_str_def get_u64_def get_bool_def)

end
