(* ===== verification/Sealed_Crypto.thy ===== *)
theory Sealed_Crypto
  imports Rust_Text
begin

text \<open>
  Model of \<open>sealed_store/crypto.rs\<close>: KDF parameters, master key and sub-key derivation, sealing
  and unsealing of one blob, and the constant-time comparison. Argon2id, HKDF, HMAC, SHA-256 and
  XChaCha20-Poly1305 are third-party crates: the record \<open>crypto\<close> holds them as parameters.
  Randomness is an argument, \<open>None\<close> when the CSPRNG fails.
\<close>

record crypto =
  argon2_params_ok :: "u32 \<Rightarrow> u32 \<Rightarrow> u32 \<Rightarrow> bool"
  argon2id :: "u32 \<Rightarrow> u32 \<Rightarrow> u32 \<Rightarrow> bytes \<Rightarrow> bytes \<Rightarrow> bytes option"
  hkdf_prk_ok :: "bytes \<Rightarrow> bool"
  hkdf_expand :: "bytes \<Rightarrow> bytes \<Rightarrow> bytes option"
  aead_encrypt :: "bytes \<Rightarrow> bytes \<Rightarrow> bytes \<Rightarrow> bytes \<Rightarrow> bytes option"
  aead_decrypt :: "bytes \<Rightarrow> bytes \<Rightarrow> bytes \<Rightarrow> bytes \<Rightarrow> bytes option"
  hmac_sha256 :: "bytes \<Rightarrow> bytes \<Rightarrow> bytes"
  sha256_digest :: "bytes \<Rightarrow> bytes"

section \<open>Errors and parameters\<close>

datatype crypto_error = CryptoBadPassword | Malformed string | NoEntropy | Kdf string

primrec show_crypto_error :: "crypto_error \<Rightarrow> string" where
  "show_crypto_error CryptoBadPassword = ''AEAD open failed (wrong password or tampered data)''"
| "show_crypto_error (Malformed what) = ''malformed '' @ what"
| "show_crypto_error NoEntropy = ''no CSPRNG available''"
| "show_crypto_error (Kdf what) = ''kdf failure: '' @ what"

record kdf_params =
  kp_m_cost_kib :: u32
  kp_t_cost :: u32
  kp_p_cost :: u32
  kp_salt :: string

definition kdf_generate :: "bytes option \<Rightarrow> crypto_error + kdf_params" where
  "kdf_generate rand16 =
     (case rand16 of
        None \<Rightarrow> Inl NoEntropy
      | Some salt \<Rightarrow> Inr \<lparr> kp_m_cost_kib = 65536, kp_t_cost = 3, kp_p_cost = 1,
                          kp_salt = bytes_to_hex salt \<rparr>)"

section \<open>Keys\<close>

record sub_keys =
  sk_verify :: bytes
  sk_seal :: bytes
  sk_ledger :: bytes

definition master_key_derive ::
  "'z crypto_scheme \<Rightarrow> string \<Rightarrow> kdf_params \<Rightarrow> crypto_error + bytes"
where
  "master_key_derive cr password params =
     and_then (ok_or (Malformed ''kdf salt'') (hex_to_vec (kp_salt params))) (\<lambda>salt.
     if length salt \<noteq> 16 then Inl (Malformed ''kdf salt length'')
     else if \<not> argon2_params_ok cr (kp_m_cost_kib params) (kp_t_cost params) (kp_p_cost params)
     then Inl (Kdf ''argon2 params'')
     else ok_or (Kdf ''argon2 derive'')
            (argon2id cr (kp_m_cost_kib params) (kp_t_cost params) (kp_p_cost params)
               (as_bytes password) salt))"

definition expand32 :: "'z crypto_scheme \<Rightarrow> bytes \<Rightarrow> string \<Rightarrow> crypto_error + bytes" where
  "expand32 cr prk info = ok_or (Kdf ''hkdf expand'') (hkdf_expand cr prk (as_bytes info))"

definition sub_keys_derive :: "'z crypto_scheme \<Rightarrow> bytes \<Rightarrow> crypto_error + sub_keys" where
  "sub_keys_derive cr mk =
     (if \<not> hkdf_prk_ok cr mk then Inl (Kdf ''hkdf prk'')
      else and_then (expand32 cr mk ''rln-sealed/v1/verify'') (\<lambda>v.
           and_then (expand32 cr mk ''rln-sealed/v1/seal'') (\<lambda>s.
           and_then (expand32 cr mk ''rln-sealed/v1/ledger'') (\<lambda>l.
           Inr \<lparr> sk_verify = v, sk_seal = s, sk_ledger = l \<rparr>))))"

section \<open>Sealing\<close>

definition seal ::
  "'z crypto_scheme \<Rightarrow> bytes option \<Rightarrow> bytes \<Rightarrow> bytes \<Rightarrow> bytes \<Rightarrow> crypto_error + (bytes \<times> bytes)"
where
  "seal cr rand24 key aad plaintext =
     and_then (ok_or NoEntropy rand24) (\<lambda>nonce.
     and_then (ok_or (Malformed ''aead input'') (aead_encrypt cr key nonce aad plaintext)) (\<lambda>ct.
     Inr (nonce, ct)))"

definition unseal ::
  "'z crypto_scheme \<Rightarrow> bytes \<Rightarrow> bytes \<Rightarrow> bytes \<Rightarrow> bytes \<Rightarrow> crypto_error + bytes"
where
  "unseal cr key nonce aad ct =
     (if length nonce \<noteq> 24 then Inl (Malformed ''nonce length'')
      else ok_or CryptoBadPassword (aead_decrypt cr key nonce aad ct))"

definition ct_eq :: "bytes \<Rightarrow> bytes \<Rightarrow> bool" where
  "ct_eq a b \<longleftrightarrow> length a = length b \<and>
     fold (\<lambda>(x, y) acc. acc OR (x XOR y)) (zip a b) 0 = 0"

section \<open>Comparison is equality\<close>

lemma word_or_eq_0: "(a OR b = (0 :: 'a::len word)) \<longleftrightarrow> a = 0 \<and> b = 0"
  by (simp add: bit_eq_iff bit_simps) blast

lemma word_xor_eq_0: "(a XOR b = (0 :: 'a::len word)) \<longleftrightarrow> a = b"
  by (auto simp: bit_eq_iff bit_simps)

lemma fold_or_xor_0:
  "fold (\<lambda>(x, y) acc. acc OR (x XOR y)) ps acc = (0::byte) \<longleftrightarrow>
     acc = 0 \<and> (\<forall>(x, y) \<in> set ps. x = y)"
  by (induction ps arbitrary: acc) (auto simp: word_or_eq_0 word_xor_eq_0)

lemma all_zip_eq:
  "length a = length b \<Longrightarrow> (\<forall>(x, y) \<in> set (zip a b). x = y) \<longleftrightarrow> a = b"
  by (induction a b rule: list_induct2) auto

lemma ct_eq_iff [simp]: "ct_eq a b \<longleftrightarrow> a = b"
  using all_zip_eq [of a b] by (auto simp: ct_eq_def fold_or_xor_0)

text \<open>
  What the AEAD crate documents and the store relies on: decryption inverts encryption under
  the same key, nonce and associated data.
\<close>

definition aead_roundtrip :: "'z crypto_scheme \<Rightarrow> bool" where
  "aead_roundtrip cr \<longleftrightarrow>
     (\<forall>key nonce aad msg ct. aead_encrypt cr key nonce aad msg = Some ct \<longrightarrow>
        aead_decrypt cr key nonce aad ct = Some msg)"

lemma unseal_seal:
  assumes "aead_roundtrip cr" "length nonce = 24" "seal cr (Some nonce) key aad msg = Inr (n, ct)"
  shows "n = nonce \<and> unseal cr key n aad ct = Inr msg"
  using assms by (auto simp: seal_def unseal_def result_iffs aead_roundtrip_def)

end
