(* ===== verification/Slot_Issuer.thy ===== *)
theory Slot_Issuer
  imports Rln_Prelude "HOL-Library.Sublist"
begin

text \<open>
  The contract of a component that hands out rate-limit slots, stated once for every state
  machine of the development that does it. A transition is labelled with the slot it hands to
  a proof, if any: \<open>Some (k, m)\<close> is message id \<open>m\<close> under the external nullifier \<open>k\<close>.

  \<open>next_id s k\<close> is the least message id that \<open>s\<close> may still issue for \<open>k\<close>, and \<open>\<infinity>\<close> when \<open>k\<close> is
  closed for good. A provider promises three laws: its invariant is kept, the bound never goes
  down, and an issued id lies at or above the old bound and below the new one. The client's
  lemmas then give what the program relies on: over any run, no (key, id) pair is issued
  twice, and the ids of one key come out in increasing order.
\<close>

section \<open>Labelled runs\<close>

inductive trace :: "('s \<Rightarrow> 'l option \<Rightarrow> 's \<Rightarrow> bool) \<Rightarrow> 's \<Rightarrow> 'l option list \<Rightarrow> 's \<Rightarrow> bool"
  for step :: "'s \<Rightarrow> 'l option \<Rightarrow> 's \<Rightarrow> bool"
where
  trace_nil: "trace step s [] s"
| trace_cons: "step s l s' \<Longrightarrow> trace step s' ls s'' \<Longrightarrow> trace step s (l # ls) s''"

inductive_cases trace_NilE: "trace step s [] s'"
inductive_cases trace_ConsE: "trace step s (l # ls) s'"

inductive_simps trace_Nil_iff [simp]: "trace step s [] s'"
inductive_simps trace_Cons_iff: "trace step s (l # ls) s'"

fun issued :: "'l option list \<Rightarrow> 'l list" where
  "issued [] = []"
| "issued (None # ls) = issued ls"
| "issued (Some x # ls) = x # issued ls"

lemma issued_append [simp]: "issued (xs @ ys) = issued xs @ issued ys"
  by (induction xs rule: issued.induct) auto

lemma set_issued: "set (issued ls) = {x. Some x \<in> set ls}"
  by (induction ls rule: issued.induct) auto

lemma trace_append:
  "trace step s xs s' \<Longrightarrow> trace step s' ys s'' \<Longrightarrow> trace step s (xs @ ys) s''"
  by (induction rule: trace.induct) (auto intro: trace_cons)

lemma trace_invariant:
  assumes "trace step s ls s'" and "\<And>s l s'. P s \<Longrightarrow> step s l s' \<Longrightarrow> P s'" and "P s"
  shows "P s'"
  using assms by (induction rule: trace.induct) blast+

section \<open>The interface\<close>

locale slot_issuer =
  fixes inv :: "'s \<Rightarrow> bool"
    and step :: "'s \<Rightarrow> ('k \<times> nat) option \<Rightarrow> 's \<Rightarrow> bool"
    and next_id :: "'s \<Rightarrow> 'k \<Rightarrow> enat"
  assumes inv_step: "inv s \<Longrightarrow> step s l s' \<Longrightarrow> inv s'"
    and next_mono: "inv s \<Longrightarrow> step s l s' \<Longrightarrow> next_id s k \<le> next_id s' k"
    and issue_fresh: "inv s \<Longrightarrow> step s (Some (k, m)) s' \<Longrightarrow>
      next_id s k \<le> enat m \<and> enat m < next_id s' k"
begin

lemma inv_trace:
  assumes "trace step s ls s'" "inv s"
  shows "inv s'"
  using assms(1) inv_step assms(2) by (rule trace_invariant)

lemma next_mono_trace:
  assumes "trace step s ls s'" "inv s"
  shows "next_id s k \<le> next_id s' k"
  using assms
proof (induction rule: trace.induct)
  case (trace_cons s l s' ls s'')
  then show ?case using inv_step next_mono [of s l s' k] by (meson order_trans)
qed simp

lemma issued_ge_next:
  assumes "trace step s ls s'" "inv s" "(k, m) \<in> set (issued ls)"
  shows "next_id s k \<le> enat m"
  using assms
proof (induction rule: trace.induct)
  case (trace_cons s l s' ls s'')
  consider "l = Some (k, m)" | "(k, m) \<in> set (issued ls)"
    using trace_cons.prems(2) by (cases l) auto
  then show ?case
  proof cases
    case 1
    then show ?thesis using issue_fresh trace_cons.hyps(1) trace_cons.prems(1) by blast
  next
    case 2
    then have "next_id s' k \<le> enat m" using trace_cons inv_step by blast
    then show ?thesis
      using next_mono [OF trace_cons.prems(1) trace_cons.hyps(1), of k] by (rule order_trans [rotated])
  qed
qed simp

lemma issued_below_next:
  assumes "trace step s ls s'" "inv s" "(k, m) \<in> set (issued ls)"
  shows "enat m < next_id s' k"
  using assms
proof (induction rule: trace.induct)
  case (trace_cons s l s' ls s'')
  have inv': "inv s'" using trace_cons inv_step by blast
  consider "l = Some (k, m)" | "(k, m) \<in> set (issued ls)" using trace_cons.prems(2) by (cases l) auto
  then show ?case
  proof cases
    case 1
    then have "enat m < next_id s' k" using issue_fresh trace_cons.hyps(1) trace_cons.prems(1) by blast
    then show ?thesis using next_mono_trace [OF trace_cons.hyps(2) inv', of k] by (rule less_le_trans)
  qed (use trace_cons.IH inv' in blast)
qed simp

lemma issued_distinct:
  assumes "trace step s ls s'" "inv s"
  shows "distinct (issued ls)"
  using assms
proof (induction rule: trace.induct)
  case (trace_cons s l s' ls s'')
  have inv': "inv s'" using trace_cons inv_step by blast
  show ?case
  proof (cases l)
    case None
    then show ?thesis using trace_cons inv' by simp
  next
    case (Some km)
    obtain k m where km: "km = (k, m)" by (cases km)
    have "enat m < next_id s' k" using trace_cons Some km issue_fresh by blast
    then have "(k, m) \<notin> set (issued ls)"
      using issued_ge_next [OF trace_cons.hyps(2) inv'] by (meson leD)
    then show ?thesis using trace_cons inv' Some km by simp
  qed
qed simp

lemma issued_increasing:
  assumes "trace step s ls s'" "inv s"
  shows "sorted_wrt (<) (map snd (filter (\<lambda>x. fst x = k) (issued ls)))"
  using assms
proof (induction rule: trace.induct)
  case (trace_cons s l s' ls s'')
  have inv': "inv s'" using trace_cons inv_step by blast
  show ?case
  proof (cases "\<exists>m. l = Some (k, m)")
    case False
    then show ?thesis using trace_cons inv' by (cases l) auto
  next
    case True
    then obtain m where l: "l = Some (k, m)" ..
    have "enat m < next_id s' k" using trace_cons l issue_fresh by blast
    then have "m < m'" if "(k, m') \<in> set (issued ls)" for m'
      using issued_ge_next [OF trace_cons.hyps(2) inv' that] by (metis enat_ord_simps(2) order_less_le_trans)
    then show ?thesis using trace_cons inv' l by auto
  qed
qed simp

end

section \<open>Machines on top of an issuer\<close>

text \<open>
  A client machine whose every step is a run of the issuer, and which shows the outside world at
  most slots that run issued: it inherits that no slot is shown twice.
\<close>

lemma subseq_distinct: "subseq xs ys \<Longrightarrow> distinct ys \<Longrightarrow> distinct xs"
proof (induction rule: list_emb.induct)
  case (list_emb_Cons2 x y xs ys)
  then show ?case using list_emb_set [of "(=)" xs ys x] by auto
qed auto

locale issuer_refinement = slot_issuer inv step next_id
  for inv :: "'s \<Rightarrow> bool" and step :: "'s \<Rightarrow> ('k \<times> nat) option \<Rightarrow> 's \<Rightarrow> bool" and next_id :: "'s \<Rightarrow> 'k \<Rightarrow> enat" +
  fixes cstep :: "'c \<Rightarrow> ('k \<times> nat) option \<Rightarrow> 'c \<Rightarrow> bool"
    and absf :: "'c \<Rightarrow> 's"
  assumes simulates: "cstep c l c' \<Longrightarrow> \<exists>ls. trace step (absf c) ls (absf c') \<and> set_option l \<subseteq> set (issued ls)"
begin

lemma refined_trace:
  assumes "trace cstep c cls c'"
  shows "\<exists>ls. trace step (absf c) ls (absf c') \<and> subseq (issued cls) (issued ls)"
  using assms
proof (induction rule: trace.induct)
  case (trace_nil c)
  have "trace step (absf c) [] (absf c)" by (rule trace.trace_nil)
  then show ?case by fastforce
next
  case (trace_cons c l c' cls c'')
  from simulates [OF trace_cons.hyps(1)] obtain ls where
    1: "trace step (absf c) ls (absf c')" "set_option l \<subseteq> set (issued ls)" by blast
  from trace_cons.IH obtain ls' where 2: "trace step (absf c') ls' (absf c'')" "subseq (issued cls) (issued ls')" by blast
  have "subseq (issued [l]) (issued ls)" using 1(2) by (cases l) (simp_all add: subseq_singleton_left)
  then have "subseq (issued (l # cls)) (issued (ls @ ls'))"
    using list_emb_append_mono [OF _ 2(2)] issued_append [of "[l]" cls] by simp
  then show ?case using trace_append [OF 1(1) 2(1)] by blast
qed

lemma refined_distinct:
  assumes "trace cstep c cls c'" "inv (absf c)"
  shows "distinct (issued cls)"
  using refined_trace [OF assms(1)] issued_distinct assms(2) subseq_distinct by blast

end

end
