(* ===== verification/Rate_Limit.thy ===== *)
theory Rate_Limit
  imports Slot_Issuer
begin

text \<open>
  Model of \<open>rate_limit.rs\<close>: the epoch of a timestamp, and the allocation of message ids per
  (application, epoch) row under a monotone prune floor. \<open>reserve_slot\<close> takes the allocation
  state by \<open>&mut\<close>, so the model returns the state on every path, error paths included.
\<close>

section \<open>Data\<close>

record epoch_allocation =
  ea_rln_identifier :: string
  ea_epoch :: u64
  ea_used :: u64

record allocation_state =
  as_allocations :: "epoch_allocation list"
  as_epoch_size_sec :: u64
  as_prune_floor :: u64

definition default_allocation_state :: allocation_state where
  "default_allocation_state =
     \<lparr> as_allocations = [], as_epoch_size_sec = 0, as_prune_floor = 0 \<rparr>"

datatype alloc_error = BudgetExhausted | EpochBelowFloor

section \<open>Operations\<close>

definition current_epoch :: "u64 \<Rightarrow> u64 \<Rightarrow> u64" where
  "current_epoch now_unix epoch_size = now_unix div max epoch_size 1"

definition row_matches :: "string \<Rightarrow> u64 \<Rightarrow> epoch_allocation \<Rightarrow> bool" where
  "row_matches rid ep a \<longleftrightarrow> ea_rln_identifier a = rid \<and> ea_epoch a = ep"

definition floor_threshold :: "allocation_state \<Rightarrow> u64 \<Rightarrow> u64" where
  "floor_threshold alloc retain_floor_candidate =
     (let highest = iter_max (map (\<lambda>a. saturating_add (ea_epoch a) 1)
                       (filter (\<lambda>a. ea_epoch a \<le> retain_floor_candidate) (as_allocations alloc)))
      in case highest of
           Some h \<Rightarrow> max (as_prune_floor alloc) (min retain_floor_candidate h)
         | None \<Rightarrow> as_prune_floor alloc)"

definition advance_and_prune :: "u64 \<Rightarrow> allocation_state \<Rightarrow> allocation_state" where
  "advance_and_prune threshold alloc =
     alloc \<lparr> as_prune_floor := threshold,
             as_allocations := filter (\<lambda>a. threshold \<le> ea_epoch a) (as_allocations alloc) \<rparr>"

definition reserve_slot ::
  "allocation_state \<Rightarrow> string \<Rightarrow> u64 \<Rightarrow> u64 \<Rightarrow> u64 \<Rightarrow> (alloc_error + u64) \<times> allocation_state"
where
  "reserve_slot alloc rid ep retain_floor_candidate rate_limit =
     (let threshold = floor_threshold alloc retain_floor_candidate in
      if ep < threshold then (Inl EpochBelowFloor, alloc)
      else
        (case find (row_matches rid ep) (as_allocations alloc) of
           Some row \<Rightarrow>
             if rate_limit \<le> ea_used row then (Inl BudgetExhausted, alloc)
             else (Inr (ea_used row),
                   advance_and_prune threshold
                     (alloc \<lparr> as_allocations :=
                        update_first (row_matches rid ep) (\<lambda>r. r \<lparr> ea_used := ea_used r + 1 \<rparr>)
                          (as_allocations alloc) \<rparr>))
         | None \<Rightarrow>
             if rate_limit = 0 then (Inl BudgetExhausted, alloc)
             else (Inr 0,
                   advance_and_prune threshold
                     (alloc \<lparr> as_allocations := as_allocations alloc @
                        [\<lparr> ea_rln_identifier = rid, ea_epoch = ep, ea_used = 1 \<rparr>] \<rparr>))))"

definition used_slots :: "epoch_allocation list \<Rightarrow> string \<Rightarrow> u64 \<Rightarrow> u64" where
  "used_slots rows rid ep =
     (case find (row_matches rid ep) rows of Some a \<Rightarrow> ea_used a | None \<Rightarrow> 0)"

definition remaining :: "epoch_allocation list \<Rightarrow> string \<Rightarrow> u64 \<Rightarrow> u64 \<Rightarrow> u64" where
  "remaining rows rid ep rate_limit = saturating_sub rate_limit (used_slots rows rid ep)"

section \<open>The row lookups after an update\<close>

lemma row_matches_bump [simp]:
  "row_matches rid ep (a \<lparr> ea_used := u \<rparr>) = row_matches rid ep a"
  by (simp add: row_matches_def)

lemma row_matches_new [simp]:
  "row_matches rid ep \<lparr> ea_rln_identifier = rid', ea_epoch = ep', ea_used = u \<rparr> \<longleftrightarrow>
     rid' = rid \<and> ep' = ep"
  by (simp add: row_matches_def)

lemma row_matches_unique:
  "row_matches rid ep a \<Longrightarrow> row_matches rid' ep' a \<longleftrightarrow> rid' = rid \<and> ep' = ep"
  by (auto simp: row_matches_def)

lemma advance_and_prune_simps [simp]:
  "as_prune_floor (advance_and_prune t a) = t"
  "as_epoch_size_sec (advance_and_prune t a) = as_epoch_size_sec a"
  "as_allocations (advance_and_prune t a) = filter (\<lambda>r. t \<le> ea_epoch r) (as_allocations a)"
  by (simp_all add: advance_and_prune_def)

lemma find_row_pruned:
  "t \<le> ep \<Longrightarrow> find (row_matches rid ep) (filter (\<lambda>r. t \<le> ea_epoch r) rows) =
     find (row_matches rid ep) rows"
  by (rule find_filter) (auto simp: row_matches_def)

lemma find_row_bumped:
  "find (row_matches rid' ep') (update_first (row_matches rid ep) (\<lambda>r. r \<lparr> ea_used := f r \<rparr>) rows) =
     (if rid' = rid \<and> ep' = ep
      then map_option (\<lambda>r. r \<lparr> ea_used := f r \<rparr>) (find (row_matches rid ep) rows)
      else find (row_matches rid' ep') rows)"
  by (induction rows) (auto simp: row_matches_unique)

lemma floor_le_threshold: "as_prune_floor a \<le> floor_threshold a c"
  by (simp add: floor_threshold_def split: option.split)

lemma threshold_le_max: "floor_threshold a c \<le> max (as_prune_floor a) c"
  by (auto simp: floor_threshold_def max_def min_def split: option.split)

lemma reserve_slot_ok_cases:
  assumes "reserve_slot a rid ep c rl = (Inr m, a')"
  shows "floor_threshold a c \<le> ep" "m = used_slots (as_allocations a) rid ep" "m < rl"
    "as_prune_floor a' = floor_threshold a c" "as_epoch_size_sec a' = as_epoch_size_sec a"
    "used_slots (as_allocations a') rid ep = m + 1"
proof -
  let ?t = "floor_threshold a c"
  show t: "?t \<le> ep" using assms by (auto simp: reserve_slot_def Let_def split: if_splits)
  show "m = used_slots (as_allocations a) rid ep" "m < rl" "as_prune_floor a' = ?t"
    "as_epoch_size_sec a' = as_epoch_size_sec a"
    using assms t word_neq_0_conv [of rl]
    by (auto simp: reserve_slot_def used_slots_def Let_def split: if_splits option.splits)
  show "used_slots (as_allocations a') rid ep = m + 1"
    using assms t
    by (auto simp: reserve_slot_def used_slots_def Let_def find_row_pruned find_row_bumped
        find_append split: if_splits option.splits)
qed

lemma reserve_slot_other_rows:
  assumes "reserve_slot a rid ep c rl = (r, a')" "as_prune_floor a' \<le> ep'" "(rid', ep') \<noteq> (rid, ep)"
  shows "used_slots (as_allocations a') rid' ep' = used_slots (as_allocations a) rid' ep'"
  using assms
  by (auto simp: reserve_slot_def used_slots_def Let_def find_row_pruned find_row_bumped
      find_append split: if_splits option.splits)

section \<open>Invariant\<close>

definition alloc_inv :: "allocation_state \<Rightarrow> bool" where
  "alloc_inv a \<longleftrightarrow>
     distinct (map (\<lambda>r. (ea_rln_identifier r, ea_epoch r)) (as_allocations a)) \<and>
     (\<forall>r \<in> set (as_allocations a). as_prune_floor a \<le> ea_epoch r \<and> 0 < ea_used r)"

lemma find_row_None:
  "find (row_matches rid ep) rows = None \<longleftrightarrow>
     (rid, ep) \<notin> set (map (\<lambda>r. (ea_rln_identifier r, ea_epoch r)) rows)"
  by (auto simp: find_None_iff row_matches_def)

lemma set_update_first_rows:
  "set (update_first p f rows) \<subseteq> set rows \<union> f ` {r \<in> set rows. p r}"
  by (induction rows) auto

lemma set_update_first_find:
  "find p rows = Some x \<Longrightarrow> set (update_first p f rows) \<subseteq> insert (f x) (set rows)"
  by (induction rows) (auto split: if_splits)

lemma distinct_keys_filter:
  "distinct (map g rows) \<Longrightarrow> distinct (map g (filter p rows))"
  by (induction rows) auto

lemma alloc_inv_default: "alloc_inv default_allocation_state"
  by (simp add: alloc_inv_def default_allocation_state_def)

lemma reserve_slot_error_unchanged:
  "reserve_slot a rid ep c rl = (Inl e, a') \<Longrightarrow> a' = a"
  by (auto simp: reserve_slot_def Let_def split: if_splits option.splits)

lemma alloc_inv_pruned:
  assumes "distinct (map (\<lambda>r. (ea_rln_identifier r, ea_epoch r)) (as_allocations a))"
    and "\<forall>r \<in> set (as_allocations a). 0 < ea_used r"
  shows "alloc_inv (advance_and_prune t a)"
  using assms by (auto simp: alloc_inv_def intro: distinct_keys_filter)

lemma alloc_inv_reserve_slot:
  assumes inv: "alloc_inv a" and r: "reserve_slot a rid ep c rl = (res, a')"
  shows "alloc_inv a'"
proof (cases res)
  case (Inl e)
  then show ?thesis using assms reserve_slot_error_unchanged by blast
next
  case (Inr m)
  show ?thesis
  proof (cases "find (row_matches rid ep) (as_allocations a)")
    case None
    let ?b = "a \<lparr> as_allocations := as_allocations a @
                [\<lparr> ea_rln_identifier = rid, ea_epoch = ep, ea_used = 1 \<rparr>] \<rparr>"
    have "a' = advance_and_prune (floor_threshold a c) ?b"
      using r Inr None by (auto simp: reserve_slot_def Let_def split: if_splits)
    then show ?thesis
      using inv None by (auto simp: alloc_inv_def find_row_None intro!: alloc_inv_pruned distinct_keys_filter)
  next
    case (Some row)
    let ?f = "\<lambda>r. r \<lparr> ea_used := ea_used r + 1 \<rparr>"
    let ?b = "a \<lparr> as_allocations := update_first (row_matches rid ep) ?f (as_allocations a) \<rparr>"
    have a': "a' = advance_and_prune (floor_threshold a c) ?b" and lt: "ea_used row < rl"
      using r Inr Some by (auto simp: reserve_slot_def Let_def split: if_splits)
    have "0 < ea_used row + 1" using unat_inc_less [OF lt] by (simp add: word_less_nat_alt)
    moreover have "set (as_allocations ?b) \<subseteq> insert (?f row) (set (as_allocations a))"
      using set_update_first_find [OF Some, of ?f] by simp
    ultimately have "\<forall>r \<in> set (as_allocations ?b). 0 < ea_used r"
      using inv by (auto simp: alloc_inv_def)
    then show ?thesis
      using inv a' by (auto simp: alloc_inv_def map_update_first intro!: alloc_inv_pruned distinct_keys_filter)
  qed
qed

section \<open>Slots are never reissued\<close>

text \<open>
  The abstract view of an allocation state: the next id of every (application, epoch), \<open>\<infinity>\<close>
  for an epoch below the floor. A reservation with any clock reading and any rate limit is
  one step; only a success hands out a slot.
\<close>

type_synonym slot_key = "string \<times> u64"

definition next_slot :: "allocation_state \<Rightarrow> slot_key \<Rightarrow> enat" where
  "next_slot a k =
     (if snd k < as_prune_floor a then \<infinity>
      else enat (unat (used_slots (as_allocations a) (fst k) (snd k))))"

inductive reserve_step :: "allocation_state \<Rightarrow> (slot_key \<times> nat) option \<Rightarrow> allocation_state \<Rightarrow> bool" where
  reserve_issue: "reserve_slot a rid ep c rl = (Inr m, a') \<Longrightarrow>
     reserve_step a (Some ((rid, ep), unat m)) a'"
| reserve_refuse: "reserve_slot a rid ep c rl = (Inl e, a') \<Longrightarrow> reserve_step a None a'"

inductive_cases reserve_step_SomeE: "reserve_step a (Some ((rid, ep), m)) a'"

lemma reserve_slot_next:
  assumes "reserve_slot a rid ep c rl = (Inr m, a')"
  shows "next_slot a (rid, ep) = enat (unat m)"
    and "next_slot a' (rid, ep) = enat (Suc (unat m))"
    and "k \<noteq> (rid, ep) \<Longrightarrow>
      next_slot a' k = (if snd k < floor_threshold a c then \<infinity> else next_slot a k)"
proof -
  note ok = reserve_slot_ok_cases [OF assms]
  have fl: "as_prune_floor a \<le> ep" using floor_le_threshold ok(1) by (rule order_trans)
  show "next_slot a (rid, ep) = enat (unat m)" using ok(2) fl by (simp add: next_slot_def)
  have "unat (m + 1) = Suc (unat m)" using ok(3) by (rule unat_inc_less)
  then show "next_slot a' (rid, ep) = enat (Suc (unat m))"
    using ok by (simp add: next_slot_def)
  assume k: "k \<noteq> (rid, ep)"
  show "next_slot a' k = (if snd k < floor_threshold a c then \<infinity> else next_slot a k)"
    using reserve_slot_other_rows [OF assms, of "snd k" "fst k"] ok(4) floor_le_threshold [of a c] k
    by (cases k) (auto simp: next_slot_def)
qed

lemma next_slot_mono: "reserve_step a l a' \<Longrightarrow> next_slot a k \<le> next_slot a' k"
proof (induction rule: reserve_step.induct)
  case (reserve_issue a rid ep c rl m a')
  then show ?case
    using reserve_slot_next [OF reserve_issue] by (cases "k = (rid, ep)") auto
next
  case (reserve_refuse a rid ep c rl e a')
  then show ?case using reserve_slot_error_unchanged by fastforce
qed

interpretation rate_limit: slot_issuer alloc_inv reserve_step next_slot
proof unfold_locales
  fix s l s' assume "alloc_inv s" "reserve_step s l s'"
  then show "alloc_inv s'" by (auto elim!: reserve_step.cases intro: alloc_inv_reserve_slot)
next
  fix s l s' k assume "reserve_step s l s'"
  then show "next_slot s k \<le> next_slot s' k" by (rule next_slot_mono)
next
  fix s k m s' assume "reserve_step s (Some (k, m)) s'"
  then show "next_slot s k \<le> enat m \<and> enat m < next_slot s' k"
    by (cases k) (auto elim!: reserve_step_SomeE simp: reserve_slot_next)
qed

text \<open>
  Over any sequence of reservations against one allocation state, with arbitrary epochs,
  clock-derived floor candidates and rate limits, no (application, epoch, message id) triple is
  issued twice, and the ids of one (application, epoch) come out in increasing order.
\<close>
lemma reserve_slot_never_reissues:
  assumes "trace reserve_step a ls a'" "alloc_inv a"
  shows "distinct (issued ls) \<and>
    sorted_wrt (<) (map snd (filter (\<lambda>x. fst x = k) (issued ls)))"
  using rate_limit.issued_distinct [OF assms] rate_limit.issued_increasing [OF assms] by blast

lemma two_reservations:
  "trace reserve_step default_allocation_state
     [Some ((''app'', 5), 0), Some ((''app'', 5), 1), None]
     \<lparr> as_allocations = [\<lparr> ea_rln_identifier = ''app'', ea_epoch = 5, ea_used = 2 \<rparr>],
       as_epoch_size_sec = 0, as_prune_floor = 0 \<rparr>"
proof -
  let ?a1 = "\<lparr> as_allocations = [\<lparr> ea_rln_identifier = ''app'', ea_epoch = 5, ea_used = 1 \<rparr>],
       as_epoch_size_sec = 0, as_prune_floor = 0 :: u64 \<rparr>"
  let ?a2 = "\<lparr> as_allocations = [\<lparr> ea_rln_identifier = ''app'', ea_epoch = 5, ea_used = 2 \<rparr>],
       as_epoch_size_sec = 0, as_prune_floor = 0 :: u64 \<rparr>"
  note defs = reserve_slot_def floor_threshold_def advance_and_prune_def row_matches_def
    default_allocation_state_def word_le_nat_alt
  have "reserve_slot default_allocation_state ''app'' 5 4 2 = (Inr 0, ?a1)" by (simp add: defs)
  from reserve_issue [OF this]
  have 1: "reserve_step default_allocation_state (Some ((''app'', 5), 0)) ?a1" by simp
  have "reserve_slot ?a1 ''app'' 5 4 2 = (Inr 1, ?a2)" by (simp add: defs)
  from reserve_issue [OF this] have 2: "reserve_step ?a1 (Some ((''app'', 5), 1)) ?a2" by simp
  have "reserve_slot ?a2 ''app'' 5 4 2 = (Inl BudgetExhausted, ?a2)" by (simp add: defs)
  from reserve_refuse [OF this] have 3: "reserve_step ?a2 None ?a2" .
  show ?thesis using 1 2 3 by (auto intro!: trace.intros)
qed

section \<open>Refinement and floor bounds\<close>

lemma reserve_slot_error_cases:
  assumes "reserve_slot a rid ep c rl = (Inl e, a')"
  shows "a' = a" "e = EpochBelowFloor \<and> ep < floor_threshold a c \<or>
    e = BudgetExhausted \<and> floor_threshold a c \<le> ep \<and> remaining (as_allocations a) rid ep rl = 0"
proof -
  show "a' = a" using assms by (rule reserve_slot_error_unchanged)
  show "e = EpochBelowFloor \<and> ep < floor_threshold a c \<or>
    e = BudgetExhausted \<and> floor_threshold a c \<le> ep \<and> remaining (as_allocations a) rid ep rl = 0"
    using assms by (auto simp: reserve_slot_def remaining_def used_slots_def saturating_sub_def Let_def
        word_neq_0_conv [symmetric] split: if_splits option.splits)
qed

lemma reserve_slot_remaining:
  assumes "reserve_slot a rid ep c rl = (Inr m, a')"
  shows "remaining (as_allocations a) rid ep rl = remaining (as_allocations a') rid ep rl + 1"
    "remaining (as_allocations a) rid ep rl \<noteq> 0"
proof -
  note ok = reserve_slot_ok_cases [OF assms]
  have "unat (m + 1) = Suc (unat m)" using ok(3) by (rule unat_inc_less)
  then have "\<not> rl < m + 1" "\<not> rl < m" using ok(3) by (simp_all add: word_less_nat_alt)
  then show "remaining (as_allocations a) rid ep rl = remaining (as_allocations a') rid ep rl + 1"
    "remaining (as_allocations a) rid ep rl \<noteq> 0"
    using ok(2,3,6) by (auto simp: remaining_def saturating_sub_def)
qed

text \<open>
  C4: \<open>reserve_slot\<close> refines the abstract allocator \<open>next_slot\<close>. It fails with
  \<open>EpochBelowFloor\<close> exactly below the threshold and with \<open>BudgetExhausted\<close> exactly when the
  remaining budget is zero, and then changes nothing. A success returns the abstract next id,
  which is below the rate limit, advances that row by one, closes the epochs below the new
  floor and leaves every other row as it was; \<open>remaining\<close> drops by exactly one.
\<close>
theorem reserve_slot_refines:
  "case reserve_slot a rid ep c rl of
     (Inl EpochBelowFloor, a') \<Rightarrow> ep < floor_threshold a c \<and> a' = a
   | (Inl BudgetExhausted, a') \<Rightarrow>
       floor_threshold a c \<le> ep \<and> remaining (as_allocations a) rid ep rl = 0 \<and> a' = a
   | (Inr m, a') \<Rightarrow>
       floor_threshold a c \<le> ep \<and> m < rl \<and>
       next_slot a (rid, ep) = enat (unat m) \<and>
       next_slot a' = (\<lambda>k. if k = (rid, ep) then enat (Suc (unat m))
                           else if snd k < floor_threshold a c then \<infinity> else next_slot a k) \<and>
       remaining (as_allocations a) rid ep rl = remaining (as_allocations a') rid ep rl + 1 \<and>
       as_epoch_size_sec a' = as_epoch_size_sec a"
proof -
  obtain r a' where r: "reserve_slot a rid ep c rl = (r, a')" by (cases "reserve_slot a rid ep c rl")
  show ?thesis
  proof (cases r)
    case (Inl e)
    then show ?thesis
      using r reserve_slot_error_cases [OF r [unfolded Inl]] by (cases e) auto
  next
    case (Inr m)
    then show ?thesis
      using r reserve_slot_ok_cases [OF r [unfolded Inr]] reserve_slot_next [OF r [unfolded Inr]]
        reserve_slot_remaining [OF r [unfolded Inr]] by auto
  qed
qed

definition rows_below :: "u64 \<Rightarrow> allocation_state \<Rightarrow> bool" where
  "rows_below h a \<longleftrightarrow> (\<forall>r \<in> set (as_allocations a). ea_epoch r < h)"

lemma saturating_inc_le: "(e::u64) < h \<Longrightarrow> saturating_add e 1 \<le> h"
  by (simp add: word_le_nat_alt word_less_nat_alt unat_saturating_add)

lemma threshold_le_rows:
  assumes "rows_below h a" "as_prune_floor a \<le> h"
  shows "floor_threshold a c \<le> h"
proof (cases "iter_max (map (\<lambda>a. saturating_add (ea_epoch a) 1)
                 (filter (\<lambda>a. ea_epoch a \<le> c) (as_allocations a)))")
  case None
  then show ?thesis using assms by (simp add: floor_threshold_def)
next
  case (Some m)
  let ?xs = "map (\<lambda>a. saturating_add (ea_epoch a) 1) (filter (\<lambda>a. ea_epoch a \<le> c) (as_allocations a))"
  have "?xs \<noteq> []" using Some by (metis iter_max_None option.simps(3))
  then have "m = Max (set ?xs)" "set ?xs \<noteq> {}"
    using Some iter_max_Max [of ?xs] by (simp_all only: option.inject set_empty not_False_eq_True)
  then have "m \<in> set ?xs" using Max_in [of "set ?xs"] by blast
  then have "m \<le> h" using assms(1) saturating_inc_le by (auto simp: rows_below_def)
  then show ?thesis using assms(2) Some by (auto simp: floor_threshold_def min_le_iff_disj)
qed

inductive honest_steps :: "u64 \<Rightarrow> allocation_state \<Rightarrow> allocation_state \<Rightarrow> bool" for h where
  honest_refl: "honest_steps h a a"
| honest_step: "honest_steps h a b \<Longrightarrow> c \<le> h \<Longrightarrow> reserve_slot b rid ep c rl = (r, b') \<Longrightarrow>
     honest_steps h a b'"

lemma floor_after: "as_prune_floor (snd (reserve_slot a rid ep c rl)) \<in> {as_prune_floor a, floor_threshold a c}"
  by (auto simp: reserve_slot_def Let_def split: option.split)

lemma honest_steps_floor:
  "honest_steps h a b \<Longrightarrow> as_prune_floor a \<le> h \<Longrightarrow> as_prune_floor b \<le> h"
proof (induction rule: honest_steps.induct)
  case (honest_step a b c rid ep rl r b')
  have "floor_threshold b c \<le> h"
    using threshold_le_max [of b c] honest_step by (meson max.boundedI order_trans)
  then show ?case using floor_after [of b rid ep c rl] honest_step by auto
qed simp



end
