(* ===== verification/Sealed_Format.thy ===== *)
theory Sealed_Format
  imports Sealed_Crypto Rate_Limit "HOL-Library.Product_Lexorder" "HOL-Library.Multiset"
begin

text \<open>
  Model of \<open>sealed_store/format.rs\<close>: the schemas of the sealed and allocations files, the
  canonical byte encodings under every AAD and MAC, the parse caps and old-format detection.
  The lemmas show that each encoding determines what it encodes and that the three are
  disjoint, which is what makes a MAC over an encoding a MAC over the data.
\<close>

section \<open>Schemas\<close>

record identity_block =
  ib_registry_id :: string
  ib_rln_identifier :: string
  ib_identity_commitment :: string
  ib_submitted_at :: u64

record sealed_entry =
  se_identity :: identity_block
  se_nonce :: string
  se_ct :: string

record sealed_file =
  sf_format :: string
  sf_version :: u32
  sf_kdf :: kdf_params
  sf_verifier :: string
  sf_store_uuid :: string
  sf_credentials :: "(string, sealed_entry) btmap"

record alloc_row =
  ar_rln_identifier :: string
  ar_epoch :: u64
  ar_used :: u64

record ledger_section =
  sec_epoch_size_sec :: u64
  sec_prune_floor :: u64
  sec_allocations :: "alloc_row list"
  sec_mac :: string

record allocations_file =
  af_format :: string
  af_version :: u32
  af_store_uuid :: string
  af_sections :: "(string, ledger_section) btmap"
  af_root_mac :: string

definition FORMAT_SEALED :: string where "FORMAT_SEALED = ''rln-sealed-store''"
definition FORMAT_ALLOCATIONS :: string where "FORMAT_ALLOCATIONS = ''rln-sealed-allocations''"
definition FORMAT_VERSION :: u32 where "FORMAT_VERSION = 1"

definition sealed_file_provision :: "kdf_params \<Rightarrow> string \<Rightarrow> string \<Rightarrow> sealed_file" where
  "sealed_file_provision kdf verifier_hex store_uuid_hex =
     \<lparr> sf_format = FORMAT_SEALED, sf_version = FORMAT_VERSION, sf_kdf = kdf,
       sf_verifier = verifier_hex, sf_store_uuid = store_uuid_hex, sf_credentials = [] \<rparr>"

section \<open>Canonical encodings\<close>

definition to_be_bytes :: "nat \<Rightarrow> 'a::len word \<Rightarrow> bytes" where
  "to_be_bytes n w = map (\<lambda>i. ucast (drop_bit (8 * i) w)) (rev [0..<n])"

abbreviation u32_be :: "u32 \<Rightarrow> bytes" where "u32_be \<equiv> to_be_bytes 4"
abbreviation u64_be :: "u64 \<Rightarrow> bytes" where "u64_be \<equiv> to_be_bytes 8"

definition put_str :: "string \<Rightarrow> bytes" where
  "put_str s = u32_be (of_nat (length s)) @ as_bytes s"

definition credential_aad :: "string \<Rightarrow> identity_block \<Rightarrow> bytes \<Rightarrow> bytes" where
  "credential_aad membership_hash identity store_uuid =
     as_bytes ''rln-sealed/v1/credential'' @
     put_str membership_hash @
     put_str (ib_registry_id identity) @
     put_str (ib_rln_identifier identity) @
     put_str (ib_identity_commitment identity) @
     u64_be (ib_submitted_at identity) @
     store_uuid"

definition row_key :: "alloc_row \<Rightarrow> string \<times> u64" where
  "row_key r = (ar_rln_identifier r, ar_epoch r)"

definition put_row :: "alloc_row \<Rightarrow> bytes" where
  "put_row row = put_str (ar_rln_identifier row) @ u64_be (ar_epoch row) @ u64_be (ar_used row)"

definition section_mac_payload :: "string \<Rightarrow> u64 \<Rightarrow> u64 \<Rightarrow> alloc_row list \<Rightarrow> bytes \<Rightarrow> bytes" where
  "section_mac_payload membership_hash epoch_size_sec prune_floor rows store_uuid =
     (let sorted = sort_key row_key rows in
      as_bytes ''rln-sealed/v1/section'' @
      put_str membership_hash @
      store_uuid @
      u64_be epoch_size_sec @
      u64_be prune_floor @
      u32_be (of_nat (length sorted)) @
      concat (map put_row sorted))"

definition put_mac_entry :: "string \<times> bytes \<Rightarrow> bytes" where
  "put_mac_entry e = put_str (fst e) @ snd e"

definition root_mac_payload :: "(string, bytes) btmap \<Rightarrow> bytes \<Rightarrow> bytes" where
  "root_mac_payload section_macs store_uuid =
     as_bytes ''rln-sealed/v1/root'' @
     store_uuid @
     u32_be (of_nat (length section_macs)) @
     concat (map put_mac_entry section_macs)"

definition mac :: "'z crypto_scheme \<Rightarrow> bytes \<Rightarrow> bytes \<Rightarrow> bytes" where
  "mac cr key payload = hmac_sha256 cr key payload"

section \<open>Caps and detection\<close>

definition MAX_FILE_BYTES :: nat where "MAX_FILE_BYTES = 4 * 1024 * 1024"
definition MAX_CREDENTIALS :: nat where "MAX_CREDENTIALS = 1024"
definition MAX_SECTIONS :: nat where "MAX_SECTIONS = 1024"
definition MAX_ROWS_PER_SECTION :: nat where "MAX_ROWS_PER_SECTION = 4096"

definition check_sealed_caps :: "sealed_file \<Rightarrow> string + unit" where
  "check_sealed_caps f =
     (if length (sf_credentials f) > MAX_CREDENTIALS then Inl ''too many credentials'' else Inr ())"

definition check_allocations_caps :: "allocations_file \<Rightarrow> string + unit" where
  "check_allocations_caps f =
     (if length (af_sections f) > MAX_SECTIONS then Inl ''too many sections''
      else if \<exists>s \<in> set (bt_values (af_sections f)). length (sec_allocations s) > MAX_ROWS_PER_SECTION
      then Inl ''too many allocation rows in a section''
      else Inr ())"

datatype format_presence = Neither | NewOnly | OldOnly | Both

fun detect :: "bool \<Rightarrow> bool \<Rightarrow> format_presence" where
  "detect False False = Neither"
| "detect True False = NewOnly"
| "detect False True = OldOnly"
| "detect True True = Both"

section \<open>The encodings determine their content\<close>

lemma length_to_be_bytes [simp, enc_simps]: "length (to_be_bytes n w) = n"
  by (simp add: to_be_bytes_def)

lemma to_be_bytes_inj:
  fixes v w :: "'a::len word"
  assumes "LENGTH('a) \<le> 8 * n" "to_be_bytes n v = to_be_bytes n w"
  shows "v = w"
proof (rule bit_word_eqI)
  fix k assume k: "k < LENGTH('a)"
  have all: "\<forall>i < n. (ucast (drop_bit (8 * i) v) :: byte) = ucast (drop_bit (8 * i) w)"
    using assms(2) by (simp add: to_be_bytes_def rev_map [symmetric])
  have "k div 8 < n" using k assms(1) by linarith
  with all have "(ucast (drop_bit (8 * (k div 8)) v) :: byte) = ucast (drop_bit (8 * (k div 8)) w)"
    by blast
  then have "bit (ucast (drop_bit (8 * (k div 8)) v) :: byte) (k mod 8) =
        bit (ucast (drop_bit (8 * (k div 8)) w) :: byte) (k mod 8)" by simp
  then show "bit v k = bit w k" by (simp add: bit_simps)
qed

lemma be_append [enc_simps]:
  "u32_be a @ x = u32_be b @ y \<longleftrightarrow> a = b \<and> x = y"
  "u64_be c @ x = u64_be d @ y \<longleftrightarrow> c = d \<and> x = y"
  using to_be_bytes_inj [of 4 a b] to_be_bytes_inj [of 8 c d] by auto

lemma of_nat_u32_inj:
  "m < 2 ^ 32 \<Longrightarrow> n < 2 ^ 32 \<Longrightarrow> (of_nat m :: u32) = of_nat n \<longleftrightarrow> m = n"
  by (auto dest!: arg_cong [of _ _ unat] simp: unat_of_nat)

lemma put_str_append [enc_simps]:
  assumes "length s < 2 ^ 32" "length t < 2 ^ 32"
  shows "put_str s @ x = put_str t @ y \<longleftrightarrow> s = t \<and> x = y"
proof
  assume "put_str s @ x = put_str t @ y"
  then have "(of_nat (length s) :: u32) = of_nat (length t)" and r: "as_bytes s @ x = as_bytes t @ y"
    by (simp_all add: put_str_def be_append)
  then have "length s = length t" using of_nat_u32_inj assms by blast
  then show "s = t \<and> x = y" using r by simp
qed simp

definition row_bounded :: "alloc_row \<Rightarrow> bool" where
  "row_bounded r \<longleftrightarrow> length (ar_rln_identifier r) < 2 ^ 32"

lemma put_row_append [enc_simps]:
  assumes "row_bounded r" "row_bounded r'"
  shows "put_row r @ x = put_row r' @ y \<longleftrightarrow> r = r' \<and> x = y"
  using assms by (auto simp: put_row_def row_bounded_def put_str_append be_append)

lemma put_rows_inj:
  assumes "length rs = length rs'" "\<forall>r \<in> set rs. row_bounded r" "\<forall>r \<in> set rs'. row_bounded r"
    and "concat (map put_row rs) = concat (map put_row rs')"
  shows "rs = rs'"
  using assms by (induction rs rs' rule: list_induct2) (auto simp: put_row_append)

lemma put_mac_entries_inj:
  assumes "length ms = length ms'"
    and "\<forall>(h, m) \<in> set ms. length h < 2 ^ 32 \<and> length m = 32"
    and "\<forall>(h, m) \<in> set ms'. length h < 2 ^ 32 \<and> length m = 32"
    and "concat (map put_mac_entry ms) = concat (map put_mac_entry ms')"
  shows "ms = ms'"
  using assms
  by (induction ms ms' rule: list_induct2) (auto simp: put_mac_entry_def put_str_append)

text \<open>The sizes a file within \<open>MAX_FILE_BYTES\<close> can hold; the encodings are exact below them.\<close>

definition section_bounded :: "string \<Rightarrow> alloc_row list \<Rightarrow> bool" where
  "section_bounded h rows \<longleftrightarrow>
     length h < 2 ^ 32 \<and> length rows < 2 ^ 32 \<and> (\<forall>r \<in> set rows. row_bounded r)"

lemma section_mac_payload_inj:
  assumes "section_bounded h rows" "section_bounded h' rows'" "length u = 16" "length u' = 16"
    and eq: "section_mac_payload h sz fl rows u = section_mac_payload h' sz' fl' rows' u'"
  shows "h = h' \<and> u = u' \<and> sz = sz' \<and> fl = fl' \<and> sort_key row_key rows = sort_key row_key rows'"
proof -
  have *: "h = h' \<and> u = u' \<and> sz = sz' \<and> fl = fl' \<and>
      (of_nat (length rows) :: u32) = of_nat (length rows') \<and>
      concat (map put_row (sort_key row_key rows)) = concat (map put_row (sort_key row_key rows'))"
    using eq assms(1-4)
    by (simp add: section_mac_payload_def section_bounded_def put_str_append be_append)
  moreover have "length (sort_key row_key rows) = length (sort_key row_key rows')"
    using * assms(1,2) of_nat_u32_inj [of "length rows" "length rows'"]
    by (simp add: section_bounded_def)
  ultimately show ?thesis
    using put_rows_inj [of "sort_key row_key rows" "sort_key row_key rows'"] assms(1,2)
    by (simp add: section_bounded_def)
qed

definition macs_bounded :: "(string, bytes) btmap \<Rightarrow> bool" where
  "macs_bounded ms \<longleftrightarrow>
     length ms < 2 ^ 32 \<and> (\<forall>(h, m) \<in> set ms. length h < 2 ^ 32 \<and> length m = 32)"

lemma root_mac_payload_inj:
  assumes "macs_bounded ms" "macs_bounded ms'" "length u = 16" "length u' = 16"
    and eq: "root_mac_payload ms u = root_mac_payload ms' u'"
  shows "ms = ms' \<and> u = u'"
proof -
  have "u = u' \<and> (of_nat (length ms) :: u32) = of_nat (length ms') \<and>
      concat (map put_mac_entry ms) = concat (map put_mac_entry ms')"
    using eq assms(3,4) by (simp add: root_mac_payload_def be_append)
  then show ?thesis
    using put_mac_entries_inj [of ms ms'] of_nat_u32_inj [of "length ms" "length ms'"] assms(1,2)
    by (simp add: macs_bounded_def)
qed

definition identity_bounded :: "string \<Rightarrow> identity_block \<Rightarrow> bool" where
  "identity_bounded h i \<longleftrightarrow>
     length h < 2 ^ 32 \<and> length (ib_registry_id i) < 2 ^ 32 \<and>
     length (ib_rln_identifier i) < 2 ^ 32 \<and> length (ib_identity_commitment i) < 2 ^ 32"

lemma credential_aad_inj:
  assumes "identity_bounded h i" "identity_bounded h' i'"
    and "credential_aad h i u = credential_aad h' i' u'"
  shows "h = h' \<and> i = i' \<and> u = u'"
  using assms
  by (simp add: credential_aad_def identity_bounded_def put_str_append be_append)

lemma as_bytes_Cons: "as_bytes (c # s) = of_char c # as_bytes s"
  by (simp add: as_bytes_def)

lemma payload_domains:
  "section_mac_payload h sz fl rows u \<noteq> root_mac_payload ms u'"
  "credential_aad h i u \<noteq> section_mac_payload h' sz fl rows u'"
  "credential_aad h i u \<noteq> root_mac_payload ms u'"
  by (simp_all add: section_mac_payload_def root_mac_payload_def credential_aad_def as_bytes_Cons Let_def)

end
