(* ===== verification/Proof_Engine.thy ===== *)
theory Proof_Engine
  imports Json Sealed_Format
begin

text \<open>
  Model of \<open>proof.rs\<close>: the wire proof and its two accepted shapes, the epoch encoding, the
  external nullifier, the bridge between the registry's tree depth and the circuit's, proof
  generation with its input checks, verification against a root window, and secret recovery.

  The circuit, Poseidon, the field and zerokit's serializations are third-party code, gathered in
  the record \<open>zerokit\<close> over a type \<open>'fr\<close> of field elements and \<open>'zp\<close> of Groth16 proofs.
\<close>

section \<open>The engine's parameters\<close>

record 'fr proof_values =
  pv_root :: 'fr
  pv_x :: 'fr
  pv_external_nullifier :: 'fr
  pv_y :: "'fr option"
  pv_nullifier :: "'fr option"

record 'fr rln_witness =
  rw_identity_secret :: 'fr
  rw_user_message_limit :: 'fr
  rw_message_id :: 'fr
  rw_path_elements :: "'fr list"
  rw_path_indices :: "byte list"
  rw_x :: 'fr
  rw_external_nullifier :: 'fr

datatype verify_proof_error = InvalidRoot | InvalidSignal | OtherVerifyError string

record ('fr, 'zp) zerokit =
  zk_hash_to_field :: "bytes \<Rightarrow> 'fr"
  zk_hash_pair :: "'fr \<Rightarrow> 'fr \<Rightarrow> 'fr"
  zk_fr_of_u64 :: "u64 \<Rightarrow> 'fr"
  zk_fr_ser :: "'fr \<Rightarrow> bytes"
  zk_fr_de :: "bytes \<Rightarrow> string + 'fr"
  zk_proof_de :: "bytes \<Rightarrow> string + 'zp"
  zk_rln_ser :: "'zp \<Rightarrow> 'fr proof_values \<Rightarrow> string + bytes"
  zk_rln_de :: "bytes \<Rightarrow> string + ('zp \<times> 'fr proof_values)"
  zk_check_witness :: "'fr rln_witness \<Rightarrow> string + unit"
  zk_generate :: "'fr rln_witness \<Rightarrow> string + ('zp \<times> 'fr proof_values)"
  zk_verify_with_roots :: "'zp \<Rightarrow> 'fr proof_values \<Rightarrow> 'fr \<Rightarrow> 'fr list \<Rightarrow> verify_proof_error + bool"
  zk_compute_id_secret :: "'fr \<times> 'fr \<Rightarrow> 'fr \<times> 'fr \<Rightarrow> string + 'fr"
  zk_identity_keys :: "bytes \<Rightarrow> 'fr \<times> 'fr"

definition RLN_TREE_DEPTH :: nat where "RLN_TREE_DEPTH = 10"
definition GROTH16_LEN :: nat where "GROTH16_LEN = 128"

datatype proof_error = BadInput string | Engine string

record witness_material =
  wm_identity_secret_hash_hex :: string
  wm_rate_limit :: u64
  wm_message_id :: u64
  wm_path_elements_hex :: "string list"
  wm_path_indices :: "byte list"

record rate_limit_proof =
  rp_canonical :: bytes
  rp_root :: bytes
  rp_external_nullifier :: bytes
  rp_share_x :: bytes
  rp_share_y :: bytes
  rp_nullifier :: bytes
  rp_epoch :: "u64 option"

section \<open>Epoch bytes and external nullifiers\<close>

definition to_le_bytes :: "nat \<Rightarrow> 'a::len word \<Rightarrow> bytes" where
  "to_le_bytes n w = map (\<lambda>i. ucast (drop_bit (8 * i) w)) [0..<n]"

fun from_le_bytes :: "bytes \<Rightarrow> 'a::len word" where
  "from_le_bytes [] = 0"
| "from_le_bytes (b # bs) = ucast b OR push_bit 8 (from_le_bytes bs)"

definition epoch_to_bytes :: "u64 \<Rightarrow> bytes" where
  "epoch_to_bytes ep = to_le_bytes 8 ep @ replicate 24 0"

definition epoch_from_bytes :: "bytes \<Rightarrow> u64 option" where
  "epoch_from_bytes bs =
     (if list_ex (\<lambda>b. b \<noteq> 0) (drop 8 bs) then None else Some (from_le_bytes (take 8 bs)))"

definition external_nullifier :: "('fr, 'zp) zerokit \<Rightarrow> u64 \<Rightarrow> bytes \<Rightarrow> 'fr" where
  "external_nullifier zk ep rid =
     zk_hash_pair zk (zk_hash_to_field zk (epoch_to_bytes ep)) (zk_hash_to_field zk rid)"

definition signal_to_x :: "('fr, 'zp) zerokit \<Rightarrow> bytes \<Rightarrow> 'fr" where
  "signal_to_x zk signal = zk_hash_to_field zk signal"

definition fr_to_bytes32 :: "('fr, 'zp) zerokit \<Rightarrow> 'fr \<Rightarrow> bytes" where
  "fr_to_bytes32 zk fr = zk_fr_ser zk fr"

definition expected_external_nullifier :: "('fr, 'zp) zerokit \<Rightarrow> u64 \<Rightarrow> bytes \<Rightarrow> bytes" where
  "expected_external_nullifier zk ep rid = fr_to_bytes32 zk (external_nullifier zk ep rid)"

definition hex_to_fr :: "('fr, 'zp) zerokit \<Rightarrow> string \<Rightarrow> string \<Rightarrow> proof_error + 'fr" where
  "hex_to_fr zk hex label =
     and_then (ok_or (BadInput (label @ '': expected 32-byte hex'')) (hex_to_bytes32 hex)) (\<lambda>bs.
     map_err (\<lambda>e. BadInput (label @ '': not a field element: '' @ e)) (zk_fr_de zk bs))"

section \<open>The wire proof\<close>

definition single_values :: "'fr proof_values \<Rightarrow> proof_error + ('fr \<times> 'fr)" where
  "single_values v =
     (case (pv_y v, pv_nullifier v) of
        (Some y, Some n) \<Rightarrow> Inr (y, n)
      | _ \<Rightarrow> Inl (Engine ''multi-mode proof values unsupported''))"

definition from_parts :: "('fr, 'zp) zerokit \<Rightarrow> 'zp \<Rightarrow> 'fr proof_values \<Rightarrow> proof_error + rate_limit_proof" where
  "from_parts zk p v =
     and_then (single_values v) (\<lambda>(y, n).
     and_then (map_err (\<lambda>e. Engine (''serialize proof: '' @ e)) (zk_rln_ser zk p v)) (\<lambda>canonical.
     Inr \<lparr> rp_canonical = canonical, rp_root = fr_to_bytes32 zk (pv_root v),
           rp_external_nullifier = fr_to_bytes32 zk (pv_external_nullifier v),
           rp_share_x = fr_to_bytes32 zk (pv_x v), rp_share_y = fr_to_bytes32 zk y,
           rp_nullifier = fr_to_bytes32 zk n, rp_epoch = None \<rparr>))"

definition parse_canonical :: "('fr, 'zp) zerokit \<Rightarrow> bytes \<Rightarrow> proof_error + ('zp \<times> 'fr proof_values)" where
  "parse_canonical zk bs =
     and_then (map_err (\<lambda>e. BadInput (''proof: not a valid RLN proof: '' @ e)) (zk_rln_de zk bs)) (\<lambda>(p, v).
     if pv_y v = None then Inl (BadInput ''proof: multi-mode proofs are not supported'') else Inr (p, v))"

definition canonical_hex :: "rate_limit_proof \<Rightarrow> string" where
  "canonical_hex p = bytes_to_hex (rp_canonical p)"

definition proof_to_json :: "rate_limit_proof \<Rightarrow> json" where
  "proof_to_json p = JObj
     ([(''proof'', JStr (bytes_to_hex (take (min GROTH16_LEN (length (rp_canonical p))) (rp_canonical p)))),
       (''root'', JStr (bytes_to_hex (rp_root p))),
       (''external_nullifier'', JStr (bytes_to_hex (rp_external_nullifier p))),
       (''share_x'', JStr (bytes_to_hex (rp_share_x p))),
       (''share_y'', JStr (bytes_to_hex (rp_share_y p))),
       (''nullifier'', JStr (bytes_to_hex (rp_nullifier p)))] @
      (case rp_epoch p of None \<Rightarrow> [] | Some ep \<Rightarrow> [(''epoch'', JStr (bytes_to_hex (epoch_to_bytes ep)))]))"

definition wire_field :: "('fr, 'zp) zerokit \<Rightarrow> json \<Rightarrow> string \<Rightarrow> proof_error + 'fr" where
  "wire_field zk value key =
     and_then (ok_or (BadInput (key @ '': expected 32-byte hex alongside a bare proof'')) (get_str value key)) (\<lambda>hex.
     hex_to_fr zk hex key)"

definition canonical_from_wire :: "('fr, 'zp) zerokit \<Rightarrow> json \<Rightarrow> bytes \<Rightarrow> proof_error + bytes" where
  "canonical_from_wire zk value bs =
     (if length bs = GROTH16_LEN then
        and_then (map_err (\<lambda>e. BadInput (''proof: not a valid Groth16 proof: '' @ e)) (zk_proof_de zk bs)) (\<lambda>p.
        and_then (wire_field zk value ''share_y'') (\<lambda>y.
        and_then (wire_field zk value ''root'') (\<lambda>r.
        and_then (wire_field zk value ''nullifier'') (\<lambda>n.
        and_then (wire_field zk value ''share_x'') (\<lambda>x.
        and_then (wire_field zk value ''external_nullifier'') (\<lambda>en.
        map_err (\<lambda>e. Engine (''serialize proof: '' @ e))
          (zk_rln_ser zk p \<lparr> pv_root = r, pv_x = x, pv_external_nullifier = en, pv_y = Some y, pv_nullifier = Some n \<rparr>)))))))
      else Inr bs)"

definition epoch_from_wire :: "json \<Rightarrow> proof_error + u64 option" where
  "epoch_from_wire value =
     (case j_get value ''epoch'' of
        None \<Rightarrow> Inr None
      | Some v \<Rightarrow>
          (case as_u64 v of
             Some index \<Rightarrow> Inr (Some index)
           | None \<Rightarrow>
               and_then (ok_or (BadInput ''epoch: expected 32-byte hex or u64 index'') (as_str v)) (\<lambda>hex.
               and_then (ok_or (BadInput ''epoch: expected 32-byte hex or u64 index'') (hex_to_bytes32 hex)) (\<lambda>bs.
               and_then (ok_or (BadInput ''epoch: non-canonical padding'') (epoch_from_bytes bs)) (\<lambda>ep.
               Inr (Some ep))))))"

definition proof_from_json :: "('fr, 'zp) zerokit \<Rightarrow> json \<Rightarrow> proof_error + rate_limit_proof" where
  "proof_from_json zk value =
     and_then (ok_or (BadInput ''proof: missing proof bytes'') (get_str value ''proof'')) (\<lambda>proof_hex.
     and_then (ok_or (BadInput ''proof: not valid hex'') (hex_to_vec proof_hex)) (\<lambda>bs.
     and_then (canonical_from_wire zk value bs) (\<lambda>canonical.
     and_then (epoch_from_wire value) (\<lambda>ep.
     and_then (parse_canonical zk canonical) (\<lambda>(p, v).
     and_then (from_parts zk p v) (\<lambda>rp.
     Inr (rp \<lparr> rp_epoch := ep \<rparr>)))))))"

section \<open>The depth bridge\<close>

fun zero_ladder :: "('fr, 'zp) zerokit \<Rightarrow> nat \<Rightarrow> 'fr" where
  "zero_ladder zk 0 = zk_fr_of_u64 zk 0"
| "zero_ladder zk (Suc h) = zk_hash_pair zk (zero_ladder zk h) (zero_ladder zk h)"

definition fr_to_hex :: "('fr, 'zp) zerokit \<Rightarrow> 'fr \<Rightarrow> string" where
  "fr_to_hex zk v = bytes_to_hex (zk_fr_ser zk v)"

definition fr_from_hex :: "('fr, 'zp) zerokit \<Rightarrow> string \<Rightarrow> 'fr option" where
  "fr_from_hex zk hex =
     Option.bind (hex_to_bytes32 hex) (\<lambda>bs. case zk_fr_de zk bs of Inr v \<Rightarrow> Some v | Inl _ \<Rightarrow> None)"

definition pad_path ::
  "('fr, 'zp) zerokit \<Rightarrow> string list \<Rightarrow> byte list \<Rightarrow> nat \<Rightarrow> string list \<times> byte list"
where
  "pad_path zk elements indices depth =
     (elements @ map (\<lambda>h. fr_to_hex zk (zero_ladder zk h)) [depth..<RLN_TREE_DEPTH],
      indices @ replicate (RLN_TREE_DEPTH - depth) 0)"

definition fold_root :: "('fr, 'zp) zerokit \<Rightarrow> string \<Rightarrow> nat \<Rightarrow> string" where
  "fold_root zk root_hex depth =
     (case fr_from_hex zk root_hex of
        None \<Rightarrow> root_hex
      | Some rt \<Rightarrow>
          fr_to_hex zk (foldl (\<lambda>r h. zk_hash_pair zk r (zero_ladder zk h)) rt [depth..<RLN_TREE_DEPTH]))"

section \<open>Generating, verifying, recovering\<close>

definition collect_results :: "('e + 'a) list \<Rightarrow> 'e + 'a list" where
  "collect_results rs = foldr (\<lambda>r acc. and_then r (\<lambda>x. and_then acc (\<lambda>xs. Inr (x # xs)))) rs (Inr [])"

definition generate_identity :: "('fr, 'zp) zerokit \<Rightarrow> string + bytes \<Rightarrow> proof_error + (string \<times> string)" where
  "generate_identity zk seed =
     and_then (map_err (\<lambda>e. Engine (''rng: '' @ e)) seed) (\<lambda>s.
     let (commitment, secret) = zk_identity_keys zk s
     in Inr (bytes_to_hex (fr_to_bytes32 zk commitment), bytes_to_hex (fr_to_bytes32 zk secret)))"

definition generate ::
  "('fr, 'zp) zerokit \<Rightarrow> witness_material \<Rightarrow> bytes \<Rightarrow> u64 \<Rightarrow> bytes \<Rightarrow> proof_error + rate_limit_proof"
where
  "generate zk m signal ep rid =
     (if length (wm_path_elements_hex m) \<noteq> length (wm_path_indices m)
      then Inl (BadInput (''merkle path length mismatch: '' @ show_nat (length (wm_path_elements_hex m)) @
             '' elements vs '' @ show_nat (length (wm_path_indices m)) @ '' indices''))
      else if length (wm_path_elements_hex m) \<noteq> RLN_TREE_DEPTH
      then Inl (BadInput (''merkle path depth '' @ show_nat (length (wm_path_elements_hex m)) @
             '' != circuit depth '' @ show_nat RLN_TREE_DEPTH))
      else
        and_then (ok_or (BadInput ''identity_secret_hash: expected 32-byte hex'')
                    (hex_to_bytes32 (wm_identity_secret_hash_hex m))) (\<lambda>sb.
        and_then (map_err (\<lambda>e. BadInput (''identity_secret: '' @ e)) (zk_fr_de zk sb)) (\<lambda>secret.
        and_then (collect_results (map (\<lambda>h. hex_to_fr zk h ''path_element'') (wm_path_elements_hex m))) (\<lambda>els.
        let w = \<lparr> rw_identity_secret = secret, rw_user_message_limit = zk_fr_of_u64 zk (wm_rate_limit m),
                  rw_message_id = zk_fr_of_u64 zk (wm_message_id m), rw_path_elements = els,
                  rw_path_indices = wm_path_indices m, rw_x = signal_to_x zk signal,
                  rw_external_nullifier = external_nullifier zk ep rid \<rparr> in
        and_then (map_err (\<lambda>e. BadInput (''witness: '' @ e)) (zk_check_witness zk w)) (\<lambda>_.
        and_then (map_err (\<lambda>e. Engine (''generate: '' @ e)) (zk_generate zk w)) (\<lambda>(p, v).
        and_then (from_parts zk p v) (\<lambda>rp. Inr (rp \<lparr> rp_epoch := Some ep \<rparr>))))))))"

definition verify_proof ::
  "('fr, 'zp) zerokit \<Rightarrow> rate_limit_proof \<Rightarrow> bytes \<Rightarrow> bytes list \<Rightarrow> proof_error + bool"
where
  "verify_proof zk rp signal valid_roots =
     and_then (parse_canonical zk (rp_canonical rp)) (\<lambda>(p, v).
     let x = signal_to_x zk signal;
         roots = concat (map (\<lambda>r. case zk_fr_de zk r of Inr f \<Rightarrow> [f] | Inl _ \<Rightarrow> []) valid_roots)
     in if valid_roots \<noteq> [] \<and> roots = [] then Inr False
        else (case zk_verify_with_roots zk p v x roots of
                Inr verdict \<Rightarrow> Inr verdict
              | Inl InvalidRoot \<Rightarrow> Inr False
              | Inl InvalidSignal \<Rightarrow> Inr False
              | Inl (OtherVerifyError e) \<Rightarrow> Inl (Engine (''verify: '' @ e))))"

definition share_field :: "('fr, 'zp) zerokit \<Rightarrow> bytes \<Rightarrow> string \<Rightarrow> proof_error + 'fr" where
  "share_field zk bs label = map_err (\<lambda>e. BadInput (label @ '': not a field element: '' @ e)) (zk_fr_de zk bs)"

definition recover_identity_secret_hex ::
  "('fr, 'zp) zerokit \<Rightarrow> bytes \<times> bytes \<Rightarrow> bytes \<times> bytes \<Rightarrow> proof_error + string"
where
  "recover_identity_secret_hex zk prior current =
     and_then (share_field zk (fst prior) ''prior share_x'') (\<lambda>x1.
     and_then (share_field zk (snd prior) ''prior share_y'') (\<lambda>y1.
     and_then (share_field zk (fst current) ''share_x'') (\<lambda>x2.
     and_then (share_field zk (snd current) ''share_y'') (\<lambda>y2.
     and_then (map_err (\<lambda>e. Engine (''recover id secret: '' @ e))
                 (zk_compute_id_secret zk (x1, y1) (x2, y2))) (\<lambda>s.
     Inr (bytes_to_hex (fr_to_bytes32 zk s)))))))"

section \<open>Epoch bytes\<close>

lemma bit_from_le_bytes:
  "bit (from_le_bytes bs :: 'a::len word) k \<longleftrightarrow>
     k < LENGTH('a) \<and> k div 8 < length bs \<and> bit (bs ! (k div 8)) (k mod 8)"
proof (induction bs arbitrary: k)
  case (Cons b bs)
  show ?case
  proof (cases "k < 8")
    case True
    then show ?thesis by (auto simp: bit_simps dest: bit_imp_le_length)
  next
    case False
    then have k: "k div 8 = Suc ((k - 8) div 8)" "k mod 8 = (k - 8) mod 8"
      by (auto simp: le_div_geq le_mod_geq)
    have "\<not> bit b k" using False bit_imp_le_length [of b k] by auto
    then show ?thesis using False k Cons.IH [of "k - 8"] by (auto simp: bit_simps)
  qed
qed simp

lemma length_to_le_bytes [simp, enc_simps]: "length (to_le_bytes n w) = n"
  by (simp add: to_le_bytes_def)

lemma from_to_le_bytes:
  fixes w :: "'a::len word"
  assumes "LENGTH('a) = 8 * n"
  shows "from_le_bytes (to_le_bytes n w) = w"
proof (rule bit_word_eqI)
  fix k assume k: "k < LENGTH('a)"
  then have "k div 8 < n" using assms by linarith
  then show "bit (from_le_bytes (to_le_bytes n w) :: 'a word) k = bit w k"
    using k by (simp add: bit_from_le_bytes to_le_bytes_def bit_simps)
qed

lemma to_from_le_bytes:
  assumes "LENGTH('a::len) = 8 * length bs"
  shows "to_le_bytes (length bs) (from_le_bytes bs :: 'a word) = bs"
proof (rule nth_equalityI)
  fix i assume i: "i < length (to_le_bytes (length bs) (from_le_bytes bs :: 'a word))"
  show "to_le_bytes (length bs) (from_le_bytes bs :: 'a word) ! i = bs ! i"
  proof (rule bit_word_eqI)
    fix j assume "j < LENGTH(8)"
    then show "bit (to_le_bytes (length bs) (from_le_bytes bs :: 'a word) ! i) j = bit (bs ! i) j"
      using i assms by (simp add: to_le_bytes_def bit_simps bit_from_le_bytes)
  qed
qed simp

lemma epoch_from_bytes_unique:
  assumes "length bs = 32" "epoch_from_bytes bs = Some ep"
  shows "bs = epoch_to_bytes ep"
proof -
  have z: "\<forall>b \<in> set (drop 8 bs). b = 0" and ep: "ep = from_le_bytes (take 8 bs)"
    using assms(2) by (auto simp: epoch_from_bytes_def list_ex_iff split: if_splits)
  have "drop 8 bs = replicate 24 0" using z assms(1) by (intro replicate_eqI) auto
  moreover have "to_le_bytes 8 ep = take 8 bs"
    using to_from_le_bytes [where 'a = 64, of "take 8 bs"] assms(1) ep by simp
  ultimately show ?thesis unfolding epoch_to_bytes_def by (metis append_take_drop_id)
qed

lemma epoch_from_to_bytes: "epoch_from_bytes (epoch_to_bytes ep) = Some ep"
  by (simp add: epoch_from_bytes_def epoch_to_bytes_def from_to_le_bytes list_ex_iff)

text \<open>
  The 32-byte epoch encoding is a bijection onto its canonical strings. Decoding an encoded
  epoch gives it back, and a 32-byte string that decodes at all is the encoding of what it
  decodes to; so one epoch index is carried by exactly one byte string.
\<close>
lemma epoch_bytes_canonical:
  "epoch_from_bytes (epoch_to_bytes ep) = Some ep \<and>
   (\<forall>bs. length bs = 32 \<and> epoch_from_bytes bs = Some ep \<longrightarrow> bs = epoch_to_bytes ep)"
  using epoch_from_to_bytes epoch_from_bytes_unique by blast

section \<open>The depth bridge is exact\<close>

text \<open>The root a Merkle path leads to: siblings from the leaf upwards, index 0 = left child.\<close>

definition merkle_root :: "('fr, 'zp) zerokit \<Rightarrow> 'fr \<Rightarrow> ('fr \<times> byte) list \<Rightarrow> 'fr" where
  "merkle_root zk leaf path =
     foldl (\<lambda>cur (e, i). if i = 0 then zk_hash_pair zk cur e else zk_hash_pair zk e cur) leaf path"

definition fr_roundtrip :: "('fr, 'zp) zerokit \<Rightarrow> bool" where
  "fr_roundtrip zk \<longleftrightarrow> (\<forall>v. length (zk_fr_ser zk v) = 32 \<and> zk_fr_de zk (zk_fr_ser zk v) = Inr v)"

lemma fr_from_to_hex: "fr_roundtrip zk \<Longrightarrow> fr_from_hex zk (fr_to_hex zk v) = Some v"
  by (simp add: fr_from_hex_def fr_to_hex_def fr_roundtrip_def)

lemma hex_to_fr_to_hex: "fr_roundtrip zk \<Longrightarrow> hex_to_fr zk (fr_to_hex zk v) label = Inr v"
  by (simp add: hex_to_fr_def fr_to_hex_def fr_roundtrip_def)

lemma collect_results_Inr: "collect_results (map (\<lambda>x. Inr (f x)) xs) = Inr (map f xs)"
  by (induction xs) (simp_all add: collect_results_def)

lemma merkle_root_append: "merkle_root zk leaf (p @ q) = merkle_root zk (merkle_root zk leaf p) q"
  by (simp add: merkle_root_def)

lemma merkle_root_pads:
  "merkle_root zk r (zip (map (zero_ladder zk) hs) (replicate (length hs) 0)) =
     foldl (\<lambda>r h. zk_hash_pair zk r (zero_ladder zk h)) r hs"
  by (induction hs arbitrary: r) (simp_all add: merkle_root_def)

text \<open>The path \<open>pad_path\<close> produces, as field elements.\<close>

definition padded_elements :: "('fr, 'zp) zerokit \<Rightarrow> 'fr list \<Rightarrow> nat \<Rightarrow> 'fr list" where
  "padded_elements zk els depth = els @ map (zero_ladder zk) [depth..<RLN_TREE_DEPTH]"

definition padded_indices :: "byte list \<Rightarrow> nat \<Rightarrow> byte list" where
  "padded_indices idx depth = idx @ replicate (RLN_TREE_DEPTH - depth) 0"

lemma pad_path_padded:
  "pad_path zk (map (fr_to_hex zk) els) idx depth =
     (map (fr_to_hex zk) (padded_elements zk els depth), padded_indices idx depth)"
  by (simp add: pad_path_def padded_elements_def padded_indices_def)

lemma length_padded:
  "length els \<le> RLN_TREE_DEPTH \<Longrightarrow> length (padded_elements zk els (length els)) = RLN_TREE_DEPTH"
  "length idx \<le> RLN_TREE_DEPTH \<Longrightarrow> length (padded_indices idx (length idx)) = RLN_TREE_DEPTH"
  by (simp_all add: padded_elements_def padded_indices_def)

lemma collect_hex:
  "fr_roundtrip zk \<Longrightarrow> collect_results (map (\<lambda>h. hex_to_fr zk h label) (map (fr_to_hex zk) els)) = Inr els"
  using collect_results_Inr [of "\<lambda>x. x" els] by (simp add: comp_def hex_to_fr_to_hex)

lemma fold_root_padded:
  assumes "fr_roundtrip zk" "length els = depth" "length idx = depth"
  shows "fold_root zk (fr_to_hex zk (merkle_root zk leaf (zip els idx))) depth =
    fr_to_hex zk (merkle_root zk leaf (zip (padded_elements zk els depth) (padded_indices idx depth)))"
proof -
  let ?hs = "[depth..<RLN_TREE_DEPTH]"
  have "zip (padded_elements zk els depth) (padded_indices idx depth) =
      zip els idx @ zip (map (zero_ladder zk) ?hs) (replicate (length ?hs) 0)"
    using assms(2,3) by (simp add: padded_elements_def padded_indices_def)
  then have "merkle_root zk leaf (zip (padded_elements zk els depth) (padded_indices idx depth)) =
      foldl (\<lambda>r h. zk_hash_pair zk r (zero_ladder zk h)) (merkle_root zk leaf (zip els idx)) ?hs"
    using merkle_root_pads [of zk _ ?hs] by (simp add: merkle_root_append)
  then show ?thesis using assms(1) by (simp add: fold_root_def fr_from_to_hex)
qed

text \<open>
  Bridging the tree depth is exact. A path of the registry's depth, padded to the circuit's,
  has the length the circuit demands and decodes to field elements; the root the circuit
  computes from the padded path is the registry's root folded by \<open>fold_root\<close>. So a proof over a
  padded path of a valid registry root has its root in the folded window.
\<close>
lemma depth_bridge_exact:
  assumes "fr_roundtrip zk" "length els = depth" "length idx = depth" "depth \<le> RLN_TREE_DEPTH"
    and "pad_path zk (map (fr_to_hex zk) els) idx depth = (pe, pidx)"
  shows "length pe = RLN_TREE_DEPTH \<and> length pidx = RLN_TREE_DEPTH \<and>
    (\<exists>els'. collect_results (map (\<lambda>h. hex_to_fr zk h ''path_element'') pe) = Inr els' \<and>
       fold_root zk (fr_to_hex zk (merkle_root zk leaf (zip els idx))) depth =
       fr_to_hex zk (merkle_root zk leaf (zip els' pidx)))"
proof -
  have pe: "pe = map (fr_to_hex zk) (padded_elements zk els depth)" and pidx: "pidx = padded_indices idx depth"
    using assms(5) by (auto simp: pad_path_padded)
  have "length pe = RLN_TREE_DEPTH" "length pidx = RLN_TREE_DEPTH"
    using length_padded(1) [of els zk] length_padded(2) [of idx] assms(2-4) by (simp_all add: pe pidx)
  moreover have "collect_results (map (\<lambda>h. hex_to_fr zk h ''path_element'') pe) = Inr (padded_elements zk els depth)"
    unfolding pe by (rule collect_hex [OF assms(1)])
  ultimately show ?thesis using fold_root_padded [OF assms(1-3), of leaf] unfolding pidx by blast
qed

definition sample_zk :: "(byte, byte) zerokit" where
  "sample_zk = \<lparr> zk_hash_to_field = (\<lambda>b. of_nat (length b)), zk_hash_pair = (\<lambda>a b. 3 * a + b),
     zk_fr_of_u64 = ucast, zk_fr_ser = (\<lambda>v. v # replicate 31 0), zk_fr_de = (\<lambda>b. Inr (hd b)),
     zk_proof_de = (\<lambda>b. Inr (hd b)), zk_rln_ser = (\<lambda>p v. Inr [p, pv_root v]),
     zk_rln_de = (\<lambda>b. Inl ''x''), zk_check_witness = (\<lambda>w. Inr ()), zk_generate = (\<lambda>w. Inl ''x''),
     zk_verify_with_roots = (\<lambda>p v x rs. Inr True), zk_compute_id_secret = (\<lambda>a b. Inr (fst a)),
     zk_identity_keys = (\<lambda>s. (0, 0)) \<rparr>"

section \<open>Decoded fields are a view of the verified bytes\<close>

definition rln_roundtrip :: "('fr, 'zp) zerokit \<Rightarrow> bool" where
  "rln_roundtrip zk \<longleftrightarrow> (\<forall>p v b. zk_rln_ser zk p v = Inr b \<longrightarrow> zk_rln_de zk b = Inr (p, v))"

text \<open>
  A parsed wire proof cannot disagree with what is verified. Whatever shape the wire proof had
  and whatever its decoded fields said, the root, external nullifier, shares and nullifier the
  module reads from it are the serializations of the public values inside the canonical bytes
  that verification deserializes, and a malformed or padded epoch is rejected, never dropped.
\<close>
lemma proof_fields_are_canonical:
  assumes "proof_from_json zk value = Inr rp" "rln_roundtrip zk"
  shows "(\<exists>p v y n. parse_canonical zk (rp_canonical rp) = Inr (p, v) \<and> pv_y v = Some y \<and> pv_nullifier v = Some n \<and>
      rp_root rp = zk_fr_ser zk (pv_root v) \<and> rp_external_nullifier rp = zk_fr_ser zk (pv_external_nullifier v) \<and>
      rp_share_x rp = zk_fr_ser zk (pv_x v) \<and> rp_share_y rp = zk_fr_ser zk y \<and> rp_nullifier rp = zk_fr_ser zk n) \<and>
    (case j_get value ''epoch'' of
       None \<Rightarrow> rp_epoch rp = None
     | Some e \<Rightarrow> (\<exists>ep. rp_epoch rp = Some ep \<and>
         (as_u64 e = Some ep \<or> (\<exists>hex. as_str e = Some hex \<and> hex_to_bytes32 hex = Some (epoch_to_bytes ep)))))"
proof -
  from assms(1) obtain ep p v rp0 where e: "epoch_from_wire value = Inr ep"
    and v: "from_parts zk p v = Inr rp0" and rp: "rp = rp0 \<lparr> rp_epoch := ep \<rparr>"
    by (auto simp: proof_from_json_def result_iffs split: prod.splits)
  from v obtain y n b where f: "pv_y v = Some y" "pv_nullifier v = Some n" "zk_rln_ser zk p v = Inr b"
    "rp0 = \<lparr> rp_canonical = b, rp_root = zk_fr_ser zk (pv_root v),
           rp_external_nullifier = zk_fr_ser zk (pv_external_nullifier v),
           rp_share_x = zk_fr_ser zk (pv_x v), rp_share_y = zk_fr_ser zk y,
           rp_nullifier = zk_fr_ser zk n, rp_epoch = None \<rparr>"
    by (auto simp: from_parts_def single_values_def fr_to_bytes32_def result_iffs split: option.splits)
  have "parse_canonical zk b = Inr (p, v)"
    using assms(2) f(1,3) by (simp add: parse_canonical_def rln_roundtrip_def)
  then have first: "\<exists>p v y n. parse_canonical zk (rp_canonical rp) = Inr (p, v) \<and> pv_y v = Some y \<and> pv_nullifier v = Some n \<and>
      rp_root rp = zk_fr_ser zk (pv_root v) \<and> rp_external_nullifier rp = zk_fr_ser zk (pv_external_nullifier v) \<and>
      rp_share_x rp = zk_fr_ser zk (pv_x v) \<and> rp_share_y rp = zk_fr_ser zk y \<and> rp_nullifier rp = zk_fr_ser zk n"
    using f rp by auto
  have dec: "bs = epoch_to_bytes x" if "hex_to_bytes32 hex = Some bs" "epoch_from_bytes bs = Some x" for hex bs x
    using epoch_from_bytes_unique [OF hex_to_bytes32_length [OF that(1)] that(2)] .
  have "case j_get value ''epoch'' of
       None \<Rightarrow> rp_epoch rp = None
     | Some e \<Rightarrow> (\<exists>ep. rp_epoch rp = Some ep \<and>
         (as_u64 e = Some ep \<or> (\<exists>hex. as_str e = Some hex \<and> hex_to_bytes32 hex = Some (epoch_to_bytes ep))))"
  proof (cases "j_get value ''epoch''")
    case None
    then show ?thesis using e rp by (simp add: epoch_from_wire_def)
  next
    case (Some j)
    then show ?thesis
      using e rp dec by (cases "as_u64 j") (auto simp: epoch_from_wire_def result_iffs)
  qed
  with first show ?thesis by blast
qed

definition sample_zk_codec :: "(byte, byte) zerokit" where
  "sample_zk_codec = sample_zk
     \<lparr> zk_rln_ser := (\<lambda>p v. case (pv_y v, pv_nullifier v) of
          (Some y, Some n) \<Rightarrow> Inr [p, pv_root v, pv_x v, pv_external_nullifier v, y, n] | _ \<Rightarrow> Inl ''multi''),
       zk_rln_de := (\<lambda>b. case b of [p, r, x, en, y, n] \<Rightarrow>
          Inr (p, \<lparr> pv_root = r, pv_x = x, pv_external_nullifier = en, pv_y = Some y, pv_nullifier = Some n \<rparr>)
          | _ \<Rightarrow> Inl ''short'') \<rparr>"

end
