(* ===== verification/Base58.thy ===== *)
theory Base58
  imports Rust_Text
begin

text \<open>
  Base58 account ids of the registry module (\<open>base58.rs\<close>): the decoder and the encoder its tests
  pin it with, as big-number accumulators of little-endian digits, and what they compute.
\<close>

section \<open>The code\<close>

definition ALPHABET :: string where
  "ALPHABET = ''123456789ABCDEFGHJKLMNPQRSTUVWXYZabcdefghijkmnopqrstuvwxyz''"

fun position :: "'a \<Rightarrow> 'a list \<Rightarrow> nat option" where
  "position x [] = None"
| "position x (y # ys) = (if y = x then Some 0 else map_option Suc (position x ys))"

fun carry_bytes :: "u32 \<Rightarrow> bytes \<Rightarrow> bytes \<times> u32" where
  "carry_bytes carry [] = ([], carry)"
| "carry_bytes carry (b # bs) =
     (let t = carry + ucast b * 58; (r, carry') = carry_bytes (drop_bit 8 t) bs
      in (ucast (t AND 0xff) # r, carry'))"

function push_carry :: "u32 \<Rightarrow> bytes" where
  "push_carry carry = (if 0 < carry then ucast (carry AND 0xff) # push_carry (drop_bit 8 carry) else [])"
  by auto
termination
proof (relation "measure unat")
  fix carry :: u32
  assume "0 < carry"
  then have "unat carry \<noteq> 0" by (simp add: unat_eq_zero word_neq_0_conv)
  then show "(drop_bit 8 carry, carry) \<in> measure unat"
    by (simp add: drop_bit_eq_div unat_div)
qed simp

declare push_carry.simps [simp del]

definition push_digit :: "u32 \<Rightarrow> bytes \<Rightarrow> bytes" where
  "push_digit value bytes = (let (r, carry) = carry_bytes value bytes in r @ push_carry carry)"

fun decode_digits :: "string \<Rightarrow> bytes \<Rightarrow> bytes option" where
  "decode_digits [] bytes = Some bytes"
| "decode_digits (c # cs) bytes =
     (case position c ALPHABET of
        None \<Rightarrow> None
      | Some v \<Rightarrow> decode_digits cs (push_digit (of_nat v) bytes))"

function pop_zeros :: "bytes \<Rightarrow> bytes" where
  "pop_zeros bytes =
     (if 1 < length bytes \<and> last bytes = 0 \<and> 32 < length bytes then pop_zeros (butlast bytes) else bytes)"
  by auto
termination by (relation "measure length") auto

declare pop_zeros.simps [simp del]

definition decode32 :: "string \<Rightarrow> bytes option" where
  "decode32 input =
     (case decode_digits input [0] of
        None \<Rightarrow> None
      | Some bytes \<Rightarrow>
          (let bytes = rev (pop_zeros (bytes @ replicate (length (takeWhile (\<lambda>c. c = CHR ''1'') input)) 0)) in
           if 32 < length bytes then None else Some (replicate (32 - length bytes) 0 @ bytes)))"

text \<open>The encoder's digits stay below 58 and its carries below $2^{14}$, so \<open>usize\<close> never wraps.\<close>

fun carry_digits :: "nat \<Rightarrow> nat list \<Rightarrow> nat list \<times> nat" where
  "carry_digits carry [] = ([], carry)"
| "carry_digits carry (d # ds) =
     (let t = carry + d * 256; (r, carry') = carry_digits (t div 58) ds in (t mod 58 # r, carry'))"

fun push_digits :: "nat \<Rightarrow> nat list" where
  "push_digits carry = (if 0 < carry then carry mod 58 # push_digits (carry div 58) else [])"

declare push_digits.simps [simp del]

definition push_byte :: "byte \<Rightarrow> nat list \<Rightarrow> nat list" where
  "push_byte b digits = (let (r, carry) = carry_digits (unat b) digits in r @ push_digits carry)"

definition encode32 :: "bytes \<Rightarrow> string" where
  "encode32 input =
     replicate (length (takeWhile (\<lambda>b. b = 0) input)) (CHR ''1'') @
     map (\<lambda>d. ALPHABET ! d) (rev (fold push_byte input [0]))"

section \<open>Values\<close>

fun le_value :: "nat \<Rightarrow> nat list \<Rightarrow> nat" where
  "le_value base [] = 0"
| "le_value base (d # ds) = d + base * le_value base ds"

definition be_value :: "bytes \<Rightarrow> nat" where
  "be_value bs = le_value 256 (map unat (rev bs))"

definition base58_digit :: "char \<Rightarrow> nat" where
  "base58_digit c = (case position c ALPHABET of Some v \<Rightarrow> v | None \<Rightarrow> 0)"

definition base58_value :: "string \<Rightarrow> nat" where
  "base58_value s = le_value 58 (map base58_digit (rev s))"

lemma le_value_append [simp]: "le_value b (xs @ ys) = le_value b xs + b ^ length xs * le_value b ys"
  by (induction xs) (simp_all add: algebra_simps)

lemma le_value_zeros [simp]: "le_value b (replicate n 0) = 0"
  by (induction n) simp_all

lemma le_value_less: "\<forall>d \<in> set ds. d < b \<Longrightarrow> le_value b ds < b ^ length ds"
proof (induction ds)
  case (Cons d ds)
  then have "le_value b ds + 1 \<le> b ^ length ds" "d + 1 \<le> b" by auto
  then have "b * (le_value b ds + 1) \<le> b * b ^ length ds" by (intro mult_le_mono) auto
  then show ?case using \<open>d + 1 \<le> b\<close> by simp
qed simp

lemma unat_byte_less: "unat (b :: byte) < 256"
  using unsigned_less [of b] by simp

lemma le_bytes_less: "le_value 256 (map unat (bs :: bytes)) < 256 ^ length bs"
  using le_value_less [of "map unat bs" 256] by (simp add: unat_byte_less)

lemma le_value_inj:
  assumes "length xs = length ys" "\<forall>d \<in> set xs. d < b" "\<forall>d \<in> set ys. d < b" "le_value b xs = le_value b ys"
  shows "xs = ys"
  using assms
proof (induction xs ys rule: list_induct2)
  case (Cons x xs y ys)
  have b: "0 < b" using Cons.prems(1) by auto
  have "(x + b * le_value b xs) mod b = (y + b * le_value b ys) mod b"
    using Cons.prems(3) by simp
  then have xy: "x = y" using Cons.prems(1,2) by simp
  then have "b * le_value b xs = b * le_value b ys" using Cons.prems(3) by simp
  then have "le_value b xs = le_value b ys" using b by simp
  then show ?case using Cons.IH Cons.prems xy by simp
qed simp

section \<open>The decoder's accumulator\<close>

lemma carry_step:
  fixes c :: u32 and b :: byte
  assumes "unat c < 256"
  defines "t \<equiv> c + ucast b * 58"
  shows "unat t = unat c + unat b * 58" "unat (drop_bit 8 t) < 256"
    "unat (ucast (t AND 0xff) :: byte) + 256 * unat (drop_bit 8 t) = unat c + unat b * 58"
proof -
  have b: "unat b < 256" using unsigned_less [of b] by simp
  have ub: "unat (ucast b :: u32) = unat b" using b by (simp add: unsigned_ucast_eq take_bit_nat_eq_self)
  have m: "unat (ucast b * 58 :: u32) = unat b * 58"
    using b ub by (subst unat_mult_lem [THEN iffD1]) simp_all
  show t: "unat t = unat c + unat b * 58"
    unfolding t_def using assms(1) b m by (subst unat_add_lem [THEN iffD1]) simp_all
  have d: "unat (drop_bit 8 t) = unat t div 256" by (simp add: drop_bit_eq_div unat_div)
  show "unat (drop_bit 8 t) < 256" using d t assms(1) b by simp
  have "t AND 0xff = take_bit 8 t" by (simp add: take_bit_eq_mask mask_eq_exp_minus_1)
  then have "unat (ucast (t AND 0xff) :: byte) = unat t mod 256"
    by (simp add: unsigned_ucast_eq unsigned_take_bit_eq take_bit_eq_mod unat_mod)
  then show "unat (ucast (t AND 0xff) :: byte) + 256 * unat (drop_bit 8 t) = unat c + unat b * 58"
    using d t by simp
qed

lemma carry_bytes_value:
  assumes "unat c < 256" "carry_bytes c bs = (r, c')"
  shows "length r = length bs \<and> unat c' < 256 \<and>
    le_value 256 (map unat r) + 256 ^ length bs * unat c' = 58 * le_value 256 (map unat bs) + unat c"
  using assms
proof (induction bs arbitrary: c r c')
  case (Cons b bs)
  define t where "t = c + ucast b * 58"
  note st = carry_step [OF Cons.prems(1), of b, folded t_def]
  obtain r0 where r0: "carry_bytes (drop_bit 8 t) bs = (r0, c')" "r = ucast (t AND 0xff) # r0"
    using Cons.prems(2) by (auto simp: t_def Let_def split: prod.splits)
  have ih: "length r0 = length bs" "unat c' < 256"
    "le_value 256 (map unat r0) + 256 ^ length bs * unat c' = 58 * le_value 256 (map unat bs) + unat (drop_bit 8 t)"
    using Cons.IH [OF st(2) r0(1)] by blast+
  have "le_value 256 (map unat r) + 256 ^ length (b # bs) * unat c' =
      unat (ucast (t AND 0xff) :: byte) + 256 * (le_value 256 (map unat r0) + 256 ^ length bs * unat c')"
    using r0(2) by (simp add: algebra_simps)
  also have "\<dots> = 58 * le_value 256 (map unat (b # bs)) + unat c"
    unfolding ih(3) using st(3) by (simp add: algebra_simps)
  finally show ?case using ih(1,2) r0(2) by simp
qed simp

lemma push_carry_byte: "unat c < 256 \<Longrightarrow> push_carry c = (if c = 0 then [] else [ucast c])"
proof -
  assume a: "unat c < 256"
  then have "drop_bit 8 c = 0" by (intro word_unat_eq_iff [THEN iffD2]) (simp add: drop_bit_eq_div unat_div)
  moreover have "c AND 0xff = c"
  proof -
    have "c AND 0xff = take_bit 8 c" by (simp add: take_bit_eq_mask mask_eq_exp_minus_1)
    also have "\<dots> = c" using a by (intro word_unat_eq_iff [THEN iffD2]) (simp add: take_bit_eq_mod unat_mod)
    finally show ?thesis .
  qed
  moreover have "push_carry 0 = []" by (simp add: push_carry.simps)
  ultimately show ?thesis
    by (subst push_carry.simps) (simp add: word_neq_0_conv)
qed

text \<open>No leading zero byte, except for the single byte of zero.\<close>

definition minimal :: "bytes \<Rightarrow> bool" where
  "minimal bs \<longleftrightarrow> bs \<noteq> [] \<and> (1 < length bs \<longrightarrow> 256 ^ (length bs - 1) \<le> le_value 256 (map unat bs))"

lemma push_digit_value:
  assumes "v < 58" "minimal bs"
  shows "le_value 256 (map unat (push_digit (of_nat v) bs)) = 58 * le_value 256 (map unat bs) + v"
    "minimal (push_digit (of_nat v) bs)"
proof -
  obtain r c' where rc: "carry_bytes (of_nat v) bs = (r, c')" by fastforce
  have v: "unat (of_nat v :: u32) = v" using assms(1) by (simp add: unsigned_of_nat take_bit_nat_eq_self)
  note cv = carry_bytes_value [OF _ rc, unfolded v, OF less_trans [OF assms(1)], simplified]
  have push: "push_digit (of_nat v) bs = r @ (if c' = 0 then [] else [ucast c'])"
    using rc push_carry_byte cv by (simp add: push_digit_def)
  have uc: "unat (ucast c' :: byte) = unat c'"
    using cv by (simp add: unsigned_ucast_eq take_bit_nat_eq_self)
  show val: "le_value 256 (map unat (push_digit (of_nat v) bs)) = 58 * le_value 256 (map unat bs) + v"
    using cv push uc by (auto simp: map_append simp del: of_nat_eq_0_iff)
  show "minimal (push_digit (of_nat v) bs)"
  proof (cases "c' = 0")
    case True
    then have "256 ^ (length r - 1) \<le> le_value 256 (map unat (push_digit (of_nat v) bs))" if "1 < length r"
      using assms(2) that cv val by (auto simp: minimal_def)
    then show ?thesis using push True assms(2) cv by (auto simp: minimal_def)
  next
    case False
    then have "0 < unat c'" by (simp add: unat_gt_0)
    then have "256 ^ length r \<le> le_value 256 (map unat (push_digit (of_nat v) bs))"
      using push False uc by (simp add: trans_le_add2)
    then show ?thesis using push False by (simp add: minimal_def)
  qed
qed

section \<open>Decoding is exact\<close>

lemma position_None: "position x xs = None \<longleftrightarrow> x \<notin> set xs"
  by (induction xs) auto

lemma position_Some: "position x xs = Some i \<Longrightarrow> i < length xs \<and> xs ! i = x"
  by (induction xs arbitrary: i) (auto split: if_splits)

lemma length_ALPHABET: "length ALPHABET = 58"
  by (simp add: ALPHABET_def)

lemma base58_value_Cons: "base58_value (c # cs) = 58 ^ length cs * base58_digit c + base58_value cs"
  by (simp add: base58_value_def)

lemma decode_digits_value:
  assumes "minimal bs"
  shows "case decode_digits s bs of
      None \<Rightarrow> \<not> set s \<subseteq> set ALPHABET
    | Some out \<Rightarrow> set s \<subseteq> set ALPHABET \<and> minimal out \<and>
        le_value 256 (map unat out) = 58 ^ length s * le_value 256 (map unat bs) + base58_value s"
  using assms
proof (induction s arbitrary: bs)
  case (Cons c cs)
  show ?case
  proof (cases "position c ALPHABET")
    case None
    then show ?thesis using position_None [of c ALPHABET] by simp
  next
    case (Some v)
    then have v: "v < 58" "c \<in> set ALPHABET"
      using position_Some length_ALPHABET by (metis, metis nth_mem)
    note step = push_digit_value [OF v(1) Cons.prems]
    show ?thesis
      using Cons.IH [OF step(2)] Some v(2) unfolding step(1) base58_value_Cons
      by (simp add: base58_digit_def algebra_simps split: option.splits)
  qed
qed (simp add: base58_value_def)

lemma minimal_zero: "minimal [0]"
  by (simp add: minimal_def)

lemma minimal_last: "minimal out \<Longrightarrow> 1 < length out \<Longrightarrow> last out \<noteq> 0"
proof
  assume m: "minimal out" "1 < length out" "last out = 0"
  then have out: "out = butlast out @ [0]"
    using append_butlast_last_id [of out] by (auto simp: minimal_def)
  have "le_value 256 (map unat out) = le_value 256 (map unat (butlast out))"
    by (subst out) simp
  also have "\<dots> < 256 ^ length (butlast out)"
    by (rule le_bytes_less)
  finally show False using m by (simp add: minimal_def)
qed

lemma pop_zeros_pad:
  assumes "minimal out"
  shows "\<exists>j. pop_zeros (out @ replicate k 0) = out @ replicate j 0 \<and> (length out \<le> 32 \<longrightarrow> length out + j \<le> 32)"
proof (induction k)
  case 0
  then show ?case
    using minimal_last [OF assms] by (intro exI [of _ 0]) (subst pop_zeros.simps, auto)
next
  case (Suc k)
  have app: "out @ replicate (Suc k) 0 = (out @ replicate k 0) @ [0]"
    by (simp add: replicate_append_same)
  show ?case
  proof (cases "32 < length out + Suc k \<and> 1 < length out + Suc k")
    case True
    then have "pop_zeros (out @ replicate (Suc k) 0) = pop_zeros (out @ replicate k 0)"
      unfolding app by (subst pop_zeros.simps) (simp add: butlast_append)
    then show ?thesis using Suc by simp
  next
    case False
    then have "pop_zeros (out @ replicate (Suc k) 0) = out @ replicate (Suc k) 0"
      by (subst pop_zeros.simps) auto
    then show ?thesis using False by (intro exI [of _ "Suc k"]) auto
  qed
qed

lemma minimal_length:
  assumes "minimal out"
  shows "length out \<le> 32 \<longleftrightarrow> le_value 256 (map unat out) < 2 ^ 256"
proof
  assume "length out \<le> 32"
  then have "(256::nat) ^ length out \<le> 256 ^ 32" by (intro power_increasing) simp_all
  moreover have "le_value 256 (map unat out) < 256 ^ length out" by (rule le_bytes_less)
  ultimately show "le_value 256 (map unat out) < 2 ^ 256" by simp
next
  assume v: "le_value 256 (map unat out) < 2 ^ 256"
  show "length out \<le> 32"
  proof (rule ccontr)
    assume "\<not> length out \<le> 32"
    then have n: "32 \<le> length out - 1" "1 < length out" by auto
    have "(256::nat) ^ 32 \<le> 256 ^ (length out - 1)"
      by (rule power_increasing [OF n(1)]) simp
    then have "(256::nat) ^ 32 \<le> le_value 256 (map unat out)"
      using assms n(2) unfolding minimal_def by (meson order_trans)
    then show False using v by simp
  qed
qed

text \<open>
  C24: base58 decoding is exact about values. An answer is the 32-byte big-endian form of the number
  the digits spell, and there is no answer exactly when a character is outside the alphabet or the
  number does not fit 32 bytes. Leading ones, of any count, and short inputs change nothing.
\<close>
theorem decode32_exact:
  "case decode32 s of
     Some out \<Rightarrow> set s \<subseteq> set ALPHABET \<and> length out = 32 \<and> be_value out = base58_value s
   | None \<Rightarrow> \<not> (set s \<subseteq> set ALPHABET \<and> base58_value s < 2 ^ 256)"
proof (cases "decode_digits s [0]")
  case None
  then show ?thesis
    using decode_digits_value [of "[0]" s] by (simp add: decode32_def minimal_def)
next
  case (Some out)
  then have out: "set s \<subseteq> set ALPHABET" "minimal out" "le_value 256 (map unat out) = base58_value s"
    using decode_digits_value [of "[0]" s] minimal_zero by simp_all
  obtain j where j: "pop_zeros (out @ replicate (length (takeWhile (\<lambda>c. c = CHR ''1'') s)) 0) = out @ replicate j 0"
    "length out \<le> 32 \<longrightarrow> length out + j \<le> 32"
    using pop_zeros_pad [OF out(2)] by blast
  show ?thesis
  proof (cases "length out \<le> 32")
    case True
    then have "be_value (replicate (32 - (length out + j)) 0 @ replicate j 0 @ rev out) = base58_value s"
      using out(3) by (simp add: be_value_def)
    then show ?thesis using True Some j out(1) by (simp add: decode32_def add.commute)
  next
    case False
    then show ?thesis
      using Some j(1) minimal_length [OF out(2)] out(3) by (simp add: decode32_def)
  qed
qed

section \<open>The encoder\<close>

lemma carry_digits_value:
  assumes "carry_digits c ds = (r, c')"
  shows "length r = length ds \<and> (\<forall>d \<in> set r. d < 58) \<and>
    le_value 58 r + 58 ^ length ds * c' = 256 * le_value 58 ds + c"
  using assms
proof (induction ds arbitrary: c r c')
  case (Cons d ds)
  obtain r0 where r0: "carry_digits ((c + d * 256) div 58) ds = (r0, c')" "r = (c + d * 256) mod 58 # r0"
    using Cons.prems by (auto simp: Let_def split: prod.splits)
  have ih: "length r0 = length ds" "\<forall>d \<in> set r0. d < 58"
    "le_value 58 r0 + 58 ^ length ds * c' = 256 * le_value 58 ds + (c + d * 256) div 58"
    using Cons.IH [OF r0(1)] by blast+
  have "le_value 58 r + 58 ^ length (d # ds) * c' =
      (c + d * 256) mod 58 + 58 * (le_value 58 r0 + 58 ^ length ds * c')"
    using r0(2) by (simp add: algebra_simps)
  also have "\<dots> = 256 * le_value 58 (d # ds) + c"
    unfolding ih(3) using mod_mult_div_eq [of "c + d * 256" 58] by (simp add: algebra_simps)
  finally show ?case using ih(1,2) r0(2) by simp
qed simp

lemma push_digits_value: "le_value 58 (push_digits c) = c \<and> (\<forall>d \<in> set (push_digits c). d < 58)"
proof (induction c rule: push_digits.induct)
  case (1 c)
  show ?case
    using 1 by (subst (1 2) push_digits.simps) auto
qed

lemma push_byte_value:
  "le_value 58 (push_byte b ds) = 256 * le_value 58 ds + unat b \<and> (\<forall>d \<in> set (push_byte b ds). d < 58)"
  using carry_digits_value [of "unat b" ds] push_digits_value
  by (auto simp: push_byte_def split: prod.splits)

lemma be_value_snoc: "be_value (bs @ [b]) = 256 * be_value bs + unat b"
  by (simp add: be_value_def)

lemma encoder_value:
  "le_value 58 (fold push_byte bs [0]) = be_value bs \<and> (\<forall>d \<in> set (fold push_byte bs [0]). d < 58)"
proof (induction bs rule: rev_induct)
  case Nil
  show ?case by (simp add: be_value_def)
next
  case (snoc b bs)
  then show ?case using push_byte_value [of b "fold push_byte bs [0]"] by (simp add: be_value_snoc)
qed

lemma position_nth: "distinct xs \<Longrightarrow> i < length xs \<Longrightarrow> position (xs ! i) xs = Some i"
  by (induction xs arbitrary: i) (auto simp: nth_Cons split: nat.splits)

lemma base58_digit_ALPHABET: "d < 58 \<Longrightarrow> base58_digit (ALPHABET ! d) = d"
  using position_nth [of ALPHABET d] length_ALPHABET by (simp add: base58_digit_def ALPHABET_def)

lemma encode32_value: "base58_value (encode32 bs) = be_value bs" "set (encode32 bs) \<subseteq> set ALPHABET"
proof -
  note enc = encoder_value [of bs]
  have one: "base58_digit (CHR ''1'') = 0" by (simp add: base58_digit_def ALPHABET_def)
  have "map (base58_digit \<circ> (!) ALPHABET) (fold push_byte bs [0]) = fold push_byte bs [0]"
    using enc base58_digit_ALPHABET by (intro map_idI) simp
  then show "base58_value (encode32 bs) = be_value bs"
    using enc one by (simp add: base58_value_def encode32_def rev_map comp_def)
  have "CHR ''1'' \<in> set ALPHABET" by (simp add: ALPHABET_def)
  then show "set (encode32 bs) \<subseteq> set ALPHABET"
    using enc length_ALPHABET by (auto simp: encode32_def)
qed

lemma be_value_inj: "length a = length b \<Longrightarrow> be_value a = be_value b \<Longrightarrow> a = b"
proof -
  assume l: "length a = length b" and v: "be_value a = be_value b"
  have "map unat (rev a) = map unat (rev b)"
    by (rule le_value_inj [of _ _ 256]) (use l v in \<open>auto simp: be_value_def unat_byte_less\<close>)
  then have "rev a = rev b" by (metis map_injective inj_on_def injI unsigned_word_eqI)
  then show "a = b" by simp
qed

text \<open>
  Every 32-byte account id survives encoding and decoding, leading zero bytes included.\<close>
lemma base58_roundtrip:
  assumes "length bs = 32"
  shows "decode32 (encode32 bs) = Some bs"
proof -
  have "be_value bs < 256 ^ 32"
    using le_bytes_less [of "rev bs"] assms by (simp only: be_value_def length_rev)
  then have "base58_value (encode32 bs) < 2 ^ 256"
    by (simp add: encode32_value(1))
  then obtain out where "decode32 (encode32 bs) = Some out" "length out = 32" "be_value out = be_value bs"
    using decode32_exact [of "encode32 bs"] encode32_value by (auto split: option.splits)
  then show ?thesis using be_value_inj assms by metis
qed

lemma decode32_value_cong:
  assumes "set s \<subseteq> set ALPHABET \<longleftrightarrow> set t \<subseteq> set ALPHABET" "base58_value s = base58_value t"
  shows "decode32 s = decode32 t"
proof (cases "decode32 s")
  case None
  then have "\<not> (set t \<subseteq> set ALPHABET \<and> base58_value t < 2 ^ 256)"
    using decode32_exact [of s] assms by simp
  moreover have "base58_value t < 2 ^ 256 \<and> set t \<subseteq> set ALPHABET" if "decode32 t = Some out" for out
    using decode32_exact [of t] that le_bytes_less [of "rev out"]
    by (simp add: be_value_def)
  ultimately show ?thesis using None by (cases "decode32 t") auto
next
  case (Some out)
  then have o: "set t \<subseteq> set ALPHABET" "length out = 32" "be_value out = base58_value t"
    using decode32_exact [of s] assms by simp_all
  then have "base58_value t < 2 ^ 256"
    using le_bytes_less [of "rev out"] by (simp add: be_value_def)
  then obtain out' where "decode32 t = Some out'" "length out' = 32" "be_value out' = base58_value t"
    using decode32_exact [of t] o(1) by (cases "decode32 t") simp_all
  then show ?thesis using Some o be_value_inj by metis
qed

lemma leading_ones_ignored: "decode32 (CHR ''1'' # s) = decode32 s"
  by (rule decode32_value_cong) (simp_all add: base58_value_Cons base58_digit_def ALPHABET_def)

end
