(* ===== verification/Lez_Core.thy ===== *)
theory Lez_Core
  imports Proof_Engine Base58
begin

text \<open>
  The registry module's core logic (\<open>rln_core.rs\<close>): pre-flight checks of a registration, the byte
  offsets of the config account, tree roots and Merkle proofs read from one shard, the plan of a
  registration, and the lifecycle of a membership. The on-chain layouts are third-party code
  (\<open>rln_layouts\<close>, a git dependency): offsets, sizes, the tree header parser, the sparse node reader,
  the seed functions, the borsh codecs and the guest's lifecycle boundaries are the record \<open>layouts\<close>.
  Slices read past a length check are total here; the checks that make them safe are in the code.
\<close>

section \<open>The layouts crate\<close>

record tree_header =
  th_depth :: byte
  th_root :: bytes
  th_history :: "bytes list"
  th_next_index :: u64

record membership_data =
  md_id_commitment :: bytes
  md_rate_limit :: u64
  md_grace_start_ms :: u64
  md_grace_duration_sec :: u32

record register_args =
  ra_tree_id :: bytes
  ra_id_commitment :: bytes
  ra_rate_limit :: u64
  ra_merkle_program_id :: bytes
  ra_now_ms :: u64
  ra_price_per_unit :: u128
  ra_active_duration_sec :: u32
  ra_grace_period_duration_sec :: u32

record layouts =
  ly_config_state_size :: nat
  ly_membership_state_size :: nat
  ly_header_size :: nat
  ly_tree_depth :: nat
  ly_offset_depth :: nat
  ly_offset_root :: nat
  ly_offset_cached_nodes :: nat
  ly_offset_tree_data :: nat
  ly_header :: "bytes \<Rightarrow> tree_header"
  ly_read_sparse_node :: "bytes \<Rightarrow> nat \<Rightarrow> u64 \<Rightarrow> bytes \<Rightarrow> bytes"
  ly_combine_seeds :: "bytes list \<Rightarrow> bytes"
  ly_label_seed :: "string \<Rightarrow> bytes"
  ly_digest :: "bytes \<Rightarrow> bytes"
  ly_membership_de :: "bytes \<Rightarrow> membership_data option"
  ly_register_ser :: "register_args \<Rightarrow> bytes option"
  ly_secs_to_millis :: "u32 \<Rightarrow> u64"
  ly_is_expired :: "u64 \<Rightarrow> u64 \<Rightarrow> u64 \<Rightarrow> bool"
  ly_is_in_grace_period :: "u64 \<Rightarrow> u64 \<Rightarrow> u64 \<Rightarrow> bool"
  ly_min_rate_limit :: u64
  ly_max_rate_limit :: u64
  ly_clock_account :: bytes
  ly_clock_program :: bytes

section \<open>Config fields\<close>

definition CONFIG_OFFSET_MERKLE_PROGRAM_ID :: nat where "CONFIG_OFFSET_MERKLE_PROGRAM_ID = 0"
definition CONFIG_OFFSET_TREE_ID :: nat where "CONFIG_OFFSET_TREE_ID = 32"
definition CONFIG_OFFSET_PRICE_PER_UNIT :: nat where "CONFIG_OFFSET_PRICE_PER_UNIT = 64"
definition CONFIG_OFFSET_TREASURY_ACCOUNT_ID :: nat where "CONFIG_OFFSET_TREASURY_ACCOUNT_ID = 80"
definition CONFIG_OFFSET_TOTAL_REGISTRATIONS :: nat where "CONFIG_OFFSET_TOTAL_REGISTRATIONS = 112"
definition CONFIG_OFFSET_MAX_TOTAL_RATE_LIMIT :: nat where "CONFIG_OFFSET_MAX_TOTAL_RATE_LIMIT = 120"
definition CONFIG_OFFSET_CURRENT_TOTAL_RATE_LIMIT :: nat where "CONFIG_OFFSET_CURRENT_TOTAL_RATE_LIMIT = 128"
definition CONFIG_OFFSET_ACTIVE_DURATION :: nat where "CONFIG_OFFSET_ACTIVE_DURATION = 136"
definition CONFIG_OFFSET_GRACE_DURATION :: nat where "CONFIG_OFFSET_GRACE_DURATION = 140"

definition slice :: "nat \<Rightarrow> nat \<Rightarrow> bytes \<Rightarrow> bytes" where
  "slice start len bs = take len (drop start bs)"

definition config_field_32 :: "bytes \<Rightarrow> nat \<Rightarrow> bytes" where
  "config_field_32 config_data offset = slice offset 32 config_data"

definition config_field_u32 :: "bytes \<Rightarrow> nat \<Rightarrow> u32" where
  "config_field_u32 config_data offset = from_le_bytes (slice offset 4 config_data)"

definition config_field_u64 :: "bytes \<Rightarrow> nat \<Rightarrow> u64" where
  "config_field_u64 config_data offset = from_le_bytes (slice offset 8 config_data)"

definition config_field_u128 :: "bytes \<Rightarrow> nat \<Rightarrow> u128" where
  "config_field_u128 config_data offset = from_le_bytes (slice offset 16 config_data)"

section \<open>Checks before a registration\<close>

definition BN254_R_BE :: bytes where
  "BN254_R_BE =
     [0x30, 0x64, 0x4e, 0x72, 0xe1, 0x31, 0xa0, 0x29, 0xb8, 0x50, 0x45, 0xb6, 0x81, 0x81, 0x58, 0x5d,
      0x28, 0x33, 0xe8, 0x48, 0x79, 0xb9, 0x70, 0x91, 0x43, 0xe1, 0xf5, 0x93, 0xf0, 0x00, 0x00, 0x01]"

fun bytes_less :: "bytes \<Rightarrow> bytes \<Rightarrow> bool" where
  "bytes_less [] ys = (ys \<noteq> [])"
| "bytes_less (x # xs) [] = False"
| "bytes_less (x # xs) (y # ys) = (x < y \<or> x = y \<and> bytes_less xs ys)"

definition is_field_element_le :: "bytes \<Rightarrow> bool" where
  "is_field_element_le bs = bytes_less (rev bs) BN254_R_BE"

definition check_register :: "layouts \<Rightarrow> bytes \<Rightarrow> u64 \<Rightarrow> bytes \<Rightarrow> u64 \<Rightarrow> string + unit" where
  "check_register ly config_data next_index id_commitment rate_limit =
     (if id_commitment = replicate 32 0 then Inl ''invalid_commitment: the identity commitment is zero''
      else if \<not> is_field_element_le id_commitment
      then Inl (''invalid_commitment: the identity commitment is not a BN254 field element '' @
             ''(as little-endian bytes it is >= the modulus)'')
      else if \<not> (ly_min_rate_limit ly \<le> rate_limit \<and> rate_limit \<le> ly_max_rate_limit ly)
      then Inl (''invalid_rate_limit: '' @ show_nat (unat rate_limit) @ '' is outside the registry's '' @
             show_nat (unat (ly_min_rate_limit ly)) @ ''..='' @ show_nat (unat (ly_max_rate_limit ly)))
      else
        let current = config_field_u64 config_data CONFIG_OFFSET_CURRENT_TOTAL_RATE_LIMIT;
            max_total = config_field_u64 config_data CONFIG_OFFSET_MAX_TOTAL_RATE_LIMIT
        in if max_total < saturating_add current rate_limit
           then Inl (''registry_full: '' @ show_nat (unat current) @ '' of '' @ show_nat (unat max_total) @
                  '' total rate limit is taken, '' @ show_nat (unat rate_limit) @ '' more does not fit'')
           else if push_bit (ly_tree_depth ly) 1 \<le> next_index
           then Inl (''tree_full: all '' @ show_nat (unat (push_bit (ly_tree_depth ly) 1 :: u64)) @ '' leaves are taken'')
           else Inr ())"

section \<open>Roots and Merkle proofs\<close>

datatype rln_error = DataTooShort | InvalidConfig | InvalidLeafIndex | SerializationError

primrec show_rln_error :: "rln_error \<Rightarrow> string" where
  "show_rln_error DataTooShort = ''account data too short''"
| "show_rln_error InvalidConfig = ''invalid config account data''"
| "show_rln_error InvalidLeafIndex = ''invalid leaf index''"
| "show_rln_error SerializationError = ''serialization error''"

definition tree_depth :: "layouts \<Rightarrow> bytes \<Rightarrow> rln_error + byte" where
  "tree_depth ly data =
     (if length data < ly_header_size ly then Inl DataTooShort else Inr (th_depth (ly_header ly data)))"

definition core_valid_roots :: "layouts \<Rightarrow> bytes \<Rightarrow> rln_error + bytes list" where
  "core_valid_roots ly data =
     (if length data < ly_header_size ly then Inl DataTooShort
      else let header = ly_header ly data
           in Inr (th_root header # filter (\<lambda>e. e \<noteq> replicate 32 0) (th_history header)))"

record rln_merkle_proof =
  mp_leaf :: bytes
  mp_root :: bytes
  mp_leaf_index :: u64
  mp_depth :: u32
  mp_path_elements :: "bytes list"
  mp_path_indices :: "byte list"

definition fetch_node :: "layouts \<Rightarrow> bytes \<Rightarrow> nat \<Rightarrow> u64 \<Rightarrow> bytes" where
  "fetch_node ly main_data level node_index =
     ly_read_sparse_node ly (drop (ly_offset_tree_data ly) main_data) level node_index
       (slice (ly_offset_cached_nodes ly + level * 32) 32 main_data)"

fun merkle_path :: "layouts \<Rightarrow> bytes \<Rightarrow> nat \<Rightarrow> u64 \<Rightarrow> (bytes \<times> byte) list" where
  "merkle_path ly main_data 0 current_index = []"
| "merkle_path ly main_data (Suc level) current_index =
     (fetch_node ly main_data (Suc level) (current_index XOR 1), ucast (current_index mod 2)) #
     merkle_path ly main_data level (current_index div 2)"

definition build_merkle_proof :: "layouts \<Rightarrow> bytes \<Rightarrow> u64 \<Rightarrow> rln_error + rln_merkle_proof" where
  "build_merkle_proof ly main_data leaf_index =
     (if length main_data < ly_offset_tree_data ly then Inl DataTooShort
      else
        let depth = unat (main_data ! ly_offset_depth ly)
        in if depth = 0 \<or> ly_tree_depth ly < depth then Inl DataTooShort
           else if depth \<noteq> ly_tree_depth ly then Inl InvalidConfig
           else if push_bit depth 1 \<le> leaf_index then Inl InvalidLeafIndex
           else let path = merkle_path ly main_data depth leaf_index
                in Inr \<lparr> mp_leaf = fetch_node ly main_data depth leaf_index,
                     mp_root = slice (ly_offset_root ly) 32 main_data,
                     mp_leaf_index = leaf_index, mp_depth = of_nat depth,
                     mp_path_elements = map fst path, mp_path_indices = map snd path \<rparr>)"

section \<open>Accounts and plans\<close>

definition PDA_PREFIX :: bytes where
  "PDA_PREFIX = as_bytes ''/LEE/v0.2/AccountId/PDA/'' @ replicate 8 0"

definition derive_pda :: "layouts \<Rightarrow> bytes \<Rightarrow> bytes \<Rightarrow> bytes" where
  "derive_pda ly program_id pda_seed = ly_digest ly (PDA_PREFIX @ program_id @ pda_seed)"

definition tree_main_account_id :: "layouts \<Rightarrow> bytes \<Rightarrow> bytes \<Rightarrow> rln_error + bytes" where
  "tree_main_account_id ly config_data registration_program =
     (if length config_data \<noteq> ly_config_state_size ly then Inl InvalidConfig
      else Inr (derive_pda ly registration_program
             (ly_combine_seeds ly [ly_label_seed ly ''main'', config_field_32 config_data CONFIG_OFFSET_TREE_ID])))"

definition proof_json :: "rln_merkle_proof \<Rightarrow> json" where
  "proof_json p = JObj
     [(''depth'', JInt (uint (mp_depth p))), (''leaf'', JStr (bytes_to_hex (mp_leaf p))), (''leaf_index'', j_u64 (mp_leaf_index p)),
      (''path_elements'', JArr (map (\<lambda>e. JStr (bytes_to_hex e)) (mp_path_elements p))),
      (''path_indices'', JArr (map (\<lambda>b. j_u64 (ucast b)) (mp_path_indices p))), (''root'', JStr (bytes_to_hex (mp_root p)))]"

fun merkle_proofs_exec :: "layouts \<Rightarrow> bytes \<Rightarrow> u64 list \<Rightarrow> rln_error + rln_merkle_proof list" where
  "merkle_proofs_exec ly main_data [] = Inr []"
| "merkle_proofs_exec ly main_data (i # is) =
     and_then (build_merkle_proof ly main_data i) (\<lambda>p.
     and_then (merkle_proofs_exec ly main_data is) (\<lambda>ps. Inr (p # ps)))"

record register_plan =
  rp_config_account_id :: bytes
  rp_tree_main_account_id :: bytes
  rp_treasury_account_id :: bytes
  rp_membership_account_id :: bytes
  rp_tree_id :: bytes
  rp_merkle_program_id :: bytes
  rp_next_leaf_index :: u64
  rp_price_per_unit :: u128
  rp_active_duration_sec :: u32
  rp_grace_period_duration_sec :: u32

definition register_plan_of :: "layouts \<Rightarrow> bytes \<Rightarrow> bytes \<Rightarrow> bytes \<Rightarrow> bytes \<Rightarrow> rln_error + register_plan" where
  "register_plan_of ly config_data tree_main_data registration_program id_commitment =
     (if length config_data \<noteq> ly_config_state_size ly then Inl InvalidConfig
      else if length tree_main_data < ly_header_size ly then Inl DataTooShort
      else
        let tree_id = config_field_32 config_data CONFIG_OFFSET_TREE_ID;
            pda = (\<lambda>seeds. derive_pda ly registration_program (ly_combine_seeds ly seeds))
        in Inr \<lparr> rp_config_account_id = pda [ly_label_seed ly ''config'', tree_id],
             rp_tree_main_account_id = pda [ly_label_seed ly ''main'', tree_id],
             rp_treasury_account_id = config_field_32 config_data CONFIG_OFFSET_TREASURY_ACCOUNT_ID,
             rp_membership_account_id = pda [ly_label_seed ly ''membership'', tree_id, id_commitment],
             rp_tree_id = tree_id,
             rp_merkle_program_id = config_field_32 config_data CONFIG_OFFSET_MERKLE_PROGRAM_ID,
             rp_next_leaf_index = th_next_index (ly_header ly tree_main_data),
             rp_price_per_unit = config_field_u128 config_data CONFIG_OFFSET_PRICE_PER_UNIT,
             rp_active_duration_sec = config_field_u32 config_data CONFIG_OFFSET_ACTIVE_DURATION,
             rp_grace_period_duration_sec = config_field_u32 config_data CONFIG_OFFSET_GRACE_DURATION \<rparr>)"

definition register_build_instruction ::
  "layouts \<Rightarrow> register_plan \<Rightarrow> bytes \<Rightarrow> u64 \<Rightarrow> u64 \<Rightarrow> rln_error + bytes"
where
  "register_build_instruction ly plan id_commitment rate_limit now_ms =
     ok_or SerializationError (ly_register_ser ly
       \<lparr> ra_tree_id = rp_tree_id plan, ra_id_commitment = id_commitment, ra_rate_limit = rate_limit,
         ra_merkle_program_id = rp_merkle_program_id plan, ra_now_ms = now_ms,
         ra_price_per_unit = rp_price_per_unit plan, ra_active_duration_sec = rp_active_duration_sec plan,
         ra_grace_period_duration_sec = rp_grace_period_duration_sec plan \<rparr>)"

section \<open>Memberships\<close>

definition registration_leaf :: "('fr, 'zp) zerokit \<Rightarrow> bytes \<Rightarrow> u64 \<Rightarrow> bytes option" where
  "registration_leaf zk id_commitment rate_limit =
     (case zk_fr_de zk id_commitment of
        Inl _ \<Rightarrow> None
      | Inr i \<Rightarrow> Some (zk_fr_ser zk (zk_hash_pair zk i (zk_fr_of_u64 zk rate_limit))))"

fun find_newest :: "(nat \<Rightarrow> bool) \<Rightarrow> nat \<Rightarrow> nat option" where
  "find_newest P 0 = None"
| "find_newest P (Suc n) = (if P n then Some n else find_newest P n)"

definition find_leaf_index :: "layouts \<Rightarrow> bytes \<Rightarrow> bytes \<Rightarrow> u64 option" where
  "find_leaf_index ly main_data leaf =
     (if length main_data < ly_offset_tree_data ly \<or> unat (main_data ! ly_offset_depth ly) \<noteq> ly_tree_depth ly then None
      else
        let next_index = min (th_next_index (ly_header ly main_data)) (push_bit (ly_tree_depth ly) 1)
        in map_option of_nat
             (find_newest (\<lambda>i. fetch_node ly main_data (ly_tree_depth ly) (of_nat i) = leaf) (unat next_index)))"

definition decode_membership :: "layouts \<Rightarrow> bytes \<Rightarrow> rln_error + membership_data" where
  "decode_membership ly account_data =
     (if length account_data < ly_membership_state_size ly then Inl DataTooShort
      else ok_or SerializationError (ly_membership_de ly (take (ly_membership_state_size ly) account_data)))"

definition decode_clock_timestamp_ms :: "bytes \<Rightarrow> rln_error + u64" where
  "decode_clock_timestamp_ms account_data =
     (if length account_data < 16 then Inl DataTooShort else Inr (from_le_bytes (slice 8 8 account_data)))"

definition membership_status :: "layouts \<Rightarrow> u64 \<Rightarrow> u32 \<Rightarrow> u64 \<Rightarrow> string" where
  "membership_status ly grace_start_ms grace_duration_sec now_ms =
     (let grace_ms = ly_secs_to_millis ly grace_duration_sec in
      if ly_is_expired ly grace_start_ms grace_ms now_ms then ''expired''
      else if ly_is_in_grace_period ly grace_start_ms grace_ms now_ms then ''grace_period''
      else ''active'')"

section \<open>A path leads to the root\<close>

text \<open>
  What the merkle program keeps: every node of the shard is the serialization of a field element,
  an inner node is the hash of its children, and the header's root is the node at level 0.
\<close>

definition hashed_tree :: "('fr, 'zp) zerokit \<Rightarrow> layouts \<Rightarrow> bytes \<Rightarrow> (nat \<Rightarrow> nat \<Rightarrow> 'fr) \<Rightarrow> bool" where
  "hashed_tree zk ly data node \<longleftrightarrow>
     (\<forall>level i. level \<le> ly_tree_depth ly \<longrightarrow> i < 2 ^ level \<longrightarrow> fetch_node ly data level (of_nat i) = zk_fr_ser zk (node level i)) \<and>
     (\<forall>level i. level < ly_tree_depth ly \<longrightarrow> i < 2 ^ level \<longrightarrow>
        node level i = zk_hash_pair zk (node (Suc level) (2 * i)) (node (Suc level) (2 * i + 1))) \<and>
     slice (ly_offset_root ly) 32 data = zk_fr_ser zk (node 0 0)"

lemma even_unat: "even (unat (c :: u64)) \<longleftrightarrow> even c"
  using bit_unsigned_iff [where 'a = nat, of c 0] by (auto simp: bit_0)

lemma sibling_index:
  fixes c :: u64
  shows "unat (c XOR 1) = (if even (unat c) then unat c + 1 else unat c - 1)"
proof (cases "even (unat c)")
  case True
  then have ev: "even c" by (simp add: even_unat)
  have "unat c < 2 ^ 64" using unsigned_less [of c] by simp
  moreover have "unat c \<noteq> 2 ^ 64 - 1" using True by auto
  ultimately have "unat (c + 1) = unat c + 1" by (subst unat_add_lem [THEN iffD1]) simp_all
  then show ?thesis using True ev by (simp add: xor_one_eq)
next
  case False
  then have od: "odd c" by (simp add: even_unat)
  then have "c \<noteq> 0" by auto
  then have "unat (c - 1) = unat c - 1" by (simp add: unat_minus_one)
  then show ?thesis using False od by (simp add: xor_one_eq)
qed

lemma path_bit: "(ucast ((c :: u64) mod 2) :: byte) = (if even (unat c) then 0 else 1)"
proof -
  have "c mod 2 = (if even c then 0 else 1)" by (simp add: mod2_eq_if)
  then show ?thesis by (simp add: even_unat)
qed

lemma merkle_path_root:
  assumes "hashed_tree zk ly data node" "level \<le> ly_tree_depth ly" "unat c < 2 ^ level"
  shows "\<exists>els. map fst (merkle_path ly data level c) = map (zk_fr_ser zk) els \<and> length els = level \<and>
    merkle_root zk (node level (unat c)) (zip els (map snd (merkle_path ly data level c))) = node 0 0"
  using assms(2,3)
proof (induction level arbitrary: c)
  case 0
  then show ?case by (simp add: merkle_root_def)
next
  case (Suc level)
  let ?s = "unat (c XOR 1)"
  have half: "unat (c div 2) = unat c div 2" by (simp add: unat_div)
  have bound: "unat c div 2 < 2 ^ level" "?s < 2 ^ Suc level"
    using Suc.prems(2) by (auto simp: sibling_index less_mult_imp_div_less)
  obtain els where els: "map fst (merkle_path ly data level (c div 2)) = map (zk_fr_ser zk) els" "length els = level"
    "merkle_root zk (node level (unat c div 2)) (zip els (map snd (merkle_path ly data level (c div 2)))) = node 0 0"
    using Suc.IH [of "c div 2"] Suc.prems(1) bound(1) unfolding half by auto
  have sib: "fetch_node ly data (Suc level) (c XOR 1) = zk_fr_ser zk (node (Suc level) ?s)"
  proof -
    have "fetch_node ly data (Suc level) (of_nat ?s) = zk_fr_ser zk (node (Suc level) ?s)"
      using assms(1) Suc.prems(1) bound(2) unfolding hashed_tree_def by blast
    then show ?thesis by simp
  qed
  have parent: "node level (unat c div 2) =
      zk_hash_pair zk (node (Suc level) (2 * (unat c div 2))) (node (Suc level) (2 * (unat c div 2) + 1))"
    using assms(1) Suc.prems(1) bound(1) unfolding hashed_tree_def by (metis Suc_le_lessD)
  show ?case
  proof (cases "even (unat c)")
    case True
    then have "2 * (unat c div 2) = unat c" "?s = unat c + 1" by (simp_all add: sibling_index)
    then show ?thesis
      using els sib parent True
      by (intro exI [of _ "node (Suc level) ?s # els"]) (simp add: merkle_root_def path_bit)
  next
    case False
    then have "2 * (unat c div 2) + 1 = unat c" "2 * (unat c div 2) = ?s" by (simp_all add: sibling_index)
    then show ?thesis
      using els sib parent False
      by (intro exI [of _ "node (Suc level) ?s # els"]) (simp add: merkle_root_def path_bit)
  qed
qed

lemma length_merkle_path: "length (merkle_path ly data level c) = level"
  by (induction level arbitrary: c) simp_all

lemma build_merkle_proof_ok:
  "build_merkle_proof ly data i = Inr p \<longleftrightarrow>
     ly_offset_tree_data ly \<le> length data \<and> 0 < ly_tree_depth ly \<and>
     unat (data ! ly_offset_depth ly) = ly_tree_depth ly \<and> i < push_bit (ly_tree_depth ly) 1 \<and>
     p = \<lparr> mp_leaf = fetch_node ly data (ly_tree_depth ly) i, mp_root = slice (ly_offset_root ly) 32 data,
       mp_leaf_index = i, mp_depth = of_nat (ly_tree_depth ly),
       mp_path_elements = map fst (merkle_path ly data (ly_tree_depth ly) i),
       mp_path_indices = map snd (merkle_path ly data (ly_tree_depth ly) i) \<rparr>"
  by (auto simp: build_merkle_proof_def Let_def)

lemma unat_leaves: "n < 64 \<Longrightarrow> unat (push_bit n 1 :: u64) = 2 ^ n"
proof -
  assume n: "n < 64"
  then have "unat (of_nat (2 ^ n) :: u64) = 2 ^ n"
    by (subst unsigned_of_nat) simp
  then show ?thesis by (simp add: push_bit_eq_mult)
qed

lemma merkle_proof_folds:
  assumes "hashed_tree zk ly data node" "build_merkle_proof ly data i = Inr p" "ly_tree_depth ly < 64"
  shows "\<exists>els. mp_path_elements p = map (zk_fr_ser zk) els \<and> length els = ly_tree_depth ly \<and>
    length (mp_path_indices p) = ly_tree_depth ly \<and> mp_leaf p = zk_fr_ser zk (node (ly_tree_depth ly) (unat i)) \<and>
    mp_root p = zk_fr_ser zk (merkle_root zk (node (ly_tree_depth ly) (unat i)) (zip els (mp_path_indices p)))"
proof -
  have p: "p = \<lparr> mp_leaf = fetch_node ly data (ly_tree_depth ly) i, mp_root = slice (ly_offset_root ly) 32 data,
       mp_leaf_index = i, mp_depth = of_nat (ly_tree_depth ly),
       mp_path_elements = map fst (merkle_path ly data (ly_tree_depth ly) i),
       mp_path_indices = map snd (merkle_path ly data (ly_tree_depth ly) i) \<rparr>"
    and i: "i < push_bit (ly_tree_depth ly) 1"
    using assms(2) unfolding build_merkle_proof_ok by blast+
  have bound: "unat i < 2 ^ ly_tree_depth ly"
    using i unat_leaves [OF assms(3)] by (simp add: word_less_nat_alt)
  have "fetch_node ly data (ly_tree_depth ly) (of_nat (unat i)) = zk_fr_ser zk (node (ly_tree_depth ly) (unat i))"
    "slice (ly_offset_root ly) 32 data = zk_fr_ser zk (node 0 0)"
    using assms(1) bound unfolding hashed_tree_def by blast+
  then show ?thesis
    using merkle_path_root [OF assms(1) order_refl bound] unfolding p by (auto simp: length_merkle_path)
qed

lemma find_newest_Some: "find_newest P n = Some i \<longleftrightarrow> i < n \<and> P i \<and> (\<forall>j. i < j \<longrightarrow> j < n \<longrightarrow> \<not> P j)"
  by (induction n) (auto simp: less_Suc_eq)

lemma find_newest_None: "find_newest P n = None \<longleftrightarrow> (\<forall>j < n. \<not> P j)"
  by (induction n) (auto simp: less_Suc_eq)

text \<open>
  The path served for a registered member verifies. On a properly hashed shard, the slot
  \<open>find_leaf_index\<close> reports for a member's leaf always has a Merkle proof, the proof is of that leaf,
  and hashing the rate commitment the circuit recomputes from the member's commitment and rate limit
  up along the served elements and indices gives the root served with it.
\<close>
lemma registered_path_verifies:
  assumes "hashed_tree zk ly data node" "fr_roundtrip zk" "0 < ly_tree_depth ly" "ly_tree_depth ly < 64"
    and "zk_fr_de zk id_commitment = Inr idc" "registration_leaf zk id_commitment rate_limit = Some leaf"
    and "find_leaf_index ly data leaf = Some i"
  shows "\<exists>p els. build_merkle_proof ly data i = Inr p \<and> mp_leaf p = leaf \<and>
    mp_path_elements p = map (zk_fr_ser zk) els \<and> length els = ly_tree_depth ly \<and> length (mp_path_indices p) = ly_tree_depth ly \<and>
    mp_root p = zk_fr_ser zk
      (merkle_root zk (zk_hash_pair zk idc (zk_fr_of_u64 zk rate_limit)) (zip els (mp_path_indices p)))"
proof -
  let ?d = "ly_tree_depth ly"
  let ?next = "min (th_next_index (ly_header ly data)) (push_bit ?d 1)"
  obtain k where k: "find_newest (\<lambda>j. fetch_node ly data ?d (of_nat j) = leaf) (unat ?next) = Some k" "i = of_nat k"
    and g: "ly_offset_tree_data ly \<le> length data" "unat (data ! ly_offset_depth ly) = ?d"
    using assms(7) by (auto simp: find_leaf_index_def Let_def split: if_splits)
  have fk: "k < unat ?next" "fetch_node ly data ?d (of_nat k) = leaf"
    using k(1) unfolding find_newest_Some by blast+
  have "unat ?next \<le> unat (push_bit ?d 1 :: u64)" by (simp add: word_le_nat_alt [symmetric])
  then have kb: "k < 2 ^ ?d" using fk(1) unat_leaves [OF assms(4)] by simp
  have "(2::nat) ^ ?d < 2 ^ 64" using assms(4) by (intro power_strict_increasing) simp_all
  then have ui: "unat i = k" using kb unfolding k(2) by (subst unsigned_of_nat) (simp add: take_bit_nat_eq_self)
  then have "i < push_bit ?d 1" using kb unat_leaves [OF assms(4)] by (simp add: word_less_nat_alt)
  then obtain p where p: "build_merkle_proof ly data i = Inr p"
    using build_merkle_proof_ok g assms(3) by blast
  obtain els where els: "mp_path_elements p = map (zk_fr_ser zk) els" "length els = ?d" "length (mp_path_indices p) = ?d"
    "mp_leaf p = zk_fr_ser zk (node ?d k)"
    "mp_root p = zk_fr_ser zk (merkle_root zk (node ?d k) (zip els (mp_path_indices p)))"
    using merkle_proof_folds [OF assms(1) p assms(4)] ui by auto
  have leaf: "mp_leaf p = leaf"
    using p fk(2) k(2) unfolding build_merkle_proof_ok by simp
  have "leaf = zk_fr_ser zk (zk_hash_pair zk idc (zk_fr_of_u64 zk rate_limit))"
    using assms(5,6) by (simp add: registration_leaf_def)
  then have "node ?d k = zk_hash_pair zk idc (zk_fr_of_u64 zk rate_limit)"
    using els(4) leaf assms(2) unfolding fr_roundtrip_def by (metis sum.inject(2))
  then show ?thesis using p leaf els by (intro exI [of _ p] exI [of _ els]) simp
qed

section \<open>What the pre-flight check admits\<close>

definition BN254_R :: nat where
  "BN254_R = 21888242871839275222246405745257275088548364400416034343698204186575808495617"

lemma bytes_less_iff: "length xs = length ys \<Longrightarrow> bytes_less xs ys \<longleftrightarrow> be_value xs < be_value ys"
proof (induction xs ys rule: list_induct2)
  case (Cons x xs y ys)
  have v: "be_value (z # zs) = 256 ^ length zs * unat z + be_value zs" for z zs
    by (simp add: be_value_def)
  have b: "be_value xs < 256 ^ length xs" "be_value ys < 256 ^ length xs"
    using le_bytes_less [of "rev xs"] le_bytes_less [of "rev ys"] Cons.hyps by (simp_all add: be_value_def)
  consider "x < y" | "x = y" | "y < x" by fastforce
  then show ?case
  proof cases
    case 1
    then have "256 ^ length xs * (unat x + 1) \<le> 256 ^ length xs * unat y"
      by (intro mult_le_mono2) (simp add: word_less_nat_alt)
    then show ?thesis using 1 b Cons.hyps by (simp add: v algebra_simps)
  next
    case 2
    then show ?thesis using Cons by (simp add: v)
  next
    case 3
    then have "256 ^ length xs * (unat y + 1) \<le> 256 ^ length xs * unat x"
      by (intro mult_le_mono2) (simp add: word_less_nat_alt)
    moreover have "\<not> x < y" "x \<noteq> y" using 3 by auto
    ultimately show ?thesis using b Cons.hyps by (simp add: v algebra_simps)
  qed
qed simp

lemma BN254_R_BE_value: "be_value BN254_R_BE = BN254_R" "length BN254_R_BE = 32"
  by (simp_all add: BN254_R_BE_def BN254_R_def be_value_def)

lemma field_element_iff: "length bs = 32 \<Longrightarrow> is_field_element_le bs \<longleftrightarrow> be_value (rev bs) < BN254_R"
  using bytes_less_iff [of "rev bs" BN254_R_BE] by (simp add: is_field_element_le_def BN254_R_BE_value)

text \<open>
  The pre-flight check admits exactly the registrations the guest's argument and capacity rules
  allow: a non-zero commitment below the field's modulus, a rate limit in the registry's range, a
  total that fits (without wrapping), and a free leaf.
\<close>
lemma check_register_exact:
  assumes "length id_commitment = 32" "ly_tree_depth ly < 64"
  shows "check_register ly config next_index id_commitment rate = Inr () \<longleftrightarrow>
    0 < be_value (rev id_commitment) \<and> be_value (rev id_commitment) < BN254_R \<and>
    ly_min_rate_limit ly \<le> rate \<and> rate \<le> ly_max_rate_limit ly \<and>
    (unat (config_field_u64 config CONFIG_OFFSET_CURRENT_TOTAL_RATE_LIMIT) + unat rate
       \<le> unat (config_field_u64 config CONFIG_OFFSET_MAX_TOTAL_RATE_LIMIT) \<or>
     config_field_u64 config CONFIG_OFFSET_MAX_TOTAL_RATE_LIMIT = - 1) \<and>
    unat next_index < 2 ^ ly_tree_depth ly"
proof -
  have zero: "id_commitment = replicate 32 0 \<longleftrightarrow> be_value (rev id_commitment) = 0"
  proof
    assume "be_value (rev id_commitment) = 0"
    then show "id_commitment = replicate 32 0"
      using be_value_inj [of "rev id_commitment" "replicate 32 0"] assms(1)
      by (simp add: be_value_def rev_swap)
  qed (simp add: be_value_def)
  have sat: "saturating_add c rate \<le> m \<longleftrightarrow> unat c + unat rate \<le> unat m \<or> m = - 1" for c m :: u64
  proof -
    have "unat m < 2 ^ 64" "m = - 1 \<longleftrightarrow> unat m = 2 ^ 64 - 1"
      using unsigned_less [of m] unat_all_ones [where 'a = 64] by (auto simp: word_unat_eq_iff)
    then show ?thesis
      by (auto simp: word_le_nat_alt unat_saturating_add min_def)
  qed
  have leaves: "next_index < push_bit (ly_tree_depth ly) 1 \<longleftrightarrow> unat next_index < 2 ^ ly_tree_depth ly"
    using unat_leaves [OF assms(2)] by (simp add: word_less_nat_alt)
  have full: "m < saturating_add c rate \<longleftrightarrow> \<not> (unat c + unat rate \<le> unat m \<or> m = - 1)" for c m :: u64
    unfolding sat [symmetric] by (rule linorder_not_le [symmetric])
  have taken: "push_bit (ly_tree_depth ly) 1 \<le> next_index \<longleftrightarrow> \<not> unat next_index < 2 ^ ly_tree_depth ly"
    unfolding leaves [symmetric] by (rule linorder_not_less [symmetric])
  show ?thesis
    unfolding check_register_def Let_def zero field_element_iff [OF assms(1)] full taken by auto
qed

section \<open>A small registry\<close>

definition sample_node :: "nat \<Rightarrow> nat \<Rightarrow> byte" where
  "sample_node level i = (if level = 0 then 81 else if level = 1 then [27, 0] ! i else [1, 24, 0, 0] ! i)"

definition sample_layouts :: layouts where
  "sample_layouts = \<lparr> ly_config_state_size = 144, ly_membership_state_size = 4, ly_header_size = 33, ly_tree_depth = 2,
     ly_offset_depth = 0, ly_offset_root = 1, ly_offset_cached_nodes = 33, ly_offset_tree_data = 129,
     ly_header = (\<lambda>d. \<lparr> th_depth = d ! 0, th_root = slice 1 32 d, th_history = [], th_next_index = 2 \<rparr>),
     ly_read_sparse_node = (\<lambda>nodes level i d. zk_fr_ser sample_zk (sample_node level (unat i))),
     ly_combine_seeds = concat, ly_label_seed = as_bytes, ly_digest = (\<lambda>b. take 32 (drop 32 b)),
     ly_membership_de = (\<lambda>d. Some \<lparr> md_id_commitment = 7 # replicate 31 0, md_rate_limit = 3, md_grace_start_ms = 10, md_grace_duration_sec = 1 \<rparr>),
     ly_register_ser = (\<lambda>a. Some (ra_id_commitment a)), ly_secs_to_millis = (\<lambda>s. ucast s * 1000),
     ly_is_expired = (\<lambda>start dur now. start + dur \<le> now), ly_is_in_grace_period = (\<lambda>start dur now. start \<le> now \<and> now < start + dur),
     ly_min_rate_limit = 1, ly_max_rate_limit = 600, ly_clock_account = replicate 32 9, ly_clock_program = replicate 32 8 \<rparr>"

definition sample_shard :: bytes where
  "sample_shard = 2 # 81 # replicate 127 0"

lemma sample_hashed: "hashed_tree sample_zk sample_layouts sample_shard sample_node"
proof -
  have lt4: "i < 4 \<longleftrightarrow> i = 0 \<or> i = 1 \<or> i = 2 \<or> i = 3" and lt2: "i < 2 \<longleftrightarrow> i = 0 \<or> i = 1" for i :: nat by auto
  have nodes: "fetch_node sample_layouts sample_shard level (of_nat i) = zk_fr_ser sample_zk (sample_node level i)"
    if "level \<le> 2" "i < 2 ^ level" for level i
  proof -
    have "(2::nat) ^ level \<le> 2 ^ 2" using that(1) by (intro power_increasing) simp_all
    then have "i < 4" using that(2) by simp
    then have "unat (of_nat i :: u64) = i" by (subst unsigned_of_nat) (simp add: take_bit_nat_eq_self)
    then show ?thesis by (simp add: fetch_node_def sample_layouts_def)
  qed
  have inner: "sample_node level i = zk_hash_pair sample_zk (sample_node (Suc level) (2 * i)) (sample_node (Suc level) (2 * i + 1))"
    if "level < 2" "i < 2 ^ level" for level i
    using that unfolding lt2 by (auto simp: sample_node_def sample_zk_def lt2)
  have "slice (ly_offset_root sample_layouts) 32 sample_shard = zk_fr_ser sample_zk (sample_node 0 0)"
    by (simp add: sample_layouts_def sample_shard_def sample_node_def sample_zk_def slice_def take_Cons')
  moreover have "ly_tree_depth sample_layouts = 2" by (simp add: sample_layouts_def)
  ultimately show ?thesis using nodes inner by (simp add: hashed_tree_def)
qed

lemma sample_find: "find_leaf_index sample_layouts sample_shard (24 # replicate 31 0) = Some 1"
proof -
  have "fetch_node sample_layouts sample_shard 2 1 = 24 # replicate 31 0"
    by (simp add: sample_layouts_def fetch_node_def sample_node_def sample_zk_def)
  then have "find_newest (\<lambda>i. fetch_node sample_layouts sample_shard 2 (of_nat i) = 24 # replicate 31 0) (Suc 1) = Some 1"
    by (simp only: find_newest.simps of_nat_1 refl if_True)
  moreover have "unat (min 2 (push_bit 2 1) :: u64) = Suc 1" by (simp add: min_def)
  moreover have "ly_tree_depth sample_layouts = 2" "ly_offset_tree_data sample_layouts \<le> length sample_shard"
    "unat (sample_shard ! ly_offset_depth sample_layouts) = 2" "th_next_index (ly_header sample_layouts sample_shard) = 2"
    by (simp_all add: sample_layouts_def sample_shard_def)
  ultimately show ?thesis
    by (simp only: find_leaf_index_def linorder_not_le [symmetric] simp_thms if_False Let_def option.map of_nat_1)
qed

end
