(* ===== verification/Lifecycle.thy ===== *)
theory Lifecycle
  imports Sealed_Format
begin

text \<open>
  Model of \<open>lifecycle.rs\<close>: the membership states and their predicates, the registry-derived
  cache row with its transitions, the membership record, the merge of the registry's report
  with the local record, and the state-change event.
\<close>

section \<open>States\<close>

datatype membership_state =
    Unknown | Pending | Failed | Active | GracePeriod | Expired
  | ErasedAwaitsWithdrawal | Erased | Slashed

definition is_usable :: "membership_state \<Rightarrow> bool" where
  "is_usable s \<longleftrightarrow> s = Active \<or> s = GracePeriod"

definition is_live :: "membership_state \<Rightarrow> bool" where
  "is_live s \<longleftrightarrow> s = Pending \<or> is_usable s"

definition is_active_like :: "membership_state \<Rightarrow> bool" where
  "is_active_like s \<longleftrightarrow>
     s = Active \<or> s = GracePeriod \<or> s = Expired \<or> s = ErasedAwaitsWithdrawal \<or> s = Erased \<or> s = Slashed"

primrec state_wire :: "membership_state \<Rightarrow> string" where
  "state_wire Unknown = ''unknown''"
| "state_wire Pending = ''pending''"
| "state_wire Failed = ''failed''"
| "state_wire Active = ''active''"
| "state_wire GracePeriod = ''grace_period''"
| "state_wire Expired = ''expired''"
| "state_wire ErasedAwaitsWithdrawal = ''erased_awaits_withdrawal''"
| "state_wire Erased = ''erased''"
| "state_wire Slashed = ''slashed''"

definition state_of_wire :: "string \<Rightarrow> membership_state option" where
  "state_of_wire s =
     (if s = ''unknown'' then Some Unknown else if s = ''pending'' then Some Pending
      else if s = ''failed'' then Some Failed else if s = ''active'' then Some Active
      else if s = ''grace_period'' then Some GracePeriod else if s = ''expired'' then Some Expired
      else if s = ''erased_awaits_withdrawal'' then Some ErasedAwaitsWithdrawal
      else if s = ''erased'' then Some Erased else if s = ''slashed'' then Some Slashed else None)"

section \<open>Records\<close>

record stored_credential =
  sc_identity_commitment :: string
  sc_identity_secret_hash :: string
  sc_registry_id :: string

definition CONFIRMATION_WINDOW_SECS :: u64 where
  "CONFIRMATION_WINDOW_SECS = 300"

record cache_state =
  cs_state :: membership_state
  cs_leaf_index :: "u64 option"
  cs_rate_limit :: "u64 option"
  cs_failed_reason :: "string option"
  cs_retryable :: "bool option"
  cs_tx_result :: "string option"
  cs_first_active_at :: "u64 option"

definition default_cache_state :: cache_state where
  "default_cache_state =
     \<lparr> cs_state = Unknown, cs_leaf_index = None, cs_rate_limit = None, cs_failed_reason = None,
       cs_retryable = None, cs_tx_result = None, cs_first_active_at = None \<rparr>"

definition mark_submit_failed :: "string \<Rightarrow> bool \<Rightarrow> cache_state \<Rightarrow> cache_state" where
  "mark_submit_failed message retryable c =
     c \<lparr> cs_state := Failed, cs_failed_reason := Some (''submit_failed: '' @ message),
         cs_retryable := Some retryable \<rparr>"

definition record_async_submit_error :: "string \<Rightarrow> bool \<Rightarrow> cache_state \<Rightarrow> cache_state" where
  "record_async_submit_error message retryable c =
     (if cs_state c \<noteq> Pending \<or> retryable then c else mark_submit_failed message retryable c)"

record membership_record =
  mr_hash :: string
  mr_identity :: identity_block
  mr_cache :: cache_state
  mr_alloc :: allocation_state
  mr_quarantined :: bool

section \<open>Merged state and events\<close>

definition has_been_active :: "membership_record \<Rightarrow> bool" where
  "has_been_active r \<longleftrightarrow>
     cs_first_active_at (mr_cache r) \<noteq> None \<or> is_active_like (cs_state (mr_cache r))"

fun merge_state ::
  "membership_record option \<Rightarrow> membership_state option \<Rightarrow> u64 \<Rightarrow> membership_state"
where
  "merge_state None None now = Unknown"
| "merge_state _ (Some st) now = st"
| "merge_state (Some r) None now =
     (if cs_state (mr_cache r) = Pending
      then (if saturating_sub now (ib_submitted_at (mr_identity r)) > CONFIRMATION_WINDOW_SECS
            then Failed else Pending)
      else if has_been_active r then Erased
      else cs_state (mr_cache r))"

definition transition_event ::
  "string \<Rightarrow> membership_record \<Rightarrow> membership_state \<Rightarrow> membership_state \<Rightarrow>
     (string \<times> string \<times> string \<times> string \<times> string) option"
where
  "transition_event hash r prior new_state =
     (if new_state = prior then None
      else Some (ib_registry_id (mr_identity r), ib_rln_identifier (mr_identity r), hash,
                 state_wire new_state, state_wire prior))"

section \<open>The cache file\<close>

definition FORMAT_CACHE :: string where "FORMAT_CACHE = ''rln-sealed-cache''"

record cache_file =
  cf_format :: string
  cf_version :: u32
  cf_entries :: "(string, cache_state) btmap"

definition cache_file_new :: cache_file where
  "cache_file_new = \<lparr> cf_format = FORMAT_CACHE, cf_version = FORMAT_VERSION, cf_entries = [] \<rparr>"

section \<open>Lemmas\<close>

lemma state_of_wire_wire [simp]: "state_of_wire (state_wire s) = Some s"
  by (cases s) (simp_all add: state_of_wire_def)

lemma usable_live: "is_usable s \<Longrightarrow> is_live s"
  by (simp add: is_live_def)

lemma usable_active_like: "is_usable s \<Longrightarrow> is_active_like s"
  by (auto simp: is_usable_def is_active_like_def)

lemma record_async_submit_error_state:
  "cs_state (record_async_submit_error m b c) =
     (if cs_state c = Pending \<and> \<not> b then Failed else cs_state c)"
  by (simp add: record_async_submit_error_def mark_submit_failed_def)

end
