(* ===== verification/Api_Error.thy ===== *)
theory Api_Error
  imports Rust_Text
begin

text \<open>
  The module's error type (\<open>lib.rs\<close>): the fine-grained kinds, their wire strings, the coarse
  class every error envelope carries, and the error value itself. An em dash in a message is
  its three UTF-8 bytes.
\<close>

datatype error_kind =
    UnknownRegistry | UnknownMembership | ProviderFailure | Locked | BadPassword
  | NoUsableMembership | AmbiguousSelection | InvalidArgument | KeychainUnavailable | Internal
  | NotReady | Transient | BudgetExhausted | Permanent

primrec kind_as_str :: "error_kind \<Rightarrow> string" where
  "kind_as_str UnknownRegistry = ''unknown_registry''"
| "kind_as_str UnknownMembership = ''unknown_membership''"
| "kind_as_str ProviderFailure = ''provider_failure''"
| "kind_as_str Locked = ''locked''"
| "kind_as_str BadPassword = ''bad_password''"
| "kind_as_str NoUsableMembership = ''no_usable_membership''"
| "kind_as_str AmbiguousSelection = ''ambiguous_selection''"
| "kind_as_str InvalidArgument = ''invalid_argument''"
| "kind_as_str KeychainUnavailable = ''keychain_unavailable''"
| "kind_as_str Internal = ''internal''"
| "kind_as_str NotReady = ''not_ready''"
| "kind_as_str Transient = ''transient''"
| "kind_as_str BudgetExhausted = ''budget_exhausted''"
| "kind_as_str Permanent = ''permanent''"

primrec kind_class :: "error_kind \<Rightarrow> string" where
  "kind_class NotReady = ''not_ready''"
| "kind_class Locked = ''not_ready''"
| "kind_class Transient = ''transient''"
| "kind_class ProviderFailure = ''transient''"
| "kind_class BudgetExhausted = ''budget_exhausted''"
| "kind_class UnknownRegistry = ''permanent''"
| "kind_class UnknownMembership = ''permanent''"
| "kind_class BadPassword = ''permanent''"
| "kind_class NoUsableMembership = ''permanent''"
| "kind_class AmbiguousSelection = ''permanent''"
| "kind_class InvalidArgument = ''permanent''"
| "kind_class KeychainUnavailable = ''permanent''"
| "kind_class Internal = ''permanent''"
| "kind_class Permanent = ''permanent''"

record api_error =
  ae_kind :: error_kind
  ae_message :: string

definition api_new :: "error_kind \<Rightarrow> string \<Rightarrow> api_error" where
  "api_new k m = \<lparr> ae_kind = k, ae_message = m \<rparr>"

definition api_internal :: "string \<Rightarrow> api_error" where
  "api_internal m = api_new Internal m"

lemma api_new_simps [simp]:
  "ae_kind (api_new k m) = k" "ae_message (api_new k m) = m"
  "ae_kind (api_internal m) = Internal" "ae_message (api_internal m) = m"
  by (simp_all add: api_new_def api_internal_def)

lemma api_new_eq [simp]: "api_new k m = api_new k' m' \<longleftrightarrow> k = k' \<and> m = m'"
  by (simp add: api_new_def)

definition em_dash :: string where
  "em_dash = [CHR 0xE2, CHR 0x80, CHR 0x94]"

end
