(* ===== verification/Views.thy ===== *)
theory Views
  imports Lifecycle Json Api_Error
begin

text \<open>
  The typed replies of \<open>views.rs\<close> as records with the constructors the handlers use. A field the
  source omits when it is \<open>None\<close> is an option here.
\<close>

record membership_view =
  mv_identity_commitment :: string
  mv_epoch_size_mismatch :: "bool option"
  mv_failed_reason :: "string option"
  mv_leaf_index :: u64
  mv_membership_hash :: string
  mv_rate_limit :: u64
  mv_rate_limit_mismatch :: "bool option"
  mv_registry_id :: string
  mv_retryable :: "bool option"
  mv_rln_identifier :: "string option"
  mv_state :: membership_state
  mv_submitted_at :: u64
  mv_tx_result :: "string option"

definition unwrap_or :: "'a \<Rightarrow> 'a option \<Rightarrow> 'a" where
  "unwrap_or d m = (case m of None \<Rightarrow> d | Some x \<Rightarrow> x)"

lemma unwrap_or_simps [simp]: "unwrap_or d None = d" "unwrap_or d (Some x) = x"
  by (simp_all add: unwrap_or_def)

definition then_some :: "bool \<Rightarrow> 'a \<Rightarrow> 'a option" where
  "then_some b x = (if b then Some x else None)"

definition membership_view_new ::
  "string \<Rightarrow> membership_record \<Rightarrow> bool \<Rightarrow> bool \<Rightarrow> bool \<Rightarrow> membership_view"
where
  "membership_view_new hash r quarantined rate_limit_mismatch epoch_size_mismatch =
     (let cache = mr_cache r; identity = mr_identity r;
          (failed_reason, retryable) =
            (if quarantined then (Some ''metadata_tamper'', None)
             else (cs_failed_reason cache, if cs_failed_reason cache = None then None else cs_retryable cache))
      in \<lparr> mv_identity_commitment = ib_identity_commitment identity,
           mv_epoch_size_mismatch = then_some epoch_size_mismatch True,
           mv_failed_reason = failed_reason,
           mv_leaf_index = unwrap_or 0 (cs_leaf_index cache),
           mv_membership_hash = hash,
           mv_rate_limit = unwrap_or 0 (cs_rate_limit cache),
           mv_rate_limit_mismatch = then_some rate_limit_mismatch True,
           mv_registry_id = ib_registry_id identity,
           mv_retryable = retryable,
           mv_rln_identifier = then_some (ib_rln_identifier identity \<noteq> []) (ib_rln_identifier identity),
           mv_state = (if quarantined then Failed else cs_state cache),
           mv_submitted_at = ib_submitted_at identity,
           mv_tx_result = cs_tx_result cache \<rparr>)"

record provisioning_view =
  pw_step :: string
  pw_detail :: string

record membership_state_view =
  sv_leaf_index :: "u64 option"
  sv_membership_hash :: "string option"
  sv_rate_limit :: "u64 option"
  sv_provisioning :: "provisioning_view option"
  sv_registry_id :: string
  sv_state :: membership_state

definition state_view_unknown :: "string \<Rightarrow> membership_state_view" where
  "state_view_unknown registry_id = \<lparr> sv_leaf_index = None, sv_membership_hash = None, sv_rate_limit = None,
     sv_provisioning = None, sv_registry_id = registry_id, sv_state = Unknown \<rparr>"

definition with_provisioning :: "provisioning_view option \<Rightarrow> membership_state_view \<Rightarrow> membership_state_view" where
  "with_provisioning view v = v \<lparr> sv_provisioning := view \<rparr>"

definition state_view_resolved ::
  "string \<Rightarrow> string \<Rightarrow> membership_state \<Rightarrow> u64 \<Rightarrow> u64 \<Rightarrow> membership_state_view"
where
  "state_view_resolved hash registry_id state leaf_index rate_limit =
     \<lparr> sv_leaf_index = Some leaf_index, sv_membership_hash = Some hash, sv_rate_limit = Some rate_limit,
       sv_provisioning = None, sv_registry_id = registry_id, sv_state = state \<rparr>"

record epoch_quota_view =
  eq_epoch_index :: u64
  eq_rate_limit :: u64
  eq_remaining :: u64

definition epoch_quota_view_new :: "u64 \<Rightarrow> u64 \<Rightarrow> u64 \<Rightarrow> epoch_quota_view" where
  "epoch_quota_view_new epoch_index rate_limit remaining_slots =
     \<lparr> eq_epoch_index = epoch_index, eq_rate_limit = rate_limit, eq_remaining = remaining_slots \<rparr>"

record registry_parameters_view =
  gp_epoch_size_sec :: u64
  gp_max_epoch_gap :: u64
  gp_max_rate_limit :: "u64 option"
  gp_max_total_rate_limit :: "u64 option"
  gp_min_rate_limit :: "u64 option"
  gp_price_per_unit :: "json option"

definition registry_parameters_from_bounds :: "u64 \<Rightarrow> u64 \<Rightarrow> json \<Rightarrow> registry_parameters_view" where
  "registry_parameters_from_bounds epoch_size_sec max_epoch_gap bounds =
     \<lparr> gp_epoch_size_sec = epoch_size_sec, gp_max_epoch_gap = max_epoch_gap,
       gp_max_rate_limit = get_u64 bounds ''max_rate_limit'',
       gp_max_total_rate_limit = get_u64 bounds ''max_total_rate_limit'',
       gp_min_rate_limit = get_u64 bounds ''min_rate_limit'',
       gp_price_per_unit = j_get bounds ''price_per_unit'' \<rparr>"

record verdict_reply =
  vr_external_nullifier :: "string option"
  vr_recovered_secret :: "string option"
  vr_verdict :: string

definition verdict :: "string \<Rightarrow> verdict_reply" where
  "verdict v = \<lparr> vr_external_nullifier = None, vr_recovered_secret = None, vr_verdict = v \<rparr>"

definition rate_limit_violation :: "string \<Rightarrow> verdict_reply" where
  "rate_limit_violation recovered_secret =
     \<lparr> vr_external_nullifier = None, vr_recovered_secret = Some recovered_secret,
       vr_verdict = ''rate_limit_violation'' \<rparr>"

definition with_external_nullifier :: "string \<Rightarrow> verdict_reply \<Rightarrow> verdict_reply" where
  "with_external_nullifier en v = v \<lparr> vr_external_nullifier := Some en \<rparr>"

definition error_body :: "api_error \<Rightarrow> json" where
  "error_body e = JObj [(''class'', JStr (kind_class (ae_kind e))), (''kind'', JStr (kind_as_str (ae_kind e))),
     (''message'', JStr (ae_message e))]"

lemma verdict_simps [simp]:
  "vr_verdict (verdict v) = v" "vr_recovered_secret (verdict v) = None"
  "vr_verdict (rate_limit_violation s) = ''rate_limit_violation''" "vr_recovered_secret (rate_limit_violation s) = Some s"
  "vr_verdict (with_external_nullifier en r) = vr_verdict r"
  "vr_recovered_secret (with_external_nullifier en r) = vr_recovered_secret r"
  by (simp_all add: verdict_def rate_limit_violation_def with_external_nullifier_def)

end
