(* ===== verification/Registry_Id.thy ===== *)
theory Registry_Id
  imports Rust_Text
begin

text \<open>
  Model of \<open>registry_id.rs\<close>: parsing and canonicalization of CAIP-10 registry ids and the
  membership hash. SHA-256 is third-party code and a parameter.
\<close>

section \<open>Parsing\<close>

record canonical_registry_id =
  rid_namespace :: string
  rid_reference :: string
  rid_account :: string
  rid_canonical :: string

definition namespace_byte :: "char \<Rightarrow> bool" where
  "namespace_byte b \<longleftrightarrow> is_ascii_lowercase b \<or> is_ascii_digit b \<or> b = CHR ''-''"

definition reference_byte :: "char \<Rightarrow> bool" where
  "reference_byte b \<longleftrightarrow> is_ascii_alphanumeric b \<or> b = CHR ''-'' \<or> b = CHR ''_''"

definition account_byte :: "char \<Rightarrow> bool" where
  "account_byte b \<longleftrightarrow> is_ascii_alphanumeric b \<or> b = CHR ''-'' \<or> b = CHR ''.'' \<or> b = CHR ''%''"

definition parse :: "string \<Rightarrow> string + canonical_registry_id" where
  "parse raw0 =
     (let raw = trim raw0; parts = split_on CHR '':'' raw in
      if length parts \<noteq> 3
      then Inl (''registry_id must be namespace:reference:account_address (CAIP-10), got '' @
                show_nat (length parts) @ '' segment(s)'')
      else
        let namespace = parts ! 0; reference = parts ! 1; account_raw = parts ! 2 in
        if length namespace < 3 \<or> length namespace > 8 \<or> \<not> list_all namespace_byte namespace
        then Inl ''chain namespace must match [-a-z0-9]{3,8}''
        else if reference = [] \<or> length reference > 32 \<or> \<not> list_all reference_byte reference
        then Inl ''chain reference must match [-_a-zA-Z0-9]{1,32}''
        else
          let reference = (if namespace = ''logos'' then to_ascii_lowercase reference else reference) in
          and_then
            (if namespace = ''logos''
             then (case hex_to_bytes32 account_raw of
                     Some bs \<Rightarrow> Inr (bytes_to_hex bs)
                   | None \<Rightarrow> Inl ''logos account_address must be the 64-hex config account (0x prefix ok)'')
             else if account_raw = [] \<or> length account_raw > 128 \<or> \<not> list_all account_byte account_raw
             then Inl ''account_address must match [-.%a-zA-Z0-9]{1,128}''
             else Inr account_raw)
            (\<lambda>account. Inr \<lparr> rid_namespace = namespace, rid_reference = reference,
               rid_account = account,
               rid_canonical = namespace @ '':'' @ reference @ '':'' @ account \<rparr>))"

section \<open>The membership hash\<close>

definition membership_preimage :: "string \<Rightarrow> bytes \<Rightarrow> bytes" where
  "membership_preimage canonical_registry_id identity_commitment_le =
     as_bytes canonical_registry_id @ [0] @ identity_commitment_le"

definition membership_hash :: "(bytes \<Rightarrow> bytes) \<Rightarrow> string \<Rightarrow> bytes \<Rightarrow> string" where
  "membership_hash sha256 canonical_registry_id identity_commitment_le =
     bytes_to_hex (sha256 (membership_preimage canonical_registry_id identity_commitment_le))"

section \<open>Canonical forms\<close>

lemma byte_classes_graphic:
  "namespace_byte c \<Longrightarrow> is_ascii_graphic c" "reference_byte c \<Longrightarrow> is_ascii_graphic c"
  "account_byte c \<Longrightarrow> is_ascii_graphic c"
  by (auto simp: namespace_byte_def reference_byte_def account_byte_def ascii_defs)

lemma byte_classes_no_colon:
  "\<not> namespace_byte CHR '':''" "\<not> reference_byte CHR '':''" "\<not> account_byte CHR '':''"
  by (simp_all add: namespace_byte_def reference_byte_def account_byte_def ascii_defs)

lemma reference_byte_lower [simp]: "reference_byte c \<Longrightarrow> reference_byte (lower_char c)"
  by (auto simp: reference_byte_def ascii_defs lower_char_def of_char_of)

text \<open>What a successful parse gives: three well-formed segments in canonical case.\<close>

definition canonical_id :: "canonical_registry_id \<Rightarrow> bool" where
  "canonical_id i \<longleftrightarrow>
     3 \<le> length (rid_namespace i) \<and> length (rid_namespace i) \<le> 8 \<and>
     list_all namespace_byte (rid_namespace i) \<and>
     rid_reference i \<noteq> [] \<and> length (rid_reference i) \<le> 32 \<and>
     list_all reference_byte (rid_reference i) \<and>
     list_all account_byte (rid_account i) \<and>
     rid_canonical i = rid_namespace i @ '':'' @ rid_reference i @ '':'' @ rid_account i \<and>
     (if rid_namespace i = ''logos''
      then to_ascii_lowercase (rid_reference i) = rid_reference i \<and>
           (\<exists>bs. length bs = 32 \<and> rid_account i = bytes_to_hex bs)
      else rid_account i \<noteq> [] \<and> length (rid_account i) \<le> 128)"

lemma hex_account_bytes: "list_all account_byte (bytes_to_hex bs)"
  using bytes_to_hex_alphanumeric [of bs] by (auto simp: list_all_iff account_byte_def)

lemma parse_canonical_id:
  assumes "parse raw = Inr i"
  shows "canonical_id i"
  using assms hex_account_bytes
  by (auto simp: parse_def canonical_id_def Let_def result_iffs list_all_iff to_ascii_lowercase_def
      dest: hex_to_bytes32_length split: if_splits option.splits)

lemma canonical_id_account_nonempty: "canonical_id i \<Longrightarrow> rid_account i \<noteq> []"
  by (auto simp: canonical_id_def split: if_splits) (metis length_bytes_to_hex list.size(3) mult_is_0 zero_neq_numeral)

lemma canonical_id_trim:
  assumes "canonical_id i"
  shows "trim (rid_canonical i) = rid_canonical i"
proof (rule trim_graphic)
  have "3 \<le> length (rid_namespace i)" "list_all namespace_byte (rid_namespace i)"
    using assms by (simp_all add: canonical_id_def)
  then have ns: "rid_namespace i \<noteq> []" "namespace_byte (hd (rid_namespace i))"
    by (cases "rid_namespace i"; simp)+
  have "rid_account i \<noteq> []" "list_all account_byte (rid_account i)"
    using assms canonical_id_account_nonempty [OF assms] by (simp_all add: canonical_id_def)
  then have ac: "rid_account i \<noteq> []" "account_byte (last (rid_account i))"
    by (auto simp: list_all_iff)
  show "is_ascii_graphic (hd (rid_canonical i)) \<and> is_ascii_graphic (last (rid_canonical i))"
    using assms ns ac byte_classes_graphic by (auto simp: canonical_id_def)
qed

lemma canonical_id_split:
  assumes "canonical_id i"
  shows "split_on CHR '':'' (rid_canonical i) = [rid_namespace i, rid_reference i, rid_account i]"
proof -
  have "CHR '':'' \<notin> set (rid_namespace i)" "CHR '':'' \<notin> set (rid_reference i)"
    "CHR '':'' \<notin> set (rid_account i)"
    using assms byte_classes_no_colon by (auto simp: canonical_id_def list_all_iff)
  then show ?thesis
    using assms by (simp add: canonical_id_def split_on_append split_on_none)
qed

lemma parse_canonical:
  assumes "canonical_id i"
  shows "parse (rid_canonical i) = Inr i"
proof -
  obtain n r a c where i: "i = \<lparr> rid_namespace = n, rid_reference = r, rid_account = a, rid_canonical = c \<rparr>"
    by (cases i)
  have facts: "trim c = c" "split_on CHR '':'' c = [n, r, a]"
    using canonical_id_trim [OF assms] canonical_id_split [OF assms] by (simp_all add: i)
  have c: "c = n @ '':'' @ r @ '':'' @ a" using assms by (simp add: canonical_id_def i)
  have ok: "\<not> length n < 3" "\<not> length n > 8" "list_all namespace_byte n" "r \<noteq> []"
    "\<not> length r > 32" "list_all reference_byte r" "list_all account_byte a"
    using assms by (simp_all add: canonical_id_def i)
  show ?thesis
  proof (cases "n = ''logos''")
    case True
    then obtain bs where "length bs = 32" "a = bytes_to_hex bs" "to_ascii_lowercase r = r"
      using assms by (auto simp: canonical_id_def i)
    then show ?thesis using True facts ok by (simp add: parse_def Let_def i c [symmetric]) (simp add: c)
  next
    case False
    then have "a \<noteq> []" "\<not> length a > 128" using assms by (simp_all add: canonical_id_def i)
    then show ?thesis using False facts ok by (simp add: parse_def Let_def i c [symmetric]) (simp add: c)
  qed
qed

lemma membership_preimage_inj:
  assumes "length c = 32" "length c' = 32" "membership_preimage r c = membership_preimage r' c'"
  shows "r = r' \<and> c = c'"
proof -
  have "c = c'" "as_bytes r @ [0] = as_bytes r' @ [0]"
    using assms append_eq_append_conv [of c c' "as_bytes r @ [0]" "as_bytes r' @ [0]"]
    by (simp_all add: membership_preimage_def)
  then show ?thesis by simp
qed

section \<open>Properties\<close>

text \<open>
  C12: canonicalization is a projection onto canonical ids. Every id that parses has well-formed
  segments, and parsing its canonical text gives the same id back; so equal canonical texts
  mean equal ids, and a stored canonical id re-parses unchanged.
\<close>
theorem parse_canonical_roundtrip:
  assumes "parse raw = Inr i"
  shows "canonical_id i \<and> parse (rid_canonical i) = Inr i"
  using parse_canonical_id [OF assms] parse_canonical by blast

theorem parse_canonical_roundtrip_witness:
  "parse ''eip155:1:0xAb'' =
     Inr \<lparr> rid_namespace = ''eip155'', rid_reference = ''1'', rid_account = ''0xAb'',
           rid_canonical = ''eip155:1:0xAb'' \<rparr> \<and>
   canonical_id \<lparr> rid_namespace = ''eip155'', rid_reference = ''1'', rid_account = ''0xAb'',
           rid_canonical = ''eip155:1:0xAb'' \<rparr>"
proof -
  let ?i = "\<lparr> rid_namespace = ''eip155'', rid_reference = ''1'', rid_account = ''0xAb'',
           rid_canonical = ''eip155:1:0xAb'' \<rparr>"
  have "trim ''eip155:1:0xAb'' = ''eip155:1:0xAb''" by (rule trim_graphic) (simp add: ascii_defs)
  then have p: "parse ''eip155:1:0xAb'' = Inr ?i"
    by (simp add: parse_def Let_def namespace_byte_def reference_byte_def account_byte_def ascii_defs)
  then show ?thesis using parse_canonical_roundtrip [OF p] by simp
qed

text \<open>
  The membership hash identifies the membership. For 32-byte commitments, two memberships
  with the same hash are the same canonical registry and the same commitment, unless their two
  preimages are a SHA-256 collision.
\<close>
lemma membership_hash_identifies:
  assumes "length c = 32" "length c' = 32"
    and "membership_hash sha256 r c = membership_hash sha256 r' c'"
  shows "(r = r' \<and> c = c') \<or>
    (membership_preimage r c \<noteq> membership_preimage r' c' \<and>
     sha256 (membership_preimage r c) = sha256 (membership_preimage r' c'))"
  using assms membership_preimage_inj [of c c' r r']
  by (auto simp: membership_hash_def bytes_to_hex_inj)

end
