(* ===== verification/Provider.thy ===== *)
theory Provider
  imports Proof_Engine Lifecycle Registry_Id Api_Error
begin

text \<open>
  Model of \<open>provider.rs\<close>: calls of the sibling chain-access module and how their outcomes become
  results, the network gate, the registry reads, the submission of a registration with its
  fire-and-record callback, and the explanation of a failed read.

  The sibling is another process. What it answers during one call is the record \<open>sibling\<close>, an
  argument of every read. A call ends with a reply, with an SDK error, or with no callback at all.
\<close>

section \<open>Calls\<close>

datatype call_outcome = Replied string | CallFailed string | NoReply

datatype dispatch_timing = NeverReply | ReplyBeforeReturn "string + string" | ReplyAfterReturn "string + string"

record sibling =
  sb_use_network :: "string \<Rightarrow> call_outcome"
  sb_get_membership :: "string \<Rightarrow> string \<Rightarrow> call_outcome"
  sb_get_merkle_proofs :: "string \<Rightarrow> string \<Rightarrow> call_outcome"
  sb_get_valid_roots :: "string \<Rightarrow> call_outcome"
  sb_get_registry_bounds :: "string \<Rightarrow> call_outcome"
  sb_check_registry :: "string \<Rightarrow> call_outcome"
  sb_wallet_status :: call_outcome
  sb_get_native_balance :: "string \<Rightarrow> call_outcome"
  sb_get_fee_state :: call_outcome
  sb_register_member :: "string \<Rightarrow> string \<Rightarrow> string \<Rightarrow> int \<Rightarrow> dispatch_timing"
  sb_gifter_request :: "string \<Rightarrow> dispatch_timing"
  parse_json :: "string \<Rightarrow> string + json"
  render_json :: "json \<Rightarrow> string"

definition TARGET_MODULE :: string where "TARGET_MODULE = ''liblogos_lez_rln_module''"

definition provider_failure :: "string \<Rightarrow> api_error" where
  "provider_failure method =
     api_new ProviderFailure (TARGET_MODULE @ ''.'' @ method @ '' failed (empty reply)'')"

definition await_reply :: "string \<Rightarrow> call_outcome \<Rightarrow> api_error + string" where
  "await_reply method out =
     (case out of
        Replied value \<Rightarrow> Inr value
      | CallFailed e \<Rightarrow> Inl (provider_failure method)
      | NoReply \<Rightarrow> Inl (provider_failure method))"

definition read_reply :: "string \<Rightarrow> api_error + string \<Rightarrow> api_error + string" where
  "read_reply method reply =
     and_then reply (\<lambda>value. if value = [] then Inl (provider_failure method) else Inr value)"

definition fold_reply :: "string \<Rightarrow> string + string \<Rightarrow> api_error + string" where
  "fold_reply method result =
     (case result of
        Inr value \<Rightarrow> if value \<noteq> [] then Inr value else Inl (provider_failure method)
      | Inl e \<Rightarrow> Inl (provider_failure method))"

section \<open>Fire and record\<close>

text \<open>
  \<open>dispatch_recorded\<close>: the SDK's callback and the end of the dispatching call both run under one
  mutex, so each is one step; they can come in either order. The third component of a step lists
  the outcomes handed to \<open>on_done\<close>.
\<close>

record dispatch_pending =
  dp_dispatched :: bool
  dp_on_done :: bool
  dp_sync_result :: "(api_error + string) option"

definition dispatch_init :: dispatch_pending where
  "dispatch_init = \<lparr> dp_dispatched = False, dp_on_done = True, dp_sync_result = None \<rparr>"

definition dispatch_callback ::
  "string \<Rightarrow> string + string \<Rightarrow> dispatch_pending \<Rightarrow> dispatch_pending \<times> (api_error + string) list"
where
  "dispatch_callback method result st =
     (let outcome = fold_reply method result in
      if \<not> dp_dispatched st then (st \<lparr> dp_sync_result := Some outcome \<rparr>, [])
      else (st \<lparr> dp_on_done := False \<rparr>, if dp_on_done st then [outcome] else []))"

definition dispatch_return ::
  "dispatch_pending \<Rightarrow> (api_error + unit) \<times> dispatch_pending \<times> (api_error + string) list"
where
  "dispatch_return st0 =
     (let st = st0 \<lparr> dp_dispatched := True, dp_sync_result := None \<rparr> in
      case dp_sync_result st0 of
        Some (Inl e) \<Rightarrow> (Inl e, st \<lparr> dp_on_done := False \<rparr>, [])
      | Some (Inr value) \<Rightarrow>
          (Inr (), st \<lparr> dp_on_done := False \<rparr>, if dp_on_done st then [Inr value] else [])
      | None \<Rightarrow> (Inr (), st, []))"

text \<open>The result of the dispatch, the outcomes delivered before it returns and those after.\<close>

definition dispatch_recorded ::
  "string \<Rightarrow> dispatch_timing \<Rightarrow> (api_error + unit) \<times> (api_error + string) list \<times> (api_error + string) list"
where
  "dispatch_recorded method timing =
     (case timing of
        NeverReply \<Rightarrow> (let (r, st, ds) = dispatch_return dispatch_init in (r, ds, []))
      | ReplyBeforeReturn result \<Rightarrow>
          (let (st, ds1) = dispatch_callback method result dispatch_init;
               (r, st', ds2) = dispatch_return st
           in (r, ds1 @ ds2, []))
      | ReplyAfterReturn result \<Rightarrow>
          (let (r, st, ds1) = dispatch_return dispatch_init;
               (st', ds2) = dispatch_callback method result st
           in (r, ds1, ds2)))"

section \<open>The network gate\<close>

type_synonym network_gate = "string \<rightharpoonup> (string + unit)"

datatype gate = Accepted | Refused string | Retry

definition interpret_use_network :: "(string \<Rightarrow> string + json) \<Rightarrow> string \<Rightarrow> gate" where
  "interpret_use_network pj raw =
     (case pj raw of
        Inl _ \<Rightarrow> Retry
      | Inr v \<Rightarrow>
          (case get_bool v ''accepted'' of
             Some True \<Rightarrow> Accepted
           | Some False \<Rightarrow>
               if get_bool v ''retry'' = Some False
               then Refused (case get_str v ''detail'' of Some d \<Rightarrow> d | None \<Rightarrow> ''refused'')
               else Retry
           | None \<Rightarrow> Retry))"

definition remember :: "network_gate \<Rightarrow> string \<Rightarrow> gate \<Rightarrow> network_gate" where
  "remember g reference answer =
     (case answer of
        Accepted \<Rightarrow> g(reference \<mapsto> Inr ())
      | Refused detail \<Rightarrow> g(reference \<mapsto> Inl detail)
      | Retry \<Rightarrow> g)"

definition network_refused :: "canonical_registry_id \<Rightarrow> string \<Rightarrow> api_error" where
  "network_refused r detail = api_new UnknownRegistry
     (rid_canonical r @ '': '' @ TARGET_MODULE @ '' will not serve network '' @ [CHR 0x27] @
      rid_reference r @ [CHR 0x27] @ '': '' @ detail)"

definition network_not_ready :: "canonical_registry_id \<Rightarrow> api_error" where
  "network_not_ready r = api_new NotReady
     (TARGET_MODULE @ '' cannot select network '' @ [CHR 0x27] @ rid_reference r @ [CHR 0x27] @
      '' yet (its wallet home is not resolved)'')"

definition ensure_network ::
  "'z sibling_scheme \<Rightarrow> canonical_registry_id \<Rightarrow> network_gate \<Rightarrow> (api_error + unit) \<times> network_gate"
where
  "ensure_network sb r g =
     (case g (rid_reference r) of
        Some known \<Rightarrow> (map_err (network_refused r) known, g)
      | None \<Rightarrow>
          (case await_reply ''use_network'' (sb_use_network sb (rid_reference r)) of
             Inl e \<Rightarrow> (Inl e, g)
           | Inr raw \<Rightarrow>
               (let answer = interpret_use_network (parse_json sb) raw in
                (case answer of
                   Accepted \<Rightarrow> Inr ()
                 | Refused detail \<Rightarrow> Inl (network_refused r detail)
                 | Retry \<Rightarrow> Inl (network_not_ready r),
                 remember g (rid_reference r) answer))))"

fun networks_from :: "string list \<Rightarrow> string list \<Rightarrow> canonical_registry_id list" where
  "networks_from seen [] = []"
| "networks_from seen (raw # rest) =
     (case parse raw of
        Inl _ \<Rightarrow> networks_from seen rest
      | Inr r \<Rightarrow>
          if rid_namespace r \<noteq> ''logos'' \<or> rid_reference r \<in> set seen then networks_from seen rest
          else r # networks_from (seen @ [rid_reference r]) rest)"

definition networks_in_order :: "string list \<Rightarrow> canonical_registry_id list" where
  "networks_in_order tracked = networks_from [] tracked"

definition select_networks :: "'z sibling_scheme \<Rightarrow> string list \<Rightarrow> network_gate \<Rightarrow> network_gate" where
  "select_networks sb tracked g = fold (\<lambda>r g. snd (ensure_network sb r g)) (networks_in_order tracked) g"

section \<open>Explaining a failed read\<close>

definition REGISTRY_PROBLEMS :: "string list" where
  "REGISTRY_PROBLEMS =
     [''not_deployed'', ''wrong_generation'', ''unexpected_layout'', ''network_conflict'', ''invalid'']"

definition registry_problem_from :: "string \<Rightarrow> json \<Rightarrow> string option" where
  "registry_problem_from canonical check =
     Option.bind (get_str check ''status'') (\<lambda>status.
       if status \<notin> set REGISTRY_PROBLEMS then None
       else
         let detail = (case get_str check ''detail'' of Some d \<Rightarrow> d | None \<Rightarrow> status);
             place = (case (get_str check ''sequencer'', get_u64 check ''chain_head'') of
                     (Some sq, Some head) \<Rightarrow> '' on '' @ sq @ '' (chain at block '' @ show_nat (unat head) @ '')''
                   | (Some sq, None) \<Rightarrow> '' on '' @ sq
                   | _ \<Rightarrow> [])
         in Some (''registry '' @ canonical @ '' is not usable'' @ place @ '': '' @ status @ '' '' @ em_dash @
                  '' '' @ detail))"

definition parsed_as :: "'z sibling_scheme \<Rightarrow> string \<Rightarrow> string \<Rightarrow> api_error + json" where
  "parsed_as sb label raw = map_err (\<lambda>e. api_new ProviderFailure (label @ '': '' @ e)) (parse_json sb raw)"

definition check_registry ::
  "'z sibling_scheme \<Rightarrow> canonical_registry_id \<Rightarrow> network_gate \<Rightarrow> (api_error + json) \<times> network_gate"
where
  "check_registry sb r g =
     (case ensure_network sb r g of
        (Inl e, g') \<Rightarrow> (Inl e, g')
      | (Inr _, g') \<Rightarrow>
          (and_then (read_reply ''check_registry'' (await_reply ''check_registry'' (sb_check_registry sb (rid_account r))))
             (parsed_as sb ''check_registry parse''), g'))"

definition registry_problem ::
  "'z sibling_scheme \<Rightarrow> canonical_registry_id \<Rightarrow> network_gate \<Rightarrow> string option \<times> network_gate"
where
  "registry_problem sb r g =
     (case check_registry sb r g of
        (Inl e, g') \<Rightarrow> (None, g')
      | (Inr check, g') \<Rightarrow> (registry_problem_from (rid_canonical r) check, g'))"

definition explained ::
  "'z sibling_scheme \<Rightarrow> canonical_registry_id \<Rightarrow> api_error \<Rightarrow> network_gate \<Rightarrow> api_error \<times> network_gate"
where
  "explained sb r e g =
     (if ae_kind e \<noteq> ProviderFailure then (e, g)
      else case registry_problem sb r g of
        (Some msg, g') \<Rightarrow> (api_new UnknownRegistry msg, g')
      | (None, g') \<Rightarrow> (e, g'))"

section \<open>Registry reads\<close>

text \<open>The shape every gated read shares: the gate, the call, the explanation, the decoding.\<close>

definition gated_read ::
  "'z sibling_scheme \<Rightarrow> string \<Rightarrow> (string \<Rightarrow> call_outcome) \<Rightarrow> (string \<Rightarrow> api_error + 'a) \<Rightarrow>
     canonical_registry_id \<Rightarrow> network_gate \<Rightarrow> (api_error + 'a) \<times> network_gate"
where
  "gated_read sb method call decode r g =
     (case ensure_network sb r g of
        (Inl e, g') \<Rightarrow> (Inl e, g')
      | (Inr _, g') \<Rightarrow>
          (case read_reply method (await_reply method (call (rid_account r))) of
             Inr raw \<Rightarrow> (decode raw, g')
           | Inl e \<Rightarrow> (let (e', g'') = explained sb r e g' in (Inl e', g''))))"

record provider_membership =
  pm_registered :: bool
  pm_state :: membership_state
  pm_leaf_index :: u64
  pm_rate_limit :: u64

definition membership_required :: "json \<Rightarrow> string \<Rightarrow> api_error + u64" where
  "membership_required v key =
     ok_or (api_new ProviderFailure (''get_membership: registered member missing '' @ key)) (get_u64 v key)"

text \<open>An enum of unit variants is a string, or an object from the variant's name to null.\<close>

fun state_of_json :: "json \<Rightarrow> membership_state option" where
  "state_of_json (JStr s) = state_of_wire s"
| "state_of_json (JObj [(s, JNull)]) = state_of_wire s"
| "state_of_json _ = None"

definition parse_membership_reply :: "'z sibling_scheme \<Rightarrow> string \<Rightarrow> api_error + provider_membership" where
  "parse_membership_reply sb raw =
     and_then (parsed_as sb ''get_membership reply parse'' raw) (\<lambda>v.
     and_then (ok_or (api_new ProviderFailure ''get_membership: reply carries no registered flag'')
                 (get_bool v ''registered'')) (\<lambda>registered.
     if \<not> registered
     then Inr \<lparr> pm_registered = False, pm_state = Unknown, pm_leaf_index = 0, pm_rate_limit = 0 \<rparr>
     else
       and_then (ok_or (api_new ProviderFailure ''get_membership: unrecognized state'')
                   (Option.bind (j_get v ''state'') state_of_json)) (\<lambda>st.
       and_then (membership_required v ''leaf_index'') (\<lambda>leaf.
       and_then (membership_required v ''rate_limit'') (\<lambda>rate.
       Inr \<lparr> pm_registered = True, pm_state = st, pm_leaf_index = leaf, pm_rate_limit = rate \<rparr>)))))"

definition get_membership ::
  "'z sibling_scheme \<Rightarrow> canonical_registry_id \<Rightarrow> string \<Rightarrow> network_gate \<Rightarrow>
     (api_error + provider_membership) \<times> network_gate"
where
  "get_membership sb r id_commitment_hex g =
     gated_read sb ''get_membership'' (\<lambda>account. sb_get_membership sb account id_commitment_hex)
       (parse_membership_reply sb) r g"

definition first_proof :: "json \<Rightarrow> api_error + json" where
  "first_proof v =
     ok_or (api_new ProviderFailure ''empty proof array (leaf out of range?)'')
       (Option.bind (as_array v) (\<lambda>xs. case xs of [] \<Rightarrow> None | x # _ \<Rightarrow> Some x))"

definition get_merkle_proof ::
  "'z sibling_scheme \<Rightarrow> canonical_registry_id \<Rightarrow> u64 \<Rightarrow> network_gate \<Rightarrow> (api_error + json) \<times> network_gate"
where
  "get_merkle_proof sb r leaf_index g =
     gated_read sb ''get_merkle_proofs''
       (\<lambda>account. sb_get_merkle_proofs sb account (''['' @ show_nat (unat leaf_index) @ '']''))
       (\<lambda>raw. and_then (parsed_as sb ''proofs reply parse'' raw) first_proof) r g"

definition bad_roots :: "string \<Rightarrow> api_error" where
  "bad_roots what = api_new ProviderFailure (''roots reply '' @ what)"

definition string_elements :: "json list \<Rightarrow> string list" where
  "string_elements a = List.map_filter as_str a"

definition lift_roots_reply :: "('fr, 'zp) zerokit \<Rightarrow> json \<Rightarrow> api_error + string list" where
  "lift_roots_reply zk parsed =
     (case parsed of
        JArr a \<Rightarrow> Inr (map (\<lambda>h. fold_root zk h RLN_TREE_DEPTH) (string_elements a))
      | JObj _ \<Rightarrow>
          and_then (ok_or (bad_roots ''has no depth'') (get_u64 parsed ''depth'')) (\<lambda>d.
          if unat d = 0 \<or> unat d > RLN_TREE_DEPTH
          then Inl (bad_roots (''declares an impossible depth '' @ show_nat (unat d)))
          else
            and_then (ok_or (bad_roots ''has no valid_roots'')
                        (Option.bind (j_get parsed ''valid_roots'') as_array)) (\<lambda>a.
            Inr (map (\<lambda>h. fold_root zk h (unat d)) (string_elements a))))
      | _ \<Rightarrow> Inl (bad_roots ''is neither an array nor an object''))"

definition get_valid_roots ::
  "('fr, 'zp) zerokit \<Rightarrow> 'z sibling_scheme \<Rightarrow> canonical_registry_id \<Rightarrow> network_gate \<Rightarrow>
     (api_error + string list) \<times> network_gate"
where
  "get_valid_roots zk sb r g =
     gated_read sb ''get_valid_roots'' (sb_get_valid_roots sb)
       (\<lambda>raw. and_then (parsed_as sb ''roots reply parse'' raw) (lift_roots_reply zk)) r g"

definition get_registry_bounds ::
  "'z sibling_scheme \<Rightarrow> canonical_registry_id \<Rightarrow> network_gate \<Rightarrow> (api_error + json) \<times> network_gate"
where
  "get_registry_bounds sb r g =
     gated_read sb ''get_registry_bounds'' (sb_get_registry_bounds sb) (parsed_as sb ''bounds reply parse'') r g"

definition wallet_status :: "'z sibling_scheme \<Rightarrow> api_error + json" where
  "wallet_status sb =
     and_then (read_reply ''wallet_status'' (await_reply ''wallet_status'' (sb_wallet_status sb)))
       (parsed_as sb ''wallet_status parse'')"

definition payer_balance :: "'z sibling_scheme \<Rightarrow> api_error + u128" where
  "payer_balance sb =
     and_then (read_reply ''get_native_balance'' (await_reply ''get_native_balance'' (sb_get_native_balance sb []))) (\<lambda>raw.
     and_then (parsed_as sb ''balance reply parse'' raw) (\<lambda>v.
     ok_or (api_new ProviderFailure ''balance reply has no decimal balance'')
       (Option.bind (get_str v ''balance'') parse_uint)))"

definition fee_state :: "'z sibling_scheme \<Rightarrow> api_error + json" where
  "fee_state sb =
     and_then (read_reply ''get_fee_state'' (await_reply ''get_fee_state'' (sb_get_fee_state sb)))
       (parsed_as sb ''fee state parse'')"

section \<open>Submitting\<close>

definition provider_for :: "string \<Rightarrow> bool" where
  "provider_for namespace \<longleftrightarrow> namespace = ''logos''"

definition register_async ::
  "'z sibling_scheme \<Rightarrow> canonical_registry_id \<Rightarrow> string \<Rightarrow> string \<Rightarrow> u64 \<Rightarrow> network_gate \<Rightarrow>
     (api_error + unit) \<times> (api_error + string) list \<times> (api_error + string) list \<times> network_gate"
where
  "register_async sb r options_json id_commitment_hex rate_limit g =
     (case (if trim options_json = [] then Inr (JObj [])
            else map_err (\<lambda>e. api_new InvalidArgument (''options_json: '' @ e)) (parse_json sb options_json)) of
        Inl e \<Rightarrow> (Inl e, [], [], g)
      | Inr _ \<Rightarrow>
          if \<not> unat rate_limit < 2 ^ 63
          then (Inl (api_new InvalidArgument (''rate_limit exceeds the wire'' @ [CHR 0x27] @ ''s i64'')), [], [], g)
          else case ensure_network sb r g of
            (Inl e, g') \<Rightarrow> (Inl e, [], [], g')
          | (Inr _, g') \<Rightarrow>
              (let (res, now, later) = dispatch_recorded ''register_member''
                     (sb_register_member sb (rid_account r) [] id_commitment_hex (uint rate_limit))
               in (res, now, later, g')))"

definition gifter_request_async ::
  "'z sibling_scheme \<Rightarrow> string \<Rightarrow> (api_error + unit) \<times> (api_error + string) list \<times> (api_error + string) list"
where
  "gifter_request_async sb args_json = dispatch_recorded ''request'' (sb_gifter_request sb args_json)"

section \<open>Lemmas\<close>

lemma dispatch_recorded_simps [simp]:
  "dispatch_recorded m NeverReply = (Inr (), [], [])"
  "dispatch_recorded m (ReplyAfterReturn r) = (Inr (), [], [fold_reply m r])"
  "dispatch_recorded m (ReplyBeforeReturn r) =
     (case fold_reply m r of Inl e \<Rightarrow> (Inl e, [], []) | Inr v \<Rightarrow> (Inr (), [Inr v], []))"
  by (simp_all add: dispatch_recorded_def dispatch_return_def dispatch_callback_def dispatch_init_def
      split: sum.splits)

lemma read_reply_Inr:
  "read_reply m (await_reply m out) = Inr raw \<longleftrightarrow> out = Replied raw \<and> raw \<noteq> []"
  by (cases out) (auto simp: read_reply_def await_reply_def)

lemma interpret_Refused:
  "interpret_use_network pj raw = Refused d \<longleftrightarrow>
     (\<exists>v. pj raw = Inr v \<and> get_bool v ''accepted'' = Some False \<and> get_bool v ''retry'' = Some False \<and>
        d = (case get_str v ''detail'' of Some d \<Rightarrow> d | None \<Rightarrow> ''refused''))"
  by (auto simp: interpret_use_network_def split: sum.splits option.splits bool.splits)

lemma interpret_Accepted:
  "interpret_use_network pj raw = Accepted \<longleftrightarrow> (\<exists>v. pj raw = Inr v \<and> get_bool v ''accepted'' = Some True)"
  by (auto simp: interpret_use_network_def split: sum.splits option.splits bool.splits)

lemma ensure_network_keeps: "g ref = Some a \<Longrightarrow> snd (ensure_network sb r g) ref = Some a"
  by (auto simp: ensure_network_def remember_def Let_def split: option.splits sum.splits gate.splits)

lemma ensure_network_known:
  "g (rid_reference r) = Some a \<Longrightarrow> ensure_network sb r g = (map_err (network_refused r) a, g)"
  by (simp add: ensure_network_def)

text \<open>The sibling answered a network query for a reference, with these two flags.\<close>

definition said :: "'z sibling_scheme \<Rightarrow> string \<Rightarrow> bool \<Rightarrow> json \<Rightarrow> bool" where
  "said sb ref b v \<longleftrightarrow> (\<exists>raw. sb_use_network sb ref = Replied raw \<and> parse_json sb raw = Inr v) \<and>
     get_bool v ''accepted'' = Some b"

lemma ensure_network_learns:
  assumes "snd (ensure_network sb r g) ref = Some a" "g ref = None"
  shows "rid_reference r = ref \<and>
    (case a of Inr _ \<Rightarrow> \<exists>v. said sb ref True v
             | Inl d \<Rightarrow> \<exists>v. said sb ref False v \<and> get_bool v ''retry'' = Some False)"
  using assms
  by (auto simp: ensure_network_def remember_def await_reply_def Let_def interpret_Accepted interpret_Refused said_def
      split: option.splits sum.splits gate.splits call_outcome.splits if_splits)

fun gate_run :: "(sibling \<times> canonical_registry_id) list \<Rightarrow> network_gate \<Rightarrow> network_gate" where
  "gate_run [] g = g"
| "gate_run ((sb, r) # calls) g = gate_run calls (snd (ensure_network sb r g))"

lemma gate_run_keeps: "g ref = Some a \<Longrightarrow> gate_run calls g ref = Some a"
proof (induction calls g rule: gate_run.induct)
  case (2 sb r calls g)
  show ?case using "2.IH" [OF ensure_network_keeps [of g ref a, OF "2.prems"]] by simp
qed simp

lemma gate_run_learns:
  assumes "gate_run calls g ref = Some a" "g ref = None"
  shows "\<exists>sb r. (sb, r) \<in> set calls \<and> rid_reference r = ref \<and>
    (case a of Inr _ \<Rightarrow> \<exists>v. said sb ref True v
             | Inl d \<Rightarrow> \<exists>v. said sb ref False v \<and> get_bool v ''retry'' = Some False)"
  using assms
proof (induction calls g rule: gate_run.induct)
  case (2 sb r calls g)
  show ?case
  proof (cases "snd (ensure_network sb r g) ref")
    case None
    from "2.IH" [OF _ None] "2.prems"(1) obtain sb' r' where "(sb', r') \<in> set calls" "rid_reference r' = ref"
      "case a of Inr _ \<Rightarrow> \<exists>v. said sb' ref True v
               | Inl d \<Rightarrow> \<exists>v. said sb' ref False v \<and> get_bool v ''retry'' = Some False"
      by auto
    then show ?thesis by (intro exI [of _ sb'] exI [of _ r']) simp
  next
    case (Some b)
    then have "a = b" using gate_run_keeps [of "snd (ensure_network sb r g)" ref b calls, OF Some] "2.prems"(1) by simp
    then show ?thesis using ensure_network_learns [OF Some "2.prems"(2)] by (intro exI [of _ sb] exI [of _ r]) simp
  qed
qed simp

section \<open>Properties\<close>

text \<open>
  The network gate only remembers explicit answers and never changes its mind. After any
  sequence of calls with any replies, a reference is remembered as refused only if the sibling
  once replied \<open>accepted: false, retry: false\<close> for it, as accepted only if it once replied
  \<open>accepted: true\<close>; silence, garbage and \<open>not yet\<close> leave no trace. A remembered answer is the
  answer of every later call, whatever the sibling says then.
\<close>
lemma network_answer_final:
  assumes "gate_run calls Map.empty ref = Some a"
  shows "(\<exists>sb r. (sb, r) \<in> set calls \<and> rid_reference r = ref \<and>
      (case a of Inr _ \<Rightarrow> \<exists>v. said sb ref True v
               | Inl d \<Rightarrow> \<exists>v. said sb ref False v \<and> get_bool v ''retry'' = Some False)) \<and>
    gate_run (calls @ rest) Map.empty ref = Some a \<and>
    (\<forall>sb r. rid_reference r = ref \<longrightarrow>
       fst (ensure_network sb r (gate_run (calls @ rest) Map.empty)) = map_err (network_refused r) a)"
proof -
  have app: "gate_run (xs @ ys) g = gate_run ys (gate_run xs g)" for xs ys g
    by (induction xs g rule: gate_run.induct) simp_all
  have "gate_run (calls @ rest) Map.empty ref = Some a" unfolding app by (rule gate_run_keeps) (rule assms)
  then show ?thesis using gate_run_learns [OF assms] by (auto simp: ensure_network_known)
qed

definition sample_sibling :: sibling where
  "sample_sibling = \<lparr> sb_use_network = (\<lambda>r. Replied ''no''), sb_get_membership = (\<lambda>a c. Replied ''absent''),
     sb_get_merkle_proofs = (\<lambda>a i. NoReply), sb_get_valid_roots = (\<lambda>a. NoReply), sb_get_registry_bounds = (\<lambda>a. NoReply),
     sb_check_registry = (\<lambda>a. NoReply), sb_wallet_status = NoReply, sb_get_native_balance = (\<lambda>a. NoReply),
     sb_get_fee_state = NoReply, sb_register_member = (\<lambda>a p c n. NeverReply), sb_gifter_request = (\<lambda>a. NeverReply),
     parse_json = (\<lambda>s. if s = ''no'' then Inr (JObj [(''accepted'', JBool False), (''retry'', JBool False)])
                       else if s = ''absent'' then Inr (JObj [(''registered'', JBool False)]) else Inl ''bad''),
     render_json = (\<lambda>v. ''{}'') \<rparr>"

definition sample_registry :: canonical_registry_id where
  "sample_registry = \<lparr> rid_namespace = ''logos'', rid_reference = ''local'', rid_account = ''aa'',
     rid_canonical = ''logos:local:aa'' \<rparr>"

text \<open>
  An absent membership is only ever reported when the registry module said so. A successful
  read says not registered exactly when the reply was an object with \<open>registered: false\<close>; no
  error, empty reply or missing field can look like it. A read that says registered carries the
  state, leaf and rate of the reply, none of them defaulted.
\<close>
lemma get_membership_authoritative:
  assumes "get_membership sb r commitment g = (Inr pm, g')"
  shows "\<exists>raw v. sb_get_membership sb (rid_account r) commitment = Replied raw \<and> parse_json sb raw = Inr v \<and>
    get_bool v ''registered'' = Some (pm_registered pm) \<and>
    (pm_registered pm \<longrightarrow> Option.bind (j_get v ''state'') state_of_json = Some (pm_state pm) \<and>
       get_u64 v ''leaf_index'' = Some (pm_leaf_index pm) \<and> get_u64 v ''rate_limit'' = Some (pm_rate_limit pm))"
proof -
  from assms obtain raw where raw: "sb_get_membership sb (rid_account r) commitment = Replied raw"
    and p: "parse_membership_reply sb raw = Inr pm"
    by (auto simp: get_membership_def gated_read_def read_reply_Inr split: prod.splits sum.splits)
  from p show ?thesis
    by (auto simp: parse_membership_reply_def parsed_as_def membership_required_def result_iffs raw split: if_splits)
qed

end
