(* ===== verification/Root_Window.thy ===== *)
theory Root_Window
  imports Provider
begin

text \<open>
  Model of \<open>roots.rs\<close> and \<open>path_cache.rs\<close>: the per-registry window of acceptable roots with its
  refresh, adoption and staleness rule, the rate-limited nudge of the refresher, and the cache of
  Merkle paths with its leaf-index guard. The refresher loop and the worker it wakes belong to
  the supervisor (\<open>worker.rs\<close>).
\<close>

section \<open>The root window\<close>

definition STALE_AFTER_SECS :: u64 where "STALE_AFTER_SECS = 60"
definition NUDGE_MIN_INTERVAL_SECS :: u64 where "NUDGE_MIN_INTERVAL_SECS = 2"

record root_window =
  wn_roots :: "bytes list"
  wn_updated_at :: u64

text \<open>\<open>rs_tracked\<close> lists the entries of the hash map in its iteration order, which is arbitrary.\<close>

record roots_state =
  rs_windows :: "string \<rightharpoonup> root_window"
  rs_tracked :: "(string \<times> canonical_registry_id) list"
  rs_last_nudge :: u64

definition window :: "u64 \<Rightarrow> string \<Rightarrow> roots_state \<Rightarrow> bytes list option" where
  "window now canonical st =
     (case rs_windows st canonical of
        None \<Rightarrow> None
      | Some w \<Rightarrow> if saturating_sub now (wn_updated_at w) > STALE_AFTER_SECS then None else Some (wn_roots w))"

definition adopt :: "u64 \<Rightarrow> string \<Rightarrow> bytes list \<Rightarrow> roots_state \<Rightarrow> roots_state" where
  "adopt now canonical roots st =
     (if roots = [] then st
      else st \<lparr> rs_windows := (rs_windows st)(canonical \<mapsto> \<lparr> wn_roots = roots, wn_updated_at = now \<rparr>) \<rparr>)"

definition track :: "canonical_registry_id \<Rightarrow> roots_state \<Rightarrow> roots_state" where
  "track r st =
     (if map_of (rs_tracked st) (rid_canonical r) = None
      then st \<lparr> rs_tracked := (rid_canonical r, r) # rs_tracked st \<rparr> else st)"

text \<open>
  A nudge loads the last nudge time and later compares and exchanges it; \<open>seen\<close> is the value
  loaded, which another thread may have replaced since. The first component says whether the
  worker is woken.
\<close>

definition nudge :: "u64 \<Rightarrow> u64 \<Rightarrow> roots_state \<Rightarrow> bool \<times> roots_state" where
  "nudge now seen st =
     (if saturating_sub now seen < NUDGE_MIN_INTERVAL_SECS then (False, st)
      else if rs_last_nudge st = seen then (True, st \<lparr> rs_last_nudge := now \<rparr>)
      else (False, st))"

definition tracked_snapshot :: "roots_state \<Rightarrow> canonical_registry_id list" where
  "tracked_snapshot st = map snd (rs_tracked st)"

definition refresh_one ::
  "('fr, 'zp) zerokit \<Rightarrow> 'z sibling_scheme \<Rightarrow> u64 \<Rightarrow> canonical_registry_id \<Rightarrow> roots_state \<Rightarrow> network_gate \<Rightarrow>
     (api_error + unit) \<times> roots_state \<times> network_gate"
where
  "refresh_one zk sb now r st g =
     (if \<not> provider_for (rid_namespace r)
      then (Inl (api_new UnknownRegistry (''no registry provider for namespace '' @ rid_namespace r)), st, g)
      else case get_valid_roots zk sb r g of
        (Inl e, g') \<Rightarrow> (Inl e, st, g')
      | (Inr roots_hex, g') \<Rightarrow>
          (Inr (), st \<lparr> rs_windows := (rs_windows st)(rid_canonical r \<mapsto>
             \<lparr> wn_roots = List.map_filter hex_to_bytes32 roots_hex, wn_updated_at = now \<rparr>) \<rparr>, g'))"

text \<open>
  One refresher pass. \<open>sb\<close>, \<open>now\<close> and \<open>stopped\<close> give what the sibling, the clock and the
  supervisor's flag say at the k-th read of each.
\<close>

fun refresh_from ::
  "('fr, 'zp) zerokit \<Rightarrow> (nat \<Rightarrow> 'z sibling_scheme) \<Rightarrow> (nat \<Rightarrow> u64) \<Rightarrow> (nat \<Rightarrow> bool) \<Rightarrow> nat \<Rightarrow>
     canonical_registry_id list \<Rightarrow> roots_state \<Rightarrow> network_gate \<Rightarrow> roots_state \<times> network_gate"
where
  "refresh_from zk sb now stopped k [] st g = (st, g)"
| "refresh_from zk sb now stopped k (r # rs) st g =
     (let (_, st', g') = refresh_one zk (sb k) (now k) r st g in
      if stopped (Suc k) then (st', g') else refresh_from zk sb now stopped (Suc k) rs st' g')"

definition refresh_all ::
  "('fr, 'zp) zerokit \<Rightarrow> (nat \<Rightarrow> 'z sibling_scheme) \<Rightarrow> (nat \<Rightarrow> u64) \<Rightarrow> (nat \<Rightarrow> bool) \<Rightarrow>
     roots_state \<Rightarrow> network_gate \<Rightarrow> roots_state \<times> network_gate"
where
  "refresh_all zk sb now stopped st g =
     (if stopped 0 then (st, g) else refresh_from zk sb now stopped 0 (tracked_snapshot st) st g)"

section \<open>The path cache\<close>

record cached_path =
  cp_path_elements_hex :: "string list"
  cp_path_indices :: "byte list"
  cp_leaf_index :: u64

type_synonym path_cache = "string \<rightharpoonup> cached_path"

definition json_str_array :: "json \<Rightarrow> string \<Rightarrow> api_error + string list" where
  "json_str_array v key =
     ok_or (api_new ProviderFailure (''merkle proof missing '' @ key))
       (map_option (List.map_filter as_str) (Option.bind (j_get v key) as_array))"

definition json_u8_array :: "json \<Rightarrow> string \<Rightarrow> api_error + byte list" where
  "json_u8_array v key =
     ok_or (api_new ProviderFailure (''merkle proof missing '' @ key))
       (map_option (List.map_filter (\<lambda>e. map_option ucast (as_u64 e))) (Option.bind (j_get v key) as_array))"

definition hit :: "path_cache \<Rightarrow> string \<Rightarrow> u64 \<Rightarrow> (string list \<times> byte list) option" where
  "hit paths hash current_leaf_index =
     (case paths hash of
        None \<Rightarrow> None
      | Some c \<Rightarrow> if cp_leaf_index c = current_leaf_index
                  then Some (cp_path_elements_hex c, cp_path_indices c) else None)"

definition fill_path_cache ::
  "('fr, 'zp) zerokit \<Rightarrow> 'z sibling_scheme \<Rightarrow> u64 \<Rightarrow> canonical_registry_id \<Rightarrow> string \<Rightarrow> u64 \<Rightarrow>
     path_cache \<Rightarrow> roots_state \<Rightarrow> network_gate \<Rightarrow> (api_error + unit) \<times> path_cache \<times> roots_state \<times> network_gate"
where
  "fill_path_cache zk sb now r hash leaf_index paths st g =
     (case get_merkle_proof sb r leaf_index g of
        (Inl e, g') \<Rightarrow> (Inl e, paths, st, g')
      | (Inr merkle, g') \<Rightarrow>
          (case json_str_array merkle ''path_elements'' of
             Inl e \<Rightarrow> (Inl e, paths, st, g')
           | Inr elements \<Rightarrow>
               (case json_u8_array merkle ''path_indices'' of
                  Inl e \<Rightarrow> (Inl e, paths, st, g')
                | Inr indices \<Rightarrow>
                    (let depth = (case get_u64 merkle ''depth'' of Some d \<Rightarrow> unat d | None \<Rightarrow> length elements);
                         (elements', indices') = pad_path zk elements indices depth;
                         st' = (case json_str_array merkle ''valid_roots'' of
                                  Inl _ \<Rightarrow> st
                                | Inr roots_hex \<Rightarrow>
                                    adopt now (rid_canonical r)
                                      (List.map_filter hex_to_bytes32 (map (\<lambda>h. fold_root zk h depth) roots_hex)) st)
                     in (Inr (), paths(hash \<mapsto> \<lparr> cp_path_elements_hex = elements', cp_path_indices = indices',
                                                  cp_leaf_index = leaf_index \<rparr>), st', g')))))"

section \<open>Lemmas\<close>

fun nudge_run :: "(u64 \<times> u64) list \<Rightarrow> roots_state \<Rightarrow> u64 list" where
  "nudge_run [] st = []"
| "nudge_run ((now, seen) # calls) st =
     (case nudge now seen st of (woken, st') \<Rightarrow> (if woken then [now] else []) @ nudge_run calls st')"

lemma nudge_cases:
  "nudge now seen st = (woken, st') \<Longrightarrow>
     (\<not> woken \<and> st' = st) \<or>
     (woken \<and> unat (rs_last_nudge st) + 2 \<le> unat now \<and> st' = st \<lparr> rs_last_nudge := now \<rparr>)"
  by (auto simp: nudge_def NUDGE_MIN_INTERVAL_SECS_def word_less_nat_alt unat_saturating_sub split: if_splits)

lemma nudge_run_spaced:
  "sorted_wrt (\<lambda>a b. unat a + 2 \<le> unat b) (rs_last_nudge st # nudge_run calls st)"
proof (induction calls st rule: nudge_run.induct)
  case (2 now seen calls st)
  obtain woken st' where n: "nudge now seen st = (woken, st')" by fastforce
  have ih: "sorted_wrt (\<lambda>a b. unat a + 2 \<le> unat b) (rs_last_nudge st' # nudge_run calls st')"
    using "2.IH" n by simp
  from nudge_cases [OF n] ih n show ?case by fastforce
qed simp

lemma map_filter_total [simp]: "(\<And>x. f x = Some (g x)) \<Longrightarrow> List.map_filter f xs = map g xs"
  by (induction xs) (simp_all add: List.map_filter_simps)

lemma map_filter_map: "List.map_filter f (map g xs) = List.map_filter (f \<circ> g) xs"
  by (induction xs) (simp_all add: List.map_filter_simps split: option.splits)

lemma set_map_filter: "y \<in> set (List.map_filter f xs) \<longleftrightarrow> (\<exists>x \<in> set xs. f x = Some y)"
  by (induction xs) (auto simp: List.map_filter_simps split: option.splits)

lemma json_str_array_strings [simp]:
  "j_get v key = Some (JArr (map JStr xs)) \<Longrightarrow> json_str_array v key = Inr xs"
  by (simp add: json_str_array_def map_filter_map comp_def)

lemma ucast_byte_u64 [simp]: "ucast (ucast b :: u64) = (b :: byte)"
  by (rule bit_word_eqI) (simp add: bit_simps)

lemma json_u8_array_bytes [simp]:
  "j_get v key = Some (JArr (map (\<lambda>b. j_u64 (ucast b)) bs)) \<Longrightarrow> json_u8_array v key = Inr bs"
  by (simp add: json_u8_array_def map_filter_map comp_def)

lemma window_adopt:
  "window t c (adopt now canonical roots st) =
     (if c = canonical \<and> roots \<noteq> [] then if saturating_sub t now > STALE_AFTER_SECS then None else Some roots
      else window t c st)"
  by (auto simp: window_def adopt_def)

lemma fill_path_cache_ok:
  assumes "get_merkle_proof sb r leaf_index g = (Inr m, g')"
    and "json_str_array m ''path_elements'' = Inr els" "json_u8_array m ''path_indices'' = Inr idx"
    and "get_u64 m ''depth'' = Some d" "json_str_array m ''valid_roots'' = Inr roots"
    and "pad_path zk els idx (unat d) = (els', idx')"
  shows "fill_path_cache zk sb now r hash leaf_index paths st g =
    (Inr (), paths(hash \<mapsto> \<lparr> cp_path_elements_hex = els', cp_path_indices = idx', cp_leaf_index = leaf_index \<rparr>),
     adopt now (rid_canonical r) (List.map_filter hex_to_bytes32 (map (\<lambda>h. fold_root zk h (unat d)) roots)) st, g')"
  using assms by (simp add: fill_path_cache_def Let_def)

lemma saturating_sub_self [simp]: "saturating_sub a a = 0"
  by (simp add: saturating_sub_def)

section \<open>Properties\<close>

text \<open>
  Root-window misses cannot turn into registry reads. However calls of \<open>nudge\<close> from any
  number of threads interleave (each may compare against a value it loaded earlier) and whatever
  the clock does, the calls that wake the refresher are at least two seconds apart.
\<close>
lemma nudges_spaced:
  "sorted_wrt (\<lambda>a b. unat a + 2 \<le> unat b) (nudge_run calls st)"
  using nudge_run_spaced [of st calls] by simp

text \<open>
  A node accepts the root of the path it proves with. When the registry serves a path of its
  own depth together with a root set holding the root that path leads to, \<open>fill_path_cache\<close>
  succeeds, the cache then serves for that leaf index a path of the circuit's depth that decodes
  to field elements, and the window holds the serialization of the root the circuit computes from
  it; at any other leaf index the cache misses.
\<close>
lemma own_path_root_served:
  assumes "fr_roundtrip zk" "get_merkle_proof sb r leaf_index g = (Inr m, g')"
    and "j_get m ''path_elements'' = Some (JArr (map JStr (map (fr_to_hex zk) els)))"
    and "j_get m ''path_indices'' = Some (JArr (map (\<lambda>b. j_u64 (ucast b)) idx))"
    and "get_u64 m ''depth'' = Some d" "length els = unat d" "length idx = unat d" "unat d \<le> RLN_TREE_DEPTH"
    and "j_get m ''valid_roots'' = Some (JArr (map JStr roots))"
    and "fr_to_hex zk (merkle_root zk leaf (zip els idx)) \<in> set roots"
  shows "\<exists>paths' st' pe pidx els' rs.
    fill_path_cache zk sb now r hash leaf_index paths st g = (Inr (), paths', st', g') \<and>
    hit paths' hash leaf_index = Some (pe, pidx) \<and> (\<forall>l. l \<noteq> leaf_index \<longrightarrow> hit paths' hash l = None) \<and>
    length pe = RLN_TREE_DEPTH \<and> length pidx = RLN_TREE_DEPTH \<and>
    collect_results (map (\<lambda>h. hex_to_fr zk h ''path_element'') pe) = Inr els' \<and>
    window now (rid_canonical r) st' = Some rs \<and> zk_fr_ser zk (merkle_root zk leaf (zip els' pidx)) \<in> set rs"
proof -
  let ?els' = "padded_elements zk els (unat d)" and ?idx' = "padded_indices idx (unat d)"
  let ?rs = "List.map_filter hex_to_bytes32 (map (\<lambda>h. fold_root zk h (unat d)) roots)"
  let ?root = "merkle_root zk leaf (zip ?els' ?idx')"
  have fill: "fill_path_cache zk sb now r hash leaf_index paths st g =
    (Inr (), paths(hash \<mapsto> \<lparr> cp_path_elements_hex = map (fr_to_hex zk) ?els', cp_path_indices = ?idx', cp_leaf_index = leaf_index \<rparr>),
     adopt now (rid_canonical r) ?rs st, g')"
    by (rule fill_path_cache_ok [OF assms(2) json_str_array_strings [OF assms(3)] json_u8_array_bytes [OF assms(4)]
          assms(5) json_str_array_strings [OF assms(9)] pad_path_padded])
  have "hex_to_bytes32 (fr_to_hex zk ?root) = Some (zk_fr_ser zk ?root)"
    using assms(1) by (simp add: fr_to_hex_def fr_roundtrip_def)
  then have served: "zk_fr_ser zk ?root \<in> set ?rs"
    using assms(10) fold_root_padded [OF assms(1,6,7), of leaf]
    by (auto simp: set_map_filter intro!: bexI [OF _ assms(10)])
  have "length (map (fr_to_hex zk) ?els') = RLN_TREE_DEPTH" "length ?idx' = RLN_TREE_DEPTH"
    using length_padded(1) [of els zk] length_padded(2) [of idx] assms(6-8) by simp_all
  moreover have "window now (rid_canonical r) (adopt now (rid_canonical r) ?rs st) = Some ?rs"
    using served by (auto simp: window_adopt STALE_AFTER_SECS_def)
  ultimately show ?thesis using fill served collect_hex [OF assms(1)] by (fastforce simp: hit_def)
qed

definition sample_merkle :: json where
  "sample_merkle = JObj [(''depth'', JInt 2), (''path_elements'', JArr (map JStr (map (fr_to_hex sample_zk) [5, 6]))),
     (''path_indices'', JArr (map (\<lambda>b. j_u64 (ucast b)) [0 :: byte, 1])),
     (''valid_roots'', JArr (map JStr [''stale'', fr_to_hex sample_zk (merkle_root sample_zk 7 (zip [5, 6] [0, 1]))]))]"

definition sample_registry_module :: sibling where
  "sample_registry_module = sample_sibling \<lparr> sb_get_merkle_proofs := (\<lambda>a i. Replied ''p''), parse_json := (\<lambda>s. Inr (JArr [sample_merkle])) \<rparr>"

text \<open>
  The two sources of the window agree. When the registry module serves the same depth and
  root set through its proof reply and through its roots reply, the window after filling the
  path cache and the window after a refresh at the same time are the same for every registry at
  every later time. So a refresh never makes a node reject roots it adopted, or the other way
  round.
\<close>
lemma refresh_and_adopt_agree:
  assumes "provider_for (rid_namespace r)" "get_merkle_proof sb r leaf_index g = (Inr m, g')"
    and "json_str_array m ''path_elements'' = Inr els" "json_u8_array m ''path_indices'' = Inr idx"
    and "get_u64 m ''depth'' = Some d" "j_get m ''valid_roots'' = Some (JArr roots)"
    and "sb_get_valid_roots sb (rid_account r) = Replied raw" "raw \<noteq> []" "parse_json sb raw = Inr (JObj fs)"
    and "get_u64 (JObj fs) ''depth'' = Some d" "j_get (JObj fs) ''valid_roots'' = Some (JArr roots)"
    and "0 < unat d" "unat d \<le> RLN_TREE_DEPTH"
    and "\<exists>h \<in> set (string_elements roots). hex_to_bytes32 (fold_root zk h (unat d)) \<noteq> None"
  shows "\<exists>paths' st1 st2 g1 g2.
    fill_path_cache zk sb now r hash leaf_index paths st g = (Inr (), paths', st1, g1) \<and>
    refresh_one zk sb now r st g = (Inr (), st2, g2) \<and> (\<forall>t c. window t c st1 = window t c st2)"
proof -
  let ?hs = "map (\<lambda>h. fold_root zk h (unat d)) (string_elements roots)"
  have js: "json_str_array m ''valid_roots'' = Inr (string_elements roots)"
    using assms(6) by (simp add: json_str_array_def string_elements_def)
  obtain els' idx' where pp: "pad_path zk els idx (unat d) = (els', idx')" by fastforce
  obtain g0 where net: "ensure_network sb r g = (Inr (), g0)"
    using assms(2) by (auto simp: get_merkle_proof_def gated_read_def split: prod.splits sum.splits)
  have lift: "lift_roots_reply zk (JObj fs) = Inr ?hs"
    using assms(10-13) by (simp add: lift_roots_reply_def)
  have rd: "read_reply ''get_valid_roots'' (await_reply ''get_valid_roots'' (sb_get_valid_roots sb (rid_account r))) = Inr raw"
    using assms(7,8) by (simp add: read_reply_Inr)
  have roots: "get_valid_roots zk sb r g = (Inr ?hs, g0)"
    unfolding get_valid_roots_def gated_read_def net prod.case sum.case rd parsed_as_def assms(9) map_err_simps and_then_simps lift ..
  have "refresh_one zk sb now r st g = (Inr (), st \<lparr> rs_windows := (rs_windows st)(rid_canonical r \<mapsto>
      \<lparr> wn_roots = List.map_filter hex_to_bytes32 ?hs, wn_updated_at = now \<rparr>) \<rparr>, g0)"
    using assms(1) roots by (simp add: refresh_one_def)
  moreover have "List.map_filter hex_to_bytes32 ?hs \<noteq> []"
  proof -
    obtain h b where "h \<in> set (string_elements roots)" "hex_to_bytes32 (fold_root zk h (unat d)) = Some b"
      using assms(14) by auto
    then have "b \<in> set (List.map_filter hex_to_bytes32 ?hs)" by (auto simp: set_map_filter)
    then show ?thesis by auto
  qed
  ultimately show ?thesis
    using fill_path_cache_ok [OF assms(2-5) js pp, where now = now and hash = hash and paths = paths and st = st]
    by (fastforce simp: adopt_def)
qed

definition sample_roots_module :: sibling where
  "sample_roots_module = sample_registry_module
     \<lparr> sb_get_valid_roots := (\<lambda>a. Replied ''r''),
       parse_json := (\<lambda>s. if s = ''r'' then Inr sample_merkle else Inr (JArr [sample_merkle])) \<rparr>"

end
