(* ===== verification/Sealed_Store.thy ===== *)
theory Sealed_Store
  imports Registry_Id Api_Error Lifecycle
begin

text \<open>
  Model of \<open>sealed_store/store.rs\<close>: opening with the unkeyed census, unlocking with keyed
  verification, insertion, the plaintext release path, the allocation ledger with
  persist-before-issue reservation, the cache sidecar, and the published snapshot.

  A store method runs under one mutex from its first guard to its last write, so a method is
  one function from the store and the disk to its result and both of them; it returns the
  store and the disk on error paths too, since the code mutates its state before some errors.
  The disk holds, for each of the three files, what a reader would find. What the operating
  system may answer (write and rename outcomes, the lock, I/O error texts) is an argument.
\<close>

section \<open>Environment, disk and state\<close>

record store_env = crypto +
  credential_to_json :: "stored_credential \<Rightarrow> string + bytes"
  credential_from_json :: "bytes \<Rightarrow> string + stored_credential"

datatype 'a file_state =
    Absent | MetaError string | Oversized | ReadError string | Unparseable string | Parsed 'a

record disk =
  dk_sealed :: "sealed_file file_state"
  dk_allocations :: "allocations_file file_state"
  dk_cache :: "cache_file file_state"
  dk_old_format :: bool

text \<open>
  A durable write either succeeds, fails before the rename (the old content stays), or fails
  after it (the directory sync failed, the new content is visible).
\<close>

datatype write_outcome = WriteOk | WriteErrOld string | WriteErrNew string

fun write_result :: "write_outcome \<Rightarrow> string + unit" where
  "write_result WriteOk = Inr ()"
| "write_result (WriteErrOld e) = Inl e"
| "write_result (WriteErrNew e) = Inl e"

fun written :: "write_outcome \<Rightarrow> 'a \<Rightarrow> 'a file_state \<Rightarrow> 'a file_state" where
  "written WriteOk f old = Parsed f"
| "written (WriteErrOld e) f old = old"
| "written (WriteErrNew e) f old = Parsed f"

datatype open_error = DirLockHeld string | OldFormatPresent string | Unreadable string

datatype lock_outcome = LockTaken | LockWouldBlock string | LockError string

record session =
  ss_password :: string
  ss_keys :: sub_keys

record inner =
  in_sealed :: "sealed_file option"
  in_store_uuid :: "bytes option"
  in_sections :: "(string, allocation_state) btmap"
  in_cache :: "(string, cache_state) btmap"
  in_census_quarantined :: "string set"
  in_keyed_quarantined :: "string set"
  in_session :: "session option"
  in_raw_sections :: "(string, ledger_section) btmap"
  in_root_mac_raw :: "bytes option"
  in_lock :: bool

record store =
  st_dir :: string
  st_inner :: inner
  st_snapshot :: "(string, membership_record) btmap"

section \<open>Helpers\<close>

definition row_of_alloc :: "epoch_allocation \<Rightarrow> alloc_row" where
  "row_of_alloc a =
     \<lparr> ar_rln_identifier = ea_rln_identifier a, ar_epoch = ea_epoch a, ar_used = ea_used a \<rparr>"

definition alloc_of_row :: "alloc_row \<Rightarrow> epoch_allocation" where
  "alloc_of_row r =
     \<lparr> ea_rln_identifier = ar_rln_identifier r, ea_epoch = ar_epoch r, ea_used = ar_used r \<rparr>"

definition alloc_of_section :: "ledger_section \<Rightarrow> allocation_state" where
  "alloc_of_section s =
     \<lparr> as_allocations = map alloc_of_row (sec_allocations s),
       as_epoch_size_sec = sec_epoch_size_sec s, as_prune_floor = sec_prune_floor s \<rparr>"

definition derive_keys :: "'z crypto_scheme \<Rightarrow> string \<Rightarrow> kdf_params \<Rightarrow> api_error + sub_keys" where
  "derive_keys cr password params =
     and_then (map_err (\<lambda>e. api_internal (''kdf: '' @ show_crypto_error e))
                 (master_key_derive cr password params)) (\<lambda>mk.
     map_err (\<lambda>e. api_internal (''kdf: '' @ show_crypto_error e)) (sub_keys_derive cr mk))"

definition credential_opens :: "'z store_env_scheme \<Rightarrow> sub_keys \<Rightarrow> bytes \<Rightarrow> sealed_entry \<Rightarrow> bool" where
  "credential_opens env keys aad entry \<longleftrightarrow>
     (case hex_to_vec (se_nonce entry) of
        None \<Rightarrow> False
      | Some nonce \<Rightarrow>
          (case hex_to_vec (se_ct entry) of
             None \<Rightarrow> False
           | Some ct \<Rightarrow>
               (case unseal env (sk_seal keys) nonce aad ct of
                  Inr pt \<Rightarrow> is_ok (credential_from_json env pt)
                | Inl _ \<Rightarrow> False)))"

definition section_mac_ok ::
  "'z crypto_scheme \<Rightarrow> sub_keys \<Rightarrow> string \<Rightarrow> ledger_section \<Rightarrow> bytes \<Rightarrow> bool"
where
  "section_mac_ok cr keys hash s uuid \<longleftrightarrow>
     (let expected = mac cr (sk_ledger keys)
            (section_mac_payload hash (sec_epoch_size_sec s) (sec_prune_floor s)
               (sec_allocations s) uuid)
      in case hex_to_vec (sec_mac s) of
           Some stored \<Rightarrow> ct_eq expected stored
         | None \<Rightarrow> False)"

definition ensure_open :: "inner \<Rightarrow> api_error + unit" where
  "ensure_open i = (if \<not> in_lock i then Inl (api_internal ''keystore is closed'') else Inr ())"

definition WRITE_ROW_CAP :: nat where "WRITE_ROW_CAP = MAX_ROWS_PER_SECTION"

definition reservation_guards :: "bool \<Rightarrow> allocation_state option \<Rightarrow> u64 \<Rightarrow> api_error + unit" where
  "reservation_guards quarantined alloc epoch_size_sec =
     (if quarantined then Inl (api_internal ''entry quarantined (metadata tamper)'')
      else (case alloc of
         None \<Rightarrow> Inl (api_new UnknownMembership ''no such membership_hash'')
       | Some a \<Rightarrow>
           if as_epoch_size_sec a \<noteq> 0 \<and> as_epoch_size_sec a \<noteq> epoch_size_sec
           then Inl (api_new Permanent
             (''configured epoch_size_sec '' @ show_nat (unat epoch_size_sec) @ '' differs from '' @
              show_nat (unat (as_epoch_size_sec a)) @ '' '' @ em_dash @
              '' the size this membership's allocations are bound to; a rebased epoch numbering could'' @
              '' reissue spent slots. Register a fresh membership under the new size''))
           else Inr ()))"

definition floor_refusal :: api_error where
  "floor_refusal = api_new Permanent
     (''epoch is below the persisted allocation floor (backwards clock step or a'' @
      '' widened max_epoch_gap re-admitted a pruned epoch); refusing to reissue a'' @
      '' possibly spent slot'')"

definition is_quarantined :: "inner \<Rightarrow> string \<Rightarrow> bool" where
  "is_quarantined i hash \<longleftrightarrow> hash \<in> in_census_quarantined i \<or> hash \<in> in_keyed_quarantined i"

definition build_snapshot :: "inner \<Rightarrow> (string, membership_record) btmap" where
  "build_snapshot i =
     (case in_sealed i of
        None \<Rightarrow> []
      | Some f \<Rightarrow>
          map (\<lambda>(hash, entry). (hash,
             \<lparr> mr_hash = hash, mr_identity = se_identity entry,
               mr_cache = (case bt_get (in_cache i) hash of Some c \<Rightarrow> c | None \<Rightarrow> default_cache_state),
               mr_alloc = (case bt_get (in_sections i) hash of Some a \<Rightarrow> a | None \<Rightarrow> default_allocation_state),
               mr_quarantined = is_quarantined i hash \<rparr>)) (sf_credentials f))"

definition swap_snapshot :: "store \<Rightarrow> store" where
  "swap_snapshot s = s \<lparr> st_snapshot := build_snapshot (st_inner s) \<rparr>"

definition with_inner :: "store \<Rightarrow> inner \<Rightarrow> store" where
  "with_inner s i = s \<lparr> st_inner := i \<rparr>"

section \<open>Loading\<close>

definition SEALED_FILE :: string where "SEALED_FILE = ''rln_sealed.json''"
definition ALLOCATIONS_FILE :: string where "ALLOCATIONS_FILE = ''rln_allocations.json''"
definition CACHE_FILE :: string where "CACHE_FILE = ''rln_cache.json''"

text \<open>Moving a corrupt file aside; the rename may fail, which leaves it in place.\<close>

definition quarantine_file :: "bool \<Rightarrow> 'a file_state \<Rightarrow> 'a file_state" where
  "quarantine_file rename_ok st = (if rename_ok then Absent else st)"

definition credential_keys :: "sealed_file option \<Rightarrow> string list" where
  "credential_keys sealed = (case sealed of None \<Rightarrow> [] | Some f \<Rightarrow> bt_keys (sf_credentials f))"

definition quarantine_all :: "sealed_file option \<Rightarrow> string set \<Rightarrow> string set" where
  "quarantine_all sealed census = census \<union> set (credential_keys sealed)"

fun load_sealed :: "bool \<Rightarrow> disk \<Rightarrow> (open_error + sealed_file option) \<times> disk" where
  "load_sealed rename_ok d =
     (case dk_sealed d of
        Oversized \<Rightarrow>
          (Inl (Unreadable (SEALED_FILE @ '' exceeds the '' @ show_nat MAX_FILE_BYTES @
             ''-byte size cap; refusing to parse it '' @ em_dash @ '' restore the file from a backup'')), d)
      | MetaError e \<Rightarrow> (Inl (Unreadable (SEALED_FILE @ '': '' @ e)), d)
      | Absent \<Rightarrow> (Inr None, d)
      | ReadError e \<Rightarrow> (Inl (Unreadable (SEALED_FILE @ '': '' @ e)), d)
      | Unparseable e \<Rightarrow> (Inr None, d \<lparr> dk_sealed := quarantine_file rename_ok (dk_sealed d) \<rparr>)
      | Parsed f \<Rightarrow>
          (case check_sealed_caps f of
             Inl e \<Rightarrow> (Inr None, d \<lparr> dk_sealed := quarantine_file rename_ok (dk_sealed d) \<rparr>)
           | Inr _ \<Rightarrow>
               if sf_format f \<noteq> FORMAT_SEALED \<or> sf_version f \<noteq> FORMAT_VERSION
               then (Inl (Unreadable (SEALED_FILE @ '' declares format \"'' @ sf_format f @ ''\" version '' @
                      show_nat (unat (sf_version f)) @ '' but this build speaks '' @ FORMAT_SEALED @
                      '' version '' @ show_nat (unat FORMAT_VERSION) @ ''; refusing to adopt it '' @ em_dash @
                      '' run a module version matching the file, or restore the file from a backup'')), d)
               else (Inr (Some f), d)))"

record loaded_allocations =
  la_sections :: "(string, allocation_state) btmap"
  la_raw_sections :: "(string, ledger_section) btmap"
  la_root_mac_raw :: "bytes option"

definition loaded_allocations_empty :: loaded_allocations where
  "loaded_allocations_empty = \<lparr> la_sections = [], la_raw_sections = [], la_root_mac_raw = None \<rparr>"

definition allocations_acceptable :: "allocations_file \<Rightarrow> bool" where
  "allocations_acceptable f \<longleftrightarrow>
     is_ok (check_allocations_caps f) \<and> af_format f = FORMAT_ALLOCATIONS \<and> af_version f = FORMAT_VERSION"

definition adopt_allocations ::
  "sealed_file option \<Rightarrow> string set \<Rightarrow> allocations_file \<Rightarrow> loaded_allocations \<times> string set"
where
  "adopt_allocations sealed census file =
     (let root = hex_to_bytes32 (af_root_mac file) in
      case sealed of
        None \<Rightarrow>
          (\<lparr> la_sections = [], la_raw_sections = af_sections file, la_root_mac_raw = root \<rparr>, census)
      | Some f \<Rightarrow>
          if sf_store_uuid f \<noteq> af_store_uuid file
          then (\<lparr> la_sections = [], la_raw_sections = af_sections file, la_root_mac_raw = root \<rparr>,
                quarantine_all sealed census)
          else
            (\<lparr> la_sections = map (\<lambda>(h, s). (h, alloc_of_section s))
                 (filter (\<lambda>(h, _). bt_contains (sf_credentials f) h) (af_sections file)),
               la_raw_sections = af_sections file, la_root_mac_raw = root \<rparr>,
             census \<union> {h \<in> set (bt_keys (sf_credentials f)). \<not> bt_contains (af_sections file) h}))"

definition load_allocations ::
  "bool \<Rightarrow> disk \<Rightarrow> sealed_file option \<Rightarrow> string set \<Rightarrow> loaded_allocations \<times> string set \<times> disk"
where
  "load_allocations rename_ok d sealed census =
     (let failed = quarantine_all sealed census;
          moved = d \<lparr> dk_allocations := quarantine_file rename_ok (dk_allocations d) \<rparr> in
      case dk_allocations d of
        Oversized \<Rightarrow> (loaded_allocations_empty, failed, moved)
      | MetaError e \<Rightarrow> (loaded_allocations_empty, failed, d)
      | Absent \<Rightarrow> (loaded_allocations_empty, failed, d)
      | ReadError e \<Rightarrow> (loaded_allocations_empty, failed, d)
      | Unparseable e \<Rightarrow> (loaded_allocations_empty, failed, moved)
      | Parsed f \<Rightarrow>
          if \<not> allocations_acceptable f then (loaded_allocations_empty, failed, moved)
          else let (la, c) = adopt_allocations sealed census f in (la, c, d))"

definition load_cache :: "bool \<Rightarrow> disk \<Rightarrow> sealed_file option \<Rightarrow> (string, cache_state) btmap \<times> disk" where
  "load_cache rename_ok d sealed =
     (let moved = d \<lparr> dk_cache := quarantine_file rename_ok (dk_cache d) \<rparr>;
          (entries, d') =
            (case dk_cache d of
               Absent \<Rightarrow> ([], d)
             | MetaError e \<Rightarrow> ([], d)
             | Oversized \<Rightarrow> ([], moved)
             | ReadError e \<Rightarrow> ([], d)
             | Unparseable e \<Rightarrow> ([], moved)
             | Parsed f \<Rightarrow> (cf_entries f, d))
      in case sealed of
           None \<Rightarrow> ([], d')
         | Some f \<Rightarrow>
             (fold (\<lambda>hash m. bt_or_insert hash default_cache_state m) (bt_keys (sf_credentials f))
                (filter (\<lambda>(hash, _). bt_contains (sf_credentials f) hash) entries), d'))"

section \<open>Opening and closing\<close>

definition sealed_exists :: "disk \<Rightarrow> bool" where
  "sealed_exists d = (case dk_sealed d of Absent \<Rightarrow> False | MetaError _ \<Rightarrow> False | _ \<Rightarrow> True)"

definition census_fails :: "'z crypto_scheme \<Rightarrow> string \<Rightarrow> sealed_entry \<Rightarrow> bool" where
  "census_fails cr hash entry \<longleftrightarrow>
     map_option (membership_hash (sha256_digest cr) (ib_registry_id (se_identity entry)))
       (hex_to_bytes32 (ib_identity_commitment (se_identity entry))) \<noteq> Some hash"

definition open_census :: "'z crypto_scheme \<Rightarrow> sealed_file option \<Rightarrow> string set" where
  "open_census cr sealed =
     (case sealed of
        None \<Rightarrow> {}
      | Some f \<Rightarrow> set (map fst (filter (\<lambda>(h, e). census_fails cr h e) (sf_credentials f))))"

definition parse_store_uuid :: "string \<Rightarrow> bytes option" where
  "parse_store_uuid s =
     (case hex_to_vec s of None \<Rightarrow> None | Some v \<Rightarrow> if length v = 16 then Some v else None)"

record renames =
  rn_sealed :: bool
  rn_allocations :: bool
  rn_cache :: bool

definition open_store ::
  "'z crypto_scheme \<Rightarrow> string \<Rightarrow> lock_outcome \<Rightarrow> renames \<Rightarrow> disk \<Rightarrow> (open_error + store) \<times> disk"
where
  "open_store cr dir lk rn d =
     (if detect (sealed_exists d) (dk_old_format d) = OldOnly
      then (Inl (OldFormatPresent
        (''an old-format RLN keystore (rln_keystore.json) was found; this version'' @
         '' uses a new incompatible format with no migration '' @ em_dash @ '' back up'' @
         '' rln_keystore.json and move it out of the persistence dir to start fresh'' @
         '' (memberships must be re-registered), or run a previous module version'')), d)
      else case lk of
        LockWouldBlock e \<Rightarrow>
          (Inl (DirLockHeld (''could not take the exclusive keystore lock in '' @ dir @ '' ('' @ e @
             ''); another process may be using this persistence path'')), d)
      | LockError e \<Rightarrow> (Inl (Unreadable (''keystore lock file in '' @ dir @ '': '' @ e)), d)
      | LockTaken \<Rightarrow>
          (case load_sealed (rn_sealed rn) d of
             (Inl e, d1) \<Rightarrow> (Inl e, d1)
           | (Inr sealed, d1) \<Rightarrow>
               (case map_option (\<lambda>f. parse_store_uuid (sf_store_uuid f)) sealed of
                  Some None \<Rightarrow>
                    (Inl (Unreadable (SEALED_FILE @ '' carries a store_uuid that is not 16-byte hex '' @
                       em_dash @ '' refusing to guess; restore the file from a backup'')), d1)
                | uuid \<Rightarrow>
                    let (loaded, census, d2) =
                          load_allocations (rn_allocations rn) d1 sealed (open_census cr sealed);
                        (cache, d3) = load_cache (rn_cache rn) d2 sealed;
                        i = \<lparr> in_sealed = sealed, in_store_uuid = Option.bind uuid id,
                              in_sections = la_sections loaded, in_cache = cache,
                              in_census_quarantined = census, in_keyed_quarantined = {},
                              in_session = None, in_raw_sections = la_raw_sections loaded,
                              in_root_mac_raw = la_root_mac_raw loaded, in_lock = True \<rparr>
                    in (Inr \<lparr> st_dir = dir, st_inner = i, st_snapshot = build_snapshot i \<rparr>, d3))))"

definition close_store :: "store \<Rightarrow> store" where
  "close_store s = with_inner s ((st_inner s) \<lparr> in_lock := False, in_session := None \<rparr>)"

section \<open>Unlocking\<close>

definition stored_macs :: "inner \<Rightarrow> (string, bytes) btmap" where
  "stored_macs i =
     concat (map (\<lambda>(h, s). case hex_to_bytes32 (sec_mac s) of Some m \<Rightarrow> [(h, m)] | None \<Rightarrow> [])
       (in_raw_sections i))"

definition root_ok :: "'z crypto_scheme \<Rightarrow> sub_keys \<Rightarrow> inner \<Rightarrow> bytes \<Rightarrow> bool" where
  "root_ok cr keys i uuid \<longleftrightarrow>
     length (stored_macs i) = length (in_raw_sections i) \<and>
     (case in_root_mac_raw i of
        None \<Rightarrow> False
      | Some stored \<Rightarrow>
          ct_eq (mac cr (sk_ledger keys) (root_mac_payload (stored_macs i) uuid)) stored)"

definition keyed_verification ::
  "'z store_env_scheme \<Rightarrow> sub_keys \<Rightarrow> inner \<Rightarrow> sealed_file \<Rightarrow> bytes \<Rightarrow> string set"
where
  "keyed_verification env keys i f uuid =
     (let census = in_census_quarantined i;
          keyed1 = set (map fst (filter (\<lambda>(hash, entry). hash \<notin> census \<and>
                     \<not> credential_opens env keys (credential_aad hash (se_identity entry) uuid) entry)
                     (sf_credentials f)));
          keyed2 = keyed1 \<union> set (filter (\<lambda>hash. hash \<notin> census \<and> hash \<notin> keyed1 \<and>
                     \<not> (case bt_get (in_raw_sections i) hash of
                          Some s \<Rightarrow> section_mac_ok env keys hash s uuid
                        | None \<Rightarrow> False))
                     (bt_keys (sf_credentials f)))
      in if in_raw_sections i \<noteq> [] \<and> \<not> root_ok env keys i uuid
         then keyed2 \<union> set (filter (\<lambda>hash. hash \<notin> census) (bt_keys (sf_credentials f)))
         else keyed2)"

definition all_quarantined :: "inner \<Rightarrow> bool" where
  "all_quarantined i \<longleftrightarrow>
     (case in_sealed i of
        None \<Rightarrow> False
      | Some f \<Rightarrow> list_all (\<lambda>h. h \<in> in_census_quarantined i) (bt_keys (sf_credentials f)))"

definition unlock_provision ::
  "'z store_env_scheme \<Rightarrow> string \<Rightarrow> bytes option \<Rightarrow> bytes option \<Rightarrow> write_outcome \<Rightarrow> store \<Rightarrow> disk \<Rightarrow>
     (api_error + nat) \<times> store \<times> disk"
where
  "unlock_provision env password salt_rand uuid_rand w s d =
     (let i = st_inner s in
      case and_then (map_err (\<lambda>e. api_internal (''kdf params: '' @ show_crypto_error e))
                       (kdf_generate salt_rand)) (\<lambda>params.
           and_then (derive_keys env password params) (\<lambda>keys.
           and_then (case in_store_uuid i of
                       Some u \<Rightarrow> Inr u
                     | None \<Rightarrow> ok_or (api_internal ''no CSPRNG for the store uuid'') uuid_rand) (\<lambda>uuid.
           Inr (params, keys, uuid)))) of
        Inl e \<Rightarrow> (Inl e, s, d)
      | Inr (params, keys, uuid) \<Rightarrow>
          let file = sealed_file_provision params (bytes_to_hex (sk_verify keys)) (bytes_to_hex uuid);
              d' = d \<lparr> dk_sealed := written w file (dk_sealed d) \<rparr>
          in case write_result w of
               Inl e \<Rightarrow> (Inl (api_internal (''sealed store save: '' @ e)), s, d')
             | Inr _ \<Rightarrow>
                 (Inr 0,
                  swap_snapshot (with_inner s
                    (i \<lparr> in_sealed := Some file, in_store_uuid := Some uuid,
                         in_session := Some \<lparr> ss_password = password, ss_keys = keys \<rparr> \<rparr>)),
                  d'))"

definition unlock_existing ::
  "'z store_env_scheme \<Rightarrow> string \<Rightarrow> store \<Rightarrow> (api_error + nat) \<times> store"
where
  "unlock_existing env password s =
     (let i = st_inner s in
      case in_sealed i of
        None \<Rightarrow> (Inl (api_internal ''sealed store state desynchronized''), s)
      | Some f \<Rightarrow>
          (case in_store_uuid i of
             None \<Rightarrow> (Inl (api_internal ''sealed store is not provisioned''), s)
           | Some uuid \<Rightarrow>
               (case derive_keys env password (sf_kdf f) of
                  Inl e \<Rightarrow> (Inl e, s)
                | Inr keys \<Rightarrow>
                    let stored_verifier =
                          (case hex_to_vec (sf_verifier f) of Some v \<Rightarrow> v | None \<Rightarrow> []) in
                    if \<not> ct_eq (sk_verify keys) stored_verifier
                    then (Inl (api_new BadPassword ''password does not open the existing keystore''), s)
                    else
                      let keyed = keyed_verification env keys i f uuid;
                          unlocked = length (filter (\<lambda>h. h \<notin> in_census_quarantined i \<and> h \<notin> keyed)
                                       (bt_keys (sf_credentials f)))
                      in (Inr unlocked,
                          swap_snapshot (with_inner s
                            (i \<lparr> in_keyed_quarantined := keyed,
                                 in_session := Some \<lparr> ss_password = password, ss_keys = keys \<rparr> \<rparr>))))))"

definition unlock ::
  "'z store_env_scheme \<Rightarrow> string \<Rightarrow> bytes option \<Rightarrow> bytes option \<Rightarrow> write_outcome \<Rightarrow> store \<Rightarrow> disk \<Rightarrow>
     (api_error + nat) \<times> store \<times> disk"
where
  "unlock env password salt_rand uuid_rand w s d =
     (case ensure_open (st_inner s) of
        Inl e \<Rightarrow> (Inl e, s, d)
      | Inr _ \<Rightarrow>
          let cred_count = (case in_sealed (st_inner s) of None \<Rightarrow> 0 | Some f \<Rightarrow> length (sf_credentials f)) in
          if 0 < cred_count \<and> all_quarantined (st_inner s)
          then (Inl (api_internal
                 (''every keystore entry is quarantined (metadata tamper or a missing/rolled-back'' @
                  '' rln_allocations.json); restore the keystore files from a backup'')), s, d)
          else if cred_count = 0 then unlock_provision env password salt_rand uuid_rand w s d
          else let (r, s') = unlock_existing env password s in (r, s', d))"

definition lock_store :: "store \<Rightarrow> store" where
  "lock_store s = with_inner s ((st_inner s) \<lparr> in_session := None \<rparr>)"

definition session_password :: "store \<Rightarrow> string option" where
  "session_password s = map_option ss_password (in_session (st_inner s))"

definition has_credentials :: "store \<Rightarrow> bool" where
  "has_credentials s \<longleftrightarrow> st_snapshot s \<noteq> []"

definition is_provisioned :: "store \<Rightarrow> bool" where
  "is_provisioned s \<longleftrightarrow> in_sealed (st_inner s) \<noteq> None"

section \<open>Writing the ledger and the cache\<close>

definition stamped_section ::
  "'z crypto_scheme \<Rightarrow> sub_keys \<Rightarrow> string \<Rightarrow> allocation_state \<Rightarrow> bytes \<Rightarrow> ledger_section"
where
  "stamped_section cr keys hash alloc uuid =
     (let rows = map row_of_alloc (as_allocations alloc) in
      \<lparr> sec_epoch_size_sec = as_epoch_size_sec alloc, sec_prune_floor = as_prune_floor alloc,
        sec_allocations = rows,
        sec_mac = bytes_to_hex (mac cr (sk_ledger keys)
          (section_mac_payload hash (as_epoch_size_sec alloc) (as_prune_floor alloc) rows uuid)) \<rparr>)"

definition sections_to_write ::
  "'z crypto_scheme \<Rightarrow> sub_keys \<Rightarrow> inner \<Rightarrow> bytes \<Rightarrow> (string, ledger_section) btmap"
where
  "sections_to_write cr keys i uuid =
     concat (map (\<lambda>(hash, alloc).
        if is_quarantined i hash
        then (case bt_get (in_raw_sections i) hash of Some s \<Rightarrow> [(hash, s)] | None \<Rightarrow> [])
        else [(hash, stamped_section cr keys hash alloc uuid)]) (in_sections i))"

definition written_macs :: "(string, ledger_section) btmap \<Rightarrow> (string, bytes) btmap" where
  "written_macs secs =
     map (\<lambda>(h, s). (h, case hex_to_bytes32 (sec_mac s) of Some m \<Rightarrow> m | None \<Rightarrow> replicate 32 0)) secs"

definition write_allocations ::
  "'z crypto_scheme \<Rightarrow> write_outcome \<Rightarrow> inner \<Rightarrow> disk \<Rightarrow> (api_error + unit) \<times> inner \<times> disk"
where
  "write_allocations cr w i d =
     (case in_session i of
        None \<Rightarrow> (Inl (api_new Locked ''unlock_keystore before registering''), i, d)
      | Some ses \<Rightarrow>
          (case in_store_uuid i of
             None \<Rightarrow> (Inl (api_internal ''sealed store is not provisioned''), i, d)
           | Some uuid \<Rightarrow>
               let keys = ss_keys ses;
                   secs = sections_to_write cr keys i uuid;
                   root = mac cr (sk_ledger keys) (root_mac_payload (written_macs secs) uuid);
                   file = \<lparr> af_format = FORMAT_ALLOCATIONS, af_version = FORMAT_VERSION,
                            af_store_uuid = bytes_to_hex uuid, af_sections = secs,
                            af_root_mac = bytes_to_hex root \<rparr>;
                   d' = d \<lparr> dk_allocations := written w file (dk_allocations d) \<rparr>
               in case write_result w of
                    Inl e \<Rightarrow> (Inl (api_internal (''allocations save: '' @ e)), i, d')
                  | Inr _ \<Rightarrow> (Inr (), i \<lparr> in_raw_sections := secs, in_root_mac_raw := Some root \<rparr>, d')))"

definition write_cache :: "write_outcome \<Rightarrow> inner \<Rightarrow> disk \<Rightarrow> (api_error + unit) \<times> disk" where
  "write_cache w i d =
     (map_err (\<lambda>e. api_internal (''cache save: '' @ e)) (write_result w),
      d \<lparr> dk_cache := written w (cache_file_new \<lparr> cf_entries := in_cache i \<rparr>) (dk_cache d) \<rparr>)"

section \<open>Inserting and releasing credentials\<close>

definition insert_section :: "string \<Rightarrow> inner \<Rightarrow> inner" where
  "insert_section hash i =
     (let was_quarantined = is_quarantined i hash;
          i1 = i \<lparr> in_census_quarantined := in_census_quarantined i - {hash},
                   in_keyed_quarantined := in_keyed_quarantined i - {hash} \<rparr>
      in if was_quarantined
         then i1 \<lparr> in_sections := bt_insert hash default_allocation_state (in_sections i) \<rparr>
         else i1 \<lparr> in_sections := bt_or_insert hash default_allocation_state (in_sections i) \<rparr>)"

definition insert_cache_row :: "string \<Rightarrow> u64 \<Rightarrow> inner \<Rightarrow> inner" where
  "insert_cache_row hash rate_limit i =
     i \<lparr> in_cache := bt_insert hash
           (default_cache_state \<lparr> cs_state := Pending, cs_rate_limit := Some rate_limit \<rparr>) (in_cache i) \<rparr>"

definition insert_sealed ::
  "'z store_env_scheme \<Rightarrow> bytes option \<Rightarrow> write_outcome \<Rightarrow> string \<Rightarrow> identity_block \<Rightarrow>
     stored_credential \<Rightarrow> store \<Rightarrow> disk \<Rightarrow> (api_error + unit) \<times> store \<times> disk"
where
  "insert_sealed env rand24 w hash identity credential s d =
     (let i = st_inner s in
      case in_session i of
        None \<Rightarrow> (Inl (api_new Locked ''unlock_keystore before registering''), s, d)
      | Some ses \<Rightarrow>
      case in_store_uuid i of
        None \<Rightarrow> (Inl (api_internal ''sealed store is not provisioned''), s, d)
      | Some uuid \<Rightarrow>
      case and_then (map_err (\<lambda>e. api_internal (''credential serialize: '' @ e))
                       (credential_to_json env credential)) (\<lambda>plaintext.
           map_err (\<lambda>e. api_internal (''credential seal: '' @ show_crypto_error e))
             (seal env rand24 (sk_seal (ss_keys ses)) (credential_aad hash identity uuid) plaintext)) of
        Inl e \<Rightarrow> (Inl e, s, d)
      | Inr (nonce, ct) \<Rightarrow>
      case in_sealed i of
        None \<Rightarrow> (Inl (api_internal ''sealed store is not provisioned''), s, d)
      | Some f \<Rightarrow>
          let f' = f \<lparr> sf_credentials := bt_insert hash
                \<lparr> se_identity = identity, se_nonce = bytes_to_hex nonce, se_ct = bytes_to_hex ct \<rparr>
                (sf_credentials f) \<rparr>;
              s' = with_inner s (i \<lparr> in_sealed := Some f' \<rparr>);
              d' = d \<lparr> dk_sealed := written w f' (dk_sealed d) \<rparr>
          in case write_result w of
               Inl e \<Rightarrow> (Inl (api_internal (''sealed store save: '' @ e)), s', d')
             | Inr _ \<Rightarrow> (Inr (), swap_snapshot s', d'))"

definition insert_membership ::
  "'z store_env_scheme \<Rightarrow> bytes option \<Rightarrow> write_outcome \<Rightarrow> write_outcome \<Rightarrow> write_outcome \<Rightarrow>
     string \<Rightarrow> identity_block \<Rightarrow> stored_credential \<Rightarrow> u64 \<Rightarrow> store \<Rightarrow> disk \<Rightarrow>
     (api_error + unit) \<times> store \<times> disk"
where
  "insert_membership env rand24 wa wc ws hash identity credential rate_limit s d =
     (case ensure_open (st_inner s) of
        Inl e \<Rightarrow> (Inl e, s, d)
      | Inr _ \<Rightarrow>
          if in_session (st_inner s) = None
          then (Inl (api_new Locked ''unlock_keystore before registering''), s, d)
          else
            case write_allocations env wa (insert_section hash (st_inner s)) d of
              (Inl e, i1, d1) \<Rightarrow> (Inl e, with_inner s i1, d1)
            | (Inr _, i1, d1) \<Rightarrow>
                let i2 = insert_cache_row hash rate_limit i1 in
                case write_cache wc i2 d1 of
                  (Inl e, d2) \<Rightarrow> (Inl e, with_inner s i2, d2)
                | (Inr _, d2) \<Rightarrow>
                    insert_sealed env rand24 ws hash identity credential (with_inner s i2) d2)"

definition unseal_credential :: "'z store_env_scheme \<Rightarrow> string \<Rightarrow> store \<Rightarrow> api_error + stored_credential" where
  "unseal_credential env hash s =
     (let i = st_inner s in
      if is_quarantined i hash then Inl (api_internal ''entry quarantined (metadata tamper)'')
      else
        and_then (ok_or (api_new Locked ''unlock_keystore before selecting'') (in_session i)) (\<lambda>ses.
        and_then (ok_or (api_new UnknownMembership ''no such membership_hash'')
                    (Option.bind (in_sealed i) (\<lambda>f. bt_get (sf_credentials f) hash))) (\<lambda>entry.
        and_then (ok_or (api_internal ''sealed store is not provisioned'') (in_store_uuid i)) (\<lambda>uuid.
        and_then (ok_or (api_internal ''malformed credential nonce'') (hex_to_vec (se_nonce entry))) (\<lambda>nonce.
        and_then (ok_or (api_internal ''malformed credential ciphertext'') (hex_to_vec (se_ct entry))) (\<lambda>ct.
        and_then (map_err (\<lambda>e. case e of
                     CryptoBadPassword \<Rightarrow> api_new BadPassword ''session password no longer opens this entry''
                   | other \<Rightarrow> api_internal (''credential unseal: '' @ show_crypto_error other))
                   (unseal env (sk_seal (ss_keys ses)) nonce
                      (credential_aad hash (se_identity entry) uuid) ct)) (\<lambda>pt.
        map_err (\<lambda>e. api_internal (''credential parse: '' @ e)) (credential_from_json env pt))))))))"

section \<open>Snapshot reads\<close>

definition membership :: "string \<Rightarrow> store \<Rightarrow> membership_record option" where
  "membership hash s = bt_get (st_snapshot s) hash"

definition records_for :: "string \<Rightarrow> store \<Rightarrow> membership_record list" where
  "records_for canonical_registry s =
     filter (\<lambda>r. ib_registry_id (mr_identity r) = canonical_registry) (bt_values (st_snapshot s))"

definition pending_records :: "store \<Rightarrow> membership_record list" where
  "pending_records s =
     filter (\<lambda>r. \<not> mr_quarantined r \<and> cs_state (mr_cache r) = Pending) (bt_values (st_snapshot s))"

definition refreshable_records :: "store \<Rightarrow> membership_record list" where
  "refreshable_records s =
     filter (\<lambda>r. \<not> mr_quarantined r \<and> cs_state (mr_cache r) \<in> {Active, GracePeriod, Expired, Unknown})
       (bt_values (st_snapshot s))"

definition epoch_size_bindings :: "store \<Rightarrow> (string \<times> u64) list" where
  "epoch_size_bindings s = map (\<lambda>r. (mr_hash r, as_epoch_size_sec (mr_alloc r))) (bt_values (st_snapshot s))"

section \<open>Cache updates\<close>

definition stamp_first_active :: "u64 \<Rightarrow> cache_state \<Rightarrow> cache_state" where
  "stamp_first_active now row =
     (if cs_first_active_at row = None \<and> is_active_like (cs_state row)
      then row \<lparr> cs_first_active_at := Some now \<rparr> else row)"

definition sealed_contains :: "inner \<Rightarrow> string \<Rightarrow> bool" where
  "sealed_contains i hash = (case in_sealed i of None \<Rightarrow> False | Some f \<Rightarrow> bt_contains (sf_credentials f) hash)"

definition update_cache ::
  "write_outcome \<Rightarrow> u64 \<Rightarrow> string \<Rightarrow> (cache_state \<Rightarrow> cache_state) \<Rightarrow> store \<Rightarrow> disk \<Rightarrow>
     (api_error + membership_state) \<times> store \<times> disk"
where
  "update_cache w now hash f s d =
     (let i = st_inner s in
      case ensure_open i of
        Inl e \<Rightarrow> (Inl e, s, d)
      | Inr _ \<Rightarrow>
          if \<not> sealed_contains i hash
          then (Inl (api_new UnknownMembership ''no such membership_hash''), s, d)
          else
            let row = (case bt_get (in_cache i) hash of Some r \<Rightarrow> r | None \<Rightarrow> default_cache_state);
                i' = i \<lparr> in_cache := bt_insert hash (stamp_first_active now (f row)) (in_cache i) \<rparr>
            in case write_cache w i' d of
                 (Inl e, d') \<Rightarrow> (Inl e, with_inner s i', d')
               | (Inr _, d') \<Rightarrow> (Inr (cs_state row), swap_snapshot (with_inner s i'), d'))"

section \<open>Reserving message ids\<close>

definition row_exists :: "allocation_state \<Rightarrow> string \<Rightarrow> u64 \<Rightarrow> bool" where
  "row_exists alloc rid ep \<longleftrightarrow> list_ex (row_matches rid ep) (as_allocations alloc)"

definition section_full_refusal :: api_error where
  "section_full_refusal = api_new Permanent
     (''allocation section is full (too many distinct rln_identifier/epoch rows);'' @
      '' register a fresh membership'')"

definition alloc_refusal :: "alloc_error \<Rightarrow> api_error" where
  "alloc_refusal e =
     (case e of
        alloc_error.BudgetExhausted \<Rightarrow>
          api_new error_kind.BudgetExhausted ''epoch rate-limit budget exhausted; retry next epoch''
      | EpochBelowFloor \<Rightarrow> floor_refusal)"

definition reserve_message_id ::
  "'z crypto_scheme \<Rightarrow> write_outcome \<Rightarrow> string \<Rightarrow> string \<Rightarrow> u64 \<Rightarrow> u64 \<Rightarrow> u64 \<Rightarrow> u64 \<Rightarrow> store \<Rightarrow> disk \<Rightarrow>
     (api_error + u64) \<times> store \<times> disk"
where
  "reserve_message_id cr w hash rid ep retain_floor rate_limit epoch_size_sec s d =
     (let i = st_inner s in
      case ensure_open i of
        Inl e \<Rightarrow> (Inl e, s, d)
      | Inr _ \<Rightarrow>
      if in_session i = None
      then (Inl (api_new Locked ''unlock_keystore before generate_proof''), s, d)
      else case reservation_guards (is_quarantined i hash) (bt_get (in_sections i) hash) epoch_size_sec of
        Inl e \<Rightarrow> (Inl e, s, d)
      | Inr _ \<Rightarrow>
      case bt_get (in_sections i) hash of
        None \<Rightarrow> (Inl (api_new UnknownMembership ''no such membership_hash''), s, d)
      | Some alloc \<Rightarrow>
      if \<not> row_exists alloc rid ep \<and> WRITE_ROW_CAP \<le> length (as_allocations alloc)
      then (Inl section_full_refusal, s, d)
      else case reserve_slot alloc rid ep retain_floor rate_limit of
        (Inl e, alloc') \<Rightarrow>
          (Inl (alloc_refusal e), with_inner s (i \<lparr> in_sections := bt_insert hash alloc' (in_sections i) \<rparr>), d)
      | (Inr slot, alloc') \<Rightarrow>
          let i1 = i \<lparr> in_sections := bt_insert hash (alloc' \<lparr> as_epoch_size_sec := epoch_size_sec \<rparr>)
                         (in_sections i) \<rparr>;
              (r, i2, d') = write_allocations cr w i1 d;
              s' = swap_snapshot (with_inner s i2)
          in (case r of Inl e \<Rightarrow> (Inl e, s', d') | Inr _ \<Rightarrow> (Inr slot, s', d')))"

definition remaining_budget ::
  "string \<Rightarrow> string \<Rightarrow> u64 \<Rightarrow> u64 \<Rightarrow> u64 \<Rightarrow> store \<Rightarrow> api_error + u64"
where
  "remaining_budget hash rid ep rate_limit epoch_size_sec s =
     (let i = st_inner s in
      if \<not> sealed_contains i hash then Inr 0
      else
        let alloc = (case bt_get (in_sections i) hash of Some a \<Rightarrow> a | None \<Rightarrow> default_allocation_state) in
        and_then (reservation_guards (is_quarantined i hash) (Some alloc) epoch_size_sec) (\<lambda>_.
        if ep < as_prune_floor alloc then Inl floor_refusal
        else Inr (remaining (as_allocations alloc) rid ep rate_limit)))"

section \<open>Library\<close>

lemma alloc_of_row_of_alloc [simp]: "alloc_of_row (row_of_alloc a) = a"
  by (simp add: alloc_of_row_def row_of_alloc_def)

lemma alloc_of_stamped_section [simp]: "alloc_of_section (stamped_section cr k h a u) = a"
  by (simp add: alloc_of_section_def stamped_section_def Let_def comp_def)

lemma with_inner_simps [simp]:
  "st_inner (with_inner s i) = i" "st_dir (with_inner s i) = st_dir s"
  "st_snapshot (with_inner s i) = st_snapshot s"
  by (simp_all add: with_inner_def)

lemma swap_snapshot_simps [simp]:
  "st_inner (swap_snapshot s) = st_inner s" "st_dir (swap_snapshot s) = st_dir s"
  "st_snapshot (swap_snapshot s) = build_snapshot (st_inner s)"
  by (simp_all add: swap_snapshot_def)

lemma with_inner_same [simp]: "with_inner s (st_inner s) = s"
  by (simp add: with_inner_def)

lemma bt_insert_same: "bt_wf m \<Longrightarrow> bt_get m k = Some v \<Longrightarrow> bt_insert k v m = m"
  by (induction k v m rule: bt_insert.induct) (fastforce simp: bt_wf_def bt_get_def split: if_splits dest: map_of_SomeD)+

lemma written_cases:
  obtains "written w f old = Parsed f" | "written w f old = old"
  by (cases w) auto

lemma write_result_ok_iff: "write_result w = Inr x \<longleftrightarrow> w = WriteOk"
  by (cases w) auto

text \<open>Where the sections of a ledger write come from.\<close>

lemma sections_to_write_member:
  "(h, sec) \<in> set (sections_to_write cr keys i uuid) \<Longrightarrow>
     (\<exists>a. (h, a) \<in> set (in_sections i) \<and> \<not> is_quarantined i h \<and> sec = stamped_section cr keys h a uuid) \<or>
     (is_quarantined i h \<and> bt_get (in_raw_sections i) h = Some sec)"
  by (auto simp: sections_to_write_def split: if_splits option.splits)

lemma bt_get_concat_map:
  assumes "\<And>k v k' v'. (k', v') \<in> set (f k v) \<Longrightarrow> k' = k" "\<And>k v. length (f k v) \<le> 1"
  shows "distinct (map fst m) \<Longrightarrow> bt_get (concat (map (\<lambda>(k, v). f k v) m)) k =
    (case bt_get m k of None \<Rightarrow> None | Some v \<Rightarrow> map_of (f k v) k)"
proof (induction m)
  case (Cons kv m)
  obtain a b where kv: "kv = (a, b)" by (cases kv)
  have rest: "map_of (concat (map (\<lambda>(k, v). f k v) m)) k = None" if "k \<notin> fst ` set m"
    using that assms(1) by (auto simp: map_of_eq_None_iff) (metis fst_conv image_eqI)
  have other: "map_of (f a b) k = None" if "k \<noteq> a"
    using that assms(1) by (auto simp: map_of_eq_None_iff)
  show ?case
    using Cons kv rest other
    by (auto simp: bt_get_def map_add_def split: option.splits)
qed simp

lemma bt_get_sections_to_write:
  assumes "bt_wf (in_sections i)"
  shows "bt_get (sections_to_write cr keys i uuid) h =
    (case bt_get (in_sections i) h of
       None \<Rightarrow> None
     | Some a \<Rightarrow> if is_quarantined i h then bt_get (in_raw_sections i) h
                 else Some (stamped_section cr keys h a uuid))"
proof -
  let ?f = "\<lambda>hash alloc. if is_quarantined i hash
        then (case bt_get (in_raw_sections i) hash of Some s \<Rightarrow> [(hash, s)] | None \<Rightarrow> [])
        else [(hash, stamped_section cr keys hash alloc uuid)]"
  have "bt_get (concat (map (\<lambda>(k, v). ?f k v) (in_sections i))) h =
      (case bt_get (in_sections i) h of None \<Rightarrow> None | Some v \<Rightarrow> map_of (?f h v) h)"
    by (rule bt_get_concat_map) (auto split: if_splits option.splits intro: bt_wf_distinct [OF assms])
  then show ?thesis
    by (auto simp: sections_to_write_def split: option.splits)
qed

lemma bt_wf_concat_map:
  assumes "\<And>k v k' v'. (k', v') \<in> set (f k v) \<Longrightarrow> k' = k" "\<And>k v. length (f k v) \<le> 1"
  shows "bt_wf m \<Longrightarrow> bt_wf (concat (map (\<lambda>(k, v). f k v) m))"
proof (induction m)
  case (Cons kv m)
  obtain a b where kv: "kv = (a, b)" by (cases kv)
  have ih: "bt_wf (concat (map (\<lambda>(k, v). f k v) m))" using Cons by (simp add: bt_wf_def)
  have gt: "a < k" if "(k, v) \<in> set (concat (map (\<lambda>(k, v). f k v) m))" for k v
    using that assms(1) Cons.prems kv by (fastforce simp: bt_wf_def)
  show ?case
  proof (cases "f a b")
    case Nil
    then show ?thesis using ih kv by simp
  next
    case (Cons x xs)
    then have "xs = []" "fst x = a" using assms(2) [of a b] assms(1) [of "fst x" "snd x" a b] by auto
    moreover have "\<forall>y \<in> set (concat (map (\<lambda>(k, v). f k v) m)). a < fst y" using gt by force
    ultimately show ?thesis using Cons ih kv by (simp add: bt_wf_def)
  qed
qed simp

lemma bt_wf_sections_to_write: "bt_wf (in_sections i) \<Longrightarrow> bt_wf (sections_to_write cr keys i uuid)"
  unfolding sections_to_write_def
  by (rule bt_wf_concat_map) (auto split: if_splits option.splits)

text \<open>The honest paths return.\<close>

lemma reserve_message_id_ok:
  assumes "in_lock (st_inner s)" "in_session (st_inner s) = Some ses" "in_store_uuid (st_inner s) = Some u"
    "\<not> is_quarantined (st_inner s) h" "bt_get (in_sections (st_inner s)) h = Some a"
    "as_epoch_size_sec a = 0 \<or> as_epoch_size_sec a = sz"
    "row_exists a rid ep \<or> length (as_allocations a) < WRITE_ROW_CAP"
    "reserve_slot a rid ep c rl = (Inr m, a')"
  shows "\<exists>s' d'. reserve_message_id cr WriteOk h rid ep c rl sz s d = (Inr m, s', d') \<and>
     (\<exists>raw root. st_inner s' = (st_inner s) \<lparr> in_sections := bt_insert h (a' \<lparr> as_epoch_size_sec := sz \<rparr>) (in_sections (st_inner s)),
         in_raw_sections := raw, in_root_mac_raw := root \<rparr>) \<and>
     st_snapshot s' = build_snapshot (st_inner s')"
  using assms by (auto simp: reserve_message_id_def ensure_open_def reservation_guards_def write_allocations_def Let_def)

lemma insert_membership_ok:
  assumes "in_lock (st_inner s)" "in_session (st_inner s) = Some ses" "in_store_uuid (st_inner s) = Some u"
    "in_sealed (st_inner s) = Some f" "credential_to_json env cred = Inr pt"
    "seal env nonce (sk_seal (ss_keys ses)) (credential_aad h ident u) pt = Inr (n, ct)"
  shows "\<exists>s' d'. insert_membership env nonce WriteOk WriteOk WriteOk h ident cred rl s d = (Inr (), s', d') \<and>
     st_snapshot s' = build_snapshot (st_inner s') \<and>
     dk_sealed d' = Parsed (f \<lparr> sf_credentials := bt_insert h \<lparr> se_identity = ident,
              se_nonce = bytes_to_hex n, se_ct = bytes_to_hex ct \<rparr> (sf_credentials f) \<rparr>) \<and>
     dk_old_format d' = dk_old_format d \<and>
     (\<exists>raw root. st_inner s' = (insert_cache_row h rl (insert_section h (st_inner s)))
        \<lparr> in_sealed := Some (f \<lparr> sf_credentials := bt_insert h \<lparr> se_identity = ident,
              se_nonce = bytes_to_hex n, se_ct = bytes_to_hex ct \<rparr> (sf_credentials f) \<rparr>),
          in_raw_sections := raw, in_root_mac_raw := root \<rparr>)"
proof -
  have i: "in_session (insert_section h (st_inner s)) = Some ses" "in_store_uuid (insert_section h (st_inner s)) = Some u"
    "in_sealed (insert_section h (st_inner s)) = Some f"
    using assms by (simp_all add: insert_section_def Let_def)
  then show ?thesis
    using assms by (simp add: insert_membership_def ensure_open_def write_allocations_def write_cache_def
      insert_sealed_def insert_cache_row_def Let_def) (intro exI inner.equality; simp)
qed

end
