(* ===== verification/Module_Config.thy ===== *)
theory Module_Config
  imports Views Root_Window Sealed_Store
begin

text \<open>
  The shared part of \<open>lib.rs\<close>: scopes, the runtime configuration \<open>start()\<close> installs, epochs from
  caller timestamps with their freshness window, and \<open>start()\<close> itself. The clock is an argument.
\<close>

section \<open>Scopes\<close>

definition parse_hex32 :: "string \<Rightarrow> string \<Rightarrow> api_error + (bytes \<times> string)" where
  "parse_hex32 field hex =
     and_then (ok_or (api_new InvalidArgument (field @ '' must be 32-byte hex'')) (hex_to_bytes32 hex)) (\<lambda>bs.
     Inr (bs, bytes_to_hex bs))"

definition parse_registry :: "string \<Rightarrow> api_error + canonical_registry_id" where
  "parse_registry raw = map_err (api_new InvalidArgument) (parse raw)"

definition parse_scope :: "string \<Rightarrow> string \<Rightarrow> api_error + (canonical_registry_id \<times> bytes \<times> string)" where
  "parse_scope registry_id_raw rln_identifier_hex =
     and_then (parse_registry registry_id_raw) (\<lambda>registry.
     and_then (parse_hex32 ''rln_identifier'' rln_identifier_hex) (\<lambda>(bs, hex).
     Inr (registry, bs, hex)))"

definition records_for_registry :: "store \<Rightarrow> canonical_registry_id \<Rightarrow> membership_record list" where
  "records_for_registry s registry = records_for (rid_canonical registry) s"

definition scope_matches :: "membership_record \<Rightarrow> string \<Rightarrow> bool" where
  "scope_matches r rln_id_hex \<longleftrightarrow>
     ib_rln_identifier (mr_identity r) = rln_id_hex \<or> ib_rln_identifier (mr_identity r) = []"

definition scope_candidates :: "membership_record list \<Rightarrow> string \<Rightarrow> membership_record list" where
  "scope_candidates records rln_id_hex =
     (if list_ex (\<lambda>r. \<not> mr_quarantined r \<and> scope_matches r rln_id_hex \<and> is_usable (cs_state (mr_cache r))) records
      then filter (\<lambda>r. scope_matches r rln_id_hex) records
      else records)"

definition provider_of :: "canonical_registry_id \<Rightarrow> api_error + unit" where
  "provider_of registry =
     (if provider_for (rid_namespace registry) then Inr ()
      else Inl (api_new UnknownRegistry (''no registry provider for namespace '' @ rid_namespace registry)))"

definition api_of_proof_error :: "proof_error \<Rightarrow> api_error" where
  "api_of_proof_error e = (case e of BadInput m \<Rightarrow> api_new InvalidArgument m | Engine m \<Rightarrow> api_new Transient m)"

section \<open>Configuration\<close>

definition DEFAULT_MAX_EPOCH_GAP :: u64 where "DEFAULT_MAX_EPOCH_GAP = 1"
definition DEFAULT_RATE_LIMIT :: u64 where "DEFAULT_RATE_LIMIT = 100"

record registry_override =
  ro_epoch_size_sec :: "u64 option"
  ro_max_epoch_gap :: "u64 option"

record module_config =
  mc_epoch_size_sec :: u64
  mc_max_epoch_gap :: u64
  mc_overrides :: "(string, registry_override) btmap"

definition epoch_params_for :: "module_config option \<Rightarrow> string \<Rightarrow> api_error + (u64 \<times> u64)" where
  "epoch_params_for cfg registry_canonical =
     and_then (ok_or (api_new NotReady ''start() has not configured epoch_size_sec; rate limiting is not ready'') cfg) (\<lambda>c.
     let o' = bt_get (mc_overrides c) registry_canonical in
     Inr (unwrap_or (mc_epoch_size_sec c) (Option.bind o' ro_epoch_size_sec),
          unwrap_or (mc_max_epoch_gap c) (Option.bind o' ro_max_epoch_gap)))"

section \<open>Epochs\<close>

definition epoch_of_timestamp :: "string \<Rightarrow> u64 \<Rightarrow> api_error + u64" where
  "epoch_of_timestamp timestamp epoch_size_sec =
     and_then (ok_or (api_new InvalidArgument ''timestamp must be a Unix-seconds integer'') (parse_uint (trim timestamp))) (\<lambda>t.
     Inr (current_epoch t epoch_size_sec))"

definition epoch_in_window :: "u64 \<Rightarrow> u64 \<Rightarrow> u64 \<Rightarrow> bool" where
  "epoch_in_window ep now_epoch gap \<longleftrightarrow> saturating_sub now_epoch gap \<le> ep \<and> ep \<le> saturating_add now_epoch gap"

definition outside_window :: api_error where
  "outside_window = api_new InvalidArgument
     (''timestamp is outside the acceptable epoch window (now '' @ [CHR 0xC2, CHR 0xB1] @ '' max_epoch_gap)'')"

definition fresh_epoch_for ::
  "u64 \<Rightarrow> module_config option \<Rightarrow> string \<Rightarrow> string \<Rightarrow> api_error + (u64 \<times> u64 \<times> u64 \<times> u64)"
where
  "fresh_epoch_for now cfg registry timestamp =
     and_then (epoch_params_for cfg registry) (\<lambda>(sz, gap).
     and_then (epoch_of_timestamp timestamp sz) (\<lambda>ep.
     let now_epoch = current_epoch now sz in
     if \<not> epoch_in_window ep now_epoch gap then Inl outside_window
     else Inr (ep, sz, gap, now_epoch)))"

section \<open>Start\<close>

text \<open>
  The one-shot pass \<open>start()\<close> hands to the supervisor, as the list of its jobs in order. The body of
  \<open>start_impl\<close> runs under the \<open>LIFECYCLE\<close> mutex, so it is one step here; the mutex, and the supervisor
  sections that run under it, are the lifecycle of the theory \<open>Worker\<close>.
\<close>

datatype start_job =
    SelectNetworks "string list" | RefreshRoots | RefreshPaths | Provision "string list" u64

record start_reply =
  sr_epoch_size_sec :: u64
  sr_max_epoch_gap :: u64
  sr_overrides :: "(string, registry_override) btmap option"
  sr_registries :: "string list"

record start_scan =
  sc_roots :: roots_state
  sc_overrides :: "(string, registry_override) btmap"
  sc_tracked :: "string list"

definition positive :: "u64 option \<Rightarrow> u64 option" where
  "positive m = Option.bind m (\<lambda>n. if n > 0 then Some n else None)"

definition start_track :: "string \<Rightarrow> registry_override option \<Rightarrow> start_scan \<Rightarrow> start_scan" where
  "start_track raw over sc =
     (case parse raw of
        Inl _ \<Rightarrow> sc
      | Inr registry \<Rightarrow>
          sc \<lparr> sc_roots := track registry (sc_roots sc),
               sc_overrides := (case over of
                   Some o' \<Rightarrow> if ro_epoch_size_sec o' \<noteq> None \<or> ro_max_epoch_gap o' \<noteq> None
                              then bt_insert (rid_canonical registry) o' (sc_overrides sc) else sc_overrides sc
                 | None \<Rightarrow> sc_overrides sc),
               sc_tracked := (if rid_canonical registry \<in> set (sc_tracked sc) then sc_tracked sc
                              else sc_tracked sc @ [rid_canonical registry]) \<rparr>)"

fun start_entry :: "json \<Rightarrow> start_scan \<Rightarrow> start_scan" where
  "start_entry (JStr raw) sc = start_track raw None sc"
| "start_entry (JObj fs) sc =
     start_track (unwrap_or [] (get_str (JObj fs) ''registry_id''))
       (Some \<lparr> ro_epoch_size_sec = positive (get_u64 (JObj fs) ''epoch_size_sec''),
               ro_max_epoch_gap = positive (get_u64 (JObj fs) ''max_epoch_gap'') \<rparr>) sc"
| "start_entry _ sc = sc"

definition start_registries :: "json \<Rightarrow> roots_state \<Rightarrow> start_scan" where
  "start_registries cfg roots =
     fold start_entry (unwrap_or [] (Option.bind (j_get cfg ''registries'') as_array))
       \<lparr> sc_roots = roots, sc_overrides = [], sc_tracked = [] \<rparr>"

definition effective_sizes :: "u64 \<Rightarrow> (string, registry_override) btmap \<Rightarrow> u64 list" where
  "effective_sizes sz overrides = sz # List.map_filter ro_epoch_size_sec (bt_values overrides)"

text \<open>The bindings \<open>start()\<close> warns about: memberships whose ledger matches no configured size.\<close>

definition stale_bindings :: "store option \<Rightarrow> u64 list \<Rightarrow> (string \<times> u64) list" where
  "stale_bindings current sizes =
     (case current of
        None \<Rightarrow> []
      | Some s \<Rightarrow> filter (\<lambda>(hash, bound). bound \<noteq> 0 \<and> bound \<notin> set sizes) (epoch_size_bindings s))"

definition start_impl ::
  "(string \<Rightarrow> string + json) \<Rightarrow> string \<Rightarrow> store option \<Rightarrow> roots_state \<Rightarrow> module_config option \<Rightarrow>
     (api_error + start_reply) \<times> roots_state \<times> module_config option \<times> (string \<times> u64) list \<times> start_job list"
where
  "start_impl pj config_json current roots config =
     (case (if trim config_json = [] then Inr (JObj [])
            else map_err (\<lambda>e. api_new InvalidArgument (''config_json: '' @ e)) (pj config_json)) of
        Inl e \<Rightarrow> (Inl e, roots, config, [], [])
      | Inr cfg \<Rightarrow>
          (case positive (get_u64 cfg ''epoch_size_sec'') of
             None \<Rightarrow> (Inl (api_new InvalidArgument
                 (''config_json.epoch_size_sec is required (a positive integer all '' @
                  ''validators of the application share)'')), roots, config, [], [])
           | Some sz \<Rightarrow>
               (let gap = unwrap_or DEFAULT_MAX_EPOCH_GAP (positive (get_u64 cfg ''max_epoch_gap''));
                    sc = start_registries cfg roots;
                    overrides = sc_overrides sc;
                    tracked = sc_tracked sc;
                    provision = unwrap_or True (get_bool cfg ''provision'');
                    provision_registries = (if provision then tracked else []);
                    rate = unwrap_or DEFAULT_RATE_LIMIT (get_u64 cfg ''rate_limit'')
                in (Inr \<lparr> sr_epoch_size_sec = sz, sr_max_epoch_gap = gap,
                          sr_overrides = then_some (overrides \<noteq> []) overrides, sr_registries = tracked \<rparr>,
                    sc_roots sc,
                    Some \<lparr> mc_epoch_size_sec = sz, mc_max_epoch_gap = gap, mc_overrides = overrides \<rparr>,
                    stale_bindings current (effective_sizes sz overrides),
                    [SelectNetworks tracked] @ (if tracked \<noteq> [] then [RefreshRoots] else []) @ [RefreshPaths] @
                    (if provision_registries \<noteq> [] then [Provision provision_registries rate] else [])))))"

end
