(* ===== verification/Selection.thy ===== *)
theory Selection
  imports Lifecycle Json Api_Error
begin

text \<open>
  Model of \<open>select.rs\<close>: the selectors, candidate filtering and the four strategies. The
  round-robin cursors are a map from scope to the last returned hash, passed in and returned.
  The JSON parser and the \<open>Debug\<close> rendering of a string are parameters.
\<close>

datatype selector = NoSelector | ByHash string | HighestRateLimit | RoundRobin

definition parse_selector ::
  "(string \<Rightarrow> string + json) \<Rightarrow> (string \<Rightarrow> string) \<Rightarrow> string \<Rightarrow> api_error + selector"
where
  "parse_selector parse_json debug_str selector_json =
     (let trimmed = trim selector_json in
      if trimmed = [] \<or> trimmed = ''{}'' then Inr NoSelector
      else
        and_then (map_err (\<lambda>e. api_new InvalidArgument (''selector_json: '' @ e)) (parse_json trimmed)) (\<lambda>v.
        case get_str v ''by_hash'' of
          Some hash \<Rightarrow> Inr (ByHash hash)
        | None \<Rightarrow>
            (case get_str v ''strategy'' of
               Some other \<Rightarrow>
                 if other = ''round_robin'' then Inr RoundRobin
                 else if other = ''highest_rate_limit'' then Inr HighestRateLimit
                 else Inl (api_new InvalidArgument
                   (''unknown strategy '' @ debug_str other @ '' (round_robin | highest_rate_limit)''))
             | None \<Rightarrow> Inl (api_new InvalidArgument ''selector_json must carry by_hash or strategy''))))"

type_synonym round_robin = "(string \<times> string) \<rightharpoonup> string"

definition candidates :: "membership_record list \<Rightarrow> (string \<times> u64) list" where
  "candidates records =
     sort_key fst
       (map (\<lambda>r. (mr_hash r, case cs_rate_limit (mr_cache r) of Some n \<Rightarrow> n | None \<Rightarrow> 0))
         (filter (\<lambda>r. \<not> mr_quarantined r \<and> is_usable (cs_state (mr_cache r))) records))"

text \<open>\<open>Iterator::max_by\<close> keeps the later of two equal elements.\<close>

definition rate_le :: "string \<times> u64 \<Rightarrow> string \<times> u64 \<Rightarrow> bool" where
  "rate_le a b \<longleftrightarrow> snd a < snd b \<or> snd a = snd b \<and> fst b \<le> fst a"

fun max_by_rate :: "(string \<times> u64) \<Rightarrow> (string \<times> u64) list \<Rightarrow> string \<times> u64" where
  "max_by_rate best [] = best"
| "max_by_rate best (c # cs) = max_by_rate (if rate_le best c then c else best) cs"

definition next_candidate :: "(string \<times> u64) list \<Rightarrow> string option \<Rightarrow> string" where
  "next_candidate cs cursor =
     (case cursor of
        Some l \<Rightarrow> (case find (\<lambda>c. l < fst c) cs of Some c \<Rightarrow> fst c | None \<Rightarrow> fst (hd cs))
      | None \<Rightarrow> fst (hd cs))"

definition select_hash ::
  "membership_record list \<Rightarrow> string \<times> string \<Rightarrow> selector \<Rightarrow> round_robin \<Rightarrow> (api_error + string) \<times> round_robin"
where
  "select_hash records scope sel rr =
     (let cs = candidates records in
      if cs = [] then (Inl (api_new NoUsableMembership ''no active or grace_period membership for this registry''), rr)
      else case sel of
        ByHash wanted \<Rightarrow>
          (case find (\<lambda>c. fst c = wanted) cs of
             Some c \<Rightarrow> (Inr (fst c), rr)
           | None \<Rightarrow> (Inl (api_new UnknownMembership ''by_hash matches no usable membership''), rr))
      | NoSelector \<Rightarrow>
          if length cs = 1 then (Inr (fst (cs ! 0)), rr)
          else (Inl (api_new AmbiguousSelection ''multiple usable memberships; provide a selector''), rr)
      | HighestRateLimit \<Rightarrow> (Inr (fst (max_by_rate (hd cs) (tl cs))), rr)
      | RoundRobin \<Rightarrow> (let nx = next_candidate cs (rr scope) in (Inr nx, rr(scope \<mapsto> nx))))"

section \<open>Lemmas\<close>

lemma set_candidates:
  "set (candidates records) =
     {(mr_hash r, case cs_rate_limit (mr_cache r) of Some n \<Rightarrow> n | None \<Rightarrow> 0) | r.
        r \<in> set records \<and> \<not> mr_quarantined r \<and> is_usable (cs_state (mr_cache r))}"
  by (auto simp: candidates_def)

lemma candidates_sorted: "sorted (map fst (candidates records))"
  by (simp add: candidates_def)

lemma rate_le_refl [simp]: "rate_le a a" by (simp add: rate_le_def)
lemma rate_le_trans: "rate_le a b \<Longrightarrow> rate_le b c \<Longrightarrow> rate_le a c" by (auto simp: rate_le_def)
lemma rate_le_total: "rate_le a b \<or> rate_le b a" by (auto simp: rate_le_def)

lemma max_by_rate_in: "max_by_rate b cs \<in> insert b (set cs)"
  by (induction cs arbitrary: b) auto

lemma max_by_rate_ge: "c \<in> insert b (set cs) \<Longrightarrow> rate_le c (max_by_rate b cs)"
proof (induction cs arbitrary: b c)
  case (Cons d cs)
  let ?b = "if rate_le b d then d else b"
  have "rate_le b ?b" "rate_le d ?b" using rate_le_total [of b d] by auto
  moreover have "rate_le ?b (max_by_rate ?b cs)" using Cons.IH by simp
  ultimately have "rate_le b (max_by_rate ?b cs)" "rate_le d (max_by_rate ?b cs)"
    by (blast intro: rate_le_trans)+
  then show ?case using Cons.prems Cons.IH [of c ?b] by (auto simp del: if_split)
qed simp

text \<open>\<open>pick_index\<close> is where the rotation goes on in the sorted candidate list.\<close>

definition pick_index :: "string list \<Rightarrow> string option \<Rightarrow> nat" where
  "pick_index hs cursor =
     (case cursor of None \<Rightarrow> 0 | Some l \<Rightarrow> length (takeWhile (\<lambda>h. \<not> l < h) hs) mod length hs)"

lemma find_takeWhile:
  "find p xs = (let i = length (takeWhile (\<lambda>x. \<not> p x) xs) in if i < length xs then Some (xs ! i) else None)"
  by (induction xs) (auto simp: Let_def)

lemma next_candidate_index:
  assumes "cs \<noteq> []"
  shows "next_candidate cs cursor = map fst cs ! pick_index (map fst cs) cursor"
proof (cases cursor)
  case None
  then show ?thesis using assms by (simp add: next_candidate_def pick_index_def hd_conv_nth)
next
  case (Some l)
  let ?i = "length (takeWhile (\<lambda>c. \<not> l < fst c) cs)"
  have i: "length (takeWhile (\<lambda>h. \<not> l < h) (map fst cs)) = ?i" by (simp add: takeWhile_map comp_def)
  have le: "?i \<le> length cs" by (rule length_takeWhile_le)
  show ?thesis
  proof (cases "?i < length cs")
    case True
    then show ?thesis using Some i by (simp add: next_candidate_def pick_index_def find_takeWhile Let_def)
  next
    case False
    then have "?i = length cs" using le by simp
    then show ?thesis
      using Some i assms False by (simp add: next_candidate_def pick_index_def find_takeWhile Let_def hd_conv_nth)
  qed
qed

lemma pick_index_less: "hs \<noteq> [] \<Longrightarrow> pick_index hs cursor < length hs"
  by (auto simp: pick_index_def split: option.split)

lemma pick_index_step:
  assumes "sorted_wrt (<) hs" "i < length hs"
  shows "pick_index hs (Some (hs ! i)) = Suc i mod length hs"
proof -
  have "takeWhile (\<lambda>h. \<not> hs ! i < h) hs = take (Suc i) hs"
  proof (rule takeWhile_eq_take_P_nth)
    fix j assume "j < Suc i" "j < length hs"
    then show "\<not> hs ! i < hs ! j"
      using assms sorted_wrt_nth_less [OF assms(1), of j i] by (metis less_Suc_eq less_asym order_less_irrefl)
  next
    assume "Suc i < length hs"
    then show "\<not> \<not> hs ! i < hs ! Suc i" using assms sorted_wrt_nth_less [OF assms(1), of i "Suc i"] by simp
  qed
  then have "length (takeWhile (\<lambda>h. \<not> hs ! i < h) hs) = Suc i" using assms(2) by simp
  then show ?thesis by (simp add: pick_index_def)
qed

section \<open>Properties\<close>

text \<open>
  Every strategy returns a usable, non-quarantined membership of the registry, or the right
  error. With none the answer is \<open>no_usable_membership\<close>; without a selector it succeeds exactly
  with one candidate; by hash exactly when that membership is a candidate; by rate limit it
  returns a candidate of the highest limit and, among those, the lowest hash; only round robin
  moves a cursor, and only that of its own scope.
\<close>
lemma select_hash_spec:
  "case select_hash records scope sel rr of
     (Inr h, rr') \<Rightarrow>
       (\<exists>r \<in> set records. mr_hash r = h \<and> \<not> mr_quarantined r \<and> is_usable (cs_state (mr_cache r))) \<and>
       (\<forall>s. s \<noteq> scope \<longrightarrow> rr' s = rr s) \<and> (sel \<noteq> RoundRobin \<longrightarrow> rr' = rr) \<and>
       (\<forall>w. sel = ByHash w \<longrightarrow> h = w) \<and> (sel = NoSelector \<longrightarrow> length (candidates records) = 1) \<and>
       (sel = HighestRateLimit \<longrightarrow> (\<exists>n. (h, n) \<in> set (candidates records) \<and>
          (\<forall>(g, m) \<in> set (candidates records). m < n \<or> m = n \<and> h \<le> g)))
   | (Inl e, rr') \<Rightarrow> rr' = rr \<and>
       (if candidates records = [] then ae_kind e = NoUsableMembership
        else (sel = NoSelector \<and> ae_kind e = AmbiguousSelection \<and> 1 < length (candidates records)) \<or>
             (\<exists>w. sel = ByHash w \<and> ae_kind e = UnknownMembership \<and> w \<notin> fst ` set (candidates records)))"
proof (cases "candidates records = []")
  case True
  then show ?thesis by (simp add: select_hash_def)
next
  case False
  let ?cs = "candidates records"
  have cand: "\<exists>r \<in> set records. mr_hash r = h \<and> \<not> mr_quarantined r \<and> is_usable (cs_state (mr_cache r))"
    if "h \<in> fst ` set ?cs" for h
    using that by (auto simp: set_candidates)
  show ?thesis
  proof (cases sel)
    case NoSelector
    have "length ?cs = 1 \<or> 1 < length ?cs" using False by (cases ?cs; cases "tl ?cs") auto
    moreover have "fst (?cs ! 0) \<in> fst ` set ?cs" using False by simp
    note cand [OF this]
    ultimately show ?thesis using NoSelector False by (auto simp: select_hash_def Let_def)
  next
    case (ByHash w)
    show ?thesis
    proof (cases "find (\<lambda>c. fst c = w) ?cs")
      case None
      then have "w \<notin> fst ` set ?cs" by (auto simp: find_None_iff)
      then show ?thesis using None ByHash False by (simp add: select_hash_def Let_def)
    next
      case (Some c)
      then have "c \<in> set ?cs" "fst c = w" by (auto simp: find_Some_iff)
      then have "w \<in> fst ` set ?cs" by blast
      from cand [OF this] show ?thesis using Some \<open>fst c = w\<close> ByHash False by (simp add: select_hash_def Let_def)
    qed
  next
    case HighestRateLimit
    let ?m = "max_by_rate (hd ?cs) (tl ?cs)"
    have set_cs: "insert (hd ?cs) (set (tl ?cs)) = set ?cs" using False by (metis list.collapse list.simps(15))
    have mem: "?m \<in> set ?cs" using max_by_rate_in [of "hd ?cs" "tl ?cs"] set_cs by simp
    have "\<forall>c \<in> set ?cs. rate_le c ?m" using max_by_rate_ge [of _ "hd ?cs" "tl ?cs"] set_cs by simp
    with mem have best: "\<exists>n. (fst ?m, n) \<in> set ?cs \<and> (\<forall>(g, m) \<in> set ?cs. m < n \<or> m = n \<and> fst ?m \<le> g)"
      by (intro exI [of _ "snd ?m"]) (auto simp: rate_le_def)
    have "fst ?m \<in> fst ` set ?cs" using mem by blast
    from cand [OF this] best show ?thesis
      using HighestRateLimit False by (simp add: select_hash_def Let_def)
  next
    case RoundRobin
    have "next_candidate ?cs (rr scope) \<in> fst ` set ?cs"
      using next_candidate_index [OF False] pick_index_less [of "map fst ?cs"] False
      by (metis length_map list.set_map map_is_Nil_conv nth_mem)
    then show ?thesis using RoundRobin False cand by (auto simp: select_hash_def Let_def)
  qed
qed

fun select_times :: "nat \<Rightarrow> membership_record list \<Rightarrow> string \<times> string \<Rightarrow> round_robin \<Rightarrow> (api_error + string) list" where
  "select_times 0 records scope rr = []"
| "select_times (Suc n) records scope rr =
     (let (r, rr') = select_hash records scope RoundRobin rr in r # select_times n records scope rr')"

lemma select_times_rotation:
  assumes "sorted_wrt (<) (map fst (candidates records))" "candidates records \<noteq> []"
    and "j = pick_index (map fst (candidates records)) (rr scope)"
  shows "select_times n records scope rr =
    map (\<lambda>k. Inr (map fst (candidates records) ! ((j + k) mod length (candidates records)))) [0..<n]"
  using assms(3)
proof (induction n arbitrary: rr j)
  case (Suc n)
  let ?hs = "map fst (candidates records)"
  have j: "j < length ?hs" using pick_index_less [of ?hs] assms(2) Suc.prems by simp
  let ?h = "?hs ! j"
  have sel: "select_hash records scope RoundRobin rr = (Inr ?h, rr(scope \<mapsto> ?h))"
    using assms(2) next_candidate_index [OF assms(2)] Suc.prems by (simp add: select_hash_def Let_def)
  have "pick_index ?hs ((rr(scope \<mapsto> ?h)) scope) = Suc j mod length ?hs"
    using pick_index_step [OF assms(1) j] by simp
  note ih = Suc.IH [of "Suc j mod length ?hs" "rr(scope \<mapsto> ?h)", OF this [symmetric]]
  have "select_times (Suc n) records scope rr = Inr ?h # select_times n records scope (rr(scope \<mapsto> ?h))"
    using sel by simp
  moreover have "[0..<Suc n] = 0 # map Suc [0..<n]" by (simp add: map_Suc_upt upt_conv_Cons)
  ultimately show ?case unfolding ih using j by (simp add: mod_simps)
qed simp

text \<open>
  Round robin is fair. When the candidates have distinct hashes and do not change, as many
  consecutive selections as there are candidates return every candidate exactly once, from any
  cursor position.
\<close>
lemma round_robin_fair:
  assumes "distinct (map fst (candidates records))"
  shows "\<exists>j. select_times (length (candidates records)) records scope rr =
    map Inr (rotate j (map fst (candidates records)))"
proof (cases "candidates records = []")
  case False
  let ?hs = "map fst (candidates records)"
  let ?j = "pick_index ?hs (rr scope)"
  have s: "sorted_wrt (<) ?hs" using assms candidates_sorted [of records] by (simp add: strict_sorted_iff)
  have "map (\<lambda>k. Inr (?hs ! ((?j + k) mod length ?hs)) :: api_error + string) [0..<length ?hs] =
      map Inr (rotate ?j ?hs)"
    by (rule nth_equalityI) (simp_all add: nth_rotate add.commute)
  then show ?thesis using select_times_rotation [OF s False refl, where rr = rr and scope = scope and n = "length ?hs"] by (intro exI [of _ ?j]) simp
qed simp

definition sample_record :: "string \<Rightarrow> membership_record" where
  "sample_record h = \<lparr> mr_hash = h,
     mr_identity = \<lparr> ib_registry_id = ''r'', ib_rln_identifier = [], ib_identity_commitment = ''c'', ib_submitted_at = 0 \<rparr>,
     mr_cache = default_cache_state \<lparr> cs_state := Active \<rparr>, mr_alloc = default_allocation_state, mr_quarantined = False \<rparr>"

end
