(* ===== verification/Nullifier_Log.thy ===== *)
theory Nullifier_Log
  imports Rln_Prelude
begin

text \<open>
  Model of \<open>nullifier_log.rs\<close>: the per-epoch record of accepted nullifiers. The hash maps are
  never iterated in an order that matters, so they are partial functions.
\<close>

datatype record_outcome = Fresh | Duplicate | Collision bytes bytes

type_synonym shares = "bytes \<times> bytes"
type_synonym epoch_bucket = "bytes \<rightharpoonup> shares"
type_synonym nullifier_log = "u64 \<rightharpoonup> epoch_bucket"

definition log_retain :: "u64 \<Rightarrow> nullifier_log \<Rightarrow> nullifier_log" where
  "log_retain retain_floor lg = (\<lambda>e. if retain_floor \<le> e then lg e else None)"

definition record_verified ::
  "u64 \<Rightarrow> bytes \<Rightarrow> bytes \<Rightarrow> bytes \<Rightarrow> u64 \<Rightarrow> nullifier_log \<Rightarrow> record_outcome \<times> nullifier_log"
where
  "record_verified ep nullifier share_x share_y retain_floor log0 =
     (let lg = log_retain retain_floor log0;
          bucket = (case lg ep of Some b \<Rightarrow> b | None \<Rightarrow> Map.empty)
      in case bucket nullifier of
           None \<Rightarrow> (Fresh, lg(ep \<mapsto> bucket(nullifier \<mapsto> (share_x, share_y))))
         | Some (prior_x, prior_y) \<Rightarrow>
             if prior_x = share_x then (Duplicate, lg(ep \<mapsto> bucket))
             else (Collision prior_x prior_y, lg(ep \<mapsto> bucket)))"

section \<open>Lookups\<close>

definition log_lookup :: "nullifier_log \<Rightarrow> u64 \<Rightarrow> bytes \<Rightarrow> shares option" where
  "log_lookup lg ep n = Option.bind (lg ep) (\<lambda>b. b n)"

lemma record_verified_lookup:
  assumes "record_verified ep n x y fl lg = (out, lg')"
  shows "log_lookup lg' e k =
    (if e = ep \<and> k = n
     then Some (case (if fl \<le> e then log_lookup lg e k else None) of Some s \<Rightarrow> s | None \<Rightarrow> (x, y))
     else if fl \<le> e then log_lookup lg e k else None)"
  using assms
  by (auto simp: record_verified_def log_lookup_def log_retain_def Let_def
      split: option.splits if_splits prod.splits)

lemma record_verified_outcome:
  "fst (record_verified ep n x y fl lg) =
    (case (if fl \<le> ep then log_lookup lg ep n else None) of
       None \<Rightarrow> Fresh
     | Some (px, py) \<Rightarrow> if px = x then Duplicate else Collision px py)"
  by (auto simp: record_verified_def log_lookup_def log_retain_def Let_def split: option.splits prod.splits)

text \<open>A sequence of verifications, each with its own floor; the outcomes in order.\<close>

type_synonym verification = "u64 \<times> bytes \<times> bytes \<times> bytes \<times> u64"

fun record_all :: "verification list \<Rightarrow> nullifier_log \<Rightarrow> record_outcome list \<times> nullifier_log" where
  "record_all [] lg = ([], lg)"
| "record_all ((ep, n, x, y, fl) # vs) lg =
     (let (out, log1) = record_verified ep n x y fl lg; (outs, log2) = record_all vs log1
      in (out # outs, log2))"

definition floors_at_most :: "u64 \<Rightarrow> verification list \<Rightarrow> bool" where
  "floors_at_most ep vs \<longleftrightarrow> (\<forall>(_, _, _, _, fl) \<in> set vs. fl \<le> ep)"

lemma record_all_keeps:
  assumes "record_all vs lg = (outs, lg')" "floors_at_most ep vs" "log_lookup lg ep n = Some s"
  shows "log_lookup lg' ep n = Some s"
  using assms
proof (induction vs arbitrary: lg outs)
  case (Cons v vs)
  obtain e n' x y fl where v: "v = (e, n', x, y, fl)" by (cases v)
  obtain out log1 where r: "record_verified e n' x y fl lg = (out, log1)" by fastforce
  obtain outs' where rest: "record_all vs log1 = (outs', lg')"
    using Cons.prems(1) v r by (auto split: prod.splits)
  have "log_lookup log1 ep n = Some s"
    using record_verified_lookup [OF r, of ep n] Cons.prems v by (auto simp: floors_at_most_def)
  then show ?case using Cons.IH [OF rest] Cons.prems(2) by (auto simp: floors_at_most_def)
qed simp

text \<open>
  A slot used twice inside the retention window is caught, and only then. After a proof was
  accepted as fresh, and any verifications whose floors do not exceed its epoch, a second proof
  with the same epoch and nullifier is a duplicate exactly when it carries the same \<open>share_x\<close>,
  and otherwise a collision that returns the first proof's two shares.
\<close>
lemma double_signal_detected:
  assumes "record_verified ep n x y fl lg = (Fresh, log1)"
    and "record_all vs log1 = (outs, log2)" "floors_at_most ep vs" "fl' \<le> ep"
  shows "fst (record_verified ep n x' y' fl' log2) = (if x' = x then Duplicate else Collision x y)"
proof -
  have "log_lookup log1 ep n = Some (x, y)"
    using record_verified_lookup [OF assms(1), of ep n] record_verified_outcome [of ep n x y fl lg] assms(1)
    by (auto split: option.splits if_splits)
  then have "log_lookup log2 ep n = Some (x, y)" using record_all_keeps [OF assms(2,3)] by blast
  then show ?thesis using assms(4) by (simp add: record_verified_outcome)
qed

text \<open>
  An honest sender is never accused. A proof is fresh exactly when no proof with its epoch and
  nullifier is on record at or above the floor; so as long as nullifiers of distinct slots differ,
  a first use is fresh, a retransmission is a duplicate, and other epochs and nullifiers at or
  above the floor keep their records.
\<close>
lemma record_verified_exact:
  assumes "record_verified ep n x y fl lg = (out, lg')"
  shows "(out = Fresh \<longleftrightarrow> \<not> (fl \<le> ep \<and> log_lookup lg ep n \<noteq> None)) \<and>
    (out = Duplicate \<longleftrightarrow> fl \<le> ep \<and> (\<exists>py. log_lookup lg ep n = Some (x, py))) \<and>
    (\<forall>e k. (e, k) \<noteq> (ep, n) \<longrightarrow> log_lookup lg' e k = (if fl \<le> e then log_lookup lg e k else None)) \<and>
    (fl \<le> ep \<longrightarrow> (case log_lookup lg ep n of
       None \<Rightarrow> log_lookup lg' ep n = Some (x, y)
     | Some s \<Rightarrow> log_lookup lg' ep n = Some s))"
  using record_verified_lookup [OF assms] record_verified_outcome [of ep n x y fl lg] assms
  by (auto split: option.splits if_splits)

end
