(* ===== verification/Proof_Api.thy ===== *)
theory Proof_Api
  imports Module_Config Selection Nullifier_Log
begin

text \<open>
  The rate-limiting handlers of \<open>lib.rs\<close>: \<open>generate_proof\<close>, \<open>validate_proof\<close>,
  \<open>get_epoch_quota\<close> and \<open>get_registry_parameters\<close>, composed of selection, the sealed store, the
  path cache, the root window, the proof engine and the nullifier log as the code composes them.
  Clock readings, write outcomes and the sibling's replies are arguments.
\<close>

section \<open>The module's state\<close>

record module_state =
  ms_store :: "api_error + store"
  ms_disk :: disk
  ms_roots :: roots_state
  ms_paths :: path_cache
  ms_gate :: network_gate
  ms_config :: "module_config option"
  ms_nullifiers :: nullifier_log
  ms_round_robin :: round_robin
  ms_nudges :: nat
  ms_claims :: "(string \<times> string) set"

section \<open>Generating\<close>

record proof_request =
  pq_registry :: canonical_registry_id
  pq_rln_identifier :: bytes
  pq_rln_id_hex :: string
  pq_epoch :: u64
  pq_size :: u64
  pq_gap :: u64
  pq_now_epoch :: u64
  pq_signal :: bytes

definition proof_request_of ::
  "u64 \<Rightarrow> module_config option \<Rightarrow> string \<Rightarrow> string \<Rightarrow> string \<Rightarrow> string \<Rightarrow> api_error + proof_request"
where
  "proof_request_of now cfg registry_id_raw rln_identifier_hex signal_hex timestamp =
     and_then (parse_scope registry_id_raw rln_identifier_hex) (\<lambda>(registry, rln_identifier, rln_id_hex).
     and_then (provider_of registry) (\<lambda>_.
     and_then (fresh_epoch_for now cfg (rid_canonical registry) timestamp) (\<lambda>(ep, sz, gap, now_epoch).
     and_then (ok_or (api_new InvalidArgument ''signal must be hex'') (hex_to_vec signal_hex)) (\<lambda>signal.
     Inr \<lparr> pq_registry = registry, pq_rln_identifier = rln_identifier, pq_rln_id_hex = rln_id_hex, pq_epoch = ep,
           pq_size = sz, pq_gap = gap, pq_now_epoch = now_epoch, pq_signal = signal \<rparr>))))"

record chosen_membership =
  cm_hash :: string
  cm_leaf_index :: u64
  cm_rate_limit :: u64
  cm_credential :: stored_credential

definition choose_membership ::
  "'z store_env_scheme \<Rightarrow> store \<Rightarrow> proof_request \<Rightarrow> round_robin \<Rightarrow> api_error + chosen_membership"
where
  "choose_membership env s q rr =
     and_then (fst (select_hash (scope_candidates (records_for_registry s (pq_registry q)) (pq_rln_id_hex q))
                 (rid_canonical (pq_registry q), pq_rln_id_hex q) NoSelector rr)) (\<lambda>hash.
     and_then (ok_or (api_new UnknownMembership ''selected membership vanished'') (membership hash s)) (\<lambda>r.
     and_then (ok_or (api_new UnknownMembership ''the selected membership carries no leaf_index'')
                 (cs_leaf_index (mr_cache r))) (\<lambda>leaf_index.
     and_then (unseal_credential env hash s) (\<lambda>credential.
     Inr \<lparr> cm_hash = hash, cm_leaf_index = leaf_index,
           cm_rate_limit = unwrap_or 0 (cs_rate_limit (mr_cache r)), cm_credential = credential \<rparr>))))"

definition proof_path ::
  "('fr, 'zp) zerokit \<Rightarrow> 'y sibling_scheme \<Rightarrow> u64 \<Rightarrow> canonical_registry_id \<Rightarrow> string \<Rightarrow> u64 \<Rightarrow>
     path_cache \<Rightarrow> roots_state \<Rightarrow> network_gate \<Rightarrow>
     (api_error + (string list \<times> byte list)) \<times> path_cache \<times> roots_state \<times> network_gate"
where
  "proof_path zk sb now registry hash leaf_index paths roots g =
     (case hit paths hash leaf_index of
        Some path \<Rightarrow> (Inr path, paths, roots, g)
      | None \<Rightarrow>
          (case fill_path_cache zk sb now registry hash leaf_index paths roots g of
             (Inl e, paths', roots', g') \<Rightarrow> (Inl e, paths', roots', g')
           | (Inr _, paths', roots', g') \<Rightarrow>
               (ok_or (api_internal ''path cache: fetched path vanished before use'') (hit paths' hash leaf_index),
                paths', roots', g')))"

definition proof_reply :: "rate_limit_proof \<Rightarrow> u64 \<Rightarrow> u64 \<Rightarrow> string \<Rightarrow> json" where
  "proof_reply rlp message_id ep hash =
     (case proof_to_json rlp of
        JObj fs \<Rightarrow> JObj (fs @ [(''message_id'', j_u64 message_id), (''epoch_index'', j_u64 ep),
          (''membership_hash'', JStr hash), (''proof_canonical'', JStr (canonical_hex rlp))])
      | v \<Rightarrow> v)"

definition generate_proof_impl ::
  "'z store_env_scheme \<Rightarrow> ('fr, 'zp) zerokit \<Rightarrow> 'y sibling_scheme \<Rightarrow> u64 \<Rightarrow> u64 \<Rightarrow> write_outcome \<Rightarrow>
     string \<Rightarrow> string \<Rightarrow> string \<Rightarrow> string \<Rightarrow> module_state \<Rightarrow> (api_error + json) \<times> module_state"
where
  "generate_proof_impl env zk sb now now_adopt w registry_id_raw rln_identifier_hex signal_hex timestamp ms =
     (case proof_request_of now (ms_config ms) registry_id_raw rln_identifier_hex signal_hex timestamp of
        Inl e \<Rightarrow> (Inl e, ms)
      | Inr q \<Rightarrow>
          (let ms1 = ms \<lparr> ms_roots := track (pq_registry q) (ms_roots ms) \<rparr> in
           case ms_store ms of
             Inl e \<Rightarrow> (Inl e, ms1)
           | Inr s \<Rightarrow>
               (case choose_membership env s q (ms_round_robin ms) of
                  Inl e \<Rightarrow> (Inl e, ms1)
                | Inr c \<Rightarrow>
                    (case proof_path zk sb now_adopt (pq_registry q) (cm_hash c) (cm_leaf_index c)
                            (ms_paths ms1) (ms_roots ms1) (ms_gate ms1) of
                       (Inl e, paths, roots, g) \<Rightarrow> (Inl e, ms1 \<lparr> ms_paths := paths, ms_roots := roots, ms_gate := g \<rparr>)
                     | (Inr (elements, indices), paths, roots, g) \<Rightarrow>
                         (let ms2 = ms1 \<lparr> ms_paths := paths, ms_roots := roots, ms_gate := g \<rparr>;
                              retain_floor = saturating_sub (pq_now_epoch q) (pq_gap q) in
                          case reserve_message_id env w (cm_hash c) (pq_rln_id_hex q) (pq_epoch q) retain_floor
                                 (cm_rate_limit c) (pq_size q) s (ms_disk ms2) of
                            (Inl e, s', d') \<Rightarrow> (Inl e, ms2 \<lparr> ms_store := Inr s', ms_disk := d' \<rparr>)
                          | (Inr message_id, s', d') \<Rightarrow>
                              (let ms3 = ms2 \<lparr> ms_store := Inr s', ms_disk := d' \<rparr>;
                                   material = \<lparr> wm_identity_secret_hash_hex = sc_identity_secret_hash (cm_credential c),
                                     wm_rate_limit = cm_rate_limit c, wm_message_id = message_id,
                                     wm_path_elements_hex = elements, wm_path_indices = indices \<rparr> in
                               case generate zk material (pq_signal q) (pq_epoch q) (pq_rln_identifier q) of
                                 Inl e \<Rightarrow> (Inl (api_of_proof_error e), ms3)
                               | Inr rlp \<Rightarrow> (Inr (proof_reply rlp message_id (pq_epoch q) (cm_hash c)), ms3)))))))"

section \<open>Validating\<close>

definition epoch_binding_holds ::
  "('fr, 'zp) zerokit \<Rightarrow> u64 option \<Rightarrow> bytes \<Rightarrow> bytes \<Rightarrow> u64 \<Rightarrow> u64 \<Rightarrow> u64 \<Rightarrow> bool"
where
  "epoch_binding_holds zk carried bound rln_identifier expected_epoch now_epoch gap \<longleftrightarrow>
     epoch_in_window expected_epoch now_epoch gap \<and>
     (case carried of None \<Rightarrow> True | Some e \<Rightarrow> e = expected_epoch) \<and>
     expected_external_nullifier zk expected_epoch rln_identifier = bound"

record validate_request =
  vq_registry :: canonical_registry_id
  vq_rln_identifier :: bytes
  vq_gap :: u64
  vq_now_epoch :: u64
  vq_expected_epoch :: u64
  vq_signal :: bytes
  vq_derived :: bool
  vq_proof :: rate_limit_proof

definition derives_external_nullifier :: "json \<Rightarrow> bool" where
  "derives_external_nullifier v \<longleftrightarrow> j_get v ''root'' \<noteq> None \<and> j_get v ''external_nullifier'' = None"

fun with_field :: "string \<Rightarrow> json \<Rightarrow> json \<Rightarrow> json" where
  "with_field key x (JObj fs) = JObj (fs @ [(key, x)])"
| "with_field key x v = v"

definition validate_request_of ::
  "('fr, 'zp) zerokit \<Rightarrow> (string \<Rightarrow> string + json) \<Rightarrow> u64 \<Rightarrow> module_config option \<Rightarrow>
     string \<Rightarrow> string \<Rightarrow> string \<Rightarrow> string \<Rightarrow> string \<Rightarrow> api_error + validate_request"
where
  "validate_request_of zk pj now cfg registry_id_raw rln_identifier_hex signal_hex timestamp proof_json =
     and_then (parse_scope registry_id_raw rln_identifier_hex) (\<lambda>(registry, rln_identifier, _).
     and_then (provider_of registry) (\<lambda>_.
     and_then (epoch_params_for cfg (rid_canonical registry)) (\<lambda>(sz, gap).
     and_then (epoch_of_timestamp timestamp sz) (\<lambda>expected_epoch.
     and_then (ok_or (api_new InvalidArgument ''signal must be hex'') (hex_to_vec signal_hex)) (\<lambda>signal.
     and_then (map_err (\<lambda>e. api_new InvalidArgument (''proof_json: '' @ e)) (pj proof_json)) (\<lambda>v0.
     let derived = derives_external_nullifier v0;
         v = (if derived
              then with_field ''external_nullifier''
                     (JStr (bytes_to_hex (expected_external_nullifier zk expected_epoch rln_identifier))) v0
              else v0) in
     and_then (map_err api_of_proof_error (proof_from_json zk v)) (\<lambda>rlp.
     Inr \<lparr> vq_registry = registry, vq_rln_identifier = rln_identifier, vq_gap = gap,
           vq_now_epoch = current_epoch now sz, vq_expected_epoch = expected_epoch,
           vq_signal = signal, vq_derived = derived, vq_proof = rlp \<rparr>)))))))"

definition verdict_of_outcome ::
  "('fr, 'zp) zerokit \<Rightarrow> record_outcome \<Rightarrow> rate_limit_proof \<Rightarrow> api_error + verdict_reply"
where
  "verdict_of_outcome zk out rlp =
     (case out of
        Fresh \<Rightarrow> Inr (verdict ''valid'')
      | Duplicate \<Rightarrow> Inr (verdict ''duplicate'')
      | Collision prior_x prior_y \<Rightarrow>
          and_then (map_err api_of_proof_error
                      (recover_identity_secret_hex zk (prior_x, prior_y) (rp_share_x rlp, rp_share_y rlp))) (\<lambda>secret.
          Inr (rate_limit_violation secret)))"

definition validate_proof_impl ::
  "('fr, 'zp) zerokit \<Rightarrow> (string \<Rightarrow> string + json) \<Rightarrow> u64 \<Rightarrow> u64 \<Rightarrow> u64 \<Rightarrow> u64 \<Rightarrow>
     string \<Rightarrow> string \<Rightarrow> string \<Rightarrow> string \<Rightarrow> string \<Rightarrow> module_state \<Rightarrow> (api_error + verdict_reply) \<times> module_state"
where
  "validate_proof_impl zk pj now now_window now_nudge seen_nudge
       registry_id_raw rln_identifier_hex signal_hex timestamp proof_json ms =
     (case validate_request_of zk pj now (ms_config ms) registry_id_raw rln_identifier_hex signal_hex timestamp proof_json of
        Inl e \<Rightarrow> (Inl e, ms)
      | Inr q \<Rightarrow>
          (let rlp = vq_proof q; bound = rp_external_nullifier rlp in
           if \<not> epoch_binding_holds zk (rp_epoch rlp) bound (vq_rln_identifier q) (vq_expected_epoch q) (vq_now_epoch q) (vq_gap q)
           then (Inr (verdict ''invalid''), ms)
           else
             let ms1 = ms \<lparr> ms_roots := track (vq_registry q) (ms_roots ms) \<rparr> in
             case window now_window (rid_canonical (vq_registry q)) (ms_roots ms1) of
               None \<Rightarrow> (Inl (api_new NotReady ''valid-root window not warm yet; retry''), ms1)
             | Some win \<Rightarrow>
                 if rp_root rlp \<notin> set win
                 then (let (woken, roots) = nudge now_nudge seen_nudge (ms_roots ms1) in
                       (Inr (verdict ''invalid''),
                        ms1 \<lparr> ms_roots := roots, ms_nudges := ms_nudges ms1 + (if woken then 1 else 0) \<rparr>))
                 else (case verify_proof zk rlp (vq_signal q) win of
                         Inl e \<Rightarrow> (Inl (api_of_proof_error e), ms1)
                       | Inr False \<Rightarrow> (Inr (verdict ''invalid''), ms1)
                       | Inr True \<Rightarrow>
                           (let retain_floor = saturating_sub (vq_now_epoch q) (vq_gap q);
                                (out, nl) = record_verified (vq_expected_epoch q) (rp_nullifier rlp)
                                   (rp_share_x rlp) (rp_share_y rlp) retain_floor (ms_nullifiers ms1);
                                ms2 = ms1 \<lparr> ms_nullifiers := nl \<rparr>
                            in (and_then (verdict_of_outcome zk out rlp) (\<lambda>view.
                                  Inr (if vq_derived q then with_external_nullifier (bytes_to_hex bound) view else view)),
                                ms2)))))"

section \<open>Reading\<close>

definition get_epoch_quota_impl ::
  "u64 \<Rightarrow> string \<Rightarrow> string \<Rightarrow> string \<Rightarrow> module_state \<Rightarrow> api_error + epoch_quota_view"
where
  "get_epoch_quota_impl now registry_id_raw rln_identifier_hex timestamp ms =
     and_then (parse_scope registry_id_raw rln_identifier_hex) (\<lambda>(registry, _, rln_id_hex).
     and_then (provider_of registry) (\<lambda>_.
     and_then (fresh_epoch_for now (ms_config ms) (rid_canonical registry) timestamp) (\<lambda>(epoch_index, sz, _, _).
     and_then (ms_store ms) (\<lambda>s.
     let usable = filter (\<lambda>r. \<not> mr_quarantined r \<and> is_usable (cs_state (mr_cache r)))
                    (scope_candidates (records_for_registry s registry) rln_id_hex) in
     case usable of
       [] \<Rightarrow> Inr (epoch_quota_view_new epoch_index 0 0)
     | [r] \<Rightarrow>
         (let rate_limit = unwrap_or 0 (cs_rate_limit (mr_cache r)) in
          and_then (remaining_budget (mr_hash r) rln_id_hex epoch_index rate_limit sz s) (\<lambda>n.
          Inr (epoch_quota_view_new epoch_index rate_limit n)))
     | _ \<Rightarrow> Inl (api_new AmbiguousSelection ''multiple memberships back this scope; use select_membership'')))))"

definition get_registry_parameters_impl ::
  "'y sibling_scheme \<Rightarrow> string \<Rightarrow> string \<Rightarrow> module_state \<Rightarrow> (api_error + registry_parameters_view) \<times> module_state"
where
  "get_registry_parameters_impl sb registry_id_raw rln_identifier_hex ms =
     (case and_then (parse_scope registry_id_raw rln_identifier_hex)
             (\<lambda>(registry, _, _). and_then (provider_of registry) (\<lambda>_. Inr registry)) of
        Inl e \<Rightarrow> (Inl e, ms)
      | Inr registry \<Rightarrow>
          (case get_registry_bounds sb registry (ms_gate ms) of
             (Inl e, g) \<Rightarrow> (Inl e, ms \<lparr> ms_gate := g \<rparr>)
           | (Inr bounds, g) \<Rightarrow>
               (and_then (epoch_params_for (ms_config ms) (rid_canonical registry)) (\<lambda>(sz, gap).
                  Inr (registry_parameters_from_bounds sz gap bounds)), ms \<lparr> ms_gate := g \<rparr>)))"

end
