(* ===== verification/Membership_Api.thy ===== *)
theory Membership_Api
  imports Proof_Api
begin

text \<open>
  The membership handlers of \<open>lib.rs\<close>: registration options, the submit callbacks, register claims,
  \<open>register\<close>, \<open>get_membership_state\<close>, \<open>select_membership\<close> and \<open>get_memberships\<close>. Random bytes,
  clock readings and write outcomes are arguments; state-change events are returned.
\<close>

section \<open>Registration options\<close>

record delegated_options =
  do_gifter_peer_id :: string
  do_gifter_multiaddr :: string
  do_auth_type :: "string option"
  do_auth_payload :: "string option"
  do_auth_provider :: "string option"
  do_auth_args :: "string option"

definition flat_bool_option :: "json \<Rightarrow> string \<Rightarrow> bool" where
  "flat_bool_option options key \<longleftrightarrow> get_str options key = Some ''true''"

definition flat_str_option :: "json \<Rightarrow> string \<Rightarrow> string option" where
  "flat_str_option options key = Option.bind (get_str options key) (\<lambda>s. if s = [] then None else Some s)"

definition quoted :: "string \<Rightarrow> string" where
  "quoted s = [CHR 0x27] @ s @ [CHR 0x27]"

fun collect_options :: "json list \<Rightarrow> (string \<times> string) list \<Rightarrow> api_error + (string \<times> string) list" where
  "collect_options [] acc = Inr acc"
| "collect_options (entry # rest) acc =
     (case get_str entry ''key'' of
        None \<Rightarrow> Inl (api_new InvalidArgument ''every RegistryOptions entry needs a string \"key\"'')
      | Some key \<Rightarrow>
          if key = [] then Inl (api_new InvalidArgument ''every RegistryOptions entry needs a string \"key\"'')
          else case get_str entry ''value'' of
            None \<Rightarrow> Inl (api_new InvalidArgument
              (''RegistryOptions value for '' @ quoted key @ '' must be a string (char* pair)''))
          | Some value \<Rightarrow>
              if map_of acc key \<noteq> None
              then Inl (api_new InvalidArgument (''duplicate RegistryOptions key '' @ quoted key))
              else collect_options rest (acc @ [(key, value)]))"

definition options_entries :: "(string \<Rightarrow> string + json) \<Rightarrow> string \<Rightarrow> api_error + json list" where
  "options_entries pj options_json =
     (let trimmed = trim options_json in
      if trimmed = [] then Inr []
      else case pj trimmed of
        Inr (JArr a) \<Rightarrow> Inr a
      | Inr _ \<Rightarrow> Inl (api_new InvalidArgument
          ''options_json must be a RegistryOptions array of {\"key\",\"value\"} string pairs'')
      | Inl e \<Rightarrow> Inl (api_new InvalidArgument (''options_json: '' @ e)))"

definition rate_limit_option :: "(string \<times> string) list \<Rightarrow> api_error + u64" where
  "rate_limit_option opts =
     (case Option.bind (map_of opts ''rate_limit'') (\<lambda>v. if trim v = [] then None else Some (trim v)) of
        None \<Rightarrow> Inr DEFAULT_RATE_LIMIT
      | Some s \<Rightarrow> ok_or (api_new InvalidArgument ''rate_limit option must be a positive decimal string'')
          (positive (parse_uint s)))"

definition parse_registry_options :: "(string \<Rightarrow> string + json) \<Rightarrow> string \<Rightarrow> api_error + (u64 \<times> json)" where
  "parse_registry_options pj options_json =
     and_then (options_entries pj options_json) (\<lambda>entries.
     and_then (collect_options entries []) (\<lambda>opts.
     and_then (rate_limit_option opts) (\<lambda>rate_limit.
     Inr (rate_limit, JObj (map (\<lambda>(k, v). (k, JStr v)) (filter (\<lambda>(k, _). k \<noteq> ''rate_limit'') opts))))))"

definition delegated_of :: "json \<Rightarrow> delegated_options option" where
  "delegated_of opts =
     (if flat_bool_option opts ''delegated''
      then Some \<lparr> do_gifter_peer_id = unwrap_or [] (get_str opts ''gifter_peer_id''),
                  do_gifter_multiaddr = unwrap_or [] (get_str opts ''gifter_multiaddr''),
                  do_auth_type = flat_str_option opts ''auth_type'',
                  do_auth_payload = flat_str_option opts ''auth_payload'',
                  do_auth_provider = flat_str_option opts ''auth_provider'',
                  do_auth_args = flat_str_option opts ''auth_args'' \<rparr>
      else None)"

function trim_start_matches :: "string \<Rightarrow> string \<Rightarrow> string" where
  "trim_start_matches pre s =
     (if pre \<noteq> [] \<and> take (length pre) s = pre then trim_start_matches pre (drop (length pre) s) else s)"
  by pat_completeness auto
termination
proof (relation "measure (\<lambda>(pre, s). length s)")
  fix pre s :: string assume "pre \<noteq> [] \<and> take (length pre) s = pre"
  then have "0 < length pre" "length pre \<le> length s" by (auto simp: take_eq_Nil2 dest: arg_cong [of _ _ length])
  then have "length s - length pre < length s" by linarith
  then show "((pre, drop (length pre) s), pre, s) \<in> measure (\<lambda>(pre, s). length s)" by simp
qed auto

declare trim_start_matches.simps [simp del]

definition hex_payload :: "string \<Rightarrow> bool" where
  "hex_payload p \<longleftrightarrow>
     (let h = trim_start_matches ''0x'' p in h \<noteq> [] \<and> length h mod 2 = 0 \<and> list_all (\<lambda>c. to_digit16 c \<noteq> None) h)"

definition check_delegated :: "json \<Rightarrow> delegated_options option \<Rightarrow> api_error + unit" where
  "check_delegated opts delegated =
     (case delegated of
        Some d \<Rightarrow>
          if do_gifter_peer_id d = [] \<or> do_gifter_multiaddr d = []
          then Inl (api_new InvalidArgument ''delegated registration needs gifter_peer_id and gifter_multiaddr'')
          else if do_auth_type d = None \<and> (do_auth_payload d \<noteq> None \<or> do_auth_provider d \<noteq> None \<or> do_auth_args d \<noteq> None)
          then Inl (api_new InvalidArgument ''auth_payload/auth_provider/auth_args need auth_type'')
          else
            and_then
              (case do_auth_type d of
                 None \<Rightarrow> Inr ()
               | Some t \<Rightarrow>
                   if do_auth_payload d \<noteq> None \<and> do_auth_provider d \<noteq> None
                   then Inl (api_new InvalidArgument ''auth_payload and auth_provider are mutually exclusive'')
                   else if do_auth_payload d = None \<and> do_auth_provider d = None
                   then Inl (api_new InvalidArgument (''auth_type '' @ quoted t @ '' needs auth_payload or auth_provider''))
                   else Inr ()) (\<lambda>_.
            case do_auth_payload d of
              None \<Rightarrow> Inr ()
            | Some p \<Rightarrow> if hex_payload p then Inr () else Inl (api_new InvalidArgument ''auth_payload must be hex-encoded bytes''))
      | None \<Rightarrow>
          if list_ex (\<lambda>k. j_get opts k \<noteq> None) [''auth_type'', ''auth_payload'', ''auth_provider'', ''auth_args'']
          then Inl (api_new InvalidArgument (''auth_* options apply to delegated registration only '' @ em_dash @
                 '' set \"delegated\":\"true\"''))
          else Inr ())"

definition delegated_request_args :: "(json \<Rightarrow> string) \<Rightarrow> delegated_options \<Rightarrow> string \<Rightarrow> u64 \<Rightarrow> string" where
  "delegated_request_args render d commitment_hex rate_limit =
     (let opt = (\<lambda>k v. case v of None \<Rightarrow> [] | Some s \<Rightarrow> [(k, JStr s)]) in
      render (JObj ([(''gifterPeerId'', JStr (do_gifter_peer_id d)), (''gifterMultiaddr'', JStr (do_gifter_multiaddr d)),
         (''identityCommitment'', JStr commitment_hex), (''rate'', j_u64 rate_limit)] @
         opt ''authType'' (do_auth_type d) @ opt ''authPayload'' (do_auth_payload d) @
         opt ''authProvider'' (do_auth_provider d) @ opt ''authArgs'' (do_auth_args d))))"

section \<open>Submit callbacks\<close>

definition is_retryable_submit_error :: "api_error \<Rightarrow> bool" where
  "is_retryable_submit_error e \<longleftrightarrow> ae_kind e \<in> {Transient, NotReady, ProviderFailure}"

definition register_refusal :: "(string \<Rightarrow> string + json) \<Rightarrow> string \<Rightarrow> string option" where
  "register_refusal pj reply = (case pj reply of Inl _ \<Rightarrow> None | Inr v \<Rightarrow> get_str v ''error'')"

definition with_leaf :: "json \<Rightarrow> cache_state \<Rightarrow> cache_state" where
  "with_leaf v m = (case get_u64 v ''leaf_index'' of Some leaf \<Rightarrow> m \<lparr> cs_leaf_index := Some leaf \<rparr> | None \<Rightarrow> m)"

definition funded_update :: "(string \<Rightarrow> string + json) \<Rightarrow> api_error + string \<Rightarrow> cache_state \<Rightarrow> cache_state" where
  "funded_update pj result m =
     (case result of
        Inr reply \<Rightarrow>
          (case register_refusal pj reply of
             Some why \<Rightarrow> record_async_submit_error why False m
           | None \<Rightarrow>
               (let m1 = m \<lparr> cs_tx_result := Some reply \<rparr> in
                case pj reply of Inr v \<Rightarrow> with_leaf v m1 | Inl _ \<Rightarrow> m1))
      | Inl e \<Rightarrow> record_async_submit_error (ae_message e) (is_retryable_submit_error e) m)"

definition delegated_update ::
  "(string \<Rightarrow> string + json) \<Rightarrow> (json \<Rightarrow> string) \<Rightarrow> api_error + string \<Rightarrow> cache_state \<Rightarrow> cache_state"
where
  "delegated_update pj render result m =
     (case result of
        Inr reply \<Rightarrow>
          (case pj reply of
             Inr v \<Rightarrow>
               (case j_get v ''error'' of
                  Some e \<Rightarrow>
                    if cs_state m = Pending
                    then m \<lparr> cs_state := Failed,
                             cs_failed_reason := Some (''gifter_failed: '' @ unwrap_or (render e) (as_str e)) \<rparr>
                    else m
                | None \<Rightarrow>
                    (let m1 = with_leaf v m;
                         tx = unwrap_or [] (get_str v ''tx_hash'');
                         inner = render (JObj [(''error'', JStr []), (''secrets'', JArr []), (''success'', JBool True), (''tx_hash'', JStr tx)])
                     in m1 \<lparr> cs_tx_result := Some (render (JObj [(''leaf_index'', j_u64 (unwrap_or 0 (cs_leaf_index m1))),
                                (''pending'', JBool True), (''tx_result'', JStr inner)])) \<rparr>))
           | Inl _ \<Rightarrow> m \<lparr> cs_tx_result := Some reply \<rparr>)
      | Inl e \<Rightarrow> record_async_submit_error (ae_message e) (is_retryable_submit_error e) m)"

text \<open>
  A callback holds a weak reference to the store its record was inserted into; when that store is
  gone (\<open>alive\<close> is false) there is nothing to record on.
\<close>

definition submit_callback ::
  "(cache_state \<Rightarrow> cache_state) \<Rightarrow> bool \<Rightarrow> write_outcome \<Rightarrow> u64 \<Rightarrow> string \<Rightarrow> module_state \<Rightarrow> module_state"
where
  "submit_callback upd alive w now hash ms =
     (case ms_store ms of
        Inr s \<Rightarrow>
          if alive then (let (_, s', d') = update_cache w now hash upd s (ms_disk ms)
                         in ms \<lparr> ms_store := Inr s', ms_disk := d' \<rparr>)
          else ms
      | Inl _ \<Rightarrow> ms)"

definition funded_submit_callback where
  "funded_submit_callback pj alive w now hash result ms = submit_callback (funded_update pj result) alive w now hash ms"

definition delegated_submit_callback where
  "delegated_submit_callback pj render alive w now hash result ms =
     submit_callback (delegated_update pj render result) alive w now hash ms"

section \<open>Register claims\<close>

definition claim_take :: "string \<Rightarrow> string \<Rightarrow> (string \<times> string) set \<Rightarrow> (api_error + unit) \<times> (string \<times> string) set" where
  "claim_take registry rln_id_hex claims =
     (if (registry, rln_id_hex) \<in> claims
      then (Inl (api_new ProviderFailure (''a registration for this scope is already in flight '' @ em_dash @
                '' retry to observe its result'')), claims)
      else (Inr (), insert (registry, rln_id_hex) claims))"

definition claim_drop :: "string \<Rightarrow> string \<Rightarrow> (string \<times> string) set \<Rightarrow> (string \<times> string) set" where
  "claim_drop registry rln_id_hex claims = claims - {(registry, rln_id_hex)}"

section \<open>Registering\<close>

record register_inputs =
  ri_seed :: "string + bytes"
  ri_nonce :: "bytes option"
  ri_write_allocations :: write_outcome
  ri_write_cache :: write_outcome
  ri_write_sealed :: write_outcome
  ri_submitted_at :: u64
  ri_write_update :: write_outcome
  ri_now_update :: u64

definition live_record :: "membership_record list \<Rightarrow> string \<Rightarrow> membership_record option" where
  "live_record records rln_id_hex =
     find (\<lambda>r. \<not> mr_quarantined r \<and> is_live (cs_state (mr_cache r)) \<and> scope_matches r rln_id_hex) records"

definition live_view :: "module_config option \<Rightarrow> canonical_registry_id \<Rightarrow> u64 \<Rightarrow> membership_record \<Rightarrow> membership_view" where
  "live_view cfg registry rate_limit r =
     (let mismatch = (cs_rate_limit (mr_cache r) \<noteq> Some rate_limit);
          bound = as_epoch_size_sec (mr_alloc r);
          epoch_mismatch = (case epoch_params_for cfg (rid_canonical registry) of
             Inr (sz, _) \<Rightarrow> bound \<noteq> 0 \<and> bound \<noteq> sz | Inl _ \<Rightarrow> False)
      in membership_view_new (mr_hash r) r False mismatch epoch_mismatch)"

definition show_bound :: "u64 option \<Rightarrow> string" where
  "show_bound m = (case m of Some n \<Rightarrow> show_nat (unat n) | None \<Rightarrow> ''?'')"

definition bounds_check :: "u64 \<Rightarrow> api_error + json \<Rightarrow> api_error + unit" where
  "bounds_check rate_limit reply =
     (case reply of
        Inl _ \<Rightarrow> Inr ()
      | Inr bounds \<Rightarrow>
          (let mx = get_u64 bounds ''max_rate_limit''; mn = get_u64 bounds ''min_rate_limit'' in
           if (case mx of Some m \<Rightarrow> m < rate_limit | None \<Rightarrow> False) \<or> (case mn of Some m \<Rightarrow> rate_limit < m | None \<Rightarrow> False)
           then Inl (api_new InvalidArgument (''rate_limit '' @ show_nat (unat rate_limit) @ '' outside registry bounds ['' @
                  show_bound mn @ '', '' @ show_bound mx @ '']''))
           else Inr ()))"

definition submit ::
  "'y sibling_scheme \<Rightarrow> canonical_registry_id \<Rightarrow> json \<Rightarrow> delegated_options option \<Rightarrow> string \<Rightarrow> u64 \<Rightarrow> network_gate \<Rightarrow>
     (api_error + unit) \<times> (api_error + string) list \<times> (api_error + string) list \<times> network_gate"
where
  "submit sb registry opts delegated commitment_hex rate_limit g =
     (case delegated of
        Some d \<Rightarrow>
          (let (r, now, later) = gifter_request_async sb (delegated_request_args (render_json sb) d commitment_hex rate_limit)
           in (r, now, later, g))
      | None \<Rightarrow> register_async sb registry (render_json sb opts) commitment_hex rate_limit g)"

definition callback_update where
  "callback_update sb delegated result =
     (case delegated of
        Some (_ :: delegated_options) \<Rightarrow> delegated_update (parse_json sb) (render_json sb) result
      | None \<Rightarrow> funded_update (parse_json sb) result)"

text \<open>
  The body after the options are checked and no live record was found: mint, insert, submit. The
  second component lists the submission replies that arrive only after the handler returned.
\<close>

definition register_fresh ::
  "'z store_env_scheme \<Rightarrow> ('fr, 'zp) zerokit \<Rightarrow> 'y sibling_scheme \<Rightarrow> register_inputs \<Rightarrow> canonical_registry_id \<Rightarrow>
     string \<Rightarrow> u64 \<Rightarrow> json \<Rightarrow> delegated_options option \<Rightarrow> store \<Rightarrow> module_state \<Rightarrow>
     (api_error + membership_view) \<times> (api_error + string) list \<times> module_state"
where
  "register_fresh env zk sb ri registry rln_id_hex rate_limit opts delegated s ms =
     (case map_err api_of_proof_error (generate_identity zk (ri_seed ri)) of
        Inl e \<Rightarrow> (Inl e, [], ms)
      | Inr (commitment_hex, secret_hash_hex) \<Rightarrow>
          (case hex_to_bytes32 commitment_hex of
             None \<Rightarrow> (Inl (api_internal ''generated commitment is not 32 bytes''), [], ms)
           | Some commitment \<Rightarrow>
               (let hash = membership_hash (sha256_digest env) (rid_canonical registry) commitment;
                    credential = \<lparr> sc_identity_commitment = commitment_hex, sc_identity_secret_hash = secret_hash_hex,
                                   sc_registry_id = rid_canonical registry \<rparr>;
                    identity = \<lparr> ib_registry_id = rid_canonical registry, ib_rln_identifier = rln_id_hex,
                                 ib_identity_commitment = commitment_hex, ib_submitted_at = ri_submitted_at ri \<rparr> in
                case insert_membership env (ri_nonce ri) (ri_write_allocations ri) (ri_write_cache ri) (ri_write_sealed ri)
                       hash identity credential rate_limit s (ms_disk ms) of
                  (Inl e, s', d') \<Rightarrow> (Inl e, [], ms \<lparr> ms_store := Inr s', ms_disk := d' \<rparr>)
                | (Inr _, s', d') \<Rightarrow>
                    (case submit sb registry opts delegated commitment_hex rate_limit (ms_gate ms) of
                       (r, delivered, later, g) \<Rightarrow>
                         (let ms1 = ms \<lparr> ms_store := Inr s', ms_disk := d', ms_gate := g \<rparr>;
                              ms2 = fold (\<lambda>result m. submit_callback (callback_update sb delegated result) True
                                      (ri_write_update ri) (ri_now_update ri) hash m) delivered ms1 in
                          case ms_store ms2 of
                            Inl e \<Rightarrow> (Inl e, later, ms2)
                          | Inr s2 \<Rightarrow>
                              (case r of
                                 Inl e \<Rightarrow>
                                   (let (u, s3, d3) = update_cache (ri_write_update ri) (ri_now_update ri) hash
                                          (mark_submit_failed (ae_message e) (is_retryable_submit_error e)) s2 (ms_disk ms2)
                                    in (case u of Inl e' \<Rightarrow> Inl e' | Inr _ \<Rightarrow> Inl e, later,
                                        ms2 \<lparr> ms_store := Inr s3, ms_disk := d3 \<rparr>))
                               | Inr _ \<Rightarrow>
                                   (case membership hash s2 of
                                      None \<Rightarrow> (Inl (api_internal ''record vanished after insert''), later, ms2)
                                    | Some rec \<Rightarrow> (Inr (membership_view_new hash rec False False False), later, ms2))))))))"

definition register_claimed ::
  "'z store_env_scheme \<Rightarrow> ('fr, 'zp) zerokit \<Rightarrow> 'y sibling_scheme \<Rightarrow> register_inputs \<Rightarrow> canonical_registry_id \<Rightarrow>
     string \<Rightarrow> string \<Rightarrow> module_state \<Rightarrow> (api_error + membership_view) \<times> (api_error + string) list \<times> module_state"
where
  "register_claimed env zk sb ri registry rln_id_hex options_json ms =
     (case and_then (parse_registry_options (parse_json sb) options_json) (\<lambda>(rate_limit, opts).
             and_then (check_delegated opts (delegated_of opts)) (\<lambda>_.
             and_then (ms_store ms) (\<lambda>s. Inr (rate_limit, opts, s)))) of
        Inl e \<Rightarrow> (Inl e, [], ms)
      | Inr (rate_limit, opts, s) \<Rightarrow>
          (case live_record (records_for_registry s registry) rln_id_hex of
             Some r \<Rightarrow> (Inr (live_view (ms_config ms) registry rate_limit r), [], ms)
           | None \<Rightarrow>
               (let (bounds, g) = get_registry_bounds sb registry (ms_gate ms);
                    ms1 = ms \<lparr> ms_gate := g \<rparr> in
                case bounds_check rate_limit bounds of
                  Inl e \<Rightarrow> (Inl e, [], ms1)
                | Inr _ \<Rightarrow> register_fresh env zk sb ri registry rln_id_hex rate_limit opts (delegated_of opts) s ms1)))"

definition register_scoped ::
  "'z store_env_scheme \<Rightarrow> ('fr, 'zp) zerokit \<Rightarrow> 'y sibling_scheme \<Rightarrow> register_inputs \<Rightarrow> canonical_registry_id \<Rightarrow>
     string \<Rightarrow> string \<Rightarrow> module_state \<Rightarrow> (api_error + membership_view) \<times> (api_error + string) list \<times> module_state"
where
  "register_scoped env zk sb ri registry rln_id_hex options_json ms =
     (case provider_of registry of
        Inl e \<Rightarrow> (Inl e, [], ms)
      | Inr _ \<Rightarrow>
          (case claim_take (rid_canonical registry) rln_id_hex (ms_claims ms) of
             (Inl e, _) \<Rightarrow> (Inl e, [], ms)
           | (Inr _, claims) \<Rightarrow>
               (let (r, later, ms') = register_claimed env zk sb ri registry rln_id_hex options_json (ms \<lparr> ms_claims := claims \<rparr>)
                in (r, later, ms' \<lparr> ms_claims := claim_drop (rid_canonical registry) rln_id_hex (ms_claims ms') \<rparr>))))"

definition register_impl ::
  "'z store_env_scheme \<Rightarrow> ('fr, 'zp) zerokit \<Rightarrow> 'y sibling_scheme \<Rightarrow> register_inputs \<Rightarrow> string \<Rightarrow>
     string \<Rightarrow> string \<Rightarrow> module_state \<Rightarrow> (api_error + membership_view) \<times> (api_error + string) list \<times> module_state"
where
  "register_impl env zk sb ri registry_id_raw rln_identifier_hex options_json ms =
     (case parse_scope registry_id_raw rln_identifier_hex of
        Inl e \<Rightarrow> (Inl e, [], ms)
      | Inr (registry, _, rln_id_hex) \<Rightarrow> register_scoped env zk sb ri registry rln_id_hex options_json ms)"

section \<open>Membership state\<close>

type_synonym state_event = "string \<times> string \<times> string \<times> string \<times> string"

definition state_cas :: "membership_state \<Rightarrow> membership_state \<Rightarrow> provider_membership \<Rightarrow> cache_state \<Rightarrow> cache_state" where
  "state_cas snapshot_state merged pm m =
     (if cs_state m \<noteq> snapshot_state then m
      else
        let m1 = m \<lparr> cs_state := merged \<rparr> in
        if pm_registered pm
        then m1 \<lparr> cs_leaf_index := Some (pm_leaf_index pm), cs_rate_limit := Some (pm_rate_limit pm),
                  cs_failed_reason := None, cs_retryable := None \<rparr>
        else if merged = Failed
        then m1 \<lparr> cs_failed_reason := Some ''confirmation_window_elapsed'', cs_retryable := Some True \<rparr>
        else if merged = Erased then m1 \<lparr> cs_failed_reason := Some ''removed_from_registry'' \<rparr>
        else m1)"

definition resolve_state ::
  "write_outcome \<Rightarrow> u64 \<Rightarrow> u64 \<Rightarrow> canonical_registry_id \<Rightarrow> membership_record \<Rightarrow> provider_membership \<Rightarrow> store \<Rightarrow> disk \<Rightarrow>
     membership_state_view \<times> state_event list \<times> store \<times> disk"
where
  "resolve_state w now now_update registry r pm s d =
     (let merged = merge_state (Some r) (if pm_registered pm then Some (pm_state pm) else None) now;
          snapshot_state = cs_state (mr_cache r);
          (events, s', d') =
            (if merged \<noteq> snapshot_state
             then (case update_cache w now_update (mr_hash r) (state_cas snapshot_state merged pm) s d of
                     (Inl e, s', d') \<Rightarrow> ([], s', d')
                   | (Inr prior, s', d') \<Rightarrow>
                       (if prior = snapshot_state
                        then (case transition_event (mr_hash r) r prior merged of None \<Rightarrow> [] | Some ev \<Rightarrow> [ev])
                        else [], s', d'))
             else ([], s, d));
          (leaf_index, rate_limit) =
            (if pm_registered pm then (pm_leaf_index pm, pm_rate_limit pm)
             else (unwrap_or 0 (cs_leaf_index (mr_cache r)), unwrap_or 0 (cs_rate_limit (mr_cache r))))
      in (state_view_resolved (mr_hash r) (rid_canonical registry) merged leaf_index rate_limit, events, s', d'))"

text \<open>
  \<open>during\<close> is what other handlers did to the store and disk while the registry read was under way:
  the code holds no lock across it.
\<close>

definition get_membership_state_impl ::
  "'y sibling_scheme \<Rightarrow> (string \<Rightarrow> provisioning_view option) \<Rightarrow> (store \<times> disk \<Rightarrow> store \<times> disk) \<Rightarrow> write_outcome \<Rightarrow> u64 \<Rightarrow> u64 \<Rightarrow>
     string \<Rightarrow> string \<Rightarrow> module_state \<Rightarrow> (api_error + membership_state_view) \<times> state_event list \<times> module_state"
where
  "get_membership_state_impl sb progress during w now now_update registry_id_raw rln_identifier_hex ms =
     (case and_then (parse_scope registry_id_raw rln_identifier_hex)
             (\<lambda>(registry, _, rln_id_hex). and_then (provider_of registry) (\<lambda>_. Inr (registry, rln_id_hex))) of
        Inl e \<Rightarrow> (Inl e, [], ms)
      | Inr (registry, rln_id_hex) \<Rightarrow>
          (let unknown = with_provisioning (progress (rid_canonical registry)) (state_view_unknown (rid_canonical registry)) in
           case ms_store ms of
             Inl _ \<Rightarrow> (Inr unknown, [], ms)
           | Inr s \<Rightarrow>
               (case filter (\<lambda>r. \<not> mr_quarantined r) (scope_candidates (records_for_registry s registry) rln_id_hex) of
                  [] \<Rightarrow> (Inr unknown, [], ms)
                | [r] \<Rightarrow>
                    (case get_membership sb registry (ib_identity_commitment (mr_identity r)) (ms_gate ms) of
                       (Inl e, g) \<Rightarrow> (Inl e, [], ms \<lparr> ms_gate := g \<rparr>)
                     | (Inr pm, g) \<Rightarrow>
                         (let (s0, d0) = during (s, ms_disk ms);
                              (view, events, s', d') = resolve_state w now now_update registry r pm s0 d0
                          in (Inr view, events, ms \<lparr> ms_gate := g, ms_store := Inr s', ms_disk := d' \<rparr>)))
                | _ \<Rightarrow> (Inl (api_new AmbiguousSelection
                    ''multiple memberships back this scope; use get_memberships / select_membership''), [], ms))))"

section \<open>Listing and selecting\<close>

definition select_membership_impl ::
  "(string \<Rightarrow> string + json) \<Rightarrow> (string \<Rightarrow> string) \<Rightarrow> string \<Rightarrow> string \<Rightarrow> string \<Rightarrow> module_state \<Rightarrow>
     (api_error + membership_view) \<times> module_state"
where
  "select_membership_impl pj debug_str registry_id_raw rln_identifier_hex selector_json ms =
     (case and_then (parse_scope registry_id_raw rln_identifier_hex) (\<lambda>(registry, _, rid).
             and_then (parse_selector pj debug_str selector_json) (\<lambda>sel.
             and_then (ms_store ms) (\<lambda>s. Inr (registry, rid, sel, s)))) of
        Inl e \<Rightarrow> (Inl e, ms)
      | Inr (registry, rid, sel, s) \<Rightarrow>
          (let records = records_for_registry s registry;
               (r, rr) = select_hash records (rid_canonical registry, rid) sel (ms_round_robin ms)
           in (and_then r (\<lambda>hash.
                 and_then (ok_or (api_internal ''selected record vanished'') (find (\<lambda>x. mr_hash x = hash) records)) (\<lambda>rec.
                 Inr (membership_view_new hash rec False False False))),
               ms \<lparr> ms_round_robin := rr \<rparr>)))"

definition get_memberships_impl :: "string \<Rightarrow> module_state \<Rightarrow> api_error + membership_view list" where
  "get_memberships_impl registry_id_raw ms =
     and_then (parse_registry registry_id_raw) (\<lambda>registry.
     and_then (ms_store ms) (\<lambda>s.
     Inr (map (\<lambda>r. membership_view_new (mr_hash r) r (mr_quarantined r) False False) (records_for_registry s registry))))"

end
