(* ===== verification/Store_Safety.thy ===== *)
theory Store_Safety
  imports Sealed_Store
begin

text \<open>
  The sealed store as a state machine over the process, the disk and the environment, and the
  property it exists for: no rate-limit slot is ever issued twice, across restarts, crashes,
  failed writes, clock steps, reconfiguration, a lost or corrupt ledger, and arbitrary edits of
  the sealed and cache files.

  What a step may be: a store method with any arguments and any outcome of its writes; a crash
  or a drop of the store at any moment; an environment step that replaces the sealed or cache
  file with anything, or loses or corrupts the ledger; a transient I/O fault while the ledger
  is read at open. Two things are excluded, as the sources document: putting an older ledger
  back (a byte-exact replay carries valid MACs), and inserting a membership hash that was
  inserted before (\<open>register\<close> mints a fresh random identity).
\<close>

record machine =
  m_disk :: disk
  m_store :: "store option"
  m_seen :: "string set"

type_synonym issue_key = "string \<times> slot_key"

definition unreadable :: "'a file_state \<Rightarrow> bool" where
  "unreadable f \<longleftrightarrow> (\<forall>x. f \<noteq> Parsed x)"

inductive store_step ::
  "'z store_env_scheme \<Rightarrow> machine \<Rightarrow> (issue_key \<times> nat) option \<Rightarrow> machine \<Rightarrow> bool" for env
where
  step_open: "m_store m = None \<Longrightarrow> open_store env dir lk rn (m_disk m) = (r, d') \<Longrightarrow>
     store_step env m None
       (m \<lparr> m_disk := d', m_store := (case r of Inr s \<Rightarrow> Some s | Inl _ \<Rightarrow> None) \<rparr>)"
| step_open_fault: "m_store m = None \<Longrightarrow> fault = MetaError e \<or> fault = ReadError e \<Longrightarrow>
     open_store env dir lk rn ((m_disk m) \<lparr> dk_allocations := fault \<rparr>) = (r, d') \<Longrightarrow>
     store_step env m None
       (m \<lparr> m_disk := d' \<lparr> dk_allocations := dk_allocations (m_disk m) \<rparr>,
            m_store := (case r of Inr s \<Rightarrow> Some s | Inl _ \<Rightarrow> None) \<rparr>)"
| step_close: "m_store m = Some s \<Longrightarrow> store_step env m None (m \<lparr> m_store := Some (close_store s) \<rparr>)"
| step_crash: "store_step env m None (m \<lparr> m_store := None \<rparr>)"
| step_unlock: "m_store m = Some s \<Longrightarrow> unlock env pw salt uuid w s (m_disk m) = (r, s', d') \<Longrightarrow>
     store_step env m None (m \<lparr> m_store := Some s', m_disk := d' \<rparr>)"
| step_lock: "m_store m = Some s \<Longrightarrow> store_step env m None (m \<lparr> m_store := Some (lock_store s) \<rparr>)"
| step_insert: "m_store m = Some s \<Longrightarrow> h \<notin> m_seen m \<Longrightarrow>
     insert_membership env nonce wa wc ws h ident cred rl s (m_disk m) = (r, s', d') \<Longrightarrow>
     store_step env m None
       (m \<lparr> m_store := Some s', m_disk := d', m_seen := insert h (m_seen m) \<rparr>)"
| step_update_cache: "m_store m = Some s \<Longrightarrow> update_cache w now h f s (m_disk m) = (r, s', d') \<Longrightarrow>
     store_step env m None (m \<lparr> m_store := Some s', m_disk := d' \<rparr>)"
| step_reserve_ok: "m_store m = Some s \<Longrightarrow>
     reserve_message_id env w h rid ep c rl sz s (m_disk m) = (Inr slot, s', d') \<Longrightarrow>
     store_step env m (Some ((h, rid, ep), unat slot)) (m \<lparr> m_store := Some s', m_disk := d' \<rparr>)"
| step_reserve_err: "m_store m = Some s \<Longrightarrow>
     reserve_message_id env w h rid ep c rl sz s (m_disk m) = (Inl e, s', d') \<Longrightarrow>
     store_step env m None (m \<lparr> m_store := Some s', m_disk := d' \<rparr>)"
| step_env_files: "store_step env m None
     (m \<lparr> m_disk := (m_disk m) \<lparr> dk_sealed := sf, dk_cache := cf, dk_old_format := old \<rparr> \<rparr>)"
| step_env_ledger_lost: "unreadable lf \<Longrightarrow>
     store_step env m None (m \<lparr> m_disk := (m_disk m) \<lparr> dk_allocations := lf \<rparr> \<rparr>)"

section \<open>The copies of a membership's counters\<close>

definition disk_section :: "disk \<Rightarrow> string \<Rightarrow> ledger_section option" where
  "disk_section d h = (case dk_allocations d of Parsed f \<Rightarrow> bt_get (af_sections f) h | _ \<Rightarrow> None)"

definition ledger_copies ::
  "(string, allocation_state) btmap \<Rightarrow> (string, ledger_section) btmap \<Rightarrow> disk \<Rightarrow> string \<Rightarrow> allocation_state set"
where
  "ledger_copies secs raw d h =
     set_option (bt_get secs h) \<union> alloc_of_section ` set_option (bt_get raw h) \<union>
     alloc_of_section ` set_option (disk_section d h)"

definition store_copies :: "inner \<Rightarrow> disk \<Rightarrow> string \<Rightarrow> allocation_state set" where
  "store_copies i d = ledger_copies (in_sections i) (in_raw_sections i) d"

definition copies :: "machine \<Rightarrow> string \<Rightarrow> allocation_state set" where
  "copies m h =
     (case m_store m of
        None \<Rightarrow> alloc_of_section ` set_option (disk_section (m_disk m) h)
      | Some s \<Rightarrow> store_copies (st_inner s) (m_disk m) h)"

definition machine_next :: "machine \<Rightarrow> issue_key \<Rightarrow> enat" where
  "machine_next m k =
     (if fst k \<notin> m_seen m then 0 else (INF a \<in> copies m (fst k). next_slot a (snd k)))"

definition ledger_wf :: "disk \<Rightarrow> bool" where
  "ledger_wf d \<longleftrightarrow> (case dk_allocations d of Parsed f \<Rightarrow> bt_wf (af_sections f) | _ \<Rightarrow> True)"

definition machine_inv :: "machine \<Rightarrow> bool" where
  "machine_inv m \<longleftrightarrow>
     ledger_wf (m_disk m) \<and>
     (case m_store m of
        None \<Rightarrow> True
      | Some s \<Rightarrow> bt_wf (in_sections (st_inner s)) \<and> bt_wf (in_raw_sections (st_inner s))) \<and>
     (\<forall>h. copies m h \<noteq> {} \<longrightarrow> h \<in> m_seen m)"

text \<open>A ledger view that is only allowed to advance or shrink.\<close>

definition advances :: "allocation_state set \<Rightarrow> allocation_state set \<Rightarrow> bool" where
  "advances A B \<longleftrightarrow> (\<forall>b \<in> B. \<exists>a \<in> A. \<forall>k. next_slot a k \<le> next_slot b k)"

lemma advances_subset: "B \<subseteq> A \<Longrightarrow> advances A B"
  by (auto simp: advances_def)

lemma advances_trans: "advances A B \<Longrightarrow> advances B C \<Longrightarrow> advances A C"
  unfolding advances_def by (meson order_trans)

lemma advances_nonempty: "advances A B \<Longrightarrow> B \<noteq> {} \<Longrightarrow> A \<noteq> {}"
  by (auto simp: advances_def)

lemma advances_INF: "advances A B \<Longrightarrow> (INF a \<in> A. next_slot a k) \<le> (INF b \<in> B. next_slot b k)"
  unfolding advances_def by (rule INF_mono) blast

section \<open>What each method does to the counters\<close>

lemma written_section:
  assumes "bt_wf (in_sections i)" "bt_get (sections_to_write cr keys i uuid) h = Some sec"
  shows "alloc_of_section sec \<in> set_option (bt_get (in_sections i) h) \<union>
    alloc_of_section ` set_option (bt_get (in_raw_sections i) h)"
  using assms by (auto simp: bt_get_sections_to_write split: option.splits if_splits)

lemma write_allocations_cases:
  assumes "write_allocations cr w i d = (r, i', d')"
  obtains "i' = i" "d' = d" "r \<noteq> Inr ()"
  | ses uuid f where "in_session i = Some ses" "in_store_uuid i = Some uuid"
      "af_sections f = sections_to_write cr (ss_keys ses) i uuid"
      "dk_allocations d' = written w f (dk_allocations d)"
      "i' = i \<or> (\<exists>root. i' = i \<lparr> in_raw_sections := af_sections f, in_root_mac_raw := Some root \<rparr>)"
      "r = Inr () \<longleftrightarrow> w = WriteOk" "r = Inr () \<Longrightarrow> in_raw_sections i' = af_sections f"
  using assms
  by (cases w) (fastforce simp: write_allocations_def Let_def split: option.splits)+

lemma write_allocations_spec:
  assumes wa: "write_allocations cr w i d = (r, i', d')"
    and wf: "bt_wf (in_sections i)" "bt_wf (in_raw_sections i)" "ledger_wf d"
  shows "in_sections i' = in_sections i" "bt_wf (in_raw_sections i')" "ledger_wf d'"
    "store_copies i' d' h \<subseteq> store_copies i d h"
    "r = Inr () \<Longrightarrow> \<not> is_quarantined i h \<Longrightarrow> bt_get (in_sections i) h = Some a \<Longrightarrow>
       store_copies i' d' h = {a}"
proof -
  show "in_sections i' = in_sections i" using wa by (rule write_allocations_cases) auto
  show "bt_wf (in_raw_sections i')" using wa
    by (rule write_allocations_cases) (use wf bt_wf_sections_to_write in auto)
  show "ledger_wf d'" using wa
  proof (rule write_allocations_cases)
    fix ses uuid f
    assume "af_sections f = sections_to_write cr (ss_keys ses) i uuid"
      "dk_allocations d' = written w f (dk_allocations d)"
    then show "ledger_wf d'" using wf bt_wf_sections_to_write by (cases w) (auto simp: ledger_wf_def)
  qed (use wf in simp)
  show "store_copies i' d' h \<subseteq> store_copies i d h" using wa
  proof (rule write_allocations_cases)
    fix ses uuid f
    assume f: "af_sections f = sections_to_write cr (ss_keys ses) i uuid"
      and d': "dk_allocations d' = written w f (dk_allocations d)"
      and i': "i' = i \<or> (\<exists>root. i' = i \<lparr> in_raw_sections := af_sections f, in_root_mac_raw := Some root \<rparr>)"
    have sub: "alloc_of_section ` set_option (bt_get (af_sections f) h) \<subseteq> store_copies i d h"
      using written_section [OF wf(1)] by (fastforce simp: f store_copies_def ledger_copies_def)
    have "alloc_of_section ` set_option (disk_section d' h) \<subseteq> store_copies i d h"
      using sub d' by (cases w) (auto simp: disk_section_def store_copies_def ledger_copies_def)
    then show ?thesis
      using sub i' by (auto simp: store_copies_def ledger_copies_def)
  qed simp
  assume ok: "r = Inr ()" and nq: "\<not> is_quarantined i h" and a: "bt_get (in_sections i) h = Some a"
  show "store_copies i' d' h = {a}" using wa
  proof (rule write_allocations_cases)
    fix ses uuid f
    assume f: "af_sections f = sections_to_write cr (ss_keys ses) i uuid"
      and d': "dk_allocations d' = written w f (dk_allocations d)"
      and i': "i' = i \<or> (\<exists>root. i' = i \<lparr> in_raw_sections := af_sections f, in_root_mac_raw := Some root \<rparr>)"
      and w: "r = Inr () \<longleftrightarrow> w = WriteOk" and raw: "r = Inr () \<Longrightarrow> in_raw_sections i' = af_sections f"
    have "alloc_of_section ` set_option (bt_get (af_sections f) h) = {a}"
      using wf(1) nq a by (simp add: f bt_get_sections_to_write)
    moreover have "dk_allocations d' = Parsed f" "in_raw_sections i' = af_sections f" "in_sections i' = in_sections i"
      using w raw ok d' i' by auto
    ultimately show ?thesis using a by (simp add: store_copies_def ledger_copies_def disk_section_def)
  qed (use ok in simp)
qed

definition disk_copies :: "disk \<Rightarrow> string \<Rightarrow> allocation_state set" where
  "disk_copies d h = alloc_of_section ` set_option (disk_section d h)"

definition memory_copies :: "inner \<Rightarrow> string \<Rightarrow> allocation_state set" where
  "memory_copies i h = set_option (bt_get (in_sections i) h) \<union> alloc_of_section ` set_option (bt_get (in_raw_sections i) h)"

lemma store_copies_split: "store_copies i d h = memory_copies i h \<union> disk_copies d h"
  by (simp add: store_copies_def ledger_copies_def memory_copies_def disk_copies_def)

definition inner_wf :: "inner \<Rightarrow> bool" where
  "inner_wf i \<longleftrightarrow> bt_wf (in_sections i) \<and> bt_wf (in_raw_sections i)"

definition same_ledger :: "inner \<Rightarrow> disk \<Rightarrow> inner \<Rightarrow> disk \<Rightarrow> bool" where
  "same_ledger i d i' d' \<longleftrightarrow> in_sections i' = in_sections i \<and> in_raw_sections i' = in_raw_sections i \<and>
     dk_allocations d' = dk_allocations d"

lemma same_ledger_copies:
  "same_ledger i d i' d' \<Longrightarrow> store_copies i' d' = store_copies i d \<and>
     (inner_wf i' \<longleftrightarrow> inner_wf i) \<and> (ledger_wf d' \<longleftrightarrow> ledger_wf d)"
  by (auto simp: same_ledger_def store_copies_def ledger_copies_def disk_section_def inner_wf_def
      ledger_wf_def fun_eq_iff)

lemma load_sealed_ledger: "load_sealed b d = (r, d') \<Longrightarrow> dk_allocations d' = dk_allocations d"
  by (auto split: file_state.splits sum.splits if_splits)

lemma load_cache_ledger: "load_cache b d sf = (c, d') \<Longrightarrow> dk_allocations d' = dk_allocations d"
  by (auto simp: load_cache_def Let_def split: file_state.splits option.splits prod.splits)

lemma adopt_allocations_ledger:
  assumes "adopt_allocations sf c f = (la, c')" "bt_wf (af_sections f)"
  shows "bt_wf (la_sections la) \<and> la_raw_sections la = af_sections f \<and>
    set_option (bt_get (la_sections la) h) \<subseteq> alloc_of_section ` set_option (bt_get (af_sections f) h)"
proof -
  have "bt_get (map (\<lambda>(h, s). (h, alloc_of_section s)) (filter (\<lambda>(h, _). P h) (af_sections f))) h =
      map_option alloc_of_section (if P h then bt_get (af_sections f) h else None)" for P
    by (simp add: bt_get_map_values [of "\<lambda>_. alloc_of_section"] bt_get_filter_key)
  moreover have "bt_wf (map (\<lambda>(h, s). (h, alloc_of_section s)) (filter (\<lambda>(h, _). P h) (af_sections f)))" for P
    using bt_wf_map_values [OF bt_wf_filter [OF assms(2)], of "\<lambda>_. alloc_of_section" "\<lambda>(h, _). P h"]
    by simp
  ultimately show ?thesis
    using assms(1) by (auto simp: adopt_allocations_def Let_def split: option.splits if_splits)
qed

lemma load_allocations_ledger:
  assumes "load_allocations b d sf c = (la, c', d')" "ledger_wf d"
  shows "bt_wf (la_sections la)" "bt_wf (la_raw_sections la)"
    "set_option (bt_get (la_sections la) h) \<union> alloc_of_section ` set_option (bt_get (la_raw_sections la) h)
       \<subseteq> disk_copies d h"
    "dk_allocations d' = dk_allocations d \<or> dk_allocations d' = Absent"
proof -
  have "bt_wf (la_sections la) \<and> bt_wf (la_raw_sections la) \<and>
    set_option (bt_get (la_sections la) h) \<union> alloc_of_section ` set_option (bt_get (la_raw_sections la) h)
       \<subseteq> disk_copies d h \<and> (dk_allocations d' = dk_allocations d \<or> dk_allocations d' = Absent)"
  proof (cases "dk_allocations d")
    case (Parsed f)
    show ?thesis
    proof (cases "allocations_acceptable f")
      case True
      obtain la2 c2 where ad: "adopt_allocations sf c f = (la2, c2)" by fastforce
      then have "la = la2" "d' = d" using assms(1) Parsed True by (auto simp: load_allocations_def)
      then show ?thesis
        using adopt_allocations_ledger [OF ad, of h] assms(2) Parsed
        by (auto simp: ledger_wf_def disk_copies_def disk_section_def)
    qed (use assms Parsed in \<open>auto simp: load_allocations_def loaded_allocations_empty_def quarantine_file_def\<close>)
  qed (use assms in \<open>auto simp: load_allocations_def loaded_allocations_empty_def quarantine_file_def\<close>)
  then show "bt_wf (la_sections la)" "bt_wf (la_raw_sections la)"
    "set_option (bt_get (la_sections la) h) \<union> alloc_of_section ` set_option (bt_get (la_raw_sections la) h)
       \<subseteq> disk_copies d h"
    "dk_allocations d' = dk_allocations d \<or> dk_allocations d' = Absent" by auto
qed

lemma open_store_ledger:
  assumes op: "open_store cr dir lk rn d = (r, d')" and wf: "ledger_wf d"
  shows "dk_allocations d' = dk_allocations d \<or> dk_allocations d' = Absent"
    "r = Inr s \<Longrightarrow> inner_wf (st_inner s)"
    "r = Inr s \<Longrightarrow> memory_copies (st_inner s) h \<subseteq> disk_copies d h"
proof -
  have "(dk_allocations d' = dk_allocations d \<or> dk_allocations d' = Absent) \<and>
    (r = Inr s \<longrightarrow> inner_wf (st_inner s) \<and> memory_copies (st_inner s) h \<subseteq> disk_copies d h)"
  proof (cases "\<exists>sf d1. lk = LockTaken \<and> load_sealed (rn_sealed rn) d = (Inr sf, d1)")
    case True
    then obtain sf d1 where l: "lk = LockTaken" "load_sealed (rn_sealed rn) d = (Inr sf, d1)" by blast
    obtain la c d2 where la: "load_allocations (rn_allocations rn) d1 sf (open_census cr sf) = (la, c, d2)"
      by (metis prod_cases3)
    obtain ca d3 where ca: "load_cache (rn_cache rn) d2 sf = (ca, d3)" by fastforce
    have d1: "dk_allocations d1 = dk_allocations d" using l(2) by (rule load_sealed_ledger)
    have wf1: "ledger_wf d1" using wf d1 by (simp add: ledger_wf_def)
    have dc: "disk_copies d1 h = disk_copies d h" using d1 by (simp add: disk_copies_def disk_section_def)
    note L = load_allocations_ledger [OF la wf1] and C = load_cache_ledger [OF ca]
    show ?thesis
      using op l la ca L(1,2) L(3) [of h] L(4) C d1 dc
      by (auto simp: open_store_def Let_def inner_wf_def memory_copies_def
          split: if_splits option.splits)
  next
    case False
    then show ?thesis
      using op load_sealed_ledger [of "rn_sealed rn" d]
      by (fastforce simp: open_store_def simp del: load_sealed.simps
          split: if_splits lock_outcome.splits prod.splits sum.splits)
  qed
  then show "dk_allocations d' = dk_allocations d \<or> dk_allocations d' = Absent"
    "r = Inr s \<Longrightarrow> inner_wf (st_inner s)"
    "r = Inr s \<Longrightarrow> memory_copies (st_inner s) h \<subseteq> disk_copies d h" by blast+
qed

lemma unlock_ledger:
  assumes "unlock env pw salt uuid w s d = (r, s', d')"
  shows "same_ledger (st_inner s) d (st_inner s') d'"
  using assms
  by (auto simp: unlock_def unlock_provision_def unlock_existing_def same_ledger_def Let_def
      split: sum.splits option.splits if_splits prod.splits)

lemma update_cache_ledger:
  assumes "update_cache w now h f s d = (r, s', d')"
  shows "same_ledger (st_inner s) d (st_inner s') d'"
  using assms
  by (auto simp: update_cache_def write_cache_def same_ledger_def Let_def
      split: sum.splits option.splits if_splits prod.splits)

lemma close_lock_ledger:
  "same_ledger (st_inner s) d (st_inner (close_store s)) d"
  "same_ledger (st_inner s) d (st_inner (lock_store s)) d"
  by (simp_all add: same_ledger_def close_store_def lock_store_def)

lemma insert_sealed_ledger:
  assumes "insert_sealed env nonce w h ident cred s d = (r, s', d')"
  shows "same_ledger (st_inner s) d (st_inner s') d'"
  using assms
  by (auto simp: insert_sealed_def same_ledger_def Let_def
      split: sum.splits option.splits if_splits prod.splits)

lemma insert_section_ledger:
  assumes "inner_wf i"
  shows "inner_wf (insert_section h i)"
    "g \<noteq> h \<Longrightarrow> store_copies (insert_section h i) d g = store_copies i d g"
  using assms
  by (auto simp: inner_wf_def insert_section_def Let_def store_copies_def ledger_copies_def)

lemma insert_membership_ledger:
  assumes ins: "insert_membership env nonce wa wc ws h ident cred rl s d = (r, s', d')"
    and wf: "inner_wf (st_inner s)" "ledger_wf d"
  shows "inner_wf (st_inner s') \<and> ledger_wf d' \<and>
    (\<forall>g. g \<noteq> h \<longrightarrow> store_copies (st_inner s') d' g \<subseteq> store_copies (st_inner s) d g)"
proof (cases "is_ok (ensure_open (st_inner s)) \<and> in_session (st_inner s) \<noteq> None")
  case False
  then have "s' = s" "d' = d"
    using ins by (auto simp: insert_membership_def split: sum.splits if_splits)
  then show ?thesis using wf by simp
next
  case True
  let ?i0 = "insert_section h (st_inner s)"
  obtain r1 i1 d1 where wa: "write_allocations env wa ?i0 d = (r1, i1, d1)" by (metis prod_cases3)
  have wf0: "bt_wf (in_sections ?i0)" "bt_wf (in_raw_sections ?i0)"
    using insert_section_ledger(1) [OF wf(1), of h] by (simp_all add: inner_wf_def)
  note W = write_allocations_spec [OF wa wf0 wf(2)]
  have base: "inner_wf i1" "ledger_wf d1" "\<forall>g. g \<noteq> h \<longrightarrow> store_copies i1 d1 g \<subseteq> store_copies (st_inner s) d g"
    using W(1-3) wf0 W(4) insert_section_ledger(2) [OF wf(1), of _ h d] by (auto simp: inner_wf_def)
  have "same_ledger i1 d1 (st_inner s') d'"
  proof (cases r1)
    case (Inl e)
    then show ?thesis
      using ins True wa by (auto simp: insert_membership_def same_ledger_def split: sum.splits)
  next
    case (Inr u)
    let ?i2 = "insert_cache_row h rl i1"
    obtain r2 d2 where wc: "write_cache wc ?i2 d1 = (r2, d2)" by fastforce
    have l2: "same_ledger i1 d1 ?i2 d2"
      using wc by (auto simp: write_cache_def same_ledger_def insert_cache_row_def)
    show ?thesis
    proof (cases r2)
      case (Inl e)
      then show ?thesis
        using ins True wa Inr wc l2 by (auto simp: insert_membership_def Let_def split: sum.splits)
    next
      case 2: (Inr u2)
      have "insert_sealed env nonce ws h ident cred (with_inner s ?i2) d2 = (r, s', d')"
        using ins True wa Inr wc 2 by (auto simp: insert_membership_def Let_def split: sum.splits)
      from insert_sealed_ledger [OF this] show ?thesis using l2 by (simp add: same_ledger_def)
    qed
  qed
  then show ?thesis using base same_ledger_copies by metis
qed

lemma next_slot_epoch_size [simp]: "next_slot (a \<lparr> as_epoch_size_sec := n \<rparr>) k = next_slot a k"
  by (simp add: next_slot_def)

lemma reserve_message_id_cases:
  assumes "reserve_message_id cr w h rid ep c rl sz s d = (r, s', d')"
  obtains
    (refused) e where "r = Inl e" "d' = d" "st_inner s' = st_inner s"
  | (unchanged) e a where "r = Inl e" "d' = d" "bt_get (in_sections (st_inner s)) h = Some a"
      "st_inner s' = (st_inner s) \<lparr> in_sections := bt_insert h a (in_sections (st_inner s)) \<rparr>"
  | (reserved) a slot a' r1 where "bt_get (in_sections (st_inner s)) h = Some a"
      "\<not> is_quarantined (st_inner s) h"
      "reserve_slot a rid ep c rl = (Inr slot, a')"
      "write_allocations cr w ((st_inner s) \<lparr> in_sections :=
         bt_insert h (a' \<lparr> as_epoch_size_sec := sz \<rparr>) (in_sections (st_inner s)) \<rparr>) d =
         (r1, st_inner s', d')"
      "r = (case r1 of Inl e \<Rightarrow> Inl e | Inr _ \<Rightarrow> Inr slot)"
proof (cases "\<exists>a. bt_get (in_sections (st_inner s)) h = Some a \<and>
      \<not> (\<not> row_exists a rid ep \<and> WRITE_ROW_CAP \<le> length (as_allocations a)) \<and>
      is_ok (ensure_open (st_inner s)) \<and> in_session (st_inner s) \<noteq> None \<and>
      is_ok (reservation_guards (is_quarantined (st_inner s) h) (Some a) sz)")
  case False
  then have "\<exists>e. r = Inl e \<and> d' = d \<and> st_inner s' = st_inner s"
    using assms
    by (auto simp: reserve_message_id_def Let_def is_ok_def split: sum.splits option.splits if_splits)
  then show ?thesis using refused by blast
next
  case True
  then obtain a where a: "bt_get (in_sections (st_inner s)) h = Some a"
    "\<not> (\<not> row_exists a rid ep \<and> WRITE_ROW_CAP \<le> length (as_allocations a))"
    "is_ok (ensure_open (st_inner s))" "in_session (st_inner s) \<noteq> None"
    "is_ok (reservation_guards (is_quarantined (st_inner s) h) (Some a) sz)" by blast
  have nq: "\<not> is_quarantined (st_inner s) h"
    using a(5) by (auto simp: reservation_guards_def split: if_splits)
  obtain rs a' where rs: "reserve_slot a rid ep c rl = (rs, a')" by fastforce
  show ?thesis
  proof (cases rs)
    case (Inl e)
    then have "a' = a" using rs reserve_slot_error_unchanged by blast
    then show ?thesis
      using unchanged assms a rs Inl
      by (auto simp: reserve_message_id_def Let_def is_ok_def split: sum.splits if_splits)
  next
    case (Inr slot)
    let ?i1 = "(st_inner s) \<lparr> in_sections := bt_insert h (a' \<lparr> as_epoch_size_sec := sz \<rparr>) (in_sections (st_inner s)) \<rparr>"
    obtain r1 i2 d2 where wa: "write_allocations cr w ?i1 d = (r1, i2, d2)" by (metis prod_cases3)
    have "st_inner s' = i2" "d' = d2" "r = (case r1 of Inl e \<Rightarrow> Inl e | Inr _ \<Rightarrow> Inr slot)"
      using assms a rs Inr wa
      by (auto simp: reserve_message_id_def Let_def is_ok_def split: sum.splits if_splits)
    then show ?thesis using reserved [OF a(1) nq] rs Inr wa by blast
  qed
qed

lemma store_copies_update_section:
  "store_copies (i \<lparr> in_sections := bt_insert h a secs \<rparr>) d g =
     (if g = h then {a} else set_option (bt_get secs g)) \<union>
     alloc_of_section ` set_option (bt_get (in_raw_sections i) g) \<union> disk_copies d g"
  by (auto simp: store_copies_def ledger_copies_def disk_copies_def)

lemma reserve_slot_next_le:
  assumes "reserve_slot a rid ep c rl = (Inr m, a')"
  shows "next_slot a k \<le> next_slot a' k"
  using next_slot_mono [OF reserve_issue [OF assms]] .

lemma reserve_message_id_ledger:
  assumes re: "reserve_message_id cr w h rid ep c rl sz s d = (r, s', d')"
    and wf: "inner_wf (st_inner s)" "ledger_wf d"
  shows "inner_wf (st_inner s') \<and> ledger_wf d' \<and>
    (\<forall>g. advances (store_copies (st_inner s) d g) (store_copies (st_inner s') d' g)) \<and>
    (\<forall>m. r = Inr m \<longrightarrow>
       (INF a \<in> store_copies (st_inner s) d h. next_slot a (rid, ep)) \<le> enat (unat m) \<and>
       enat (unat m) < (INF a \<in> store_copies (st_inner s') d' h. next_slot a (rid, ep)))"
  using re
proof (cases rule: reserve_message_id_cases)
  case (refused e)
  then show ?thesis using wf by (auto intro: advances_subset)
next
  case (unchanged e a)
  then have "in_sections (st_inner s') = in_sections (st_inner s)"
    using wf by (simp add: bt_insert_same inner_wf_def)
  then have "same_ledger (st_inner s) d (st_inner s') d'" using unchanged by (simp add: same_ledger_def)
  then show ?thesis using wf unchanged(1) same_ledger_copies by (auto intro: advances_subset)
next
  case (reserved a slot a' r1)
  let ?i = "st_inner s" and ?a = "a' \<lparr> as_epoch_size_sec := sz \<rparr>"
  let ?i1 = "?i \<lparr> in_sections := bt_insert h ?a (in_sections ?i) \<rparr>"
  have wf1: "bt_wf (in_sections ?i1)" "bt_wf (in_raw_sections ?i1)" using wf by (simp_all add: inner_wf_def)
  note W = write_allocations_spec [OF reserved(4) wf1 wf(2)]
  note le = reserve_slot_next_le [OF reserved(3)]
  have mem: "a \<in> store_copies ?i d h" using reserved(1) by (simp add: store_copies_def ledger_copies_def)
  have "\<exists>x \<in> store_copies ?i d h. \<forall>k. next_slot x k \<le> next_slot ?a k" using mem le by auto
  then have "advances (store_copies ?i d g) (store_copies ?i1 d g)" for g
    unfolding store_copies_update_section store_copies_split memory_copies_def advances_def
    by (auto simp: store_copies_split memory_copies_def)
  then have adv: "advances (store_copies ?i d g) (store_copies (st_inner s') d' g)" for g
    using W(4) [of g] advances_subset advances_trans by blast
  have "(INF a \<in> store_copies ?i d h. next_slot a (rid, ep)) \<le> next_slot a (rid, ep)"
    using mem by (rule INF_lower)
  moreover have "next_slot a (rid, ep) = enat (unat slot)" "next_slot a' (rid, ep) = enat (Suc (unat slot))"
    using reserve_slot_next [OF reserved(3)] by simp_all
  moreover have "store_copies (st_inner s') d' h = {?a}" if "r1 = Inr ()"
    using W(5) [OF that, of h ?a] reserved(2) by (simp add: is_quarantined_def)
  ultimately show ?thesis
    using adv W(1-3) wf1 reserved(5) by (auto simp: inner_wf_def split: sum.splits)
qed

section \<open>The machine keeps the slot contract\<close>

text \<open>One step in terms of the counter copies: they only advance or disappear.\<close>

lemma copies_None: "m_store m = None \<Longrightarrow> copies m h = disk_copies (m_disk m) h"
  by (simp add: copies_def disk_copies_def)

lemma copies_Some: "m_store m = Some s \<Longrightarrow> copies m h = store_copies (st_inner s) (m_disk m) h"
  by (simp add: copies_def)

lemma machine_inv_store:
  "machine_inv m \<Longrightarrow> m_store m = Some s \<Longrightarrow> inner_wf (st_inner s) \<and> ledger_wf (m_disk m)"
  by (auto simp: machine_inv_def inner_wf_def)

lemma disk_copies_renamed:
  "dk_allocations d' = dk_allocations d \<or> dk_allocations d' = Absent \<Longrightarrow> disk_copies d' h \<subseteq> disk_copies d h"
  by (auto simp: disk_copies_def disk_section_def)

lemma ledger_wf_renamed:
  "ledger_wf d \<Longrightarrow> dk_allocations d' = dk_allocations d \<or> dk_allocations d' = Absent \<Longrightarrow> ledger_wf d'"
  by (auto simp: ledger_wf_def)

lemma ledger_wf_unreadable: "unreadable (dk_allocations d) \<Longrightarrow> ledger_wf d"
  by (auto simp: ledger_wf_def unreadable_def split: file_state.splits)

lemma disk_copies_unreadable: "unreadable (dk_allocations d) \<Longrightarrow> disk_copies d h = {}"
  by (auto simp: disk_copies_def disk_section_def unreadable_def split: file_state.splits)

definition good_step :: "machine \<Rightarrow> machine \<Rightarrow> bool" where
  "good_step m m' \<longleftrightarrow> ledger_wf (m_disk m') \<and> (\<forall>s. m_store m' = Some s \<longrightarrow> inner_wf (st_inner s)) \<and>
     m_seen m \<subseteq> m_seen m' \<and>
     (\<forall>h. h \<in> m_seen m \<or> h \<notin> m_seen m' \<longrightarrow> advances (copies m h) (copies m' h))"

lemma good_step_opened:
  assumes "machine_inv m" "m_store m = None" "m_seen m' = m_seen m"
    and "open_store cr dir lk rn d = (r, d')" "ledger_wf d"
    and "m_store m' = (case r of Inr s \<Rightarrow> Some s | Inl _ \<Rightarrow> None)"
    and "\<And>h. disk_copies (m_disk m') h \<subseteq> disk_copies (m_disk m) h" "ledger_wf (m_disk m')"
    and "\<And>h. disk_copies d h \<subseteq> disk_copies (m_disk m) h"
  shows "good_step m m'"
proof -
  have sub: "copies m' h \<subseteq> copies m h" for h
  proof (cases r)
    case (Inl e)
    then show ?thesis using assms by (simp add: copies_None)
  next
    case (Inr s)
    have "memory_copies (st_inner s) h \<subseteq> disk_copies d h"
      using open_store_ledger(3) [OF assms(4,5) Inr] .
    then show ?thesis using assms Inr by (simp add: copies_Some copies_None store_copies_split) blast
  qed
  then show ?thesis
    using assms open_store_ledger(2) [OF assms(4,5)]
    by (auto simp: good_step_def intro: advances_subset [OF sub] split: sum.splits)
qed

lemma good_step_same_ledger:
  assumes "machine_inv m" "m_store m = Some s" "m_store m' = Some s'" "m_seen m' = m_seen m"
    and "same_ledger (st_inner s) (m_disk m) (st_inner s') (m_disk m')"
  shows "good_step m m'"
  using assms same_ledger_copies [OF assms(5)] machine_inv_store [OF assms(1,2)]
  by (simp add: good_step_def copies_Some advances_subset)

lemma store_step_good:
  assumes "store_step env m l m'" "machine_inv m"
  shows "good_step m m'"
  using assms
proof (induction rule: store_step.induct)
  case (step_open m dir lk rn r d')
  then have wf: "ledger_wf (m_disk m)" by (simp add: machine_inv_def)
  note ch = open_store_ledger(1) [OF step_open(2) wf]
  show ?case
    by (rule good_step_opened [OF step_open(3,1) _ step_open(2) wf])
      (use disk_copies_renamed [OF ch] ledger_wf_renamed [OF wf ch] in auto)
next
  case (step_open_fault m fault e dir lk rn r d')
  then have un: "unreadable (dk_allocations ((m_disk m) \<lparr> dk_allocations := fault \<rparr>))"
    by (auto simp: unreadable_def)
  have "ledger_wf (m_disk m)" using step_open_fault by (simp add: machine_inv_def)
  then show ?case
    by (intro good_step_opened [OF step_open_fault(4,1) _ step_open_fault(3) ledger_wf_unreadable [OF un]])
      (use disk_copies_unreadable [OF un] in \<open>auto simp: disk_copies_def disk_section_def ledger_wf_def\<close>)
next
  case (step_close m s)
  then show ?case by (auto intro!: good_step_same_ledger close_lock_ledger)
next
  case (step_crash m)
  then show ?case
    by (cases "m_store m")
      (auto simp: good_step_def copies_None copies_Some store_copies_split machine_inv_def intro: advances_subset)
next
  case (step_unlock m s pw salt uuid w r s' d')
  show ?case
    by (rule good_step_same_ledger [OF step_unlock(3,1)]) (use unlock_ledger [OF step_unlock(2)] in auto)
next
  case (step_lock m s)
  then show ?case by (auto intro!: good_step_same_ledger close_lock_ledger)
next
  case (step_insert m s h nonce wa wc ws ident cred rl r s' d')
  note wf = machine_inv_store [OF step_insert(4,1)]
  show ?case
    using insert_membership_ledger [OF step_insert(3)] wf step_insert(1,2)
    by (auto simp: good_step_def copies_Some intro!: advances_subset)
next
  case (step_update_cache m s w now h f r s' d')
  show ?case
    by (rule good_step_same_ledger [OF step_update_cache(3,1)])
      (use update_cache_ledger [OF step_update_cache(2)] in auto)
next
  case (step_reserve_ok m s w h rid ep c rl sz slot s' d')
  note wf = machine_inv_store [OF step_reserve_ok(3,1)]
  show ?case
    using reserve_message_id_ledger [OF step_reserve_ok(2)] wf step_reserve_ok(1)
    by (auto simp: good_step_def copies_Some)
next
  case (step_reserve_err m s w h rid ep c rl sz e s' d')
  note wf = machine_inv_store [OF step_reserve_err(3,1)]
  show ?case
    using reserve_message_id_ledger [OF step_reserve_err(2)] wf step_reserve_err(1)
    by (auto simp: good_step_def copies_Some)
next
  case (step_env_files m sf cf old)
  then show ?case
    by (cases "m_store m")
      (auto simp: good_step_def copies_None copies_Some store_copies_split machine_inv_def inner_wf_def
        ledger_wf_def disk_copies_def disk_section_def intro!: advances_subset)
next
  case (step_env_ledger_lost lf m)
  then show ?case
    by (cases "m_store m")
      (auto simp: good_step_def copies_None copies_Some store_copies_split machine_inv_def inner_wf_def
        ledger_wf_unreadable disk_copies_unreadable intro!: advances_subset)
qed

lemma good_step_inv: "good_step m m' \<Longrightarrow> machine_inv m \<Longrightarrow> machine_inv m'"
proof -
  assume g: "good_step m m'" and i: "machine_inv m"
  have "h \<in> m_seen m'" if "copies m' h \<noteq> {}" for h
  proof (rule ccontr)
    assume new: "h \<notin> m_seen m'"
    then have "advances (copies m h) (copies m' h)" using g by (simp add: good_step_def)
    then have "copies m h \<noteq> {}" using that by (rule advances_nonempty)
    then show False using g i new by (auto simp: good_step_def machine_inv_def)
  qed
  then show "machine_inv m'"
    using g by (cases "m_store m'") (auto simp: good_step_def machine_inv_def inner_wf_def)
qed

lemma good_step_next: "good_step m m' \<Longrightarrow> machine_next m k \<le> machine_next m' k"
  using advances_INF [of "copies m (fst k)" "copies m' (fst k)" "snd k"]
  by (auto simp: good_step_def machine_next_def)

interpretation store: slot_issuer machine_inv "store_step env" machine_next for env
proof unfold_locales
  fix s l s' assume "machine_inv s" "store_step env s l s'"
  then show "machine_inv s'" using store_step_good good_step_inv by blast
next
  fix s l s' k assume "machine_inv s" "store_step env s l s'"
  then show "machine_next s k \<le> machine_next s' k" using store_step_good good_step_next by blast
next
  fix m k n m' assume inv: "machine_inv m" and st: "store_step env m (Some (k, n)) m'"
  from st obtain s w h rid ep c rl sz slot s' d' where
    st': "m_store m = Some s" "k = (h, rid, ep)" "n = unat slot" "m' = m \<lparr> m_store := Some s', m_disk := d' \<rparr>"
    and re: "reserve_message_id env w h rid ep c rl sz s (m_disk m) = (Inr slot, s', d')"
    by cases auto
  note wf = machine_inv_store [OF inv st'(1)]
  have L: "(INF a \<in> copies m h. next_slot a (rid, ep)) \<le> enat n"
    "enat n < (INF a \<in> copies m' h. next_slot a (rid, ep))"
    using reserve_message_id_ledger [OF re] wf st' by (auto simp: copies_Some)
  have "copies m h \<noteq> {}" using L(1) by (auto simp: top_enat_def)
  then have seen: "h \<in> m_seen m" using inv by (auto simp: machine_inv_def)
  show "machine_next m k \<le> enat n \<and> enat n < machine_next m' k"
    using L st' seen by (auto simp: machine_next_def)
qed

section \<open>A concrete run\<close>

text \<open>
  A concrete instance of the third-party parameters for the witnesses: the primitives are
  simple total functions that satisfy the laws the theorems assume of them.
\<close>

definition sample_env :: store_env where
  "sample_env =
     \<lparr> argon2_params_ok = (\<lambda>m t p. True),
       argon2id = (\<lambda>m t p pw salt. Some pw),
       hkdf_prk_ok = (\<lambda>prk. True),
       hkdf_expand = (\<lambda>prk info. Some (info @ prk)),
       aead_encrypt = (\<lambda>key nonce aad msg. Some (key @ aad @ msg)),
       aead_decrypt = (\<lambda>key nonce aad ct.
          if take (length (key @ aad)) ct = key @ aad then Some (drop (length (key @ aad)) ct) else None),
       hmac_sha256 = (\<lambda>key msg. take 32 (msg @ replicate 32 0)),
       sha256_digest = (\<lambda>msg. take 32 (rev msg)),
       credential_to_json = (\<lambda>c. Inr (as_bytes (sc_identity_secret_hash c))),
       credential_from_json = (\<lambda>b. Inr \<lparr> sc_identity_commitment = [], sc_identity_secret_hash = [], sc_registry_id = [] \<rparr>) \<rparr>"

definition empty_disk :: disk where
  "empty_disk = \<lparr> dk_sealed = Absent, dk_allocations = Absent, dk_cache = Absent, dk_old_format = False \<rparr>"

definition fresh_machine :: machine where
  "fresh_machine = \<lparr> m_disk = empty_disk, m_store = None, m_seen = {} \<rparr>"

definition sample_identity :: identity_block where
  "sample_identity = \<lparr> ib_registry_id = ''r'', ib_rln_identifier = ''a'', ib_identity_commitment = ''c'', ib_submitted_at = 7 \<rparr>"

definition sample_credential :: stored_credential where
  "sample_credential = \<lparr> sc_identity_commitment = ''c'', sc_identity_secret_hash = ''s'', sc_registry_id = ''r'' \<rparr>"

definition sample_inner :: inner where
  "sample_inner = \<lparr> in_sealed = None, in_store_uuid = None, in_sections = [], in_cache = [],
     in_census_quarantined = {}, in_keyed_quarantined = {}, in_session = None, in_raw_sections = [],
     in_root_mac_raw = None, in_lock = True \<rparr>"
definition sample_renames :: renames where
  "sample_renames = \<lparr>rn_sealed = True, rn_allocations = True, rn_cache = True\<rparr>"

lemma sample_open:
  "open_store sample_env ''dir'' LockTaken sample_renames empty_disk =
     (Inr \<lparr> st_dir = ''dir'', st_inner = sample_inner, st_snapshot = [] \<rparr>, empty_disk)"
  by (simp add: open_store_def empty_disk_def sealed_exists_def load_allocations_def loaded_allocations_empty_def
     quarantine_all_def credential_keys_def open_census_def load_cache_def build_snapshot_def sample_inner_def)

text \<open>A fresh store accepts any password; the session it opens can then insert and reserve.\<close>

lemma sample_unlock:
  "\<exists>s f ses. unlock sample_env ''pw'' (Some (replicate 16 0)) (Some (replicate 16 1)) WriteOk
       \<lparr> st_dir = ''dir'', st_inner = sample_inner, st_snapshot = [] \<rparr> empty_disk =
     (Inr 0, s, empty_disk \<lparr> dk_sealed := Parsed f \<rparr>) \<and>
     st_inner s = sample_inner \<lparr> in_sealed := Some f, in_store_uuid := Some (replicate 16 1), in_session := Some ses \<rparr> \<and>
     sf_credentials f = []"
  by (simp add: unlock_def ensure_open_def sample_inner_def unlock_provision_def kdf_generate_def derive_keys_def
      master_key_derive_def sample_env_def sub_keys_derive_def expand32_def empty_disk_def sealed_file_provision_def Let_def)

lemma sample_reserve:
  assumes "in_lock (st_inner s)" "in_session (st_inner s) = Some ses" "in_store_uuid (st_inner s) = Some u"
    "\<not> is_quarantined (st_inner s) ''h''" "bt_get (in_sections (st_inner s)) ''h'' = Some a"
    "as_epoch_size_sec a = 0 \<or> as_epoch_size_sec a = 600" "length (as_allocations a) < WRITE_ROW_CAP"
    "reserve_slot a ''app'' 5 4 3 = (Inr m, a')"
  shows "\<exists>s' d'. reserve_message_id sample_env WriteOk ''h'' ''app'' 5 4 3 600 s d = (Inr m, s', d') \<and>
    in_lock (st_inner s') \<and> in_session (st_inner s') = Some ses \<and> in_store_uuid (st_inner s') = Some u \<and>
    \<not> is_quarantined (st_inner s') ''h'' \<and>
    bt_get (in_sections (st_inner s')) ''h'' = Some (a' \<lparr> as_epoch_size_sec := 600 \<rparr>)"
proof -
  obtain s' d' raw root where
    r: "reserve_message_id sample_env WriteOk ''h'' ''app'' 5 4 3 600 s d = (Inr m, s', d')"
    and i: "st_inner s' = (st_inner s) \<lparr> in_sections := bt_insert ''h'' (a' \<lparr> as_epoch_size_sec := 600 \<rparr>) (in_sections (st_inner s)),
         in_raw_sections := raw, in_root_mac_raw := root \<rparr>"
    using reserve_message_id_ok [OF assms(1-6) _ assms(8), of sample_env d] assms(7) by auto
  show ?thesis using r assms i by (auto simp: is_quarantined_def)
qed

abbreviation sample_opened :: store where
  "sample_opened \<equiv> \<lparr> st_dir = ''dir'', st_inner = sample_inner, st_snapshot = [] \<rparr>"

text \<open>Unlock, register one membership, reserve twice.\<close>

lemma sample_calls:
  obtains s2 d2 s3 d3 s4 d4 s5 d5 where
    "unlock sample_env ''pw'' (Some (replicate 16 0)) (Some (replicate 16 1)) WriteOk sample_opened empty_disk = (Inr 0, s2, d2)"
    "insert_membership sample_env (Some (replicate 24 0)) WriteOk WriteOk WriteOk ''h'' sample_identity sample_credential 3 s2 d2 =
       (Inr (), s3, d3)"
    "reserve_message_id sample_env WriteOk ''h'' ''app'' 5 4 3 600 s3 d3 = (Inr 0, s4, d4)"
    "reserve_message_id sample_env WriteOk ''h'' ''app'' 5 4 3 600 s4 d4 = (Inr 1, s5, d5)"
proof -
  obtain s2 f ses d2 where u: "unlock sample_env ''pw'' (Some (replicate 16 0)) (Some (replicate 16 1)) WriteOk
       sample_opened empty_disk = (Inr 0, s2, d2)"
    and i2: "st_inner s2 = sample_inner \<lparr> in_sealed := Some f, in_store_uuid := Some (replicate 16 1), in_session := Some ses \<rparr>"
    using sample_unlock by blast
  obtain pt where pt: "seal sample_env (Some (replicate 24 0)) (sk_seal (ss_keys ses))
      (credential_aad ''h'' sample_identity (replicate 16 1)) (as_bytes ''s'') = Inr (replicate 24 0, pt)"
    by (simp add: seal_def sample_env_def)
  obtain s3 d3 raw root f3 where ins: "insert_membership sample_env (Some (replicate 24 0)) WriteOk WriteOk WriteOk ''h''
       sample_identity sample_credential 3 s2 d2 = (Inr (), s3, d3)"
    and i3: "st_inner s3 = (insert_cache_row ''h'' 3 (insert_section ''h'' (st_inner s2)))
        \<lparr> in_sealed := Some f3, in_raw_sections := raw, in_root_mac_raw := root \<rparr>"
    using insert_membership_ok [of s2 ses "replicate 16 1" f sample_env sample_credential "as_bytes ''s''"
        "Some (replicate 24 0)" "''h''" sample_identity "replicate 24 0" pt 3 d2] pt i2
    by (auto simp: sample_inner_def sample_env_def sample_credential_def)
  have st3: "in_lock (st_inner s3)" "in_session (st_inner s3) = Some ses"
    "in_store_uuid (st_inner s3) = Some (replicate 16 1)" "\<not> is_quarantined (st_inner s3) ''h''"
    "bt_get (in_sections (st_inner s3)) ''h'' = Some default_allocation_state"
    by (simp_all add: i3 i2 insert_cache_row_def insert_section_def sample_inner_def is_quarantined_def Let_def)
  note defs = reserve_slot_def floor_threshold_def advance_and_prune_def row_matches_def
    default_allocation_state_def word_le_nat_alt
  let ?row = "\<lambda>u. \<lparr> ea_rln_identifier = ''app'', ea_epoch = 5, ea_used = u \<rparr>"
  let ?a = "\<lambda>u z. \<lparr> as_allocations = [?row u], as_epoch_size_sec = z, as_prune_floor = 0 :: u64 \<rparr>"
  have r1: "reserve_slot default_allocation_state ''app'' 5 4 3 = (Inr 0, ?a 1 0)" by (simp add: defs)
  have r2: "reserve_slot (?a 1 600) ''app'' 5 4 3 = (Inr 1, ?a 2 600)" by (simp add: defs)
  obtain s4 d4 where s4: "reserve_message_id sample_env WriteOk ''h'' ''app'' 5 4 3 600 s3 d3 = (Inr 0, s4, d4)"
    and st4: "in_lock (st_inner s4)" "in_session (st_inner s4) = Some ses"
    "in_store_uuid (st_inner s4) = Some (replicate 16 1)" "\<not> is_quarantined (st_inner s4) ''h''"
    "bt_get (in_sections (st_inner s4)) ''h'' = Some (?a 1 600)"
    using sample_reserve [OF st3 _ _ r1, of d3] by (auto simp: WRITE_ROW_CAP_def MAX_ROWS_PER_SECTION_def default_allocation_state_def)
  obtain s5 d5 where s5: "reserve_message_id sample_env WriteOk ''h'' ''app'' 5 4 3 600 s4 d4 = (Inr 1, s5, d5)"
    using sample_reserve [OF st4 _ _ r2, of d4] by (auto simp: WRITE_ROW_CAP_def MAX_ROWS_PER_SECTION_def)
  show thesis by (rule that [OF u ins s4 s5])
qed

lemma sample_run:
  "\<exists>m. trace (store_step sample_env) fresh_machine
     [None, None, None, Some ((''h'', ''app'', 5), 0), Some ((''h'', ''app'', 5), 1), None] m"
proof -
  obtain s2 d2 s3 d3 s4 d4 s5 d5 where
    u: "unlock sample_env ''pw'' (Some (replicate 16 0)) (Some (replicate 16 1)) WriteOk sample_opened empty_disk = (Inr 0, s2, d2)"
    and ins: "insert_membership sample_env (Some (replicate 24 0)) WriteOk WriteOk WriteOk ''h'' sample_identity sample_credential 3
      s2 d2 = (Inr (), s3, d3)"
    and r1: "reserve_message_id sample_env WriteOk ''h'' ''app'' 5 4 3 600 s3 d3 = (Inr 0, s4, d4)"
    and r2: "reserve_message_id sample_env WriteOk ''h'' ''app'' 5 4 3 600 s4 d4 = (Inr 1, s5, d5)"
    by (rule sample_calls)
  let ?m1 = "fresh_machine \<lparr> m_disk := empty_disk, m_store := Some sample_opened \<rparr>"
  let ?m2 = "?m1 \<lparr> m_store := Some s2, m_disk := d2 \<rparr>"
  let ?m3 = "?m2 \<lparr> m_store := Some s3, m_disk := d3, m_seen := insert ''h'' (m_seen ?m2) \<rparr>"
  let ?m4 = "?m3 \<lparr> m_store := Some s4, m_disk := d4 \<rparr>"
  let ?m5 = "?m4 \<lparr> m_store := Some s5, m_disk := d5 \<rparr>"
  have s1: "store_step sample_env fresh_machine None ?m1"
    using step_open [of fresh_machine sample_env "''dir''" LockTaken sample_renames] sample_open
    by (simp add: fresh_machine_def)
  have s2: "store_step sample_env ?m1 None ?m2"
    by (rule step_unlock [of _ sample_opened]) (use u in simp_all)
  have s3: "store_step sample_env ?m2 None ?m3"
    by (rule step_insert [of ?m2 s2 "''h''" sample_env "Some (replicate 24 0)" WriteOk WriteOk WriteOk
          sample_identity sample_credential 3 "Inr ()"])
       (use ins in \<open>simp_all add: fresh_machine_def\<close>)
  have s4: "store_step sample_env ?m3 (Some ((''h'', ''app'', 5), unat (0 :: u64))) ?m4"
    by (rule step_reserve_ok [of _ s3]) (use r1 in simp_all)
  have s5: "store_step sample_env ?m4 (Some ((''h'', ''app'', 5), unat (1 :: u64))) ?m5"
    by (rule step_reserve_ok [of _ s4]) (use r2 in simp_all)
  have s6: "trace (store_step sample_env) ?m5 [None] (?m5 \<lparr> m_store := None \<rparr>)"
    by (rule trace_cons, rule step_crash, rule trace_nil)
  note tc = trace_cons [of "store_step sample_env"]
  from tc [OF s1 tc [OF s2 tc [OF s3 tc [OF s4 tc [OF s5 s6]]]]]
  show ?thesis unfolding unat_0 unat_1 by blast
qed

lemma fresh_machine_inv: "machine_inv fresh_machine"
  by (simp add: machine_inv_def fresh_machine_def empty_disk_def ledger_wf_def copies_def disk_section_def)

section \<open>Properties\<close>

text \<open>
  C1: no rate-limit slot is ever issued twice. Over any run of the store machine (opens, unlocks,
  inserts of fresh memberships, cache updates, reservations with arbitrary clocks, limits and
  write failures, crashes at any point, arbitrary edits of the sealed and cache files, loss or
  corruption of the ledger, transient read faults), no two successful reservations return the
  same message id for the same membership, application and epoch.
\<close>
theorem store_never_reissues:
  assumes "trace (store_step env) m ls m'" "machine_inv m"
  shows "distinct (issued ls)"
  using assms by (rule store.issued_distinct)

theorem store_never_reissues_witness:
  "\<exists>m. trace (store_step sample_env) fresh_machine
       [None, None, None, Some ((''h'', ''app'', 5), 0), Some ((''h'', ''app'', 5), 1), None] m \<and>
     distinct (issued [None, None, None, Some ((''h'', ''app'', 5 :: u64), 0), Some ((''h'', ''app'', 5), 1 :: nat), None])"
  using sample_run store_never_reissues [OF _ fresh_machine_inv] by blast

end
