(* ===== verification/Store_Props.thy ===== *)
theory Store_Props
  imports Store_Safety
begin

text \<open>
  Method-level properties of the sealed store: what a successful reservation has made durable,
  which refusals leave the state untouched, how the budget read agrees with the reservation,
  what unlock accepts, the release of inserted credentials, the cache contract, and the limits
  at which the write path and the read path disagree.
\<close>

section \<open>Reservations\<close>

lemma section_mac_ok_stamped [simp]:
  "section_mac_ok cr keys h (stamped_section cr keys h a uuid) uuid"
  by (simp add: section_mac_ok_def stamped_section_def Let_def)

lemma write_allocations_okD:
  assumes "write_allocations cr w i d = (Inr (), i', d')"
  obtains ses uuid f where "in_session i = Some ses" "in_store_uuid i = Some uuid"
    "af_sections f = sections_to_write cr (ss_keys ses) i uuid" "dk_allocations d' = Parsed f"
    "w = WriteOk" "dk_sealed d' = dk_sealed d" "dk_cache d' = dk_cache d"
  using assms
  by (cases w) (fastforce simp: write_allocations_def Let_def split: option.splits)+

text \<open>
  C3: persist before issue. When a reservation returns a slot, the ledger on disk already holds
  the membership's section with the slot counted as used, under a MAC that verifies with the
  session's ledger key; a crash after the return can only find the slot spent.
\<close>
theorem reserve_persisted_before_issue:
  assumes "reserve_message_id cr w h rid ep c rl sz s d = (Inr m, s', d')" "inner_wf (st_inner s)"
  shows "\<exists>ses uuid f sec. in_session (st_inner s) = Some ses \<and> in_store_uuid (st_inner s) = Some uuid \<and>
    dk_allocations d' = Parsed f \<and> bt_get (af_sections f) h = Some sec \<and>
    section_mac_ok cr (ss_keys ses) h sec uuid \<and>
    next_slot (alloc_of_section sec) (rid, ep) = enat (Suc (unat m))"
  using assms(1)
proof (cases rule: reserve_message_id_cases)
  case (reserved a slot a' r1)
  let ?a = "a' \<lparr> as_epoch_size_sec := sz \<rparr>"
  let ?i1 = "(st_inner s) \<lparr> in_sections := bt_insert h ?a (in_sections (st_inner s)) \<rparr>"
  have r1: "r1 = Inr ()" "m = slot" using reserved(5) by (auto split: sum.splits)
  from reserved(4) [unfolded r1] obtain ses uuid f where f: "in_session ?i1 = Some ses"
    "in_store_uuid ?i1 = Some uuid" "af_sections f = sections_to_write cr (ss_keys ses) ?i1 uuid"
    "dk_allocations d' = Parsed f" by (rule write_allocations_okD)
  have "bt_get (af_sections f) h = Some (stamped_section cr (ss_keys ses) h ?a uuid)"
    using assms(2) reserved(2) unfolding f(3)
    by (subst bt_get_sections_to_write) (auto simp: inner_wf_def is_quarantined_def)
  moreover have "next_slot a' (rid, ep) = enat (Suc (unat m))"
    using reserve_slot_next(2) [OF reserved(3)] r1 by simp
  ultimately show ?thesis using f by auto
qed auto

lemma sample_store_reserves:
  "\<exists>s d. inner_wf (st_inner s) \<and> in_lock (st_inner s) \<and>
     (\<exists>s' d'. reserve_message_id sample_env WriteOk ''h'' ''app'' 5 4 3 600 s d = (Inr 0, s', d'))"
proof -
  let ?i = "sample_inner \<lparr> in_store_uuid := Some (replicate 16 1), in_sections := [(''h'', default_allocation_state)],
     in_session := Some \<lparr> ss_password = ''pw'', ss_keys = \<lparr> sk_verify = [], sk_seal = [], sk_ledger = [] \<rparr> \<rparr> \<rparr>"
  let ?s = "\<lparr> st_dir = ''dir'', st_inner = ?i, st_snapshot = [] \<rparr>"
  have "reserve_slot default_allocation_state ''app'' 5 4 3 = (Inr 0,
     \<lparr> as_allocations = [\<lparr> ea_rln_identifier = ''app'', ea_epoch = 5, ea_used = 1 \<rparr>],
       as_epoch_size_sec = 0, as_prune_floor = 0 :: u64 \<rparr>)"
    by (simp add: reserve_slot_def floor_threshold_def advance_and_prune_def row_matches_def
        default_allocation_state_def word_le_nat_alt)
  from reserve_message_id_ok [OF _ _ _ _ _ _ _ this, where s = ?s and cr = sample_env and d = empty_disk and h = "''h''" and sz = 600]
  have "\<exists>s' d'. reserve_message_id sample_env WriteOk ''h'' ''app'' 5 4 3 600 ?s empty_disk = (Inr 0, s', d')"
    by (fastforce simp: sample_inner_def is_quarantined_def bt_get_Cons default_allocation_state_def
        WRITE_ROW_CAP_def MAX_ROWS_PER_SECTION_def)
  moreover have "inner_wf ?i" by (simp add: inner_wf_def sample_inner_def bt_wf_def)
  ultimately show ?thesis by (intro exI [of _ ?s] exI [of _ empty_disk]) (simp add: sample_inner_def)
qed

theorem reserve_persisted_before_issue_witness:
  "\<exists>s d s' d' ses uuid f sec.
     reserve_message_id sample_env WriteOk ''h'' ''app'' 5 4 3 600 s d = (Inr 0, s', d') \<and>
     in_session (st_inner s) = Some ses \<and> dk_allocations d' = Parsed f \<and> bt_get (af_sections f) ''h'' = Some sec \<and>
     section_mac_ok sample_env (ss_keys ses) ''h'' sec uuid \<and>
     next_slot (alloc_of_section sec) (''app'', 5) = enat (Suc (unat (0 :: u64)))"
proof -
  obtain s d s' d' where wf: "inner_wf (st_inner s)"
    and r: "reserve_message_id sample_env WriteOk ''h'' ''app'' 5 4 3 600 s d = (Inr 0, s', d')"
    using sample_store_reserves by blast
  obtain ses uuid f sec where "in_session (st_inner s) = Some ses" "dk_allocations d' = Parsed f" "bt_get (af_sections f) ''h'' = Some sec"
    "section_mac_ok sample_env (ss_keys ses) ''h'' sec uuid"
    "next_slot (alloc_of_section sec) (''app'', 5) = enat (Suc (unat (0 :: u64)))"
    using reserve_persisted_before_issue [OF r wf] by blast
  then show ?thesis using r by (intro exI conjI)
qed

text \<open>
  A refused reservation changes nothing. For every reason of refusal other than a failed
  ledger write (closed, locked, quarantined, unknown, bound to another epoch size, section full,
  below the floor, budget spent), the store and the disk are exactly as before; a failed write
  publishes the advanced counter but hands out no slot.
\<close>
lemma reserve_refusal_untouched:
  assumes "reserve_message_id cr WriteOk h rid ep c rl sz s d = (Inl e, s', d')"
    and "inner_wf (st_inner s)" "in_store_uuid (st_inner s) \<noteq> None"
  shows "s' = s \<and> d' = d"
proof (cases "in_session (st_inner s)")
  case None
  then show ?thesis
    using assms by (auto simp: reserve_message_id_def Let_def split: sum.splits if_splits)
next
  case (Some ses)
  obtain uuid where u: "in_store_uuid (st_inner s) = Some uuid" using assms(3) by blast
  have same: "with_inner s ((st_inner s) \<lparr> in_sections := bt_insert h a (in_sections (st_inner s)) \<rparr>) = s"
    if "bt_get (in_sections (st_inner s)) h = Some a" for a
    using that assms(2) by (simp add: bt_insert_same inner_wf_def with_inner_def)
  show ?thesis
    using assms(1) Some u same reserve_slot_error_unchanged
    by (fastforce simp: reserve_message_id_def Let_def write_allocations_def
        split: sum.splits if_splits option.splits prod.splits)
qed

text \<open>What the outcome of the ledger write changes: nothing for a refusal, everything for a success.\<close>

lemma reserve_refused_anyway:
  assumes "fst (reserve_message_id cr WriteOk h rid ep c rl sz s d) = Inl e"
    and "in_session (st_inner s) = Some ses" "in_store_uuid (st_inner s) = Some u"
  shows "fst (reserve_message_id cr w h rid ep c rl sz s d) = Inl e"
  using assms
  by (auto simp: reserve_message_id_def write_allocations_def Let_def split: sum.splits option.splits prod.splits if_splits)

lemma reserve_write_failed:
  assumes "w \<noteq> WriteOk" "in_session (st_inner s) = Some ses" "in_store_uuid (st_inner s) = Some u"
  shows "\<exists>e. fst (reserve_message_id cr w h rid ep c rl sz s d) = Inl e"
  using assms
  by (cases w; fastforce simp: reserve_message_id_def write_allocations_def Let_def split: sum.splits option.splits prod.splits if_splits)

lemma reserve_full:
  assumes "in_lock (st_inner s)" "in_session (st_inner s) = Some ses" "bt_get (in_sections (st_inner s)) h = Some a"
    and "\<not> row_exists a rid ep" "WRITE_ROW_CAP \<le> length (as_allocations a)"
  shows "reserve_message_id cr w h rid ep c rl sz s d =
    (case reservation_guards (is_quarantined (st_inner s) h) (Some a) sz of Inl e \<Rightarrow> Inl e | Inr _ \<Rightarrow> Inl section_full_refusal, s, d)"
  using assms by (simp add: reserve_message_id_def ensure_open_def Let_def split: sum.split)

text \<open>
  A section with room for another row: a positive budget is a reservation that succeeds, zero is
  exhaustion, an error is the same error.
\<close>
lemma budget_agrees_with_room:
  assumes "in_lock (st_inner s)" "in_session (st_inner s) = Some ses" "in_store_uuid (st_inner s) = Some u"
    and "sealed_contains (st_inner s) h" "bt_get (in_sections (st_inner s)) h = Some a"
    and "row_exists a rid ep \<or> length (as_allocations a) < WRITE_ROW_CAP" "c \<le> ep"
  shows "case remaining_budget h rid ep rl sz s of
      Inl e \<Rightarrow> fst (reserve_message_id cr WriteOk h rid ep c rl sz s d) = Inl e
    | Inr n \<Rightarrow>
        if n = 0
        then fst (reserve_message_id cr WriteOk h rid ep c rl sz s d) = Inl (alloc_refusal alloc_error.BudgetExhausted)
        else \<exists>m s' d'. reserve_message_id cr WriteOk h rid ep c rl sz s d = (Inr m, s', d') \<and>
               m < rl \<and> remaining_budget h rid ep rl sz s' = Inr (n - 1)"
proof (cases "reservation_guards (is_quarantined (st_inner s) h) (Some a) sz")
  case (Inl e)
  then show ?thesis
    using assms by (simp add: remaining_budget_def reserve_message_id_def ensure_open_def Let_def)
next
  case guards: (Inr x)
  have notq: "\<not> is_quarantined (st_inner s) h" "as_epoch_size_sec a = 0 \<or> as_epoch_size_sec a = sz"
    using guards by (auto simp: reservation_guards_def split: if_splits)
  have thr: "floor_threshold a c \<le> ep \<longleftrightarrow> \<not> ep < as_prune_floor a"
    using threshold_le_max [of a c] floor_le_threshold [of a c] assms(7)
    by (meson le_less_trans linorder_not_le max_less_iff_conj order_trans not_le max.cobounded1 max_def)
  obtain r a' where r: "reserve_slot a rid ep c rl = (r, a')" by fastforce
  have fail: "fst (reserve_message_id cr WriteOk h rid ep c rl sz s d) = Inl (alloc_refusal e)" if "r = Inl e" for e
    using assms guards r that by (simp add: reserve_message_id_def ensure_open_def Let_def) auto
  have rb: "remaining_budget h rid ep rl sz s =
      (if ep < as_prune_floor a then Inl floor_refusal else Inr (remaining (as_allocations a) rid ep rl))"
    using assms guards by (simp add: remaining_budget_def Let_def)
  show ?thesis
  proof (cases r)
    case (Inl e)
    then show ?thesis
      using fail [OF Inl] reserve_slot_error_cases(2) [OF r [unfolded Inl]] rb thr
      by (auto simp: alloc_refusal_def)
  next
    case (Inr m)
    obtain s' d' raw root where res: "reserve_message_id cr WriteOk h rid ep c rl sz s d = (Inr m, s', d')"
      and i': "st_inner s' = (st_inner s) \<lparr> in_sections := bt_insert h (a' \<lparr> as_epoch_size_sec := sz \<rparr>)
           (in_sections (st_inner s)), in_raw_sections := raw, in_root_mac_raw := root \<rparr>"
      using reserve_message_id_ok [OF assms(1-3) notq(1) assms(5) notq(2) assms(6) r [unfolded Inr], of cr d] by blast
    note ok = reserve_slot_ok_cases [OF r [unfolded Inr]] and rem = reserve_slot_remaining [OF r [unfolded Inr]]
    have fl: "\<not> ep < as_prune_floor a'" using ok by simp
    have "remaining_budget h rid ep rl sz s' = Inr (remaining (as_allocations a') rid ep rl)"
      using assms(4) notq fl i'
      by (simp add: remaining_budget_def sealed_contains_def is_quarantined_def reservation_guards_def Let_def)
    moreover have "\<not> ep < as_prune_floor a" using ok(1) thr by blast
    ultimately show ?thesis using res rb ok(3) rem by auto
  qed
qed

text \<open>
  C8: what the budget read says of the next reservation. Take an open, unlocked, provisioned store with a
  ledger section for the membership, and an epoch not below the floor candidate the caller derives from its
  clock. If the section has a row for the epoch or room for one: a positive budget means that a reservation
  whose ledger write succeeds is granted and the next read reports one less, and one whose write fails is
  not granted; zero means that every reservation is refused as exhausted; an error means that every
  reservation is refused with the same error. If the section is full and has no row for the epoch, the
  read does not notice: every reservation is refused for good, whatever budget is reported.
\<close>
theorem budget_agrees_with_reserve:
  assumes "in_lock (st_inner s)" "in_session (st_inner s) = Some ses" "in_store_uuid (st_inner s) = Some u"
    and "sealed_contains (st_inner s) h" "bt_get (in_sections (st_inner s)) h = Some a" "c \<le> ep"
  shows "if row_exists a rid ep \<or> length (as_allocations a) < WRITE_ROW_CAP
    then (case remaining_budget h rid ep rl sz s of
        Inl e \<Rightarrow> \<forall>w. fst (reserve_message_id cr w h rid ep c rl sz s d) = Inl e
      | Inr n \<Rightarrow>
          if n = 0
          then \<forall>w. fst (reserve_message_id cr w h rid ep c rl sz s d) = Inl (alloc_refusal alloc_error.BudgetExhausted)
          else (\<exists>m s' d'. reserve_message_id cr WriteOk h rid ep c rl sz s d = (Inr m, s', d') \<and>
                  m < rl \<and> remaining_budget h rid ep rl sz s' = Inr (n - 1)) \<and>
               (\<forall>w. w \<noteq> WriteOk \<longrightarrow> (\<exists>e. fst (reserve_message_id cr w h rid ep c rl sz s d) = Inl e)))
    else (\<forall>w. reserve_message_id cr w h rid ep c rl sz s d =
        (case reservation_guards (is_quarantined (st_inner s) h) (Some a) sz of
           Inl e \<Rightarrow> Inl e | Inr _ \<Rightarrow> Inl section_full_refusal, s, d))"
proof (cases "row_exists a rid ep \<or> length (as_allocations a) < WRITE_ROW_CAP")
  case True
  note agree = budget_agrees_with_room [OF assms(1-5) True assms(6), where rl = rl and sz = sz and cr = cr and d = d]
  show ?thesis
    using agree True reserve_refused_anyway [OF _ assms(2,3)] reserve_write_failed [OF _ assms(2,3)]
    by (cases "remaining_budget h rid ep rl sz s") auto
next
  case False
  then have "reserve_message_id cr w h rid ep c rl sz s d =
      (case reservation_guards (is_quarantined (st_inner s) h) (Some a) sz of Inl e \<Rightarrow> Inl e | Inr _ \<Rightarrow> Inl section_full_refusal, s, d)" for w
    by (intro reserve_full [OF assms(1,2,5)]) auto
  then show ?thesis unfolding if_not_P [OF False] by blast
qed

theorem budget_agrees_with_reserve_witness:
  "remaining_budget ''h'' ''app'' 5 3 600
     \<lparr> st_dir = ''dir'', st_inner = sample_inner \<lparr> in_store_uuid := Some [],
         in_sealed := Some (sealed_file_provision undefined [] [] \<lparr> sf_credentials := [(''h'', undefined)] \<rparr>),
         in_sections := [(''h'', default_allocation_state)],
         in_session := Some \<lparr> ss_password = ''pw'', ss_keys = \<lparr> sk_verify = [], sk_seal = [], sk_ledger = [] \<rparr> \<rparr> \<rparr>,
       st_snapshot = [] \<rparr> = Inr 3 \<and>
   (\<exists>m s' d'. reserve_message_id sample_env WriteOk ''h'' ''app'' 5 4 3 600
     \<lparr> st_dir = ''dir'', st_inner = sample_inner \<lparr> in_store_uuid := Some [],
         in_sealed := Some (sealed_file_provision undefined [] [] \<lparr> sf_credentials := [(''h'', undefined)] \<rparr>),
         in_sections := [(''h'', default_allocation_state)],
         in_session := Some \<lparr> ss_password = ''pw'', ss_keys = \<lparr> sk_verify = [], sk_seal = [], sk_ledger = [] \<rparr> \<rparr> \<rparr>,
       st_snapshot = [] \<rparr> empty_disk = (Inr m, s', d') \<and> m < 3 \<and>
       remaining_budget ''h'' ''app'' 5 3 600 s' = Inr (3 - 1))"
proof -
  let ?s = "\<lparr> st_dir = ''dir'', st_inner = sample_inner \<lparr> in_store_uuid := Some [],
         in_sealed := Some (sealed_file_provision undefined [] [] \<lparr> sf_credentials := [(''h'', undefined)] \<rparr>),
         in_sections := [(''h'', default_allocation_state)],
         in_session := Some \<lparr> ss_password = ''pw'', ss_keys = \<lparr> sk_verify = [], sk_seal = [], sk_ledger = [] \<rparr> \<rparr> \<rparr>,
       st_snapshot = [] \<rparr>"
  have b: "remaining_budget ''h'' ''app'' 5 3 600 ?s = Inr 3"
    by (simp add: remaining_budget_def sealed_contains_def sample_inner_def bt_contains_def bt_get_Cons
        is_quarantined_def reservation_guards_def default_allocation_state_def remaining_def used_slots_def
        saturating_sub_def Let_def)
  have "row_exists default_allocation_state ''app'' 5 \<or> length (as_allocations default_allocation_state) < WRITE_ROW_CAP"
    by (simp add: default_allocation_state_def WRITE_ROW_CAP_def MAX_ROWS_PER_SECTION_def)
  moreover have "if row_exists default_allocation_state ''app'' 5 \<or> length (as_allocations default_allocation_state) < WRITE_ROW_CAP
    then (case remaining_budget ''h'' ''app'' 5 3 600 ?s of
        Inl e \<Rightarrow> \<forall>w. fst (reserve_message_id sample_env w ''h'' ''app'' 5 4 3 600 ?s empty_disk) = Inl e
      | Inr n \<Rightarrow>
          if n = 0
          then \<forall>w. fst (reserve_message_id sample_env w ''h'' ''app'' 5 4 3 600 ?s empty_disk) =
                 Inl (alloc_refusal alloc_error.BudgetExhausted)
          else (\<exists>m s' d'. reserve_message_id sample_env WriteOk ''h'' ''app'' 5 4 3 600 ?s empty_disk = (Inr m, s', d') \<and>
                  m < 3 \<and> remaining_budget ''h'' ''app'' 5 3 600 s' = Inr (n - 1)) \<and>
               (\<forall>w. w \<noteq> WriteOk \<longrightarrow> (\<exists>e. fst (reserve_message_id sample_env w ''h'' ''app'' 5 4 3 600 ?s empty_disk) = Inl e)))
    else (\<forall>w. reserve_message_id sample_env w ''h'' ''app'' 5 4 3 600 ?s empty_disk =
        (case reservation_guards (is_quarantined (st_inner ?s) ''h'') (Some default_allocation_state) 600 of
           Inl e \<Rightarrow> Inl e | Inr _ \<Rightarrow> Inl section_full_refusal, ?s, empty_disk))"
    by (rule budget_agrees_with_reserve [where a = default_allocation_state])
      (simp_all add: sample_inner_def sealed_contains_def bt_contains_def bt_get_Cons default_allocation_state_def word_le_nat_alt)
  ultimately show ?thesis using b by simp
qed

section \<open>Unlocking\<close>

lemma unlock_existing_okD:
  assumes "unlock env pw salt ur w s d = (Inr n, s', d')" "in_sealed (st_inner s) = Some f" "sf_credentials f \<noteq> []"
  obtains keys uuid where "derive_keys env pw (sf_kdf f) = Inr keys" "in_store_uuid (st_inner s) = Some uuid"
    "sk_verify keys = (case hex_to_vec (sf_verifier f) of Some v \<Rightarrow> v | None \<Rightarrow> [])"
    "st_inner s' = (st_inner s) \<lparr> in_keyed_quarantined := keyed_verification env keys (st_inner s) f uuid,
         in_session := Some \<lparr> ss_password = pw, ss_keys = keys \<rparr> \<rparr>"
    "d' = d" "n = length (filter (\<lambda>h. \<not> is_quarantined (st_inner s') h) (bt_keys (sf_credentials f)))"
proof -
  have ex: "unlock_existing env pw s = (Inr n, s')" "d' = d"
    using assms by (auto simp: unlock_def split: sum.splits if_splits prod.splits)
  then obtain keys uuid where k: "derive_keys env pw (sf_kdf f) = Inr keys" "in_store_uuid (st_inner s) = Some uuid"
    using assms(2) by (auto simp: unlock_existing_def Let_def split: option.splits sum.splits)
  show ?thesis
    by (rule that [OF k]) (use ex k assms(2) in
      \<open>auto simp: unlock_existing_def Let_def is_quarantined_def split: if_splits\<close>)
qed

lemma keyed_verification_accepts:
  assumes "h \<notin> keyed_verification env keys i f uuid" "h \<notin> in_census_quarantined i"
    and "(h, entry) \<in> set (sf_credentials f)"
  shows "credential_opens env keys (credential_aad h (se_identity entry) uuid) entry"
    "\<exists>sec. bt_get (in_raw_sections i) h = Some sec \<and> section_mac_ok env keys h sec uuid"
    "root_ok env keys i uuid"
proof -
  have hk: "h \<in> set (bt_keys (sf_credentials f))" using assms(3) by force
  show "credential_opens env keys (credential_aad h (se_identity entry) uuid) entry"
    using assms by (force simp: keyed_verification_def Let_def split: if_splits)
  show sec: "\<exists>sec. bt_get (in_raw_sections i) h = Some sec \<and> section_mac_ok env keys h sec uuid"
    using assms hk by (auto simp: keyed_verification_def Let_def split: if_splits option.splits)
  then have "in_raw_sections i \<noteq> []" by auto
  then show "root_ok env keys i uuid"
    using assms hk by (auto simp: keyed_verification_def Let_def split: if_splits)
qed

lemma keyed_verification_complete:
  assumes "\<forall>(h, entry) \<in> set (sf_credentials f). h \<notin> in_census_quarantined i \<longrightarrow>
      credential_opens env keys (credential_aad h (se_identity entry) uuid) entry \<and>
      (\<exists>sec. bt_get (in_raw_sections i) h = Some sec \<and> section_mac_ok env keys h sec uuid)"
    and "root_ok env keys i uuid"
  shows "keyed_verification env keys i f uuid = {}"
  using assms by (force simp: keyed_verification_def Let_def split: option.splits)

text \<open>
  C7: what unlock accepts is verified. When unlock of a store with credentials succeeds, the
  derived verifier equals the stored one, the census quarantine stands, and every membership it
  leaves usable has a credential that opens under the derived keys with the identity block as
  associated data, an allocation section whose MAC verifies, and a ledger whose root MAC
  verifies over all stored section MACs. The disk is untouched, and conversely, when all of that
  holds for every membership that passed the census, none is quarantined.
\<close>
theorem unlock_accepts_exactly_verified:
  assumes "unlock env pw salt ur w s d = (Inr n, s', d')" "in_sealed (st_inner s) = Some f" "sf_credentials f \<noteq> []"
  shows "d' = d \<and> in_census_quarantined (st_inner s') = in_census_quarantined (st_inner s) \<and>
    (\<exists>keys uuid. derive_keys env pw (sf_kdf f) = Inr keys \<and> in_store_uuid (st_inner s) = Some uuid \<and>
      sk_verify keys = (case hex_to_vec (sf_verifier f) of Some v \<Rightarrow> v | None \<Rightarrow> []) \<and>
      (\<forall>(h, entry) \<in> set (sf_credentials f). \<not> is_quarantined (st_inner s') h \<longrightarrow>
         credential_opens env keys (credential_aad h (se_identity entry) uuid) entry \<and>
         (\<exists>sec. bt_get (in_raw_sections (st_inner s)) h = Some sec \<and> section_mac_ok env keys h sec uuid) \<and>
         root_ok env keys (st_inner s) uuid) \<and>
      ((\<forall>(h, entry) \<in> set (sf_credentials f). h \<notin> in_census_quarantined (st_inner s) \<longrightarrow>
         credential_opens env keys (credential_aad h (se_identity entry) uuid) entry \<and>
         (\<exists>sec. bt_get (in_raw_sections (st_inner s)) h = Some sec \<and> section_mac_ok env keys h sec uuid)) \<and>
       root_ok env keys (st_inner s) uuid \<longrightarrow> in_keyed_quarantined (st_inner s') = {}))"
  using assms
proof (rule unlock_existing_okD)
  fix keys uuid
  assume k: "derive_keys env pw (sf_kdf f) = Inr keys" "in_store_uuid (st_inner s) = Some uuid"
    "sk_verify keys = (case hex_to_vec (sf_verifier f) of Some v \<Rightarrow> v | None \<Rightarrow> [])" "d' = d"
    and i': "st_inner s' = (st_inner s) \<lparr> in_keyed_quarantined := keyed_verification env keys (st_inner s) f uuid,
         in_session := Some \<lparr> ss_password = pw, ss_keys = keys \<rparr> \<rparr>"
  have "credential_opens env keys (credential_aad h (se_identity entry) uuid) entry \<and>
         (\<exists>sec. bt_get (in_raw_sections (st_inner s)) h = Some sec \<and> section_mac_ok env keys h sec uuid) \<and>
         root_ok env keys (st_inner s) uuid"
    if "(h, entry) \<in> set (sf_credentials f)" "\<not> is_quarantined (st_inner s') h" for h entry
    using keyed_verification_accepts [OF _ _ that(1), of env keys "st_inner s" uuid] that(2) i'
    by (simp add: is_quarantined_def)
  then show ?thesis
    using k i' keyed_verification_complete [of f "st_inner s" env keys uuid]
    by (intro conjI exI [of _ keys] exI [of _ uuid]) auto
qed

text \<open>A locked store with one honest membership, for the witnesses.\<close>

definition sample_kdf :: kdf_params where
  "sample_kdf = \<lparr> kp_m_cost_kib = 65536, kp_t_cost = 3, kp_p_cost = 1, kp_salt = bytes_to_hex (replicate 16 0) \<rparr>"

definition sample_keys :: sub_keys where
  "sample_keys = \<lparr> sk_verify = as_bytes ''rln-sealed/v1/verify'' @ as_bytes ''pw'',
     sk_seal = as_bytes ''rln-sealed/v1/seal'' @ as_bytes ''pw'',
     sk_ledger = as_bytes ''rln-sealed/v1/ledger'' @ as_bytes ''pw'' \<rparr>"

definition sample_entry :: sealed_entry where
  "sample_entry = \<lparr> se_identity = sample_identity, se_nonce = bytes_to_hex (replicate 24 0),
     se_ct = bytes_to_hex (sk_seal sample_keys @ credential_aad ''h'' sample_identity (replicate 16 1) @ as_bytes ''s'') \<rparr>"

definition sample_sealed :: sealed_file where
  "sample_sealed = (sealed_file_provision sample_kdf (bytes_to_hex (sk_verify sample_keys)) (bytes_to_hex (replicate 16 1)))
     \<lparr> sf_credentials := [(''h'', sample_entry)] \<rparr>"

definition sample_sections :: "(string, ledger_section) btmap" where
  "sample_sections = [(''h'', stamped_section sample_env sample_keys ''h'' default_allocation_state (replicate 16 1))]"

definition sample_root :: bytes where
  "sample_root = mac sample_env (sk_ledger sample_keys) (root_mac_payload (written_macs sample_sections) (replicate 16 1))"

definition sample_locked :: store where
  "sample_locked = \<lparr> st_dir = ''dir'', st_inner = sample_inner \<lparr> in_sealed := Some sample_sealed,
     in_store_uuid := Some (replicate 16 1), in_sections := [(''h'', default_allocation_state)],
     in_raw_sections := sample_sections, in_root_mac_raw := Some sample_root \<rparr>, st_snapshot = [] \<rparr>"

lemma sample_derive: "derive_keys sample_env ''pw'' sample_kdf = Inr sample_keys"
  by (simp add: derive_keys_def master_key_derive_def sample_env_def sample_kdf_def sub_keys_derive_def
      expand32_def sample_keys_def)

lemma sample_mac_length: "length (mac sample_env k p) = 32"
  by (simp add: mac_def sample_env_def)

lemma sample_credential_opens:
  "credential_opens sample_env sample_keys (credential_aad ''h'' sample_identity (replicate 16 1)) sample_entry"
  by (simp add: credential_opens_def sample_entry_def unseal_def sample_env_def)

lemma stored_macs_written:
  assumes "\<forall>(h, sec) \<in> set (in_raw_sections i). hex_to_bytes32 (sec_mac sec) \<noteq> None"
  shows "stored_macs i = written_macs (in_raw_sections i)"
proof -
  have "concat (map (\<lambda>(h, s). case hex_to_bytes32 (sec_mac s) of Some m \<Rightarrow> [(h, m)] | None \<Rightarrow> []) xs) = written_macs xs"
    if "\<forall>(h, sec) \<in> set xs. hex_to_bytes32 (sec_mac sec) \<noteq> None" for xs :: "(string, ledger_section) btmap"
    using that by (induction xs) (auto simp: written_macs_def)
  then show ?thesis using assms by (simp add: stored_macs_def)
qed

lemma sample_stored_macs: "stored_macs (st_inner sample_locked) = written_macs sample_sections"
  using stored_macs_written [of "st_inner sample_locked"]
  by (simp add: sample_locked_def sample_sections_def stamped_section_def sample_mac_length Let_def)

lemma sample_root_ok: "root_ok sample_env sample_keys (st_inner sample_locked) (replicate 16 1)"
  using sample_stored_macs
  by (simp add: root_ok_def) (simp add: sample_locked_def sample_root_def written_macs_def)

lemma sample_keyed: "keyed_verification sample_env sample_keys (st_inner sample_locked) sample_sealed (replicate 16 1) = {}"
proof (rule keyed_verification_complete [OF _ sample_root_ok])
  have "bt_get (in_raw_sections (st_inner sample_locked)) ''h'' =
      Some (stamped_section sample_env sample_keys ''h'' default_allocation_state (replicate 16 1))"
    by (simp add: sample_locked_def sample_sections_def bt_get_Cons)
  then show "\<forall>(h, entry) \<in> set (sf_credentials sample_sealed). h \<notin> in_census_quarantined (st_inner sample_locked) \<longrightarrow>
      credential_opens sample_env sample_keys (credential_aad h (se_identity entry) (replicate 16 1)) entry \<and>
      (\<exists>sec. bt_get (in_raw_sections (st_inner sample_locked)) h = Some sec \<and>
         section_mac_ok sample_env sample_keys h sec (replicate 16 1))"
    using sample_credential_opens by (simp add: sample_sealed_def) (simp add: sample_entry_def)
qed

lemma sample_unlock_ok:
  "\<exists>s'. unlock sample_env ''pw'' None None WriteOk sample_locked empty_disk = (Inr 1, s', empty_disk) \<and>
     in_keyed_quarantined (st_inner s') = {} \<and> in_census_quarantined (st_inner s') = {}"
proof -
  have f: "in_sealed (st_inner sample_locked) = Some sample_sealed" "in_lock (st_inner sample_locked)"
    "in_store_uuid (st_inner sample_locked) = Some (replicate 16 1)" "in_census_quarantined (st_inner sample_locked) = {}"
    by (simp_all add: sample_locked_def sample_inner_def)
  have s: "sf_credentials sample_sealed = [(''h'', sample_entry)]" "sf_kdf sample_sealed = sample_kdf"
    "sf_verifier sample_sealed = bytes_to_hex (sk_verify sample_keys)"
    by (simp_all add: sample_sealed_def sealed_file_provision_def)
  show ?thesis
    using f s sample_derive sample_keyed
    by (simp add: unlock_def ensure_open_def all_quarantined_def unlock_existing_def Let_def)
qed

theorem unlock_accepts_exactly_verified_witness:
  "\<exists>s'. unlock sample_env ''pw'' None None WriteOk sample_locked empty_disk = (Inr 1, s', empty_disk) \<and>
     (\<exists>keys uuid. derive_keys sample_env ''pw'' (sf_kdf sample_sealed) = Inr keys \<and>
       in_store_uuid (st_inner sample_locked) = Some uuid)"
proof -
  obtain s' where u: "unlock sample_env ''pw'' None None WriteOk sample_locked empty_disk = (Inr 1, s', empty_disk)"
    using sample_unlock_ok by blast
  have "in_sealed (st_inner sample_locked) = Some sample_sealed" "sf_credentials sample_sealed \<noteq> []"
    by (simp_all add: sample_locked_def sample_inner_def sample_sealed_def)
  from unlock_accepts_exactly_verified [OF u this] u show ?thesis by blast
qed

section \<open>Ledger tamper\<close>

lemma bt_get_stored_macs:
  assumes "bt_wf (in_raw_sections i)"
  shows "bt_get (stored_macs i) h =
    Option.bind (bt_get (in_raw_sections i) h) (\<lambda>sec. hex_to_bytes32 (sec_mac sec))"
proof -
  let ?f = "\<lambda>h sec. case hex_to_bytes32 (sec_mac sec) of Some m \<Rightarrow> [(h, m)] | None \<Rightarrow> []"
  have "bt_get (concat (map (\<lambda>(k, v). ?f k v) (in_raw_sections i))) h =
      (case bt_get (in_raw_sections i) h of None \<Rightarrow> None | Some v \<Rightarrow> map_of (?f h v) h)"
    by (rule bt_get_concat_map) (auto split: option.splits intro: bt_wf_distinct [OF assms])
  then show ?thesis by (auto simp: stored_macs_def split: option.splits)
qed

lemma stored_macs_full:
  assumes "length (stored_macs i) = length (in_raw_sections i)" "(g, x) \<in> set (in_raw_sections i)"
  shows "hex_to_bytes32 (sec_mac x) \<noteq> None"
proof -
  let ?f = "\<lambda>(h, s). case hex_to_bytes32 (sec_mac s) of Some m \<Rightarrow> [(h, m)] | None \<Rightarrow> []"
  have le: "length (concat (map ?f xs)) \<le> length xs" for xs :: "(string, ledger_section) btmap"
    by (induction xs) (auto split: option.splits)
  have "length (concat (map ?f xs)) = length xs \<Longrightarrow> (g, x) \<in> set xs \<Longrightarrow> hex_to_bytes32 (sec_mac x) \<noteq> None"
    for xs :: "(string, ledger_section) btmap"
  proof (induction xs)
    case (Cons y xs)
    then show ?case
      using le [of xs] by (cases y; cases "hex_to_bytes32 (sec_mac (snd y))") auto
  qed simp
  then show ?thesis using assms by (simp add: stored_macs_def)
qed

lemma section_mac_ok_tag:
  "section_mac_ok cr keys h sec uuid \<Longrightarrow> hex_to_bytes32 (sec_mac sec) = Some m \<Longrightarrow>
     mac cr (sk_ledger keys) (section_mac_payload h (sec_epoch_size_sec sec) (sec_prune_floor sec)
       (sec_allocations sec) uuid) = m"
  by (auto simp: section_mac_ok_def hex_to_bytes32_def Let_def split: option.splits if_splits)

text \<open>What the MAC of a section covers: everything but the row order and the MAC itself.\<close>

definition same_content :: "ledger_section \<Rightarrow> ledger_section \<Rightarrow> bool" where
  "same_content a b \<longleftrightarrow> sec_epoch_size_sec a = sec_epoch_size_sec b \<and> sec_prune_floor a = sec_prune_floor b \<and>
     sort_key row_key (sec_allocations a) = sort_key row_key (sec_allocations b)"

definition section_payload :: "string \<Rightarrow> ledger_section \<Rightarrow> bytes \<Rightarrow> bytes" where
  "section_payload h sec uuid =
     section_mac_payload h (sec_epoch_size_sec sec) (sec_prune_floor sec) (sec_allocations sec) uuid"

lemma root_ok_macs:
  assumes "root_ok cr keys i uuid" "in_root_mac_raw i = Some (mac cr (sk_ledger keys) (root_mac_payload ms uuid))"
    and "root_mac_payload (stored_macs i) uuid = root_mac_payload ms uuid \<or>
      mac cr (sk_ledger keys) (root_mac_payload (stored_macs i) uuid) \<noteq> mac cr (sk_ledger keys) (root_mac_payload ms uuid)"
    and "macs_bounded (stored_macs i)" "macs_bounded ms" "length uuid = 16"
  shows "stored_macs i = ms"
  using assms root_mac_payload_inj [of "stored_macs i" ms uuid uuid] by (simp add: root_ok_def)

text \<open>
  C6: unlock accepts only the ledger that was written. Suppose the root MAC on disk is the one
  of the last write (no forged and no replayed root), and the sections written then were
  \<open>secs0\<close>. If unlock leaves membership \<open>h\<close> usable, the ledger has exactly the section MACs that
  were written, so no section was added, removed or exchanged, and the section of \<open>h\<close> has the
  counters, the floor and the epoch size that were written, unless two named payloads collide
  under HMAC.
\<close>
theorem unlock_detects_ledger_tamper:
  assumes "unlock env pw salt ur w s d = (Inr n, s', d')" "in_sealed (st_inner s) = Some f"
    and "(h, entry) \<in> set (sf_credentials f)" "\<not> is_quarantined (st_inner s') h"
    and "derive_keys env pw (sf_kdf f) = Inr keys" "in_store_uuid (st_inner s) = Some uuid" "length uuid = 16"
    and "in_root_mac_raw (st_inner s) = Some (mac env (sk_ledger keys) (root_mac_payload (written_macs secs0) uuid))"
    and "bt_wf (in_raw_sections (st_inner s))" "bt_wf secs0"
    and "\<forall>(g, sec) \<in> set secs0. section_mac_ok env keys g sec uuid \<and> hex_to_bytes32 (sec_mac sec) \<noteq> None"
    and "macs_bounded (stored_macs (st_inner s))" "macs_bounded (written_macs secs0)"
    and "\<forall>(g, sec) \<in> set (in_raw_sections (st_inner s)) \<union> set secs0. section_bounded g (sec_allocations sec)"
  shows "(stored_macs (st_inner s) = written_macs secs0 \<and>
      (\<exists>sec sec0. bt_get (in_raw_sections (st_inner s)) h = Some sec \<and> bt_get secs0 h = Some sec0 \<and>
         (same_content sec sec0 \<or>
          section_payload h sec uuid \<noteq> section_payload h sec0 uuid \<and>
          mac env (sk_ledger keys) (section_payload h sec uuid) = mac env (sk_ledger keys) (section_payload h sec0 uuid)))) \<or>
    (root_mac_payload (stored_macs (st_inner s)) uuid \<noteq> root_mac_payload (written_macs secs0) uuid \<and>
     mac env (sk_ledger keys) (root_mac_payload (stored_macs (st_inner s)) uuid) =
     mac env (sk_ledger keys) (root_mac_payload (written_macs secs0) uuid))"
proof -
  let ?i = "st_inner s"
  have ne: "sf_credentials f \<noteq> []" using assms(3) by auto
  from assms(1,2) ne have acc: "(\<exists>sec. bt_get (in_raw_sections ?i) h = Some sec \<and> section_mac_ok env keys h sec uuid)"
    "root_ok env keys ?i uuid"
  proof (atomize (full), rule unlock_existing_okD)
    fix keys' uuid'
    assume k: "derive_keys env pw (sf_kdf f) = Inr keys'" "in_store_uuid ?i = Some uuid'"
      and i': "st_inner s' = ?i \<lparr> in_keyed_quarantined := keyed_verification env keys' ?i f uuid',
         in_session := Some \<lparr> ss_password = pw, ss_keys = keys' \<rparr> \<rparr>"
    have "keys' = keys" "uuid' = uuid" using k assms(5,6) by auto
    then show "(\<exists>sec. bt_get (in_raw_sections ?i) h = Some sec \<and> section_mac_ok env keys h sec uuid) \<and> root_ok env keys ?i uuid"
      using keyed_verification_accepts [OF _ _ assms(3), of env keys ?i uuid] assms(4) i'
      by (simp add: is_quarantined_def)
  qed
  then obtain sec where sec: "bt_get (in_raw_sections ?i) h = Some sec" "section_mac_ok env keys h sec uuid" by blast
  show ?thesis
  proof (cases "root_mac_payload (stored_macs ?i) uuid = root_mac_payload (written_macs secs0) uuid \<or>
      mac env (sk_ledger keys) (root_mac_payload (stored_macs ?i) uuid) \<noteq>
      mac env (sk_ledger keys) (root_mac_payload (written_macs secs0) uuid)")
    case True
    have macs: "stored_macs ?i = written_macs secs0"
      using root_ok_macs [OF acc(2) assms(8) True assms(12,13,7)] .
    obtain m where m: "hex_to_bytes32 (sec_mac sec) = Some m"
      using stored_macs_full [of ?i h sec] acc(2) bt_get_SomeD [OF sec(1)] by (auto simp: root_ok_def)
    then have "bt_get (written_macs secs0) h = Some m"
      using macs bt_get_stored_macs [OF assms(9), of h] sec(1) by simp
    then obtain sec0 where sec0: "bt_get secs0 h = Some sec0" and m0: "hex_to_bytes32 (sec_mac sec0) = Some m"
      using assms(11) bt_get_SomeD [of secs0 h]
      by (fastforce simp: written_macs_def bt_get_map_values)
    have ok0: "section_mac_ok env keys h sec0 uuid" using assms(11) bt_get_SomeD [OF sec0] by auto
    have tags: "mac env (sk_ledger keys) (section_payload h sec uuid) = mac env (sk_ledger keys) (section_payload h sec0 uuid)"
      using section_mac_ok_tag [OF sec(2) m] section_mac_ok_tag [OF ok0 m0] by (simp add: section_payload_def)
    have bnd: "section_bounded h (sec_allocations sec)" "section_bounded h (sec_allocations sec0)"
      using assms(14) bt_get_SomeD [OF sec(1)] bt_get_SomeD [OF sec0] by auto
    have "same_content sec sec0" if "section_payload h sec uuid = section_payload h sec0 uuid"
      using section_mac_payload_inj [OF bnd assms(7,7) that [unfolded section_payload_def]]
      by (simp add: same_content_def)
    then show ?thesis using macs sec(1) sec0 tags by blast
  qed blast
qed

theorem unlock_detects_ledger_tamper_witness:
  "\<exists>s'. unlock sample_env ''pw'' None None WriteOk sample_locked empty_disk = (Inr 1, s', empty_disk) \<and>
     \<not> is_quarantined (st_inner s') ''h'' \<and> stored_macs (st_inner sample_locked) = written_macs sample_sections"
proof -
  obtain s' where u: "unlock sample_env ''pw'' None None WriteOk sample_locked empty_disk = (Inr 1, s', empty_disk)"
    and nq: "\<not> is_quarantined (st_inner s') ''h''"
    using sample_unlock_ok by (auto simp: is_quarantined_def)
  have f: "in_sealed (st_inner sample_locked) = Some sample_sealed"
    "(''h'', sample_entry) \<in> set (sf_credentials sample_sealed)"
    "in_store_uuid (st_inner sample_locked) = Some (replicate 16 1)"
    "in_raw_sections (st_inner sample_locked) = sample_sections"
    "in_root_mac_raw (st_inner sample_locked) = Some sample_root"
    by (simp_all add: sample_locked_def sample_inner_def sample_sealed_def)
  have d: "derive_keys sample_env ''pw'' (sf_kdf sample_sealed) = Inr sample_keys"
    using sample_derive by (simp add: sample_sealed_def sealed_file_provision_def)
  have m: "macs_bounded (written_macs sample_sections)"
    by (simp add: macs_bounded_def written_macs_def sample_sections_def stamped_section_def sample_mac_length Let_def)
  have t: "hex_to_bytes32 (sec_mac (stamped_section sample_env sample_keys ''h'' default_allocation_state (replicate 16 1))) \<noteq> None"
    by (simp add: stamped_section_def sample_mac_length Let_def)
  have "stored_macs (st_inner sample_locked) = written_macs sample_sections \<or>
    root_mac_payload (stored_macs (st_inner sample_locked)) (replicate 16 1) \<noteq>
      root_mac_payload (written_macs sample_sections) (replicate 16 1)"
    using unlock_detects_ledger_tamper [OF u f(1,2) nq d f(3) _ f(5) [unfolded sample_root_def], of]
      m t f(4) sample_stored_macs
    by (auto simp: bt_wf_def sample_sections_def section_bounded_def stamped_section_def default_allocation_state_def Let_def)
  then show ?thesis using u nq sample_stored_macs by blast
qed

end
