(* ===== verification/Store_Methods.thy ===== *)
theory Store_Methods
  imports Store_Props
begin

text \<open>
  The remaining method contracts of the sealed store: unlock is all-or-nothing, a closed store
  is inert, an inserted credential is released unchanged, cache updates stay inside the cache,
  and two places where the write path admits a state the read path or the budget read does not.
\<close>

section \<open>Unlock is all-or-nothing\<close>

lemma unlock_provision_error:
  "unlock_provision env pw salt ur w s d = (Inl e, s', d') \<Longrightarrow> s' = s \<and> (w = WriteOk \<longrightarrow> d' = d)"
  by (cases w) (auto simp: unlock_provision_def Let_def split: sum.splits option.splits)

lemma unlock_existing_error: "unlock_existing env pw s = (Inl e, s') \<Longrightarrow> s' = s"
  by (auto simp: unlock_existing_def Let_def split: sum.splits option.splits if_splits)

definition credential_count :: "inner \<Rightarrow> nat" where
  "credential_count i = (case in_sealed i of None \<Rightarrow> 0 | Some f \<Rightarrow> length (sf_credentials f))"

lemma unlock_provision_ok:
  "unlock_provision env pw salt ur w s d = (Inr n, s', d') \<Longrightarrow> session_password s' = Some pw"
  by (cases w) (auto simp: unlock_provision_def session_password_def Let_def split: sum.splits option.splits)

lemma unlock_existing_ok: "unlock_existing env pw s = (Inr n, s') \<Longrightarrow> session_password s' = Some pw"
  by (auto simp: unlock_existing_def session_password_def Let_def split: sum.splits option.splits if_splits)

lemma unlock_cases:
  "unlock env pw salt ur w s d =
     (if \<not> in_lock (st_inner s) then (Inl (api_internal ''keystore is closed''), s, d)
      else if 0 < credential_count (st_inner s) \<and> all_quarantined (st_inner s)
      then (Inl (api_internal
             (''every keystore entry is quarantined (metadata tamper or a missing/rolled-back'' @
              '' rln_allocations.json); restore the keystore files from a backup'')), s, d)
      else if credential_count (st_inner s) = 0 then unlock_provision env pw salt ur w s d
      else (fst (unlock_existing env pw s), snd (unlock_existing env pw s), d))"
  by (simp add: unlock_def ensure_open_def credential_count_def Let_def case_prod_unfold)

text \<open>
  Unlock commits all or nothing and never guesses. On any error the store is unchanged, and
  so is the disk when credentials exist. A success needs an open store with at least one
  credential that passed the census (or none at all), whatever the KDF computes, so no password
  is adopted that nothing could verify; it installs the session password. When credentials exist
  and the derived verifier differs from the stored one, the answer is \<open>bad_password\<close>.
\<close>
lemma unlock_all_or_nothing:
  "(case unlock env pw salt ur w s d of
      (Inl e, s', d') \<Rightarrow> s' = s \<and> (0 < credential_count (st_inner s) \<longrightarrow> d' = d)
    | (Inr n, s', d') \<Rightarrow> in_lock (st_inner s) \<and>
        (credential_count (st_inner s) = 0 \<or> \<not> all_quarantined (st_inner s)) \<and>
        session_password s' = Some pw) \<and>
   (\<forall>f keys. in_lock (st_inner s) \<and> in_sealed (st_inner s) = Some f \<and> sf_credentials f \<noteq> [] \<and>
      \<not> all_quarantined (st_inner s) \<and> in_store_uuid (st_inner s) \<noteq> None \<and>
      derive_keys env pw (sf_kdf f) = Inr keys \<and>
      sk_verify keys \<noteq> (case hex_to_vec (sf_verifier f) of Some v \<Rightarrow> v | None \<Rightarrow> []) \<longrightarrow>
      unlock env pw salt ur w s d =
        (Inl (api_new BadPassword ''password does not open the existing keystore''), s, d))"
proof (intro conjI allI impI)
  obtain r s' d' where u: "unlock env pw salt ur w s d = (r, s', d')" by (metis prod_cases3)
  show "case unlock env pw salt ur w s d of
      (Inl e, s', d') \<Rightarrow> s' = s \<and> (0 < credential_count (st_inner s) \<longrightarrow> d' = d)
    | (Inr n, s', d') \<Rightarrow> in_lock (st_inner s) \<and>
        (credential_count (st_inner s) = 0 \<or> \<not> all_quarantined (st_inner s)) \<and>
        session_password s' = Some pw"
  proof (cases r)
    case (Inl e)
    then show ?thesis
      using u unlock_provision_error [of env pw salt ur w s d e s' d'] unlock_existing_error [of env pw s e s']
      by (auto simp: unlock_cases prod_eq_iff split: if_splits)
  next
    case (Inr n)
    then show ?thesis
      using u unlock_provision_ok [of env pw salt ur w s d n s' d'] unlock_existing_ok [of env pw s n s']
      by (auto simp: unlock_cases prod_eq_iff split: if_splits)
  qed
next
  fix f keys
  assume a: "in_lock (st_inner s) \<and> in_sealed (st_inner s) = Some f \<and> sf_credentials f \<noteq> [] \<and>
      \<not> all_quarantined (st_inner s) \<and> in_store_uuid (st_inner s) \<noteq> None \<and>
      derive_keys env pw (sf_kdf f) = Inr keys \<and>
      sk_verify keys \<noteq> (case hex_to_vec (sf_verifier f) of Some v \<Rightarrow> v | None \<Rightarrow> [])"
  then show "unlock env pw salt ur w s d =
        (Inl (api_new BadPassword ''password does not open the existing keystore''), s, d)"
    by (auto simp: unlock_cases credential_count_def unlock_existing_def Let_def)
qed

section \<open>A closed store is inert\<close>

text \<open>
  A closed store can do nothing. Once \<open>close\<close> released the directory lock, unlock, insert,
  cache update and reservation all refuse and change neither store nor disk, no plaintext
  credential is released and no session password is left.
\<close>
lemma closed_store_inert:
  "unlock env pw salt ur w (close_store s) d = (Inl (api_internal ''keystore is closed''), close_store s, d) \<and>
   insert_membership env nonce wa wc ws h ident cred rl (close_store s) d =
     (Inl (api_internal ''keystore is closed''), close_store s, d) \<and>
   update_cache w now h f (close_store s) d = (Inl (api_internal ''keystore is closed''), close_store s, d) \<and>
   reserve_message_id env w h rid ep c rl sz (close_store s) d =
     (Inl (api_internal ''keystore is closed''), close_store s, d) \<and>
   \<not> is_ok (unseal_credential env h (close_store s)) \<and> session_password (close_store s) = None"
  by (simp add: unlock_def insert_membership_def update_cache_def reserve_message_id_def unseal_credential_def
      session_password_def close_store_def ensure_open_def Let_def)

section \<open>Insertion and release\<close>

lemma insert_membership_okD:
  assumes "insert_membership env nonce wa wc ws h ident cred rl s d = (Inr (), s', d')"
  obtains ses u f pt n ct where "in_session (st_inner s) = Some ses" "in_store_uuid (st_inner s) = Some u"
    "in_sealed (st_inner s) = Some f" "credential_to_json env cred = Inr pt"
    "seal env nonce (sk_seal (ss_keys ses)) (credential_aad h ident u) pt = Inr (n, ct)"
    "in_lock (st_inner s)" "wa = WriteOk" "wc = WriteOk" "ws = WriteOk"
proof -
  have lk: "in_lock (st_inner s)" "in_session (st_inner s) \<noteq> None"
    using assms by (auto simp: insert_membership_def ensure_open_def split: if_splits)
  then obtain ses where ses: "in_session (st_inner s) = Some ses" by blast
  have i: "in_session (insert_section h (st_inner s)) = Some ses"
    "in_store_uuid (insert_section h (st_inner s)) = in_store_uuid (st_inner s)"
    "in_sealed (insert_section h (st_inner s)) = in_sealed (st_inner s)"
    using ses by (simp_all add: insert_section_def Let_def)
  have wa: "wa = WriteOk" "in_store_uuid (st_inner s) \<noteq> None"
    using assms lk i by (cases wa; auto simp: insert_membership_def ensure_open_def write_allocations_def Let_def
        split: option.splits)+
  then obtain u where u: "in_store_uuid (st_inner s) = Some u" by blast
  have wc: "wc = WriteOk"
    using assms lk i wa(1) u by (cases wc) (auto simp: insert_membership_def ensure_open_def write_allocations_def
        write_cache_def Let_def)
  have "ws = WriteOk \<and> (\<exists>f pt n ct. in_sealed (st_inner s) = Some f \<and> credential_to_json env cred = Inr pt \<and>
      seal env nonce (sk_seal (ss_keys ses)) (credential_aad h ident u) pt = Inr (n, ct))"
    using assms lk i wa(1) u wc
    by (cases ws) (auto simp: insert_membership_def ensure_open_def write_allocations_def write_cache_def
        insert_sealed_def insert_cache_row_def Let_def result_iffs split: option.splits sum.splits)
  then show ?thesis using that ses u lk(1) wa(1) wc by blast
qed

text \<open>
  C9: what was inserted is what is released. After a successful insert, the membership is not
  quarantined, its record is published as pending with the requested rate limit, its sealed file
  is on disk, and \<open>unseal_credential\<close> returns the credential that was inserted, given that the AEAD
  and the JSON codec invert themselves.
\<close>
theorem insert_then_unseal:
  assumes "insert_membership env (Some nonce) wa wc ws h ident cred rl s d = (Inr (), s', d')"
    and "aead_roundtrip env" "length nonce = 24"
    and "\<And>b. credential_to_json env cred = Inr b \<Longrightarrow> credential_from_json env b = Inr cred"
  shows "unseal_credential env h s' = Inr cred \<and>
    (\<exists>r. membership h s' = Some r \<and> mr_identity r = ident \<and> \<not> mr_quarantined r \<and>
       cs_state (mr_cache r) = Pending \<and> cs_rate_limit (mr_cache r) = Some rl) \<and>
    (\<exists>f. dk_sealed d' = Parsed f \<and> in_sealed (st_inner s') = Some f)"
  using assms(1)
proof (rule insert_membership_okD)
  fix ses u f pt n ct
  assume k: "in_session (st_inner s) = Some ses" "in_store_uuid (st_inner s) = Some u"
    "in_sealed (st_inner s) = Some f" "credential_to_json env cred = Inr pt"
    and sl: "seal env (Some nonce) (sk_seal (ss_keys ses)) (credential_aad h ident u) pt = Inr (n, ct)"
    and lk: "in_lock (st_inner s)" and ws: "wa = WriteOk" "wc = WriteOk" "ws = WriteOk"
  let ?e = "\<lparr> se_identity = ident, se_nonce = bytes_to_hex n, se_ct = bytes_to_hex ct \<rparr>"
  let ?f = "f \<lparr> sf_credentials := bt_insert h ?e (sf_credentials f) \<rparr>"
  obtain raw root where i': "st_inner s' = (insert_cache_row h rl (insert_section h (st_inner s)))
        \<lparr> in_sealed := Some ?f, in_raw_sections := raw, in_root_mac_raw := root \<rparr>"
    and snap: "st_snapshot s' = build_snapshot (st_inner s')" and dk: "dk_sealed d' = Parsed ?f"
    using insert_membership_ok [OF lk k sl, of rl d] assms(1) ws by auto
  have nq: "\<not> is_quarantined (st_inner s') h" and ses': "in_session (st_inner s') = Some ses"
    "in_store_uuid (st_inner s') = Some u" "in_sealed (st_inner s') = Some ?f"
    using k by (simp_all add: i' is_quarantined_def insert_cache_row_def insert_section_def Let_def)
  have us: "n = nonce" "unseal env (sk_seal (ss_keys ses)) n (credential_aad h ident u) ct = Inr pt"
    using unseal_seal [OF assms(2,3) sl] by auto
  have rel: "unseal_credential env h s' = Inr cred"
    using nq ses' us assms(4) k(4) by (simp add: unseal_credential_def Let_def)
  have c: "bt_get (in_cache (st_inner s')) h =
      Some (default_cache_state \<lparr> cs_state := Pending, cs_rate_limit := Some rl \<rparr>)"
    by (simp add: i' insert_cache_row_def)
  have "membership h s' = Some \<lparr> mr_hash = h, mr_identity = ident,
      mr_cache = default_cache_state \<lparr> cs_state := Pending, cs_rate_limit := Some rl \<rparr>,
      mr_alloc = (case bt_get (in_sections (st_inner s')) h of Some a \<Rightarrow> a | None \<Rightarrow> default_allocation_state),
      mr_quarantined = False \<rparr>"
    using nq c ses'(3) unfolding membership_def snap build_snapshot_def
    by (simp add: bt_get_map_values)
  then show ?thesis using rel ses'(3) dk by simp
qed

definition sample_codec_env :: store_env where
  "sample_codec_env = sample_env \<lparr> credential_from_json := (\<lambda>b. Inr sample_credential) \<rparr>"

theorem insert_then_unseal_witness:
  "aead_roundtrip sample_codec_env \<and>
   (\<exists>s s' d'. insert_membership sample_codec_env (Some (replicate 24 0)) WriteOk WriteOk WriteOk ''h''
       sample_identity sample_credential 3 s empty_disk = (Inr (), s', d') \<and>
     unseal_credential sample_codec_env ''h'' s' = Inr sample_credential)"
proof -
  let ?ses = "\<lparr> ss_password = ''pw'', ss_keys = sample_keys \<rparr>"
  let ?s = "with_inner sample_locked ((st_inner sample_locked) \<lparr> in_session := Some ?ses \<rparr>)"
  have rt: "aead_roundtrip sample_codec_env"
    by (auto simp: aead_roundtrip_def sample_codec_env_def sample_env_def)
  have "\<exists>s' d'. insert_membership sample_codec_env (Some (replicate 24 0)) WriteOk WriteOk WriteOk ''h''
       sample_identity sample_credential 3 ?s empty_disk = (Inr (), s', d')"
    using insert_membership_ok [where s = ?s and ses = ?ses and u = "replicate 16 1" and f = sample_sealed
        and env = sample_codec_env and cred = sample_credential and pt = "as_bytes ''s''"
        and nonce = "Some (replicate 24 0)" and h = "''h''" and ident = sample_identity]
    by (fastforce simp: sample_locked_def sample_inner_def sample_codec_env_def sample_env_def sample_credential_def seal_def)
  then obtain s' d' where i: "insert_membership sample_codec_env (Some (replicate 24 0)) WriteOk WriteOk WriteOk ''h''
       sample_identity sample_credential 3 ?s empty_disk = (Inr (), s', d')" by blast
  from insert_then_unseal [OF i rt] have "unseal_credential sample_codec_env ''h'' s' = Inr sample_credential"
    by (simp add: sample_codec_env_def)
  then show ?thesis using rt i by blast
qed

section \<open>Cache updates\<close>

text \<open>
  A cache update stays inside the cache. Whatever closure runs and however the write ends,
  the sealed file, the ledger, the in-memory sections, the quarantine sets and the session are
  untouched; every other membership's row is untouched; a success reports the state the row had
  and publishes the new row; a row left in an active-like state carries \<open>first_active_at\<close>, and a
  stamp already there is kept by every closure that does not write that field.
\<close>
lemma update_cache_contract:
  assumes "update_cache w now h f s d = (r, s', d')"
  shows "dk_sealed d' = dk_sealed d \<and> dk_allocations d' = dk_allocations d \<and>
    st_inner s' = (st_inner s) \<lparr> in_cache := in_cache (st_inner s') \<rparr> \<and>
    (\<forall>g. g \<noteq> h \<longrightarrow> bt_get (in_cache (st_inner s')) g = bt_get (in_cache (st_inner s)) g) \<and>
    (\<forall>p. r = Inr p \<longrightarrow>
       (\<exists>row. bt_get (in_cache (st_inner s')) h = Some row \<and>
          p = cs_state (case bt_get (in_cache (st_inner s)) h of Some c \<Rightarrow> c | None \<Rightarrow> default_cache_state) \<and>
          st_snapshot s' = build_snapshot (st_inner s') \<and>
          (is_active_like (cs_state row) \<longrightarrow> cs_first_active_at row \<noteq> None) \<and>
          (\<forall>old t. bt_get (in_cache (st_inner s)) h = Some old \<and> cs_first_active_at old = Some t \<and>
             (\<forall>c. cs_first_active_at (f c) = cs_first_active_at c) \<longrightarrow> cs_first_active_at row = Some t)))"
proof (cases "in_lock (st_inner s) \<and> sealed_contains (st_inner s) h")
  case False
  then have "s' = s" "d' = d" "\<exists>e. r = Inl e"
    using assms by (auto simp: update_cache_def ensure_open_def Let_def split: if_splits)
  then show ?thesis by auto
next
  case True
  let ?row = "case bt_get (in_cache (st_inner s)) h of Some c \<Rightarrow> c | None \<Rightarrow> default_cache_state"
  let ?i = "(st_inner s) \<lparr> in_cache := bt_insert h (stamp_first_active now (f ?row)) (in_cache (st_inner s)) \<rparr>"
  have d': "dk_sealed d' = dk_sealed d" "dk_allocations d' = dk_allocations d" and i': "st_inner s' = ?i"
    and r: "\<And>p. r = Inr p \<Longrightarrow> p = cs_state ?row \<and> st_snapshot s' = build_snapshot (st_inner s')"
    using assms True
    by (cases w; auto simp: update_cache_def ensure_open_def write_cache_def Let_def)+
  have st: "is_active_like (cs_state (stamp_first_active now c)) \<longrightarrow> cs_first_active_at (stamp_first_active now c) \<noteq> None"
    "cs_first_active_at c = Some t \<Longrightarrow> cs_first_active_at (stamp_first_active now c) = Some t" for c t
    by (auto simp: stamp_first_active_def)
  show ?thesis using d' r st by (auto simp: i')
qed

section \<open>Limits where the paths disagree\<close>

lemma length_bt_insert: "\<not> bt_contains m k \<Longrightarrow> length (bt_insert k v m) = Suc (length m)"
  by (induction k v m rule: bt_insert.induct) (auto simp: bt_contains_def bt_get_Cons split: if_splits)

lemma open_over_cap:
  assumes "dk_sealed d = Parsed f" "length (sf_credentials f) > MAX_CREDENTIALS" "rn_sealed rn"
  shows "\<exists>s2 d2. open_store cr dir LockTaken rn d = (Inr s2, d2) \<and> in_sealed (st_inner s2) = None \<and>
    \<not> has_credentials s2 \<and> dk_sealed d2 = Absent"
proof -
  have l: "load_sealed (rn_sealed rn) d = (Inr None, d \<lparr> dk_sealed := Absent \<rparr>)"
    using assms by (simp add: check_sealed_caps_def quarantine_file_def)
  have det: "detect (sealed_exists d) (dk_old_format d) \<noteq> OldOnly"
    using assms by (cases "dk_old_format d") (simp_all add: sealed_exists_def)
  obtain la c d2 where la: "load_allocations (rn_allocations rn) (d \<lparr> dk_sealed := Absent \<rparr>) None (open_census cr None) = (la, c, d2)"
    by (metis prod_cases3)
  obtain ca d3 where ca: "load_cache (rn_cache rn) d2 None = (ca, d3)" by fastforce
  have "dk_sealed d2 = Absent"
    using la by (auto simp: load_allocations_def Let_def split: file_state.splits if_splits prod.splits)
  then have "dk_sealed d3 = Absent"
    using ca by (auto simp: load_cache_def Let_def split: file_state.splits)
  then show ?thesis
    using det l la ca by (auto simp: open_store_def has_credentials_def build_snapshot_def Let_def)
qed

text \<open>
  The write path does not know the read path's credential cap. Inserting one more membership
  into a store that holds \<open>MAX_CREDENTIALS\<close> of them succeeds, and the next open then rejects the
  file it reads, moves it aside and comes up as an unprovisioned store without any credential.
\<close>
lemma insert_past_cap_loses_store:
  assumes "insert_membership env nonce wa wc ws h ident cred rl s d = (Inr (), s', d')"
    and "in_sealed (st_inner s) = Some f" "length (sf_credentials f) = MAX_CREDENTIALS"
    and "\<not> bt_contains (sf_credentials f) h" "rn_sealed rn"
  shows "\<exists>s2 d2. open_store cr dir LockTaken rn d' = (Inr s2, d2) \<and> in_sealed (st_inner s2) = None \<and>
    \<not> has_credentials s2 \<and> dk_sealed d2 = Absent"
  using assms(1)
proof (rule insert_membership_okD)
  fix ses u f0 pt n ct
  assume k: "in_session (st_inner s) = Some ses" "in_store_uuid (st_inner s) = Some u"
    "in_sealed (st_inner s) = Some f0" "credential_to_json env cred = Inr pt"
    and sl: "seal env nonce (sk_seal (ss_keys ses)) (credential_aad h ident u) pt = Inr (n, ct)"
    and lk: "in_lock (st_inner s)" and ws: "wa = WriteOk" "wc = WriteOk" "ws = WriteOk"
  have "f0 = f" using k(3) assms(2) by simp
  then have "dk_sealed d' = Parsed (f \<lparr> sf_credentials := bt_insert h \<lparr> se_identity = ident,
              se_nonce = bytes_to_hex n, se_ct = bytes_to_hex ct \<rparr> (sf_credentials f) \<rparr>)"
    using insert_membership_ok [OF lk k sl, of rl d] assms(1) ws by auto
  then show ?thesis
    by (rule open_over_cap) (use assms(3-5) in \<open>simp_all add: length_bt_insert\<close>)
qed

definition full_sealed :: sealed_file where
  "full_sealed = sample_sealed \<lparr> sf_credentials := map (\<lambda>i. (replicate i CHR ''a'', sample_entry)) [0..<1024] \<rparr>"

text \<open>
  A full section never empties, and the budget read does not say so. When a membership's
  section holds \<open>MAX_ROWS_PER_SECTION\<close> rows, every reservation that needs a new row is refused as
  permanent and changes nothing, even when every row lies below the caller's floor candidate and
  would be pruned; meanwhile \<open>remaining_budget\<close> reports the whole rate limit as available.
\<close>
lemma full_section_refused_forever:
  assumes "in_lock (st_inner s)" "in_session (st_inner s) \<noteq> None" "sealed_contains (st_inner s) h"
    and "\<not> is_quarantined (st_inner s) h" "bt_get (in_sections (st_inner s)) h = Some a"
    and "as_epoch_size_sec a = sz" "MAX_ROWS_PER_SECTION \<le> length (as_allocations a)"
    and "\<forall>r \<in> set (as_allocations a). ea_epoch r < c" "c \<le> ep" "as_prune_floor a \<le> ep"
  shows "reserve_message_id cr w h rid ep c rl sz s d = (Inl section_full_refusal, s, d) \<and>
    remaining_budget h rid ep rl sz s = Inr rl"
proof -
  have none: "\<not> row_matches rid ep r" if "r \<in> set (as_allocations a)" for r
    using that assms(8,9) by (auto simp: row_matches_def)
  then have "\<not> row_exists a rid ep" by (auto simp: row_exists_def list_ex_iff)
  moreover have "find (row_matches rid ep) (as_allocations a) = None" using none by (auto simp: find_None_iff)
  ultimately show ?thesis
    using assms by (auto simp: reserve_message_id_def remaining_budget_def ensure_open_def reservation_guards_def
        WRITE_ROW_CAP_def remaining_def used_slots_def saturating_sub_def Let_def)
qed

definition full_alloc :: allocation_state where
  "full_alloc = \<lparr> as_allocations = map (\<lambda>i. \<lparr> ea_rln_identifier = replicate i CHR ''a'', ea_epoch = 1, ea_used = 1 \<rparr>) [0..<4096],
     as_epoch_size_sec = 600, as_prune_floor = 0 \<rparr>"

end
