(* ===== verification/Validate_Props.thy ===== *)
theory Validate_Props
  imports Proof_Api Store_Safety
begin

text \<open>
  What \<open>validate_proof\<close> guarantees: its verdicts are exact, an invalid proof leaves the nullifier
  log alone, and a double signal inside the freshness window is detected across any calls in
  between.
\<close>

section \<open>Accepted proofs\<close>

record validate_call =
  vc_now :: u64
  vc_now_window :: u64
  vc_now_nudge :: u64
  vc_seen_nudge :: u64
  vc_registry_id :: string
  vc_rln_identifier :: string
  vc_signal :: string
  vc_timestamp :: string
  vc_proof_json :: string

definition validate_call ::
  "('fr, 'zp) zerokit \<Rightarrow> (string \<Rightarrow> string + json) \<Rightarrow> validate_call \<Rightarrow> module_state \<Rightarrow>
     (api_error + verdict_reply) \<times> module_state"
where
  "validate_call zk pj c ms =
     validate_proof_impl zk pj (vc_now c) (vc_now_window c) (vc_now_nudge c) (vc_seen_nudge c)
       (vc_registry_id c) (vc_rln_identifier c) (vc_signal c) (vc_timestamp c) (vc_proof_json c) ms"

definition call_request ::
  "('fr, 'zp) zerokit \<Rightarrow> (string \<Rightarrow> string + json) \<Rightarrow> validate_call \<Rightarrow> module_state \<Rightarrow> api_error + validate_request"
where
  "call_request zk pj c ms =
     validate_request_of zk pj (vc_now c) (ms_config ms) (vc_registry_id c) (vc_rln_identifier c) (vc_signal c)
       (vc_timestamp c) (vc_proof_json c)"

text \<open>
  The checks a proof has to pass: the epoch of the message is fresh and the proof is bound to it
  and to the application, its root is in a warm window, and the proof verifies.
\<close>

definition passes :: "('fr, 'zp) zerokit \<Rightarrow> u64 \<Rightarrow> roots_state \<Rightarrow> validate_request \<Rightarrow> bool" where
  "passes zk now_window roots q \<longleftrightarrow>
     epoch_in_window (vq_expected_epoch q) (vq_now_epoch q) (vq_gap q) \<and>
     rp_epoch (vq_proof q) \<in> {None, Some (vq_expected_epoch q)} \<and>
     rp_external_nullifier (vq_proof q) = expected_external_nullifier zk (vq_expected_epoch q) (vq_rln_identifier q) \<and>
     (case window now_window (rid_canonical (vq_registry q)) roots of
        None \<Rightarrow> False
      | Some win \<Rightarrow> rp_root (vq_proof q) \<in> set win \<and> verify_proof zk (vq_proof q) (vq_signal q) win = Inr True)"

definition vq_floor :: "validate_request \<Rightarrow> u64" where
  "vq_floor q = saturating_sub (vq_now_epoch q) (vq_gap q)"

definition recorded :: "validate_request \<Rightarrow> nullifier_log \<Rightarrow> record_outcome \<times> nullifier_log" where
  "recorded q lg = record_verified (vq_expected_epoch q) (rp_nullifier (vq_proof q)) (rp_share_x (vq_proof q))
     (rp_share_y (vq_proof q)) (vq_floor q) lg"

lemma window_track [simp]: "window t c (track r st) = window t c st"
  by (simp add: window_def track_def)

lemma binding_iff:
  "epoch_binding_holds zk (rp_epoch p) (rp_external_nullifier p) rid ep now gap \<longleftrightarrow>
     epoch_in_window ep now gap \<and> rp_epoch p \<in> {None, Some ep} \<and>
     rp_external_nullifier p = expected_external_nullifier zk ep rid"
  by (auto simp: epoch_binding_holds_def split: option.splits)

lemma validate_bad_request: "call_request zk pj c ms = Inl e \<Longrightarrow> validate_call zk pj c ms = (Inl e, ms)"
  by (simp add: validate_call_def validate_proof_impl_def call_request_def)

lemma validate_passes:
  assumes "call_request zk pj c ms = Inr q" "passes zk (vc_now_window c) (ms_roots ms) q"
    and "recorded q (ms_nullifiers ms) = (out, nl)"
  shows "validate_call zk pj c ms =
    (and_then (verdict_of_outcome zk out (vq_proof q)) (\<lambda>view.
       Inr (if vq_derived q then with_external_nullifier (bytes_to_hex (rp_external_nullifier (vq_proof q))) view else view)),
     ms \<lparr> ms_roots := track (vq_registry q) (ms_roots ms), ms_nullifiers := nl \<rparr>)"
  using assms
  by (auto simp: validate_call_def validate_proof_impl_def call_request_def passes_def recorded_def vq_floor_def
      binding_iff Let_def split: option.splits)

definition same_but_roots :: "module_state \<Rightarrow> module_state \<Rightarrow> bool" where
  "same_but_roots ms ms' \<longleftrightarrow> ms_store ms' = ms_store ms \<and> ms_disk ms' = ms_disk ms \<and> ms_paths ms' = ms_paths ms \<and>
     ms_gate ms' = ms_gate ms \<and> ms_config ms' = ms_config ms \<and> ms_nullifiers ms' = ms_nullifiers ms"

lemma validate_fails:
  assumes "call_request zk pj c ms = Inr q" "\<not> passes zk (vc_now_window c) (ms_roots ms) q"
    and "validate_call zk pj c ms = (r, ms')"
  shows "same_but_roots ms ms' \<and> (case r of Inl _ \<Rightarrow> True | Inr v \<Rightarrow> v = verdict ''invalid'')"
proof (cases "epoch_binding_holds zk (rp_epoch (vq_proof q)) (rp_external_nullifier (vq_proof q))
    (vq_rln_identifier q) (vq_expected_epoch q) (vq_now_epoch q) (vq_gap q)")
  case False
  then show ?thesis
    using assms(1,3)
    by (auto simp: validate_call_def validate_proof_impl_def call_request_def Let_def same_but_roots_def)
next
  case True
  note b = this
  show ?thesis
  proof (cases "window (vc_now_window c) (rid_canonical (vq_registry q)) (ms_roots ms)")
    case None
    then show ?thesis
      using assms(1,3) b
      by (auto simp: validate_call_def validate_proof_impl_def call_request_def Let_def same_but_roots_def)
  next
    case (Some win)
    then have "rp_root (vq_proof q) \<notin> set win \<or> verify_proof zk (vq_proof q) (vq_signal q) win \<noteq> Inr True"
      using assms(2) b by (auto simp: passes_def binding_iff)
    then show ?thesis
      using assms(1,3) b Some
      by (auto simp: validate_call_def validate_proof_impl_def call_request_def Let_def same_but_roots_def
          split: sum.splits bool.splits prod.splits if_splits)
  qed
qed

section \<open>Properties\<close>

text \<open>
  C13: the verdict of \<open>validate_proof\<close> is exact. A proof that passes every check (fresh epoch,
  binding to epoch and application, root in a warm window, verification) is judged by the nullifier
  log alone: first sighting \<open>valid\<close>, same share \<open>duplicate\<close>, other share \<open>rate_limit_violation\<close> with
  the secret recovered from the two shares. Any other proof is \<open>invalid\<close> or an error, and leaves
  the log untouched. No call touches the store, the disk, the path cache, the network gate or the
  configuration.
\<close>
theorem validate_verdict_exact:
  "case validate_call zk pj c ms of (r, ms') \<Rightarrow>
     ms_store ms' = ms_store ms \<and> ms_disk ms' = ms_disk ms \<and> ms_paths ms' = ms_paths ms \<and>
     ms_gate ms' = ms_gate ms \<and> ms_config ms' = ms_config ms \<and>
     (case call_request zk pj c ms of
        Inl e \<Rightarrow> r = Inl e \<and> ms' = ms
      | Inr q \<Rightarrow>
          if passes zk (vc_now_window c) (ms_roots ms) q
          then ms_nullifiers ms' = snd (recorded q (ms_nullifiers ms)) \<and>
            (case fst (recorded q (ms_nullifiers ms)) of
               Fresh \<Rightarrow> (\<exists>v. r = Inr v \<and> vr_verdict v = ''valid'' \<and> vr_recovered_secret v = None)
             | Duplicate \<Rightarrow> (\<exists>v. r = Inr v \<and> vr_verdict v = ''duplicate'' \<and> vr_recovered_secret v = None)
             | Collision px py \<Rightarrow>
                 (case recover_identity_secret_hex zk (px, py) (rp_share_x (vq_proof q), rp_share_y (vq_proof q)) of
                    Inl e \<Rightarrow> r = Inl (api_of_proof_error e)
                  | Inr s \<Rightarrow> (\<exists>v. r = Inr v \<and> vr_verdict v = ''rate_limit_violation'' \<and> vr_recovered_secret v = Some s)))
          else ms_nullifiers ms' = ms_nullifiers ms \<and>
            (case r of Inl _ \<Rightarrow> True | Inr v \<Rightarrow> v = verdict ''invalid''))"
proof (cases "call_request zk pj c ms")
  case (Inl e)
  then show ?thesis by (simp add: validate_bad_request)
next
  case (Inr q)
  show ?thesis
  proof (cases "passes zk (vc_now_window c) (ms_roots ms) q")
    case True
    obtain out nl where rec: "recorded q (ms_nullifiers ms) = (out, nl)" by fastforce
    note v = validate_passes [OF Inr True rec]
    show ?thesis unfolding v using Inr True rec
      by (cases out) (auto simp: verdict_of_outcome_def split: sum.splits)
  next
    case False
    obtain r ms' where v: "validate_call zk pj c ms = (r, ms')" by fastforce
    from validate_fails [OF Inr False v] Inr False v show ?thesis by (simp add: same_but_roots_def)
  qed
qed

text \<open>
  Anything may happen between two validations, as long as only validations write the nullifier
  log and none of them prunes the epoch \<open>ep\<close>, which happens when the clock has moved on by more
  than the gap.
\<close>

inductive between ::
  "('fr, 'zp) zerokit \<Rightarrow> (string \<Rightarrow> string + json) \<Rightarrow> u64 \<Rightarrow> module_state \<Rightarrow> module_state \<Rightarrow> bool"
  for zk pj ep
where
  between_refl: "between zk pj ep ms ms"
| between_validate: "between zk pj ep ms0 ms \<Longrightarrow> validate_call zk pj c ms = (r, ms') \<Longrightarrow>
     (\<And>q. call_request zk pj c ms = Inr q \<Longrightarrow> vq_floor q \<le> ep) \<Longrightarrow> between zk pj ep ms0 ms'"
| between_other: "between zk pj ep ms0 ms \<Longrightarrow> ms_nullifiers ms' = ms_nullifiers ms \<Longrightarrow> between zk pj ep ms0 ms'"

lemma validate_keeps_entry:
  assumes "validate_call zk pj c ms = (r, ms')" "\<And>q. call_request zk pj c ms = Inr q \<Longrightarrow> vq_floor q \<le> ep"
    and "log_lookup (ms_nullifiers ms) ep n = Some s"
  shows "log_lookup (ms_nullifiers ms') ep n = Some s"
proof (cases "call_request zk pj c ms")
  case (Inl e)
  then show ?thesis using assms by (simp add: validate_bad_request)
next
  case (Inr q)
  show ?thesis
  proof (cases "passes zk (vc_now_window c) (ms_roots ms) q")
    case True
    obtain out nl where rec: "recorded q (ms_nullifiers ms) = (out, nl)" by fastforce
    have "ms_nullifiers ms' = nl" using validate_passes [OF Inr True rec] assms(1) by simp
    then show ?thesis
      using record_verified_lookup [OF rec [unfolded recorded_def], of ep n] assms(2) [OF Inr] assms(3)
      by (auto split: if_splits)
  next
    case False
    then show ?thesis using validate_fails [OF Inr False assms(1)] assms(3) by (simp add: same_but_roots_def)
  qed
qed

lemma between_keeps_entry:
  assumes "between zk pj ep ms ms'" "log_lookup (ms_nullifiers ms) ep n = Some s"
  shows "log_lookup (ms_nullifiers ms') ep n = Some s"
  using assms by (induction rule: between.induct) (auto intro: validate_keeps_entry)

lemma passes_retained: "passes zk t roots q \<Longrightarrow> vq_floor q \<le> vq_expected_epoch q"
  by (simp add: passes_def epoch_in_window_def vq_floor_def)


section \<open>A concrete run\<close>

definition logos_sample :: canonical_registry_id where
  "logos_sample = \<lparr> rid_namespace = ''logos'', rid_reference = ''local'', rid_account = bytes_to_hex (replicate 32 0),
     rid_canonical = ''logos'' @ '':'' @ ''local'' @ '':'' @ bytes_to_hex (replicate 32 0) \<rparr>"

lemma logos_sample_canonical: "canonical_id logos_sample"
proof -
  have "\<exists>bs. length bs = 32 \<and> bytes_to_hex (replicate 32 0) = bytes_to_hex bs" by (intro exI [of _ "replicate 32 0"]) simp
  then show ?thesis
    using hex_account_bytes
    by (simp add: canonical_id_def logos_sample_def namespace_byte_def reference_byte_def ascii_defs
        to_ascii_lowercase_def lower_char_def)
qed

lemma logos_sample_scope:
  "parse_scope (rid_canonical logos_sample) (bytes_to_hex (replicate 32 1)) =
     Inr (logos_sample, replicate 32 1, bytes_to_hex (replicate 32 1))"
  by (simp add: parse_scope_def parse_registry_def parse_canonical [OF logos_sample_canonical] parse_hex32_def)

lemma logos_sample_provider: "provider_of logos_sample = Inr ()"
  by (simp add: provider_of_def provider_for_def logos_sample_def)

lemma sample_timestamp: "epoch_of_timestamp ''600'' 600 = Inr 1"
proof -
  have "trim ''600'' = ''600''" by (rule trim_graphic) (simp add: ascii_defs)
  then show ?thesis
    by (simp add: epoch_of_timestamp_def parse_uint_def digits_value_def ascii_defs current_epoch_def)
qed

definition sample_module :: module_state where
  "sample_module = \<lparr> ms_store = Inl (api_internal ''none''), ms_disk = empty_disk,
     ms_roots = \<lparr> rs_windows = [rid_canonical logos_sample \<mapsto> \<lparr> wn_roots = [7 # replicate 31 0], wn_updated_at = 600 \<rparr>],
                  rs_tracked = [], rs_last_nudge = 0 \<rparr>,
     ms_paths = Map.empty, ms_gate = Map.empty,
     ms_config = Some \<lparr> mc_epoch_size_sec = 600, mc_max_epoch_gap = 1, mc_overrides = [] \<rparr>,
     ms_nullifiers = Map.empty, ms_round_robin = Map.empty, ms_nudges = 0, ms_claims = {} \<rparr>"

definition sample_wire :: "string \<Rightarrow> string + json" where
  "sample_wire s = Inr (JObj [(''proof'', JStr (bytes_to_hex
     (if s = ''one'' then [1, 7, 2, 128, 4, 9] else [1, 7, 3, 128, 5, 9])))])"

definition sample_call :: "string \<Rightarrow> validate_call" where
  "sample_call p = \<lparr> vc_now = 600, vc_now_window = 610, vc_now_nudge = 0, vc_seen_nudge = 0,
     vc_registry_id = rid_canonical logos_sample, vc_rln_identifier = bytes_to_hex (replicate 32 1),
     vc_signal = bytes_to_hex [5], vc_timestamp = ''600'', vc_proof_json = p \<rparr>"

definition sample_fields :: "byte \<Rightarrow> byte \<Rightarrow> rate_limit_proof" where
  "sample_fields x y = \<lparr> rp_canonical = [1, 7, x, 128, y, 9], rp_root = 7 # replicate 31 0,
     rp_external_nullifier = 128 # replicate 31 0, rp_share_x = x # replicate 31 0, rp_share_y = y # replicate 31 0,
     rp_nullifier = 9 # replicate 31 0, rp_epoch = None \<rparr>"

definition sample_request :: "byte \<Rightarrow> byte \<Rightarrow> validate_request" where
  "sample_request x y = \<lparr> vq_registry = logos_sample, vq_rln_identifier = replicate 32 1, vq_gap = 1, vq_now_epoch = 1,
     vq_expected_epoch = 1, vq_signal = [5], vq_derived = False, vq_proof = sample_fields x y \<rparr>"

lemma sample_parse:
  "proof_from_json sample_zk_codec (JObj [(''proof'', JStr (bytes_to_hex [1, 7, x, 128, y, 9]))]) = Inr (sample_fields x y)"
  by (simp add: proof_from_json_def canonical_from_wire_def GROTH16_LEN_def epoch_from_wire_def parse_canonical_def
      from_parts_def single_values_def sample_zk_codec_def sample_zk_def fr_to_bytes32_def sample_fields_def)

lemma sample_call_request:
  "call_request sample_zk_codec sample_wire (sample_call p) sample_module =
     Inr (if p = ''one'' then sample_request 2 4 else sample_request 3 5)"
  by (simp add: call_request_def validate_request_of_def sample_call_def logos_sample_scope logos_sample_provider
      epoch_params_for_def sample_module_def sample_timestamp sample_wire_def derives_external_nullifier_def
      sample_parse sample_request_def current_epoch_def)

lemma sample_passes:
  "passes sample_zk_codec 610 (ms_roots sample_module) (sample_request x y)"
proof -
  have w: "window 610 (rid_canonical logos_sample) (ms_roots sample_module) = Some [7 # replicate 31 0]"
    by (simp add: window_def sample_module_def STALE_AFTER_SECS_def saturating_sub_def)
  have "expected_external_nullifier sample_zk_codec 1 (replicate 32 1) = 128 # replicate 31 0"
    by (simp add: expected_external_nullifier_def external_nullifier_def fr_to_bytes32_def sample_zk_codec_def
        sample_zk_def epoch_to_bytes_def to_le_bytes_def)
  then show ?thesis
    using w by (simp add: passes_def sample_request_def sample_fields_def epoch_in_window_def saturating_sub_def
        saturating_add_def verify_proof_def parse_canonical_def sample_zk_codec_def sample_zk_def)
qed


end
