(* ===== verification/Generate_Props.thy ===== *)
theory Generate_Props
  imports Validate_Props Store_Props
begin

text \<open>
  What \<open>generate_proof\<close> guarantees: it spends at most one slot, only after everything that can fail
  without a slot has succeeded, and a proof it returns passes the module's own validation.
\<close>

section \<open>One reservation\<close>

lemma choose_membership_usable:
  assumes "choose_membership env s q rr = Inr c"
  shows "\<exists>r \<in> set (scope_candidates (records_for_registry s (pq_registry q)) (pq_rln_id_hex q)).
    mr_hash r = cm_hash c \<and> \<not> mr_quarantined r \<and> is_usable (cs_state (mr_cache r))"
proof -
  let ?rs = "scope_candidates (records_for_registry s (pq_registry q)) (pq_rln_id_hex q)"
  from assms have sel: "fst (select_hash ?rs (rid_canonical (pq_registry q), pq_rln_id_hex q) NoSelector rr) = Inr (cm_hash c)"
    by (auto simp: choose_membership_def result_iffs)
  then have "candidates ?rs \<noteq> []" "cm_hash c = fst (candidates ?rs ! 0)"
    by (auto simp: select_hash_def Let_def split: if_splits)
  then have "cm_hash c \<in> fst ` set (candidates ?rs)" by (metis length_greater_0_conv nth_mem image_eqI)
  then show ?thesis by (auto simp: set_candidates)
qed

definition request_floor :: "proof_request \<Rightarrow> u64" where
  "request_floor q = saturating_sub (pq_now_epoch q) (pq_gap q)"

lemma request_fresh:
  "proof_request_of now cfg reg rid sig ts = Inr q \<Longrightarrow>
     epoch_in_window (pq_epoch q) (pq_now_epoch q) (pq_gap q)"
  by (auto simp: proof_request_of_def fresh_epoch_for_def result_iffs Let_def split: if_splits)

lemma proof_reply_fields:
  "get_u64 (proof_reply p mid ep h) ''message_id'' = Some mid"
  "get_u64 (proof_reply p mid ep h) ''epoch_index'' = Some ep"
  "get_str (proof_reply p mid ep h) ''membership_hash'' = Some h"
  "get_str (proof_reply p mid ep h) ''proof_canonical'' = Some (canonical_hex p)"
  by (simp_all add: proof_reply_def proof_to_json_def split: option.splits)

lemma generate_cases:
  assumes "generate_proof_impl env zk sb now na w reg rid sig ts ms = (r, ms')"
  obtains (before) e where "r = Inl e" "ms_store ms' = ms_store ms" "ms_disk ms' = ms_disk ms"
  | (reserved) s q c res s' d' where "ms_store ms = Inr s"
      "proof_request_of now (ms_config ms) reg rid sig ts = Inr q"
      "choose_membership env s q (ms_round_robin ms) = Inr c"
      "reserve_message_id env w (cm_hash c) (pq_rln_id_hex q) (pq_epoch q) (request_floor q) (cm_rate_limit c)
         (pq_size q) s (ms_disk ms) = (res, s', d')"
      "ms_store ms' = Inr s'" "ms_disk ms' = d'"
      "case res of
         Inl e \<Rightarrow> r = Inl e
       | Inr mid \<Rightarrow> (\<exists>e. r = Inl (api_of_proof_error e)) \<or>
           (\<exists>m rlp. wm_message_id m = mid \<and> wm_rate_limit m = cm_rate_limit c \<and>
              wm_identity_secret_hash_hex m = sc_identity_secret_hash (cm_credential c) \<and>
              generate zk m (pq_signal q) (pq_epoch q) (pq_rln_identifier q) = Inr rlp \<and>
              r = Inr (proof_reply rlp mid (pq_epoch q) (cm_hash c)))"
proof (cases "proof_request_of now (ms_config ms) reg rid sig ts")
  case (Inl e)
  then show thesis using assms before by (auto simp: generate_proof_impl_def)
next
  case (Inr q)
  note q = this
  show thesis
  proof (cases "ms_store ms")
    case (Inl e)
    then show thesis using assms q before by (auto simp: generate_proof_impl_def Let_def)
  next
    case (Inr s)
    note s = this
    show thesis
    proof (cases "choose_membership env s q (ms_round_robin ms)")
      case (Inl e)
      then show thesis using assms q s before by (auto simp: generate_proof_impl_def Let_def)
    next
      case (Inr c)
      note c = this
      obtain pr paths roots g where p: "proof_path zk sb na (pq_registry q) (cm_hash c) (cm_leaf_index c) (ms_paths ms)
          (track (pq_registry q) (ms_roots ms)) (ms_gate ms) = (pr, paths, roots, g)" by (metis prod_cases4)
      show thesis
      proof (cases pr)
        case (Inl e)
        then show thesis using assms q s c p before by (auto simp: generate_proof_impl_def Let_def)
      next
        case (Inr path)
        obtain els idx where path: "path = (els, idx)" by (cases path)
        obtain res s' d' where re: "reserve_message_id env w (cm_hash c) (pq_rln_id_hex q) (pq_epoch q) (request_floor q)
            (cm_rate_limit c) (pq_size q) s (ms_disk ms) = (res, s', d')" by (metis prod_cases3)
        show thesis
          by (rule reserved [OF s q c re])
            (use assms q s c p Inr path re in \<open>auto simp: generate_proof_impl_def Let_def request_floor_def
               split: sum.splits intro!: exI\<close>)
      qed
    qed
  qed
qed

lemma generate_frame:
  assumes "generate_proof_impl env zk sb now na w reg rid sig ts ms = (r, ms')"
  shows "ms_nullifiers ms' = ms_nullifiers ms \<and> ms_config ms' = ms_config ms \<and> ms_round_robin ms' = ms_round_robin ms"
  using assms by (auto simp: generate_proof_impl_def Let_def split: sum.splits prod.splits)

text \<open>
  C15: \<open>generate_proof\<close> spends at most one slot, last. Either the call fails having left the store
  and the disk exactly as they were, or it chose a usable, non-quarantined membership backing the
  scope, at an epoch inside the freshness window, and made exactly one reservation for it; the
  store and disk afterwards are that reservation's. If the reservation fails its error is the
  reply; if it succeeds the reply is either the engine's error, with the slot spent, or a proof
  whose \<open>message_id\<close>, \<open>epoch_index\<close> and \<open>membership_hash\<close> are those of the slot.
\<close>
theorem generate_one_reservation:
  "case generate_proof_impl env zk sb now na w reg rid sig ts ms of (r, ms') \<Rightarrow>
     ms_nullifiers ms' = ms_nullifiers ms \<and> ms_config ms' = ms_config ms \<and>
     ((\<exists>e. r = Inl e \<and> ms_store ms' = ms_store ms \<and> ms_disk ms' = ms_disk ms) \<or>
      (\<exists>s q c res s' d'. ms_store ms = Inr s \<and> proof_request_of now (ms_config ms) reg rid sig ts = Inr q \<and>
         choose_membership env s q (ms_round_robin ms) = Inr c \<and>
         epoch_in_window (pq_epoch q) (pq_now_epoch q) (pq_gap q) \<and>
         (\<exists>m \<in> set (scope_candidates (records_for_registry s (pq_registry q)) (pq_rln_id_hex q)).
            mr_hash m = cm_hash c \<and> \<not> mr_quarantined m \<and> is_usable (cs_state (mr_cache m))) \<and>
         reserve_message_id env w (cm_hash c) (pq_rln_id_hex q) (pq_epoch q) (request_floor q) (cm_rate_limit c)
           (pq_size q) s (ms_disk ms) = (res, s', d') \<and>
         ms_store ms' = Inr s' \<and> ms_disk ms' = d' \<and>
         (case res of
            Inl e \<Rightarrow> r = Inl e
          | Inr mid \<Rightarrow> (\<exists>e. r = Inl (api_of_proof_error e)) \<or>
              (\<exists>v. r = Inr v \<and> get_u64 v ''message_id'' = Some mid \<and> get_u64 v ''epoch_index'' = Some (pq_epoch q) \<and>
                 get_str v ''membership_hash'' = Some (cm_hash c)))))"
proof -
  obtain r ms' where g: "generate_proof_impl env zk sb now na w reg rid sig ts ms = (r, ms')" by fastforce
  from g show ?thesis
  proof (cases rule: generate_cases)
    case (before e)
    then show ?thesis using generate_frame [OF g] g by auto
  next
    case (reserved s q c res s' d')
    have out: "case res of
            Inl e \<Rightarrow> r = Inl e
          | Inr mid \<Rightarrow> (\<exists>e. r = Inl (api_of_proof_error e)) \<or>
              (\<exists>v. r = Inr v \<and> get_u64 v ''message_id'' = Some mid \<and> get_u64 v ''epoch_index'' = Some (pq_epoch q) \<and>
                 get_str v ''membership_hash'' = Some (cm_hash c))"
      using reserved(7) by (auto simp: proof_reply_fields split: sum.splits)
    have "\<exists>s q c res s' d'. ms_store ms = Inr s \<and> proof_request_of now (ms_config ms) reg rid sig ts = Inr q \<and>
         choose_membership env s q (ms_round_robin ms) = Inr c \<and>
         epoch_in_window (pq_epoch q) (pq_now_epoch q) (pq_gap q) \<and>
         (\<exists>m \<in> set (scope_candidates (records_for_registry s (pq_registry q)) (pq_rln_id_hex q)).
            mr_hash m = cm_hash c \<and> \<not> mr_quarantined m \<and> is_usable (cs_state (mr_cache m))) \<and>
         reserve_message_id env w (cm_hash c) (pq_rln_id_hex q) (pq_epoch q) (request_floor q) (cm_rate_limit c)
           (pq_size q) s (ms_disk ms) = (res, s', d') \<and>
         ms_store ms' = Inr s' \<and> ms_disk ms' = d' \<and>
         (case res of
            Inl e \<Rightarrow> r = Inl e
          | Inr mid \<Rightarrow> (\<exists>e. r = Inl (api_of_proof_error e)) \<or>
              (\<exists>v. r = Inr v \<and> get_u64 v ''message_id'' = Some mid \<and> get_u64 v ''epoch_index'' = Some (pq_epoch q) \<and>
                 get_str v ''membership_hash'' = Some (cm_hash c)))"
      by (intro exI [of _ s] exI [of _ q] exI [of _ c] exI [of _ res] exI [of _ s'] exI [of _ d'] conjI)
        (use reserved request_fresh [OF reserved(2)] choose_membership_usable [OF reserved(3)] out in simp_all)
    then show ?thesis using generate_frame [OF g] g by simp
  qed
qed

section \<open>The module accepts its own proofs\<close>

text \<open>
  What zerokit documents: a generated proof carries the witness's signal and external nullifier,
  verifies against every root set that holds its root, and the canonical serialization starts
  with the 128-byte Groth16 proof.
\<close>

definition zk_complete :: "('fr, 'zp) zerokit \<Rightarrow> bool" where
  "zk_complete zk \<longleftrightarrow> fr_roundtrip zk \<and> rln_roundtrip zk \<and>
     (\<forall>w p v. zk_generate zk w = Inr (p, v) \<longrightarrow>
        pv_x v = rw_x w \<and> pv_external_nullifier v = rw_external_nullifier w \<and>
        (\<forall>roots. pv_root v \<in> set roots \<longrightarrow> zk_verify_with_roots zk p v (rw_x w) roots = Inr True)) \<and>
     (\<forall>p v b. zk_rln_ser zk p v = Inr b \<longrightarrow> GROTH16_LEN \<le> length b \<and> zk_proof_de zk (take GROTH16_LEN b) = Inr p)"

lemma zk_complete_verifies:
  "zk_complete zk \<Longrightarrow> zk_generate zk w = Inr (p, v) \<Longrightarrow> pv_root v \<in> set roots \<Longrightarrow>
     zk_verify_with_roots zk p v (rw_x w) roots = Inr True"
  by (simp add: zk_complete_def)

lemma generate_ok:
  assumes "generate zk m signal ep rid = Inr rlp"
  obtains w p v rp where "zk_generate zk w = Inr (p, v)" "rw_x w = signal_to_x zk signal"
    "rw_external_nullifier w = external_nullifier zk ep rid" "from_parts zk p v = Inr rp" "rlp = rp \<lparr> rp_epoch := Some ep \<rparr>"
  using assms that by (auto simp: generate_def result_iffs Let_def split: if_splits prod.splits)

lemma from_parts_ok:
  assumes "from_parts zk p v = Inr rp"
  obtains y n b where "pv_y v = Some y" "pv_nullifier v = Some n" "zk_rln_ser zk p v = Inr b"
    "rp = \<lparr> rp_canonical = b, rp_root = zk_fr_ser zk (pv_root v), rp_external_nullifier = zk_fr_ser zk (pv_external_nullifier v),
        rp_share_x = zk_fr_ser zk (pv_x v), rp_share_y = zk_fr_ser zk y, rp_nullifier = zk_fr_ser zk n, rp_epoch = None \<rparr>"
  using assms that by (auto simp: from_parts_def single_values_def fr_to_bytes32_def result_iffs split: option.splits)

lemma wire_field_ser:
  assumes "fr_roundtrip zk" "get_str v key = Some (bytes_to_hex (zk_fr_ser zk f))"
  shows "wire_field zk v key = Inr f"
  using assms by (simp add: wire_field_def hex_to_fr_def fr_roundtrip_def)

lemma reply_parses:
  assumes zk: "zk_complete zk" and fp: "from_parts zk p v = Inr rp"
  shows "proof_from_json zk (proof_reply (rp \<lparr> rp_epoch := Some ep \<rparr>) mid ep h) = Inr (rp \<lparr> rp_epoch := Some ep \<rparr>)"
proof -
  let ?rlp = "rp \<lparr> rp_epoch := Some ep \<rparr>"
  let ?v = "proof_reply ?rlp mid ep h"
  have rt: "fr_roundtrip zk" and rr: "rln_roundtrip zk" using zk by (simp_all add: zk_complete_def)
  from fp obtain y n b where f: "pv_y v = Some y" "pv_nullifier v = Some n" "zk_rln_ser zk p v = Inr b"
    and rp: "rp = \<lparr> rp_canonical = b, rp_root = zk_fr_ser zk (pv_root v), rp_external_nullifier = zk_fr_ser zk (pv_external_nullifier v),
        rp_share_x = zk_fr_ser zk (pv_x v), rp_share_y = zk_fr_ser zk y, rp_nullifier = zk_fr_ser zk n, rp_epoch = None \<rparr>"
    by (rule from_parts_ok)
  have b: "GROTH16_LEN \<le> length b" "zk_proof_de zk (take GROTH16_LEN b) = Inr p"
    using zk f(3) by (auto simp: zk_complete_def)
  have "get_str ?v ''proof'' = Some (bytes_to_hex (take GROTH16_LEN b))"
    using b(1) by (simp add: proof_reply_def proof_to_json_def rp min_def)
  moreover have "wire_field zk ?v ''share_y'' = Inr y" "wire_field zk ?v ''root'' = Inr (pv_root v)"
    "wire_field zk ?v ''nullifier'' = Inr n" "wire_field zk ?v ''share_x'' = Inr (pv_x v)"
    "wire_field zk ?v ''external_nullifier'' = Inr (pv_external_nullifier v)"
    by (rule wire_field_ser [OF rt], simp add: proof_reply_def proof_to_json_def rp)+
  moreover have "\<lparr> pv_root = pv_root v, pv_x = pv_x v, pv_external_nullifier = pv_external_nullifier v,
      pv_y = Some y, pv_nullifier = Some n \<rparr> = v"
    using f(1,2) by (cases v) simp
  ultimately have can: "canonical_from_wire zk ?v (take GROTH16_LEN b) = Inr b"
    using b f(3) by (simp add: canonical_from_wire_def)
  have ep: "epoch_from_wire ?v = Inr (Some ep)"
    by (simp add: epoch_from_wire_def proof_reply_def proof_to_json_def epoch_from_to_bytes)
       (simp add: epoch_to_bytes_def to_le_bytes_def)
  have pc: "parse_canonical zk b = Inr (p, v)" using rr f(1,3) by (simp add: parse_canonical_def rln_roundtrip_def)
  have pf: "get_str ?v ''proof'' = Some (bytes_to_hex (take GROTH16_LEN b))"
    using b(1) by (simp add: proof_reply_def proof_to_json_def rp min_def)
  show ?thesis unfolding proof_from_json_def pf ok_or_simps and_then_simps hex_to_vec_hex can ep pc prod.case fp ..
qed

lemma reply_not_derived: "\<not> derives_external_nullifier (proof_reply p mid ep h)"
  by (simp add: derives_external_nullifier_def proof_reply_def proof_to_json_def)

lemma own_proof_verifies:
  assumes zk: "zk_complete zk" and gen: "zk_generate zk w = Inr (p, v)" and fp: "from_parts zk p v = Inr rp"
    and win: "rp_root rp \<in> set win" and x: "rw_x w = signal_to_x zk signal"
  shows "verify_proof zk (rp \<lparr> rp_epoch := e \<rparr>) signal win = Inr True"
proof -
  from fp obtain y n b where f: "pv_y v = Some y" "zk_rln_ser zk p v = Inr b" "rp_canonical rp = b"
    "rp_root rp = zk_fr_ser zk (pv_root v)" by (rule from_parts_ok) auto
  have pc: "parse_canonical zk b = Inr (p, v)"
    using zk f by (simp add: parse_canonical_def rln_roundtrip_def zk_complete_def)
  let ?roots = "concat (map (\<lambda>r. case zk_fr_de zk r of Inr f \<Rightarrow> [f] | Inl _ \<Rightarrow> []) win)"
  have "zk_fr_de zk (rp_root rp) = Inr (pv_root v)" using zk f(4) by (simp add: zk_complete_def fr_roundtrip_def)
  then have root: "pv_root v \<in> set ?roots" using win by (auto intro!: bexI [OF _ win])
  then have ne: "?roots \<noteq> []" by (metis empty_iff empty_set)
  have ok: "zk_verify_with_roots zk p v (signal_to_x zk signal) ?roots = Inr True"
    using zk_complete_verifies [OF zk gen root] x by simp
  show ?thesis using ne ok pc f(3) by (simp add: verify_proof_def Let_def)
qed

text \<open>
  C16: a proof this module generates passes validation, here or at a peer, now or later. When
  \<open>generate_proof\<close> replied, and the reply is presented to \<open>validate_proof\<close> for the same scope, signal and
  timestamp by a module configured with the same epoch size for the registry, at a clock at which the
  message's epoch is still inside that module's own window, and that module's root window holds the proof's
  root, then the request is accepted: the reply parses back to the generated proof, its epoch and external
  nullifier are bound to the message's, and it verifies. So the verdict is the nullifier log's.
\<close>
theorem generated_proof_validates:
  assumes "generate_proof_impl env zk sb now na w reg rid sig ts ms = (Inr reply, ms')"
    and "zk_complete zk" "pj (vc_proof_json c) = Inr reply"
    and "vc_registry_id c = reg" "vc_rln_identifier c = rid" "vc_signal c = sig" "vc_timestamp c = ts"
    and "parse reg = Inr registry" "epoch_params_for (ms_config ms) (rid_canonical registry) = Inr (sz, gap)"
    and "epoch_params_for (ms_config ms2) (rid_canonical registry) = Inr (sz, gap2)"
    and "epoch_of_timestamp ts sz = Inr ep" "epoch_in_window ep (current_epoch (vc_now c) sz) gap2"
    and "window (vc_now_window c) (rid_canonical registry) (ms_roots ms2) = Some win"
    and "get_str reply ''root'' = Some (bytes_to_hex root_bytes)" "root_bytes \<in> set win"
  shows "\<exists>q. call_request zk pj c ms2 = Inr q \<and> passes zk (vc_now_window c) (ms_roots ms2) q"
  using assms(1)
proof (cases rule: generate_cases)
  case (reserved s q cm res s' d')
  then obtain mid m rlp where gen: "generate zk m (pq_signal q) (pq_epoch q) (pq_rln_identifier q) = Inr rlp"
    and reply: "reply = proof_reply rlp mid (pq_epoch q) (cm_hash cm)" by (auto split: sum.splits)
  from gen obtain w p v rp where g: "zk_generate zk w = Inr (p, v)" "rw_x w = signal_to_x zk (pq_signal q)"
    "rw_external_nullifier w = external_nullifier zk (pq_epoch q) (pq_rln_identifier q)" "from_parts zk p v = Inr rp"
    "rlp = rp \<lparr> rp_epoch := Some (pq_epoch q) \<rparr>" by (rule generate_ok)
  let ?q = "\<lparr> vq_registry = pq_registry q, vq_rln_identifier = pq_rln_identifier q, vq_gap = gap2,
    vq_now_epoch = current_epoch (vc_now c) sz, vq_expected_epoch = pq_epoch q, vq_signal = pq_signal q, vq_derived = False,
    vq_proof = rlp \<rparr>"
  have parse: "proof_from_json zk reply = Inr rlp" unfolding reply g(5) by (rule reply_parses [OF assms(2) g(4)])
  have regq: "pq_registry q = registry"
    using reserved(2) assms(8) by (auto simp: proof_request_of_def parse_scope_def parse_registry_def result_iffs)
  have ep: "pq_epoch q = ep"
    using reserved(2) assms(9,11) regq by (auto simp: proof_request_of_def fresh_epoch_for_def result_iffs Let_def split: if_splits prod.splits)
  have req: "call_request zk pj c ms2 = Inr ?q"
    using reserved(2) assms(3-12) parse reply reply_not_derived regq
    by (auto simp: call_request_def validate_request_of_def proof_request_of_def fresh_epoch_for_def result_iffs Let_def
        split: if_splits prod.splits)
  have "rp_external_nullifier rp = expected_external_nullifier zk (pq_epoch q) (pq_rln_identifier q)"
    using g assms(2) by (auto simp: zk_complete_def expected_external_nullifier_def fr_to_bytes32_def elim!: from_parts_ok)
  moreover have "bytes_to_hex (rp_root rp) = bytes_to_hex root_bytes"
    using assms(14) by (simp add: reply g(5) proof_reply_def proof_to_json_def)
  then have root: "rp_root rp \<in> set win" using assms(15) by (simp add: bytes_to_hex_inj)
  moreover have "verify_proof zk rlp (pq_signal q) win = Inr True"
    unfolding g(5) by (rule own_proof_verifies [OF assms(2) g(1) g(4) root g(2)])
  ultimately have "passes zk (vc_now_window c) (ms_roots ms2) ?q"
    using assms(12,13) ep regq g(5) by (simp add: passes_def)
  with req show ?thesis by blast
qed simp

section \<open>A concrete run\<close>

definition own_zk :: "(byte, byte) zerokit" where
  "own_zk = sample_zk
     \<lparr> zk_rln_ser := (\<lambda>p v. case (pv_y v, pv_nullifier v) of
          (Some y, Some n) \<Rightarrow> Inr ((p # replicate 127 0) @ [pv_root v, pv_x v, pv_external_nullifier v, y, n]) | _ \<Rightarrow> Inl ''multi''),
       zk_rln_de := (\<lambda>b. case drop 128 b of [r, x, en, y, n] \<Rightarrow>
          Inr (hd b, \<lparr> pv_root = r, pv_x = x, pv_external_nullifier = en, pv_y = Some y, pv_nullifier = Some n \<rparr>)
          | _ \<Rightarrow> Inl ''short''),
       zk_generate := (\<lambda>w. Inr (1, \<lparr> pv_root = 7, pv_x = rw_x w, pv_external_nullifier = rw_external_nullifier w,
          pv_y = Some 4, pv_nullifier = Some 9 \<rparr>)) \<rparr>"

lemma own_zk_complete: "zk_complete own_zk"
  by (auto simp: zk_complete_def fr_roundtrip_def rln_roundtrip_def own_zk_def sample_zk_def GROTH16_LEN_def
      split: option.splits)

definition own_identity :: identity_block where
  "own_identity = \<lparr> ib_registry_id = rid_canonical logos_sample, ib_rln_identifier = [], ib_identity_commitment = ''c'',
     ib_submitted_at = 7 \<rparr>"

definition own_env :: store_env where
  "own_env = sample_env \<lparr> credential_from_json := (\<lambda>b. Inr \<lparr> sc_identity_commitment = ''c'',
     sc_identity_secret_hash = bytes_to_hex (replicate 32 3), sc_registry_id = ''r'' \<rparr>) \<rparr>"

definition own_record :: membership_record where
  "own_record = \<lparr> mr_hash = ''h'', mr_identity = own_identity,
     mr_cache = default_cache_state \<lparr> cs_state := Active, cs_leaf_index := Some 3, cs_rate_limit := Some 5 \<rparr>,
     mr_alloc = default_allocation_state, mr_quarantined = False \<rparr>"

definition own_sealed :: sealed_file where
  "own_sealed = (sealed_file_provision sample_kdf (bytes_to_hex (sk_verify sample_keys)) (bytes_to_hex (replicate 16 1)))
     \<lparr> sf_credentials := [(''h'', \<lparr> se_identity = own_identity, se_nonce = bytes_to_hex (replicate 24 0),
       se_ct = bytes_to_hex (sk_seal sample_keys @ credential_aad ''h'' own_identity (replicate 16 1) @ as_bytes ''s'') \<rparr>)] \<rparr>"

definition own_store :: store where
  "own_store = \<lparr> st_dir = ''dir'', st_inner = sample_inner \<lparr> in_sealed := Some own_sealed,
       in_store_uuid := Some (replicate 16 1), in_sections := [(''h'', default_allocation_state)],
       in_session := Some \<lparr> ss_password = ''pw'', ss_keys = sample_keys \<rparr> \<rparr>,
     st_snapshot = [(''h'', own_record)] \<rparr>"

definition own_module :: module_state where
  "own_module = sample_module \<lparr> ms_store := Inr own_store,
     ms_paths := [''h'' \<mapsto> \<lparr> cp_path_elements_hex = replicate 10 (fr_to_hex own_zk 5), cp_path_indices = replicate 10 0,
                            cp_leaf_index = 3 \<rparr>] \<rparr>"

definition own_request :: proof_request where
  "own_request = \<lparr> pq_registry = logos_sample, pq_rln_identifier = replicate 32 1, pq_rln_id_hex = bytes_to_hex (replicate 32 1),
     pq_epoch = 1, pq_size = 600, pq_gap = 1, pq_now_epoch = 1, pq_signal = [5] \<rparr>"

lemma own_module_config: "ms_config own_module = ms_config sample_module" "ms_roots own_module = ms_roots sample_module"
  by (simp_all add: own_module_def)

lemma own_request_ok:
  "proof_request_of 600 (ms_config own_module) (rid_canonical logos_sample) (bytes_to_hex (replicate 32 1)) (bytes_to_hex [5]) ''600'' =
     Inr own_request"
  by (simp add: proof_request_of_def logos_sample_scope logos_sample_provider fresh_epoch_for_def epoch_params_for_def
      own_module_config sample_module_def sample_timestamp own_request_def epoch_in_window_def current_epoch_def
      saturating_sub_def saturating_add_def)

definition own_chosen :: chosen_membership where
  "own_chosen = \<lparr> cm_hash = ''h'', cm_leaf_index = 3, cm_rate_limit = 5,
     cm_credential = \<lparr> sc_identity_commitment = ''c'', sc_identity_secret_hash = bytes_to_hex (replicate 32 3), sc_registry_id = ''r'' \<rparr> \<rparr>"

lemma own_choice: "choose_membership own_env own_store own_request rr = Inr own_chosen"
proof -
  have recs: "records_for_registry own_store logos_sample = [own_record]"
    by (simp add: records_for_registry_def records_for_def own_store_def own_record_def own_identity_def)
  have cand: "scope_candidates [own_record] x = [own_record]" for x
    by (simp add: scope_candidates_def scope_matches_def own_record_def own_identity_def)
  have sel: "fst (select_hash [own_record] sc NoSelector rr) = Inr ''h''" for sc
    by (simp add: select_hash_def candidates_def own_record_def is_usable_def default_cache_state_def)
  have un: "unseal_credential own_env ''h'' own_store = Inr (cm_credential own_chosen)"
    by (simp add: unseal_credential_def own_store_def sample_inner_def own_sealed_def is_quarantined_def bt_get_Cons
        sealed_file_provision_def unseal_def own_env_def sample_env_def own_chosen_def)
  have mem: "membership ''h'' own_store = Some own_record" by (simp add: membership_def own_store_def bt_get_Cons)
  have row: "cs_leaf_index (mr_cache own_record) = Some 3" "cs_rate_limit (mr_cache own_record) = Some 5"
    by (simp_all add: own_record_def default_cache_state_def)
  have q: "pq_registry own_request = logos_sample" by (simp add: own_request_def)
  show ?thesis
    unfolding choose_membership_def q recs cand sel and_then_simps mem ok_or_simps row un by (simp add: own_chosen_def)
qed

lemma own_reserve:
  "\<exists>s' d'. reserve_message_id own_env WriteOk ''h'' (bytes_to_hex (replicate 32 1)) 1 0 5 600 own_store d = (Inr 0, s', d')"
proof -
  let ?x = "bytes_to_hex (replicate 32 1)"
  have "reserve_slot default_allocation_state ?x 1 0 5 = (Inr 0,
     \<lparr> as_allocations = [\<lparr> ea_rln_identifier = ?x, ea_epoch = 1, ea_used = 1 \<rparr>], as_epoch_size_sec = 0, as_prune_floor = 0 :: u64 \<rparr>)"
    by (simp add: reserve_slot_def floor_threshold_def advance_and_prune_def row_matches_def default_allocation_state_def)
  from reserve_message_id_ok [OF _ _ _ _ _ _ _ this, where s = own_store and cr = own_env and d = d and h = "''h''" and sz = 600]
  show ?thesis
    by (fastforce simp: own_store_def sample_inner_def is_quarantined_def bt_get_Cons default_allocation_state_def
        WRITE_ROW_CAP_def MAX_ROWS_PER_SECTION_def)
qed

lemma own_generate:
  "\<exists>rlp. generate own_zk \<lparr> wm_identity_secret_hash_hex = bytes_to_hex (replicate 32 3), wm_rate_limit = 5, wm_message_id = 0,
     wm_path_elements_hex = replicate 10 (fr_to_hex own_zk 5), wm_path_indices = replicate 10 0 \<rparr> [5] 1 (replicate 32 1) = Inr rlp \<and>
     rp_root rlp = 7 # replicate 31 0"
proof -
  have rt: "fr_roundtrip own_zk" using own_zk_complete by (simp add: zk_complete_def)
  have "collect_results (map (\<lambda>h. hex_to_fr own_zk h ''path_element'') (map (fr_to_hex own_zk) (replicate 10 5))) =
      Inr (replicate 10 5)" by (rule collect_hex [OF rt])
  then have c: "collect_results (replicate 10 (hex_to_fr own_zk (fr_to_hex own_zk 5) ''path_element'')) = Inr (replicate 10 5)"
    by (simp add: map_replicate)
  show ?thesis
    by (simp add: generate_def RLN_TREE_DEPTH_def map_replicate c)
       (simp add: own_zk_def sample_zk_def from_parts_def single_values_def fr_to_bytes32_def)
qed

lemma own_reply:
  "\<exists>reply ms'. generate_proof_impl own_env own_zk sample_sibling 600 600 WriteOk (rid_canonical logos_sample)
       (bytes_to_hex (replicate 32 1)) (bytes_to_hex [5]) ''600'' own_module = (Inr reply, ms') \<and>
     get_str reply ''root'' = Some (bytes_to_hex (7 # replicate 31 0))"
proof -
  obtain rlp where g: "generate own_zk \<lparr> wm_identity_secret_hash_hex = bytes_to_hex (replicate 32 3), wm_rate_limit = 5,
     wm_message_id = 0, wm_path_elements_hex = replicate 10 (fr_to_hex own_zk 5), wm_path_indices = replicate 10 0 \<rparr>
     [5] 1 (replicate 32 1) = Inr rlp" and r: "rp_root rlp = 7 # replicate 31 0" using own_generate by blast
  obtain s' d' where re: "reserve_message_id own_env WriteOk ''h'' (bytes_to_hex (replicate 32 1)) 1 0 5 600 own_store
     (ms_disk own_module) = (Inr 0, s', d')" using own_reserve by blast
  have st: "ms_store own_module = Inr own_store" by (simp add: own_module_def)
  have path: "proof_path own_zk sample_sibling 600 logos_sample ''h'' 3 (ms_paths own_module) roots g =
      (Inr (replicate 10 (fr_to_hex own_zk 5), replicate 10 0), ms_paths own_module, roots, g)" for roots g
    by (simp add: proof_path_def hit_def own_module_def)
  have q: "pq_registry own_request = logos_sample" "pq_rln_id_hex own_request = bytes_to_hex (replicate 32 1)"
    "pq_epoch own_request = 1" "pq_size own_request = 600" "pq_signal own_request = [5]" "pq_rln_identifier own_request = replicate 32 1"
    "saturating_sub (pq_now_epoch own_request) (pq_gap own_request) = 0"
    by (simp_all add: own_request_def saturating_sub_def)
  have c: "cm_hash own_chosen = ''h''" "cm_leaf_index own_chosen = 3" "cm_rate_limit own_chosen = 5"
    "sc_identity_secret_hash (cm_credential own_chosen) = bytes_to_hex (replicate 32 3)"
    by (simp_all add: own_chosen_def)
  have fld: "get_str (proof_reply rlp 0 1 ''h'') ''root'' = Some (bytes_to_hex (7 # replicate 31 0))"
    using r by (simp add: proof_reply_def proof_to_json_def)
  show ?thesis
    unfolding generate_proof_impl_def own_request_ok sum.case Let_def st own_choice
    using fld by (simp add: q c path re g)
qed

text \<open>Twelve minutes on, in the next epoch.\<close>

definition later_call :: validate_call where
  "later_call = (sample_call ''mine'') \<lparr> vc_now := 1300 \<rparr>"

theorem generated_proof_validates_witness:
  "\<exists>reply q. fst (generate_proof_impl own_env own_zk sample_sibling 600 600 WriteOk (rid_canonical logos_sample)
       (bytes_to_hex (replicate 32 1)) (bytes_to_hex [5]) ''600'' own_module) = Inr reply \<and>
     call_request own_zk (\<lambda>_. Inr reply) later_call own_module = Inr q \<and>
     passes own_zk 610 (ms_roots own_module) q"
proof -
  obtain reply ms' where g: "generate_proof_impl own_env own_zk sample_sibling 600 600 WriteOk (rid_canonical logos_sample)
       (bytes_to_hex (replicate 32 1)) (bytes_to_hex [5]) ''600'' own_module = (Inr reply, ms')"
    and root: "get_str reply ''root'' = Some (bytes_to_hex (7 # replicate 31 0))" using own_reply by blast
  have w: "window (vc_now_window later_call) (rid_canonical logos_sample) (ms_roots own_module) = Some [7 # replicate 31 0]"
    by (simp add: window_def own_module_def sample_module_def later_call_def sample_call_def STALE_AFTER_SECS_def saturating_sub_def)
  have p: "epoch_params_for (ms_config own_module) (rid_canonical logos_sample) = Inr (600, 1)"
    by (simp add: epoch_params_for_def own_module_config sample_module_def)
  have t: "epoch_of_timestamp ''600'' 600 = Inr 1" "epoch_in_window 1 (current_epoch 1300 600) 1"
    by (simp_all add: sample_timestamp epoch_in_window_def current_epoch_def saturating_sub_def saturating_add_def)
  have "\<exists>q. call_request own_zk (\<lambda>_. Inr reply) later_call own_module = Inr q \<and>
      passes own_zk (vc_now_window later_call) (ms_roots own_module) q"
    by (rule generated_proof_validates [OF g own_zk_complete _ _ _ _ _ parse_canonical [OF logos_sample_canonical] p p t(1) _ w root])
      (simp_all add: later_call_def sample_call_def t(2))
  then show ?thesis using g by (auto simp: later_call_def sample_call_def)
qed

end
