(* ===== verification/Membership_Props.thy ===== *)
theory Membership_Props
  imports Membership_Api Store_Methods Generate_Props
begin

text \<open>
  What the membership handlers guarantee: registration is idempotent per scope, claims are
  exclusive under any interleaving, a state read never overwrites a fresher state, and a late
  submit reply never moves a confirmed membership's state.
\<close>

section \<open>Cache updates and the snapshot\<close>

lemma update_cache_cases:
  assumes "update_cache w now h f s d = (r, s', d')"
  obtains (refused) e where "r = Inl e" "s' = s" "d' = d"
  | (row) row where "row = (case bt_get (in_cache (st_inner s)) h of Some c \<Rightarrow> c | None \<Rightarrow> default_cache_state)"
      "st_inner s' = (st_inner s) \<lparr> in_cache := bt_insert h (stamp_first_active now (f row)) (in_cache (st_inner s)) \<rparr>"
      "r = Inr (cs_state row) \<and> st_snapshot s' = build_snapshot (st_inner s') \<or>
       (\<exists>e. r = Inl e) \<and> st_snapshot s' = st_snapshot s"
proof (cases "in_lock (st_inner s) \<and> sealed_contains (st_inner s) h")
  case False
  then show thesis
    using assms refused by (auto simp: update_cache_def ensure_open_def Let_def split: if_splits)
next
  case True
  show thesis
    by (rule row [OF refl])
      (use assms True in \<open>cases w; auto simp: update_cache_def ensure_open_def write_cache_def swap_snapshot_def with_inner_def Let_def\<close>)+
qed

text \<open>A published record of a scope: not quarantined, registered here, backing the scope.\<close>

definition backs :: "canonical_registry_id \<Rightarrow> string \<Rightarrow> membership_record \<Rightarrow> bool" where
  "backs registry rid r \<longleftrightarrow> ib_registry_id (mr_identity r) = rid_canonical registry \<and> \<not> mr_quarantined r \<and> scope_matches r rid"

definition published :: "string \<Rightarrow> canonical_registry_id \<Rightarrow> string \<Rightarrow> store \<Rightarrow> bool" where
  "published h registry rid s \<longleftrightarrow> (\<exists>r. membership h s = Some r \<and> mr_hash r = h \<and> backs registry rid r)"

definition sealed_backs :: "string \<Rightarrow> canonical_registry_id \<Rightarrow> string \<Rightarrow> inner \<Rightarrow> bool" where
  "sealed_backs h registry rid i \<longleftrightarrow> (\<exists>f e. in_sealed i = Some f \<and> bt_get (sf_credentials f) h = Some e \<and>
     ib_registry_id (se_identity e) = rid_canonical registry \<and> ib_rln_identifier (se_identity e) \<in> {rid, []}) \<and>
     \<not> is_quarantined i h"

lemma build_snapshot_get:
  "in_sealed i = Some f \<Longrightarrow> bt_get (build_snapshot i) h = map_option (\<lambda>e.
     \<lparr> mr_hash = h, mr_identity = se_identity e,
       mr_cache = (case bt_get (in_cache i) h of Some c \<Rightarrow> c | None \<Rightarrow> default_cache_state),
       mr_alloc = (case bt_get (in_sections i) h of Some a \<Rightarrow> a | None \<Rightarrow> default_allocation_state),
       mr_quarantined = is_quarantined i h \<rparr>) (bt_get (sf_credentials f) h)"
  by (simp add: build_snapshot_def bt_get_map_values)

lemma sealed_backs_published:
  "sealed_backs h registry rid (st_inner s) \<Longrightarrow> st_snapshot s = build_snapshot (st_inner s) \<Longrightarrow> published h registry rid s"
  by (auto simp: sealed_backs_def published_def membership_def build_snapshot_get backs_def scope_matches_def)

lemma insert_backs:
  assumes "insert_membership env nonce wa wc ws h ident cred rl s d = (Inr (), s', d')"
    and "ib_registry_id ident = rid_canonical registry" "ib_rln_identifier ident = rid"
  shows "sealed_backs h registry rid (st_inner s') \<and> st_snapshot s' = build_snapshot (st_inner s')"
  using assms(1)
proof (rule insert_membership_okD)
  fix ses u f pt n ct
  assume k: "in_session (st_inner s) = Some ses" "in_store_uuid (st_inner s) = Some u"
    "in_sealed (st_inner s) = Some f" "credential_to_json env cred = Inr pt"
    and sl: "seal env nonce (sk_seal (ss_keys ses)) (credential_aad h ident u) pt = Inr (n, ct)"
    and lk: "in_lock (st_inner s)" and ws: "wa = WriteOk" "wc = WriteOk" "ws = WriteOk"
  let ?e = "\<lparr> se_identity = ident, se_nonce = bytes_to_hex n, se_ct = bytes_to_hex ct \<rparr>"
  let ?f = "f \<lparr> sf_credentials := bt_insert h ?e (sf_credentials f) \<rparr>"
  obtain raw root where i': "st_inner s' = (insert_cache_row h rl (insert_section h (st_inner s)))
        \<lparr> in_sealed := Some ?f, in_raw_sections := raw, in_root_mac_raw := root \<rparr>"
    and snap: "st_snapshot s' = build_snapshot (st_inner s')"
    using insert_membership_ok [OF lk k sl, of rl d] assms(1) ws by auto
  show ?thesis using assms(2,3) snap
    by (auto simp: sealed_backs_def i' is_quarantined_def insert_cache_row_def insert_section_def Let_def)
qed

lemma update_cache_backs:
  assumes "update_cache w now h' f s d = (r, s', d')" "sealed_backs h registry rid (st_inner s)" "published h registry rid s"
  shows "sealed_backs h registry rid (st_inner s') \<and> published h registry rid s'"
  using assms(1)
proof (cases rule: update_cache_cases)
  case (refused e)
  then show ?thesis using assms by simp
next
  case (row row)
  then have sb: "sealed_backs h registry rid (st_inner s')"
    using assms(2) by (simp add: sealed_backs_def is_quarantined_def)
  show ?thesis
  proof (cases "st_snapshot s' = st_snapshot s")
    case True
    then show ?thesis using sb assms(3) by (simp add: published_def membership_def)
  next
    case False
    then show ?thesis using sb row(3) sealed_backs_published by auto
  qed
qed

lemma callback_backs:
  assumes "ms_store ms = Inr s" "sealed_backs h registry rid (st_inner s)" "published h registry rid s"
  shows "\<exists>s'. ms_store (submit_callback upd alive w now h' ms) = Inr s' \<and> sealed_backs h registry rid (st_inner s') \<and>
    published h registry rid s'"
proof (cases alive)
  case True
  obtain r s' d' where u: "update_cache w now h' upd s (ms_disk ms) = (r, s', d')" by (metis prod_cases3)
  then show ?thesis using assms True update_cache_backs [OF u assms(2,3)] by (simp add: submit_callback_def)
next
  case False
  then show ?thesis using assms by (simp add: submit_callback_def)
qed

lemma callbacks_back:
  assumes "ms_store ms = Inr s" "sealed_backs h registry rid (st_inner s)" "published h registry rid s"
  shows "\<exists>s'. ms_store (fold (\<lambda>result m. submit_callback (upd result) alive w now h' m) results ms) = Inr s' \<and>
    sealed_backs h registry rid (st_inner s') \<and> published h registry rid s'"
  using assms
proof (induction results arbitrary: ms s)
  case (Cons x results)
  from callback_backs [OF Cons.prems, of "upd x" alive w now h'] obtain s' where
    "ms_store (submit_callback (upd x) alive w now h' ms) = Inr s'" "sealed_backs h registry rid (st_inner s')"
    "published h registry rid s'" by blast
  from Cons.IH [OF this] show ?case by simp
qed auto

lemma callback_claims [simp]: "ms_claims (submit_callback upd alive w now h ms) = ms_claims ms"
  by (simp add: submit_callback_def split: sum.splits prod.splits)

lemma callbacks_claims [simp]:
  "ms_claims (fold (\<lambda>result. submit_callback (upd result) alive w now h) results ms) = ms_claims ms"
  by (induction results arbitrary: ms) simp_all

section \<open>Registration options\<close>

lemma options_entries_error: "options_entries pj oj = Inl e \<Longrightarrow> ae_kind e = InvalidArgument"
  by (auto simp: options_entries_def Let_def split: if_splits sum.splits json.splits)

lemma collect_options_error: "collect_options xs acc = Inl e \<Longrightarrow> ae_kind e = InvalidArgument"
  by (induction xs acc rule: collect_options.induct) (auto split: option.splits if_splits)

lemma rate_limit_option_error: "rate_limit_option opts = Inl e \<Longrightarrow> ae_kind e = InvalidArgument"
  by (auto simp: rate_limit_option_def ok_or_def split: option.splits)

lemma parse_registry_options_error: "parse_registry_options pj oj = Inl e \<Longrightarrow> ae_kind e = InvalidArgument"
  by (auto simp: parse_registry_options_def result_iffs
      dest: options_entries_error collect_options_error rate_limit_option_error)

lemma check_delegated_error: "check_delegated opts del = Inl e \<Longrightarrow> ae_kind e = InvalidArgument"
  by (auto simp: check_delegated_def result_iffs split: option.splits if_splits)

section \<open>Registration\<close>

lemma live_record_iff:
  "live_record records rid = Some r \<Longrightarrow>
     r \<in> set records \<and> \<not> mr_quarantined r \<and> is_live (cs_state (mr_cache r)) \<and> scope_matches r rid"
  by (auto simp: live_record_def find_Some_iff)

lemma live_record_exists:
  "r \<in> set records \<Longrightarrow> \<not> mr_quarantined r \<Longrightarrow> is_live (cs_state (mr_cache r)) \<Longrightarrow> scope_matches r rid \<Longrightarrow>
     \<exists>r'. live_record records rid = Some r'"
  by (cases "live_record records rid") (auto simp: live_record_def find_None_iff)

lemma register_fresh_published:
  assumes "register_fresh env zk sb ri registry rid rate opts del s ms = (Inr v, later, ms')"
  shows "\<exists>s' r. ms_store ms' = Inr s' \<and> membership (mv_membership_hash v) s' = Some r \<and>
    r \<in> set (records_for_registry s' registry) \<and> \<not> mr_quarantined r \<and> scope_matches r rid \<and> cs_state (mr_cache r) = mv_state v"
proof -
  obtain commitment_hex secret where ident: "generate_identity zk (ri_seed ri) = Inr (commitment_hex, secret)"
    using assms by (auto simp: register_fresh_def map_err_eq_Inr map_err_eq_Inl split: sum.splits)
  obtain commitment where com: "hex_to_bytes32 commitment_hex = Some commitment"
    using assms ident by (auto simp: register_fresh_def split: option.splits)
  let ?h = "membership_hash (sha256_digest env) (rid_canonical registry) commitment"
  let ?cred = "\<lparr> sc_identity_commitment = commitment_hex, sc_identity_secret_hash = secret, sc_registry_id = rid_canonical registry \<rparr>"
  let ?ident = "\<lparr> ib_registry_id = rid_canonical registry, ib_rln_identifier = rid,
                 ib_identity_commitment = commitment_hex, ib_submitted_at = ri_submitted_at ri \<rparr>"
  obtain res s1 d1 where ins: "insert_membership env (ri_nonce ri) (ri_write_allocations ri) (ri_write_cache ri)
      (ri_write_sealed ri) ?h ?ident ?cred rate s (ms_disk ms) = (res, s1, d1)" by (metis prod_cases3)
  have "res = Inr ()" using assms ident com ins by (cases res) (auto simp: register_fresh_def Let_def)
  note ins = ins [unfolded this]
  obtain r now late g where sub: "submit sb registry opts del commitment_hex rate (ms_gate ms) = (r, now, late, g)"
    by (metis prod_cases4)
  let ?ms1 = "ms \<lparr> ms_store := Inr s1, ms_disk := d1, ms_gate := g \<rparr>"
  let ?ms2 = "fold (\<lambda>result m. submit_callback (callback_update sb del result) True (ri_write_update ri) (ri_now_update ri) ?h m) now ?ms1"
  have b1: "sealed_backs ?h registry rid (st_inner s1)" and p1: "published ?h registry rid s1"
    using insert_backs [OF ins] sealed_backs_published by auto
  obtain s2 where s2: "ms_store ?ms2 = Inr s2" and p2: "published ?h registry rid s2"
    using callbacks_back [of ?ms1 s1, OF _ b1 p1] by force
  then obtain rec where rec: "membership ?h s2 = Some rec" "mr_hash rec = ?h" "backs registry rid rec"
    by (auto simp: published_def)
  have "v = membership_view_new ?h rec False False False \<and> ms' = ?ms2"
    using assms ident com ins sub s2 rec(1)
    by (auto simp: register_fresh_def Let_def split: sum.splits prod.splits)
  moreover have "rec \<in> set (records_for_registry s2 registry)"
    using rec bt_get_SomeD [of "st_snapshot s2" ?h rec] by (force simp: records_for_registry_def records_for_def membership_def backs_def)
  ultimately show ?thesis
    using s2 rec by (auto simp: membership_view_new_def Let_def backs_def)
qed

lemma register_fresh_claims:
  assumes "register_fresh env zk sb ri registry rid rate opts del s ms = (v, later, ms')"
  shows "ms_claims ms' = ms_claims ms"
proof -
  have "ms_claims (snd (snd (register_fresh env zk sb ri registry rid rate opts del s ms))) = ms_claims ms"
    by (simp add: register_fresh_def Let_def split: sum.split prod.split option.split)
  then show ?thesis using assms by simp
qed

lemma register_claimed_live:
  assumes "register_claimed env zk sb ri registry rid options ms = (Inr v, later, ms')" "is_live (mv_state v)"
  shows "\<exists>s' r. ms_store ms' = Inr s' \<and> live_record (records_for_registry s' registry) rid = Some r \<and>
     ms_claims ms' = ms_claims ms"
proof -
  obtain rate opts s where pre: "and_then (parse_registry_options (parse_json sb) options) (\<lambda>(rate_limit, opts).
      and_then (check_delegated opts (delegated_of opts)) (\<lambda>_.
      and_then (ms_store ms) (\<lambda>s. Inr (rate_limit, opts, s)))) = Inr (rate, opts, s)" and st: "ms_store ms = Inr s"
    using assms(1) by (auto simp: register_claimed_def result_iffs split: sum.splits prod.splits)
  show ?thesis
  proof (cases "live_record (records_for_registry s registry) rid")
    case (Some r)
    then show ?thesis using assms(1) pre st by (auto simp: register_claimed_def)
  next
    case None
    obtain bounds g where bg: "get_registry_bounds sb registry (ms_gate ms) = (bounds, g)" by fastforce
    have fresh: "register_fresh env zk sb ri registry rid rate opts (delegated_of opts) s (ms \<lparr> ms_gate := g \<rparr>) = (Inr v, later, ms')"
      using assms(1) pre None bg by (auto simp: register_claimed_def Let_def split: sum.splits)
    have "ms_claims ms' = ms_claims ms" using register_fresh_claims [OF fresh] by simp
    moreover from register_fresh_published [OF fresh] obtain s' r where "ms_store ms' = Inr s'"
      "r \<in> set (records_for_registry s' registry)" "\<not> mr_quarantined r" "scope_matches r rid" "cs_state (mr_cache r) = mv_state v"
      by blast
    ultimately show ?thesis using live_record_exists [of r] assms(2) by metis
  qed
qed

text \<open>While a scope has a live record, registering for it changes nothing and submits nothing.\<close>

lemma live_scope_registers_nothing:
  assumes "provider_of registry = Inr ()" "ms_store ms = Inr s" "live_record (records_for_registry s registry) rid = Some r"
  shows "\<exists>r2. register_scoped env zk sb ri registry rid options ms = (r2, [], ms) \<and>
    (case r2 of
       Inl e \<Rightarrow> ae_kind e = InvalidArgument \<or> (rid_canonical registry, rid) \<in> ms_claims ms \<and> ae_kind e = ProviderFailure
     | Inr v \<Rightarrow> is_live (mv_state v) \<and> mv_membership_hash v = mr_hash r \<and> mv_registry_id v = rid_canonical registry \<and>
         mv_rln_identifier v \<in> {None, Some rid})"
proof (cases "(rid_canonical registry, rid) \<in> ms_claims ms")
  case True
  then show ?thesis using assms(1) by (simp add: register_scoped_def claim_take_def api_new_def)
next
  case False
  note lr = live_record_iff [OF assms(3)]
  have reg: "ib_registry_id (mr_identity r) = rid_canonical registry"
    using lr by (auto simp: records_for_registry_def records_for_def)
  let ?ms = "ms \<lparr> ms_claims := insert (rid_canonical registry, rid) (ms_claims ms) \<rparr>"
  have "register_claimed env zk sb ri registry rid options ?ms =
      (case parse_registry_options (parse_json sb) options of
         Inl e \<Rightarrow> (Inl e, [], ?ms)
       | Inr (rate, opts) \<Rightarrow> (case check_delegated opts (delegated_of opts) of
             Inl e \<Rightarrow> (Inl e, [], ?ms)
           | Inr _ \<Rightarrow> (Inr (live_view (ms_config ms) registry rate r), [], ?ms)))"
    using assms(2,3) by (auto simp: register_claimed_def split: sum.splits prod.splits)
  moreover have "?ms \<lparr> ms_claims := claim_drop (rid_canonical registry) rid (ms_claims ?ms) \<rparr> = ms"
    using False by (simp add: claim_drop_def)
  ultimately have eq: "register_scoped env zk sb ri registry rid options ms =
      (case parse_registry_options (parse_json sb) options of
         Inl e \<Rightarrow> (Inl e, [], ms)
       | Inr (rate, opts) \<Rightarrow> (case check_delegated opts (delegated_of opts) of
             Inl e \<Rightarrow> (Inl e, [], ms)
           | Inr _ \<Rightarrow> (Inr (live_view (ms_config ms) registry rate r), [], ms)))"
    using assms(1) False by (auto simp: register_scoped_def claim_take_def split: sum.splits prod.splits)
  have "is_live (mv_state (live_view cfg registry rate r)) \<and> mv_membership_hash (live_view cfg registry rate r) = mr_hash r \<and>
      mv_registry_id (live_view cfg registry rate r) = rid_canonical registry \<and>
      mv_rln_identifier (live_view cfg registry rate r) \<in> {None, Some rid}" for cfg rate
    using lr reg by (auto simp: live_view_def membership_view_new_def scope_matches_def then_some_def Let_def)
  then show ?thesis
    unfolding eq by (auto dest: parse_registry_options_error check_delegated_error split: sum.split)
qed

text \<open>
  C17: a scope that has a live membership gets no second one. When a registration returned a live
  membership, the scope has a live record and its claim is free again. In that state, and in any later one
  in which the scope still has a live record, whatever happened in between, a registration for it with
  whatever options, random bytes and replies leaves the whole module state as it was and submits nothing:
  it rejects its options, is turned away by a registration in flight, or returns that record.
\<close>
theorem register_idempotent:
  assumes "register_scoped env zk sb ri registry rid options ms = (Inr v, later, ms')" "is_live (mv_state v)"
  shows "(\<exists>s' r'. ms_store ms' = Inr s' \<and> live_record (records_for_registry s' registry) rid = Some r') \<and>
    (rid_canonical registry, rid) \<notin> ms_claims ms' \<and>
    (\<forall>ms2 s2 r. ms_store ms2 = Inr s2 \<and> live_record (records_for_registry s2 registry) rid = Some r \<longrightarrow>
      (\<exists>r2. register_scoped env' zk' sb' ri' registry rid options' ms2 = (r2, [], ms2) \<and>
        (case r2 of
           Inl e \<Rightarrow> ae_kind e = InvalidArgument \<or> (rid_canonical registry, rid) \<in> ms_claims ms2 \<and> ae_kind e = ProviderFailure
         | Inr v2 \<Rightarrow> is_live (mv_state v2) \<and> mv_membership_hash v2 = mr_hash r \<and> mv_registry_id v2 = rid_canonical registry \<and>
             mv_rln_identifier v2 \<in> {None, Some rid})))"
proof -
  have prov: "provider_of registry = Inr ()" using assms(1) by (auto simp: register_scoped_def split: sum.splits)
  let ?k = "(rid_canonical registry, rid)"
  have free: "?k \<notin> ms_claims ms" using assms(1) prov by (auto simp: register_scoped_def claim_take_def split: if_splits)
  obtain ms1 where rc: "register_claimed env zk sb ri registry rid options (ms \<lparr> ms_claims := insert ?k (ms_claims ms) \<rparr>) = (Inr v, later, ms1)"
    and ms': "ms' = ms1 \<lparr> ms_claims := claim_drop (rid_canonical registry) rid (ms_claims ms1) \<rparr>"
    using assms(1) prov free by (auto simp: register_scoped_def claim_take_def split: prod.splits)
  from register_claimed_live [OF rc assms(2)]
  have "\<exists>s' r'. ms_store ms' = Inr s' \<and> live_record (records_for_registry s' registry) rid = Some r'" using ms' by auto
  moreover have "?k \<notin> ms_claims ms'" using ms' by (simp add: claim_drop_def)
  ultimately show ?thesis using live_scope_registers_nothing [OF prov] by blast
qed

definition sample_inputs :: register_inputs where
  "sample_inputs = \<lparr> ri_seed = Inr (replicate 32 0), ri_nonce = Some (replicate 24 0), ri_write_allocations = WriteOk,
     ri_write_cache = WriteOk, ri_write_sealed = WriteOk, ri_submitted_at = 600, ri_write_update = WriteOk, ri_now_update = 600 \<rparr>"

lemma own_records: "records_for_registry own_store logos_sample = [own_record]"
  by (simp add: records_for_registry_def records_for_def own_store_def own_record_def own_identity_def)

lemma own_live: "live_record [own_record] rid = Some own_record"
  by (simp add: live_record_def scope_matches_def own_record_def own_identity_def default_cache_state_def is_live_def is_usable_def)

lemma own_register:
  "\<exists>v. register_scoped own_env own_zk sample_sibling ri logos_sample rid [] own_module = (Inr v, [], own_module) \<and>
     is_live (mv_state v)"
proof -
  have "trim [] = []" by (code_simp)
  then have pre: "parse_registry_options pj [] = Inr (DEFAULT_RATE_LIMIT, JObj [])" for pj
    by (simp add: parse_registry_options_def options_entries_def rate_limit_option_def)
  have del: "delegated_of (JObj []) = None" by (simp add: delegated_of_def flat_bool_option_def get_str_def)
  have chk: "check_delegated (JObj []) None = Inr ()" by (simp add: check_delegated_def)
  have free: "ms_claims own_module = {}" "ms_store own_module = Inr own_store" by (simp_all add: own_module_def sample_module_def)
  have live: "is_live (mv_state (live_view cfg logos_sample rate own_record))" for cfg rate
    by (simp add: live_view_def membership_view_new_def Let_def own_record_def default_cache_state_def is_live_def is_usable_def)
  have "own_module \<lparr> ms_claims := {} \<rparr> = own_module" using free by simp
  then show ?thesis using live
    by (simp add: register_scoped_def register_claimed_def claim_take_def claim_drop_def logos_sample_provider free pre del chk
        own_records own_live)
qed

theorem register_idempotent_witness:
  "\<exists>r2. register_scoped own_env own_zk sample_sibling sample_inputs logos_sample [] ''{'' own_module = (r2, [], own_module) \<and>
    (case r2 of Inl e \<Rightarrow> ae_kind e = InvalidArgument \<or> (rid_canonical logos_sample, []) \<in> ms_claims own_module \<and> ae_kind e = ProviderFailure
     | Inr v2 \<Rightarrow> is_live (mv_state v2) \<and> mv_membership_hash v2 = ''h'' \<and> mv_registry_id v2 = rid_canonical logos_sample \<and>
         mv_rln_identifier v2 \<in> {None, Some []})"
proof -
  obtain v where v: "register_scoped own_env own_zk sample_sibling sample_inputs logos_sample [] [] own_module = (Inr v, [], own_module)"
    "is_live (mv_state v)" using own_register by blast
  have live: "ms_store own_module = Inr own_store \<and> live_record (records_for_registry own_store logos_sample) [] = Some own_record"
    by (simp add: own_module_def own_records own_live)
  have h: "mr_hash own_record = ''h''" by (simp add: own_record_def)
  note again = register_idempotent [OF v, THEN conjunct2, THEN conjunct2, rule_format, OF live]
  show ?thesis by (rule again [unfolded h])
qed

section \<open>Late submit replies\<close>

lemma with_leaf_frame [simp]:
  "cs_state (with_leaf v m) = cs_state m" "cs_rate_limit (with_leaf v m) = cs_rate_limit m"
  "cs_failed_reason (with_leaf v m) = cs_failed_reason m" "cs_retryable (with_leaf v m) = cs_retryable m"
  "cs_first_active_at (with_leaf v m) = cs_first_active_at m"
  by (simp_all add: with_leaf_def split: option.splits)

lemma with_leaf_index: "cs_leaf_index (with_leaf v m) = (case get_u64 v ''leaf_index'' of Some l \<Rightarrow> Some l | None \<Rightarrow> cs_leaf_index m)"
  by (simp add: with_leaf_def split: option.splits)

text \<open>
  C19: a submit reply that arrives after the poller confirmed the membership, funded or delegated,
  acceptance, refusal, error or garbage, moves neither the lifecycle state nor the rate limit,
  failure reason, retryability or activation time that the registry read established. The leaf
  index is not protected: an acceptance that names a leaf replaces the confirmed one with its
  pre-submit estimate.
\<close>
theorem late_reply_keeps_confirmed:
  assumes "cs_state m \<noteq> Pending" "u \<in> {funded_update pj result, delegated_update pj render result}"
  shows "cs_state (u m) = cs_state m \<and> cs_rate_limit (u m) = cs_rate_limit m \<and> cs_failed_reason (u m) = cs_failed_reason m \<and>
    cs_retryable (u m) = cs_retryable m \<and> cs_first_active_at (u m) = cs_first_active_at m \<and>
    (case result of
       Inr reply \<Rightarrow> (case pj reply of
           Inr v \<Rightarrow> (case (j_get v ''error'', get_u64 v ''leaf_index'') of
               (None, Some leaf) \<Rightarrow> cs_leaf_index (u m) = Some leaf
             | (None, None) \<Rightarrow> cs_leaf_index (u m) = cs_leaf_index m
             | _ \<Rightarrow> True)
         | Inl _ \<Rightarrow> cs_leaf_index (u m) = cs_leaf_index m)
     | Inl _ \<Rightarrow> u m = m)"
proof (cases result)
  case (Inl e)
  then show ?thesis using assms by (auto simp: funded_update_def delegated_update_def record_async_submit_error_def)
next
  case (Inr reply)
  have f: "record_async_submit_error w b m = m" for w b using assms(1) by (simp add: record_async_submit_error_def)
  consider "u = funded_update pj result" | "u = delegated_update pj render result" using assms(2) by blast
  then show ?thesis
  proof cases
    case 1
    then show ?thesis using assms(1) Inr
      by (auto simp: funded_update_def f register_refusal_def get_str_def with_leaf_index Let_def split: sum.splits option.splits)
  next
    case 2
    then show ?thesis using assms(1) Inr
      by (auto simp: delegated_update_def with_leaf_index Let_def split: sum.splits option.splits)
  qed
qed

theorem late_reply_keeps_confirmed_witness:
  "cs_leaf_index (funded_update (\<lambda>_. Inr (JObj [(''leaf_index'', j_u64 7)])) (Inr ''ok'') (mr_cache own_record)) = Some 7 \<and>
   cs_leaf_index (mr_cache own_record) = Some 3"
  using late_reply_keeps_confirmed [of "mr_cache own_record" "funded_update (\<lambda>_. Inr (JObj [(''leaf_index'', j_u64 7)])) (Inr ''ok'')"
      "\<lambda>_. Inr (JObj [(''leaf_index'', j_u64 7)])" "Inr ''ok''" "\<lambda>_. []"]
  by (simp add: own_record_def default_cache_state_def get_u64_def)

section \<open>State reads\<close>

definition cache_row :: "store \<Rightarrow> string \<Rightarrow> cache_state" where
  "cache_row s h = (case bt_get (in_cache (st_inner s)) h of Some c \<Rightarrow> c | None \<Rightarrow> default_cache_state)"

definition merged_state :: "u64 \<Rightarrow> membership_record \<Rightarrow> provider_membership \<Rightarrow> membership_state" where
  "merged_state now r pm = merge_state (Some r) (if pm_registered pm then Some (pm_state pm) else None) now"

lemma stamp_state [simp]: "cs_state (stamp_first_active now c) = cs_state c"
  by (simp add: stamp_first_active_def)

lemma state_cas_state: "cs_state (state_cas old merged pm m) = (if cs_state m = old then merged else cs_state m)"
  by (simp add: state_cas_def Let_def)

lemma state_cas_lost: "cs_state m \<noteq> old \<Longrightarrow> state_cas old merged pm m = m"
  by (simp add: state_cas_def)

lemma resolve_cases:
  assumes "resolve_state w now nu registry r pm s d = (view, events, s', d')"
  obtains (same) "merged_state now r pm = cs_state (mr_cache r) \<or> \<not> in_lock (st_inner s) \<or> \<not> sealed_contains (st_inner s) (mr_hash r)"
      "events = []" "s' = s" "d' = d"
  | (tried) "merged_state now r pm \<noteq> cs_state (mr_cache r)" "in_lock (st_inner s)" "sealed_contains (st_inner s) (mr_hash r)"
      "st_inner s' = (st_inner s) \<lparr> in_cache := bt_insert (mr_hash r) (stamp_first_active nu
         (state_cas (cs_state (mr_cache r)) (merged_state now r pm) pm (cache_row s (mr_hash r)))) (in_cache (st_inner s)) \<rparr>"
      "st_snapshot s' = (if w = WriteOk then build_snapshot (st_inner s') else st_snapshot s)"
      "events = (if w = WriteOk \<and> cs_state (cache_row s (mr_hash r)) = cs_state (mr_cache r)
         then [(ib_registry_id (mr_identity r), ib_rln_identifier (mr_identity r), mr_hash r,
           state_wire (merged_state now r pm), state_wire (cs_state (mr_cache r)))] else [])"
proof (cases "merged_state now r pm = cs_state (mr_cache r) \<or> \<not> in_lock (st_inner s) \<or> \<not> sealed_contains (st_inner s) (mr_hash r)")
  case True
  then show thesis
    by (rule same) (use assms True in \<open>auto simp: resolve_state_def merged_state_def update_cache_def ensure_open_def Let_def split: if_splits\<close>)
next
  case False
  let ?new = "(st_inner s) \<lparr> in_cache := bt_insert (mr_hash r) (stamp_first_active nu
     (state_cas (cs_state (mr_cache r)) (merged_state now r pm) pm (cache_row s (mr_hash r)))) (in_cache (st_inner s)) \<rparr>"
  obtain u su du where u: "update_cache w nu (mr_hash r) (state_cas (cs_state (mr_cache r)) (merged_state now r pm) pm) s d = (u, su, du)"
    by (metis prod_cases3)
  have inner: "st_inner su = ?new" and snap: "st_snapshot su = (if w = WriteOk then build_snapshot ?new else st_snapshot s)"
    and res: "if w = WriteOk then u = Inr (cs_state (cache_row s (mr_hash r))) else isl u"
    using u False
    by (cases w; clarsimp simp: update_cache_def ensure_open_def cache_row_def [symmetric] write_cache_def swap_snapshot_def
        with_inner_def Let_def)+
  have ev: "events = (case u of Inl _ \<Rightarrow> [] | Inr prior \<Rightarrow> if prior = cs_state (mr_cache r)
        then (case transition_event (mr_hash r) r prior (merged_state now r pm) of None \<Rightarrow> [] | Some ev \<Rightarrow> [ev]) else [])"
    and s': "s' = su"
    using assms False u unfolding resolve_state_def Let_def merged_state_def [symmetric]
    by (cases "pm_registered pm"; auto split: sum.splits)+
  show thesis
    by (rule tried) (use False inner snap res ev s' in \<open>auto simp: transition_event_def split: sum.splits if_splits\<close>)
qed

lemma cache_row_insert:
  "st_inner s' = (st_inner s) \<lparr> in_cache := bt_insert h c (in_cache (st_inner s)) \<rparr> \<Longrightarrow>
     cache_row s' h' = (if h' = h then c else cache_row s h')"
  by (simp add: cache_row_def)

text \<open>
  C18: a state read compares and sets. \<open>r\<close> is the record as it was before the registry read, \<open>s\<close>
  the store when the read returned. If another writer moved the row in between, the read leaves
  it as that writer left it (up to the activation stamp) and announces nothing. An event is
  announced only when the row still held the state the read started from, now holds the merged
  state, and the record is published with it; the event names exactly that transition. No other
  membership's row changes.
\<close>
theorem state_read_cas:
  assumes "resolve_state w now nu registry r pm s d = (view, events, s', d')"
  shows "(cs_state (cache_row s (mr_hash r)) \<noteq> cs_state (mr_cache r) \<longrightarrow>
      events = [] \<and> cache_row s' (mr_hash r) \<in> {cache_row s (mr_hash r), stamp_first_active nu (cache_row s (mr_hash r))}) \<and>
    (events \<noteq> [] \<longrightarrow> cs_state (cache_row s (mr_hash r)) = cs_state (mr_cache r) \<and>
      cs_state (cache_row s' (mr_hash r)) = merged_state now r pm \<and> st_snapshot s' = build_snapshot (st_inner s') \<and>
      events = [(ib_registry_id (mr_identity r), ib_rln_identifier (mr_identity r), mr_hash r,
        state_wire (merged_state now r pm), state_wire (cs_state (mr_cache r)))]) \<and>
    (\<forall>h'. h' \<noteq> mr_hash r \<longrightarrow> cache_row s' h' = cache_row s h')"
  using assms
proof (cases rule: resolve_cases)
  case tried
  then show ?thesis
    using cache_row_insert [OF tried(4)] by (auto simp: state_cas_state state_cas_lost split: if_splits)
qed auto

definition cas_store :: store where
  "cas_store = own_store \<lparr> st_inner := (st_inner own_store) \<lparr> in_cache := [(''h'', mr_cache own_record)] \<rparr> \<rparr>"

definition grace_answer :: provider_membership where
  "grace_answer = \<lparr> pm_registered = True, pm_state = GracePeriod, pm_leaf_index = 3, pm_rate_limit = 5 \<rparr>"

lemma cas_store_facts:
  "cache_row cas_store ''h'' = mr_cache own_record" "mr_hash own_record = ''h''" "in_lock (st_inner cas_store)"
  "sealed_contains (st_inner cas_store) ''h''" "merged_state now r grace_answer = GracePeriod" "cs_state (mr_cache own_record) = Active"
  by (simp_all add: cas_store_def cache_row_def bt_get_Cons own_record_def own_store_def sample_inner_def sealed_contains_def
      own_sealed_def bt_contains_def merged_state_def grace_answer_def default_cache_state_def)

theorem state_read_cas_witness:
  "\<exists>view ev s' d'. resolve_state WriteOk 600 600 logos_sample own_record grace_answer cas_store empty_disk = (view, [ev], s', d') \<and>
     cs_state (cache_row s' ''h'') = GracePeriod \<and> snd (snd ev) = (''h'', state_wire GracePeriod, state_wire Active)"
proof -
  obtain view events s' d' where r: "resolve_state WriteOk 600 600 logos_sample own_record grace_answer cas_store empty_disk = (view, events, s', d')"
    by (metis prod_cases4)
  then have "events \<noteq> []" by (cases rule: resolve_cases) (simp_all add: cas_store_facts)
  with state_read_cas [OF r] r show ?thesis by (simp add: cas_store_facts)
qed

text \<open>
  A failed cache write loses the event. When the write of a state change fails, the row in
  memory already holds the new state while the published record still holds the old one, so a
  later read of the published record takes itself for the loser of a race: whatever the registry
  answers then, it announces nothing, although the same answer makes the new state visible to
  every reader. The transition is never announced.
\<close>
lemma failed_persist_loses_event:
  assumes "resolve_state w now nu registry r pm s d = (view, events, s1, d1)"
    and "w \<noteq> WriteOk" "in_lock (st_inner s)" "sealed_contains (st_inner s) (mr_hash r)"
    and "cs_state (cache_row s (mr_hash r)) = cs_state (mr_cache r)" "merged_state now r pm \<noteq> cs_state (mr_cache r)"
    and "resolve_state w2 now2 nu2 registry r pm2 s1 d2 = (view2, events2, s2, d3)"
  shows "events = [] \<and> st_snapshot s1 = st_snapshot s \<and> events2 = [] \<and>
    cs_state (cache_row s2 (mr_hash r)) = merged_state now r pm \<and>
    (w2 = WriteOk \<and> merged_state now2 r pm2 \<noteq> cs_state (mr_cache r) \<longrightarrow> st_snapshot s2 = build_snapshot (st_inner s2))"
  using assms(1)
proof (cases rule: resolve_cases)
  case same
  then show ?thesis using assms by auto
next
  case tried
  have row1: "cs_state (cache_row s1 (mr_hash r)) = merged_state now r pm"
    using cache_row_insert [OF tried(4)] assms(5) by (simp add: state_cas_state)
  have open1: "in_lock (st_inner s1)" "sealed_contains (st_inner s1) (mr_hash r)"
    using tried(4) assms(3,4) by (simp_all add: sealed_contains_def)
  from assms(7) show ?thesis
  proof (cases rule: resolve_cases)
    case same
    then show ?thesis using row1 open1 tried(5,6) assms(2) by simp
  next
    case tried2: tried
    then show ?thesis
      using row1 tried(5,6) assms(2,6) cache_row_insert [OF tried2(4)] by (simp add: state_cas_state)
  qed
qed

end
