(* ===== verification/Worker.thy ===== *)
theory Worker
  imports Slot_Issuer
begin

text \<open>
  The worker supervisor (\<open>worker.rs\<close>): spawn permission, the interruptible tick wait, the exit
  epilogue and the two-phase \<open>stop()\<close>. Each definition is one critical section on the supervisor's
  mutex; the step relation interleaves the sections of any number of concurrent \<open>start\<close>, \<open>stop\<close>,
  \<open>ensure\<close> and \<open>nudge\<close> calls with the moves of every worker thread, and the one above it lets only the
  holder of the \<open>LIFECYCLE\<close> mutex (\<open>lib.rs\<close>) run the sections of \<open>start\<close> and \<open>stop\<close>, as the program does. Threads are kept in a list, so
  a spawned thread's number never changes; generations and nudge counts are unbounded (\<open>u64\<close> in
  the code, bumped once per call).
\<close>

section \<open>Supervisor state\<close>

datatype worker_state = NeverStarted | Running | Stopped

datatype worker_kind = Poller | Refresher | Warm

text \<open>
  A thread is in its body (a tick, or before its first wait), in the tick wait with the nudge count
  it entered with, back from its body, past the counting section, or finished (its done flag set).
\<close>

datatype worker_phase = InBody | Waiting nat | Returned | Counted | Finished

record worker =
  wk_kind :: worker_kind
  wk_gen :: nat
  wk_phase :: worker_phase

record supervisor =
  su_state :: worker_state
  su_generation :: nat
  su_nudges :: nat
  su_running :: nat
  su_poller :: "nat option"
  su_refresher :: "nat option"
  su_warm :: "nat option"
  su_stopped :: bool
  su_workers :: "worker list"

definition supervisor_new :: supervisor where
  "supervisor_new = \<lparr> su_state = NeverStarted, su_generation = 0, su_nudges = 0, su_running = 0, su_poller = None,
     su_refresher = None, su_warm = None, su_stopped = False, su_workers = [] \<rparr>"

definition is_stopped :: "supervisor \<Rightarrow> bool" where
  "is_stopped sv = su_stopped sv"

fun slot_of :: "worker_kind \<Rightarrow> supervisor \<Rightarrow> nat option" where
  "slot_of Poller sv = su_poller sv"
| "slot_of Refresher sv = su_refresher sv"
| "slot_of Warm sv = su_warm sv"

fun set_slot :: "worker_kind \<Rightarrow> nat option \<Rightarrow> supervisor \<Rightarrow> supervisor" where
  "set_slot Poller t sv = sv \<lparr> su_poller := t \<rparr>"
| "set_slot Refresher t sv = sv \<lparr> su_refresher := t \<rparr>"
| "set_slot Warm t sv = sv \<lparr> su_warm := t \<rparr>"

section \<open>The tick wait\<close>

definition keeps_waiting :: "nat \<Rightarrow> bool \<Rightarrow> nat \<Rightarrow> supervisor \<Rightarrow> bool" where
  "keeps_waiting my_gen honor_nudge entry_nudges sv \<longleftrightarrow>
     su_generation sv = my_gen \<and> su_state sv \<noteq> Stopped \<and> (\<not> honor_nudge \<or> su_nudges sv = entry_nudges)"

definition wait_verdict :: "nat \<Rightarrow> bool \<Rightarrow> nat \<Rightarrow> bool \<Rightarrow> supervisor \<Rightarrow> bool" where
  "wait_verdict my_gen honor_nudge entry_nudges timed_out sv \<longleftrightarrow>
     (timed_out \<or> (honor_nudge \<and> su_nudges sv \<noteq> entry_nudges)) \<and> su_generation sv = my_gen \<and> su_state sv \<noteq> Stopped"

definition honors_nudge :: "worker_kind \<Rightarrow> bool" where
  "honors_nudge k \<longleftrightarrow> k = Refresher"

definition nudge_wake :: "supervisor \<Rightarrow> supervisor" where
  "nudge_wake sv = sv \<lparr> su_nudges := su_nudges sv + 1 \<rparr>"

section \<open>Spawning\<close>

definition spawn_into :: "worker_kind \<Rightarrow> supervisor \<Rightarrow> supervisor" where
  "spawn_into k sv = set_slot k (Some (length (su_workers sv)))
     (sv \<lparr> su_workers := su_workers sv @ [\<lparr> wk_kind = k, wk_gen = su_generation sv, wk_phase = InBody \<rparr>],
           su_running := su_running sv + 1 \<rparr>)"

definition done_flag :: "supervisor \<Rightarrow> nat \<Rightarrow> bool" where
  "done_flag sv t \<longleftrightarrow> t < length (su_workers sv) \<and> wk_phase (su_workers sv ! t) = Finished"

definition ensure :: "worker_kind \<Rightarrow> supervisor \<Rightarrow> supervisor" where
  "ensure k sv =
     (if su_state sv = Stopped then sv
      else case slot_of k sv of
        Some t \<Rightarrow> if done_flag sv t then spawn_into k sv else sv
      | None \<Rightarrow> spawn_into k sv)"

definition set_phase :: "nat \<Rightarrow> worker_phase \<Rightarrow> supervisor \<Rightarrow> supervisor" where
  "set_phase t ph sv = sv \<lparr> su_workers := (su_workers sv)[t := (su_workers sv ! t) \<lparr> wk_phase := ph \<rparr>] \<rparr>"

definition exit_count :: "nat \<Rightarrow> supervisor \<Rightarrow> supervisor" where
  "exit_count t sv = set_phase t Counted
     (if su_generation sv = wk_gen (su_workers sv ! t) then sv \<lparr> su_running := su_running sv - 1 \<rparr> else sv)"

section \<open>start and stop\<close>

definition start_permit :: "supervisor \<Rightarrow> supervisor" where
  "start_permit sv = sv
     \<lparr> su_generation := (if su_state sv = Stopped then su_generation sv + 1 else su_generation sv),
       su_state := Running, su_stopped := False \<rparr>"

definition start_warm :: "supervisor \<Rightarrow> supervisor" where
  "start_warm sv = (if su_state sv \<noteq> Stopped then spawn_into Warm (set_slot Warm None sv) else set_slot Warm None sv)"

definition start :: "supervisor \<Rightarrow> supervisor" where
  "start sv = start_warm (ensure Refresher (ensure Poller (start_permit sv)))"

definition stop_begin :: "supervisor \<Rightarrow> supervisor" where
  "stop_begin sv = sv \<lparr> su_state := Stopped, su_stopped := True \<rparr>"

definition stop_end :: "supervisor \<Rightarrow> supervisor" where
  "stop_end sv = sv \<lparr> su_poller := None, su_refresher := None, su_warm := None,
     su_generation := su_generation sv + 1, su_running := 0 \<rparr>"

section \<open>Interleaved sections\<close>

text \<open>\<open>sm_stops\<close> counts the \<open>stop()\<close> calls that are between their two sections.\<close>

record sup_machine =
  sm_sup :: supervisor
  sm_stops :: nat

datatype sup_event =
  Permit | Ensure worker_kind | StartWarm | StopBegin | StopEnd | Nudge
| Enter nat | Tick nat | Leave nat | Count nat | Finish nat

definition alive_in :: "supervisor \<Rightarrow> nat \<Rightarrow> worker_phase \<Rightarrow> bool" where
  "alive_in sv t ph \<longleftrightarrow> t < length (su_workers sv) \<and> wk_phase (su_workers sv ! t) = ph"

inductive sup_step :: "sup_machine \<Rightarrow> sup_event option \<Rightarrow> sup_machine \<Rightarrow> bool" where
  sup_permit: "sup_step m (Some Permit) (m \<lparr> sm_sup := start_permit (sm_sup m) \<rparr>)"
| sup_ensure: "sup_step m (Some (Ensure k)) (m \<lparr> sm_sup := ensure k (sm_sup m) \<rparr>)" if "k \<noteq> Warm"
| sup_warm: "sup_step m (Some StartWarm) (m \<lparr> sm_sup := start_warm (sm_sup m) \<rparr>)"
| sup_stop_begin: "sup_step m (Some StopBegin) \<lparr> sm_sup = stop_begin (sm_sup m), sm_stops = sm_stops m + 1 \<rparr>"
| sup_stop_end: "sm_stops m > 0 \<Longrightarrow>
     sup_step m (Some StopEnd) \<lparr> sm_sup = stop_end (sm_sup m), sm_stops = sm_stops m - 1 \<rparr>"
| sup_nudge: "sup_step m (Some Nudge) (m \<lparr> sm_sup := nudge_wake (sm_sup m) \<rparr>)"
| sup_enter: "alive_in (sm_sup m) t InBody \<Longrightarrow> wk_kind (su_workers (sm_sup m) ! t) \<noteq> Warm \<Longrightarrow>
     sup_step m (Some (Enter t)) (m \<lparr> sm_sup := set_phase t (Waiting (su_nudges (sm_sup m))) (sm_sup m) \<rparr>)"
| sup_tick: "alive_in (sm_sup m) t (Waiting n) \<Longrightarrow> w = su_workers (sm_sup m) ! t \<Longrightarrow>
     timed_out = keeps_waiting (wk_gen w) (honors_nudge (wk_kind w)) n (sm_sup m) \<Longrightarrow>
     wait_verdict (wk_gen w) (honors_nudge (wk_kind w)) n timed_out (sm_sup m) \<Longrightarrow>
     sup_step m (Some (Tick t)) (m \<lparr> sm_sup := set_phase t InBody (sm_sup m) \<rparr>)"
| sup_leave: "alive_in (sm_sup m) t (Waiting n) \<Longrightarrow> w = su_workers (sm_sup m) ! t \<Longrightarrow>
     timed_out = keeps_waiting (wk_gen w) (honors_nudge (wk_kind w)) n (sm_sup m) \<Longrightarrow>
     \<not> wait_verdict (wk_gen w) (honors_nudge (wk_kind w)) n timed_out (sm_sup m) \<Longrightarrow>
     sup_step m (Some (Leave t)) (m \<lparr> sm_sup := set_phase t Returned (sm_sup m) \<rparr>)"
| sup_warm_leave: "alive_in (sm_sup m) t InBody \<Longrightarrow> wk_kind (su_workers (sm_sup m) ! t) = Warm \<Longrightarrow>
     sup_step m (Some (Leave t)) (m \<lparr> sm_sup := set_phase t Returned (sm_sup m) \<rparr>)"
| sup_count: "alive_in (sm_sup m) t Returned \<Longrightarrow>
     sup_step m (Some (Count t)) (m \<lparr> sm_sup := exit_count t (sm_sup m) \<rparr>)"
| sup_finish: "alive_in (sm_sup m) t Counted \<Longrightarrow>
     sup_step m (Some (Finish t)) (m \<lparr> sm_sup := set_phase t Finished (sm_sup m) \<rparr>)"

definition machine_new :: sup_machine where
  "machine_new = \<lparr> sm_sup = supervisor_new, sm_stops = 0 \<rparr>"

section \<open>The invariant\<close>

definition counts_live :: "nat \<Rightarrow> worker \<Rightarrow> bool" where
  "counts_live g w \<longleftrightarrow> wk_gen w = g \<and> wk_phase w \<notin> {Counted, Finished}"

definition live_count :: "supervisor \<Rightarrow> nat" where
  "live_count sv = length (filter (counts_live (su_generation sv)) (su_workers sv))"

definition slots_valid :: "supervisor \<Rightarrow> bool" where
  "slots_valid sv \<longleftrightarrow> (\<forall>k t. slot_of k sv = Some t \<longrightarrow> t < length (su_workers sv) \<and> wk_kind (su_workers sv ! t) = k)"

definition current_in_slot :: "supervisor \<Rightarrow> bool" where
  "current_in_slot sv \<longleftrightarrow> (\<forall>t < length (su_workers sv). let w = su_workers sv ! t in
     wk_kind w \<noteq> Warm \<and> wk_gen w = su_generation sv \<and> wk_phase w \<noteq> Finished \<longrightarrow> slot_of (wk_kind w) sv = Some t)"

definition sup_inv :: "sup_machine \<Rightarrow> bool" where
  "sup_inv m \<longleftrightarrow> (let sv = sm_sup m in
     (\<forall>w \<in> set (su_workers sv). wk_gen w \<le> su_generation sv) \<and> slots_valid sv \<and> current_in_slot sv \<and>
     (su_stopped sv \<longleftrightarrow> su_state sv = Stopped) \<and> live_count sv \<le> su_running sv \<and>
     (sm_stops m = 0 \<longrightarrow> su_running sv = live_count sv) \<and>
     (sm_stops m = 0 \<longrightarrow> su_state sv = Stopped \<longrightarrow> su_running sv = 0))"

lemma length_filter_update:
  "t < length xs \<Longrightarrow> length (filter P (xs[t := y])) + (if P (xs ! t) then 1 else 0) =
     length (filter P xs) + (if P y then 1 else 0)"
proof (induction xs arbitrary: t)
  case (Cons x xs)
  then show ?case by (cases t) auto
qed simp

lemma slot_of_set_slot [simp]: "slot_of k (set_slot k' t sv) = (if k = k' then t else slot_of k sv)"
  by (cases k; cases k') simp_all

lemma set_slot_frame [simp]:
  "su_state (set_slot k t sv) = su_state sv" "su_generation (set_slot k t sv) = su_generation sv"
  "su_running (set_slot k t sv) = su_running sv" "su_workers (set_slot k t sv) = su_workers sv"
  "su_stopped (set_slot k t sv) = su_stopped sv" "su_nudges (set_slot k t sv) = su_nudges sv"
  by (cases k; simp)+

lemma slot_of_frame [simp]:
  "slot_of k (sv \<lparr> su_workers := ws \<rparr>) = slot_of k sv" "slot_of k (sv \<lparr> su_running := n \<rparr>) = slot_of k sv"
  "slot_of k (sv \<lparr> su_nudges := n \<rparr>) = slot_of k sv" "slot_of k (sv \<lparr> su_state := st \<rparr>) = slot_of k sv"
  "slot_of k (sv \<lparr> su_generation := n \<rparr>) = slot_of k sv" "slot_of k (sv \<lparr> su_stopped := b \<rparr>) = slot_of k sv"
  by (cases k; simp)+

lemma sup_inv_init: "sup_inv machine_new"
proof -
  have "slot_of k supervisor_new = None" for k by (cases k) (simp_all add: supervisor_new_def)
  then show ?thesis
    by (simp add: sup_inv_def machine_new_def slots_valid_def current_in_slot_def live_count_def)
      (simp add: supervisor_new_def)
qed

text \<open>A spawn into a slot that holds no unfinished thread of the current generation keeps the invariant.\<close>

lemma spawn_inv:
  assumes "sup_inv m" "su_state (sm_sup m) \<noteq> Stopped" "k \<noteq> Warm \<Longrightarrow> case slot_of k (sm_sup m) of None \<Rightarrow> True | Some t \<Rightarrow> done_flag (sm_sup m) t"
  shows "sup_inv (m \<lparr> sm_sup := spawn_into k (sm_sup m) \<rparr>)"
proof -
  let ?sv = "sm_sup m" let ?ws = "su_workers ?sv"
  have free: "t \<noteq> length ?ws \<Longrightarrow> t < Suc (length ?ws) \<Longrightarrow> wk_kind (?ws ! t) \<noteq> Warm \<Longrightarrow> wk_gen (?ws ! t) = su_generation ?sv \<Longrightarrow>
      wk_phase (?ws ! t) \<noteq> Finished \<Longrightarrow> slot_of (wk_kind (?ws ! t)) ?sv = Some t \<and> wk_kind (?ws ! t) \<noteq> k" for t
    using assms by (auto simp: sup_inv_def current_in_slot_def done_flag_def Let_def split: option.splits)
  have "slots_valid (spawn_into k ?sv)"
    using assms(1) by (force simp: sup_inv_def slots_valid_def spawn_into_def nth_append Let_def)
  moreover have "current_in_slot (spawn_into k ?sv)"
    using free by (auto simp: current_in_slot_def spawn_into_def nth_append Let_def less_Suc_eq)
  moreover have "live_count (spawn_into k ?sv) = live_count ?sv + 1"
    by (simp add: live_count_def spawn_into_def counts_live_def)
  ultimately show ?thesis
    using assms(1,2) by (auto simp: sup_inv_def Let_def spawn_into_def [of k ?sv])
qed

lemma phase_inv:
  assumes "sup_inv m" "t < length (su_workers (sm_sup m))"
    and "counts_live (su_generation (sm_sup m)) (su_workers (sm_sup m) ! t) = counts_live (su_generation (sm_sup m)) ((su_workers (sm_sup m) ! t) \<lparr> wk_phase := ph \<rparr>)"
    and "wk_phase (su_workers (sm_sup m) ! t) \<noteq> Finished"
  shows "sup_inv (m \<lparr> sm_sup := set_phase t ph (sm_sup m) \<rparr>)"
proof -
  let ?sv = "sm_sup m" let ?ws = "su_workers ?sv" let ?w = "(?ws ! t) \<lparr> wk_phase := ph \<rparr>"
  have sl: "slot_of k (set_phase t ph ?sv) = slot_of k ?sv" for k by (simp add: set_phase_def)
  have "live_count (set_phase t ph ?sv) = live_count ?sv"
    using length_filter_update [OF assms(2), of "counts_live (su_generation ?sv)" ?w] assms(3)
    by (simp add: live_count_def set_phase_def)
  moreover have "slots_valid (set_phase t ph ?sv)"
    using assms(1,2) by (auto simp: sup_inv_def slots_valid_def sl Let_def) (auto simp: set_phase_def nth_list_update)
  moreover have "current_in_slot (set_phase t ph ?sv)"
    using assms(1,2,4) by (auto simp: sup_inv_def current_in_slot_def sl Let_def) (auto simp: set_phase_def nth_list_update split: if_splits)
  moreover have "\<forall>w \<in> set (su_workers (set_phase t ph ?sv)). wk_gen w \<le> su_generation ?sv"
    using assms(1,2) set_update_subset_insert [of ?ws t ?w] nth_mem [OF assms(2)]
    by (auto simp: sup_inv_def set_phase_def Let_def)
  ultimately show ?thesis using assms(1) by (auto simp: sup_inv_def Let_def set_phase_def [of t ph ?sv])
qed

lemma count_inv:
  assumes "sup_inv m" "alive_in (sm_sup m) t Returned"
  shows "sup_inv (m \<lparr> sm_sup := exit_count t (sm_sup m) \<rparr>)"
proof -
  let ?sv = "sm_sup m" let ?ws = "su_workers ?sv" let ?w = "(?ws ! t) \<lparr> wk_phase := Counted \<rparr>"
  have t: "t < length ?ws" "wk_phase (?ws ! t) = Returned" using assms(2) by (simp_all add: alive_in_def)
  have sl: "slot_of k (exit_count t ?sv) = slot_of k ?sv" for k by (simp add: exit_count_def set_phase_def)
  have ws: "su_workers (exit_count t ?sv) = ?ws[t := ?w]" "su_generation (exit_count t ?sv) = su_generation ?sv"
    by (simp_all add: exit_count_def set_phase_def)
  have c: "live_count (exit_count t ?sv) = live_count ?sv - (if wk_gen (?ws ! t) = su_generation ?sv then 1 else 0)"
    using length_filter_update [OF t(1), of "counts_live (su_generation ?sv)" ?w] t
    by (auto simp: live_count_def ws counts_live_def)
  have r: "su_running (exit_count t ?sv) = su_running ?sv - (if wk_gen (?ws ! t) = su_generation ?sv then 1 else 0)"
    by (simp add: exit_count_def set_phase_def)
  have "slots_valid (exit_count t ?sv)"
    using assms(1) t by (auto simp: sup_inv_def slots_valid_def sl ws nth_list_update Let_def)
  moreover have "current_in_slot (exit_count t ?sv)"
    using assms(1) t by (auto simp: sup_inv_def current_in_slot_def sl ws nth_list_update Let_def split: if_splits)
  moreover have "\<forall>w \<in> set (su_workers (exit_count t ?sv)). wk_gen w \<le> su_generation ?sv"
    using assms(1) t set_update_subset_insert [of ?ws t ?w] nth_mem [OF t(1)]
    by (auto simp: sup_inv_def ws Let_def)
  moreover have "su_state (exit_count t ?sv) = su_state ?sv" "su_stopped (exit_count t ?sv) = su_stopped ?sv"
    by (simp_all add: exit_count_def set_phase_def)
  moreover have "live_count (exit_count t ?sv) \<le> su_running (exit_count t ?sv) \<and>
      (sm_stops m = 0 \<longrightarrow> su_running (exit_count t ?sv) = live_count (exit_count t ?sv)) \<and>
      (sm_stops m = 0 \<longrightarrow> su_state ?sv = Stopped \<longrightarrow> su_running (exit_count t ?sv) = 0)"
    unfolding c r using assms(1) by (auto simp: sup_inv_def Let_def)
  ultimately show ?thesis using assms(1) by (auto simp: sup_inv_def Let_def ws(2))
qed

lemma new_generation_count:
  "\<forall>w \<in> set ws. wk_gen w \<le> g \<Longrightarrow> filter (counts_live (Suc g)) ws = []"
  by (auto simp: filter_empty_conv counts_live_def)

lemma permit_inv: "sup_inv m \<Longrightarrow> sup_inv (m \<lparr> sm_sup := start_permit (sm_sup m) \<rparr>)"
proof -
  assume inv: "sup_inv m"
  let ?sv = "sm_sup m"
  have sl: "slot_of k (start_permit ?sv) = slot_of k ?sv" for k by (simp add: start_permit_def)
  show ?thesis
  proof (cases "su_state ?sv = Stopped")
    case True
    have g: "su_generation (start_permit ?sv) = Suc (su_generation ?sv)" using True by (simp add: start_permit_def)
    have ws: "su_workers (start_permit ?sv) = su_workers ?sv" "su_running (start_permit ?sv) = su_running ?sv"
      "su_state (start_permit ?sv) = Running" "\<not> su_stopped (start_permit ?sv)" by (simp_all add: start_permit_def)
    have le: "\<forall>w \<in> set (su_workers ?sv). wk_gen w \<le> su_generation ?sv" using inv by (simp add: sup_inv_def Let_def)
    then have "current_in_slot (start_permit ?sv)"
      by (fastforce simp: current_in_slot_def g ws Let_def dest: nth_mem)
    moreover have "live_count (start_permit ?sv) = 0" using le by (simp add: live_count_def g ws new_generation_count)
    ultimately show ?thesis using inv True by (auto simp: sup_inv_def Let_def g ws slots_valid_def sl)
  next
    case False
    then show ?thesis using inv
      by (auto simp: sup_inv_def Let_def slots_valid_def current_in_slot_def live_count_def sl) (auto simp: start_permit_def)
  qed
qed

lemma stop_end_inv:
  assumes "sup_inv m"
  shows "sup_inv \<lparr> sm_sup = stop_end (sm_sup m), sm_stops = n \<rparr>"
proof -
  let ?sv = "sm_sup m"
  have none: "slot_of k (stop_end ?sv) = None" for k by (cases k) (simp_all add: stop_end_def)
  have le: "\<forall>w \<in> set (su_workers ?sv). wk_gen w \<le> su_generation ?sv" using assms by (simp add: sup_inv_def Let_def)
  then have "current_in_slot (stop_end ?sv)" by (fastforce simp: current_in_slot_def stop_end_def Let_def dest: nth_mem)
  moreover have "live_count (stop_end ?sv) = 0" using le by (simp add: live_count_def stop_end_def new_generation_count)
  moreover have "su_workers (stop_end ?sv) = su_workers ?sv" "su_generation (stop_end ?sv) = Suc (su_generation ?sv)"
    "su_running (stop_end ?sv) = 0" "su_state (stop_end ?sv) = su_state ?sv" "su_stopped (stop_end ?sv) = su_stopped ?sv"
    by (simp_all add: stop_end_def)
  ultimately show ?thesis using assms le by (auto simp: sup_inv_def Let_def slots_valid_def none)
qed

lemma ensure_inv: "sup_inv m \<Longrightarrow> k \<noteq> Warm \<Longrightarrow> sup_inv (m \<lparr> sm_sup := ensure k (sm_sup m) \<rparr>)"
  using spawn_inv [of m k] by (auto simp: ensure_def split: option.splits)

lemma start_warm_inv: "sup_inv m \<Longrightarrow> sup_inv (m \<lparr> sm_sup := start_warm (sm_sup m) \<rparr>)"
proof -
  assume inv: "sup_inv m"
  let ?m = "m \<lparr> sm_sup := set_slot Warm None (sm_sup m) \<rparr>"
  have "slots_valid (sm_sup ?m)" "current_in_slot (sm_sup ?m)" "live_count (sm_sup ?m) = live_count (sm_sup m)"
    using inv by (simp_all add: sup_inv_def Let_def slots_valid_def current_in_slot_def live_count_def del: set_slot.simps)
  then have m: "sup_inv ?m" using inv by (auto simp: sup_inv_def Let_def simp del: set_slot.simps)
  show ?thesis
  proof (cases "su_state (sm_sup m) = Stopped")
    case True
    then show ?thesis using m by (simp add: start_warm_def del: set_slot.simps)
  next
    case False
    then have "sup_inv (?m \<lparr> sm_sup := spawn_into Warm (sm_sup ?m) \<rparr>)" by (intro spawn_inv m) simp_all
    then show ?thesis using False by (simp add: start_warm_def del: set_slot.simps)
  qed
qed

lemma sup_inv_step:
  assumes "sup_inv m" "sup_step m l m'"
  shows "sup_inv m'"
  using assms(2,1)
proof cases
  case sup_permit
  then show ?thesis using assms(1) permit_inv by simp
next
  case (sup_ensure k)
  then show ?thesis using assms(1) ensure_inv by simp
next
  case sup_warm
  then show ?thesis using assms(1) start_warm_inv by simp
next
  case sup_stop_begin
  then show ?thesis using assms(1)
    by (auto simp: sup_inv_def Let_def stop_begin_def slots_valid_def current_in_slot_def live_count_def)
next
  case sup_stop_end
  then show ?thesis using assms(1) stop_end_inv by simp
next
  case sup_nudge
  then show ?thesis using assms(1)
    by (auto simp: sup_inv_def Let_def nudge_wake_def slots_valid_def current_in_slot_def live_count_def)
next
  case (sup_count t)
  then show ?thesis using assms(1) count_inv by simp
qed (use assms(1) in \<open>auto intro!: phase_inv simp: alive_in_def counts_live_def\<close>)

section \<open>Superseded workers\<close>

text \<open>How many moves a thread can still make once its generation is over.\<close>

fun moves_left :: "worker_phase \<Rightarrow> nat" where
  "moves_left InBody = 4"
| "moves_left (Waiting _) = 3"
| "moves_left Returned = 2"
| "moves_left Counted = 1"
| "moves_left Finished = 0"

fun mover :: "sup_event \<Rightarrow> nat option" where
  "mover (Enter t) = Some t"
| "mover (Tick t) = Some t"
| "mover (Leave t) = Some t"
| "mover (Count t) = Some t"
| "mover (Finish t) = Some t"
| "mover _ = None"

definition superseded :: "nat \<Rightarrow> supervisor \<Rightarrow> bool" where
  "superseded t sv \<longleftrightarrow> t < length (su_workers sv) \<and> wk_gen (su_workers sv ! t) < su_generation sv"

definition moves_of :: "nat \<Rightarrow> sup_event list \<Rightarrow> nat" where
  "moves_of t evs = length (filter (\<lambda>e. mover e = Some t) evs)"

lemma frame_simps [simp]:
  "su_workers (spawn_into k sv) = su_workers sv @ [\<lparr> wk_kind = k, wk_gen = su_generation sv, wk_phase = InBody \<rparr>]"
  "su_generation (spawn_into k sv) = su_generation sv" "su_state (spawn_into k sv) = su_state sv"
  "su_stopped (spawn_into k sv) = su_stopped sv"
  "su_workers (set_phase t ph sv) = (su_workers sv)[t := (su_workers sv ! t) \<lparr> wk_phase := ph \<rparr>]"
  "su_generation (set_phase t ph sv) = su_generation sv"
  "su_workers (exit_count t sv) = (su_workers sv)[t := (su_workers sv ! t) \<lparr> wk_phase := Counted \<rparr>]"
  "su_generation (exit_count t sv) = su_generation sv"
  by (simp_all add: spawn_into_def set_phase_def exit_count_def)

lemma superseded_step:
  assumes "sup_step m (Some e) m'" "superseded t (sm_sup m)"
  shows "superseded t (sm_sup m') \<and> e \<noteq> Tick t \<and>
    moves_left (wk_phase (su_workers (sm_sup m') ! t)) + (if mover e = Some t then 1 else 0) \<le>
      moves_left (wk_phase (su_workers (sm_sup m) ! t))"
  using assms
  by cases
    (auto simp: superseded_def start_permit_def ensure_def start_warm_def stop_begin_def stop_end_def nudge_wake_def
       alive_in_def wait_verdict_def nth_append nth_list_update split: option.splits if_splits)

lemma sup_step_event: "sup_step m l m' \<Longrightarrow> \<exists>e. l = Some e"
  by (cases rule: sup_step.cases) auto

lemma superseded_trace:
  assumes "trace sup_step m ls m'" "superseded t (sm_sup m)"
  shows "Tick t \<notin> set (issued ls) \<and> superseded t (sm_sup m') \<and>
    moves_left (wk_phase (su_workers (sm_sup m') ! t)) + moves_of t (issued ls) \<le> moves_left (wk_phase (su_workers (sm_sup m) ! t))"
  using assms
proof (induction rule: trace.induct)
  case (trace_cons s l s' ls s'')
  obtain e where l: "l = Some e" using sup_step_event trace_cons.hyps(1) by blast
  from superseded_step [OF trace_cons.hyps(1) [unfolded l] trace_cons.prems] trace_cons.IH
  show ?case by (auto simp: l moves_of_def split: if_splits)
qed (simp add: moves_of_def)

lemma stopped_step:
  assumes "sup_step m (Some e) m'" "su_state (sm_sup m) = Stopped" "e \<noteq> Permit"
  shows "su_state (sm_sup m') = Stopped \<and> length (su_workers (sm_sup m')) = length (su_workers (sm_sup m)) \<and> (\<forall>t. e \<noteq> Tick t)"
  using assms
  by cases (auto simp: ensure_def start_warm_def stop_begin_def stop_end_def nudge_wake_def set_phase_def exit_count_def wait_verdict_def)

section \<open>Properties\<close>

text \<open>
  C20: the supervisor never runs a maintenance worker twice. Under any interleaving of any number
  of \<open>start\<close>, \<open>stop\<close>, spawn and nudge calls with the workers' own moves, at most one poller and one
  refresher of the current generation are unfinished at any time, the lock-free stop flag agrees
  with the supervisor state, the live count covers every current worker that has not been
  counted out, and it is exact whenever no \<open>stop\<close> is under way.
\<close>
theorem supervisor_exclusive:
  assumes "trace sup_step machine_new ls m" "sv = sm_sup m"
  shows "(\<forall>t u. t < length (su_workers sv) \<and> u < length (su_workers sv) \<and> wk_kind (su_workers sv ! t) = wk_kind (su_workers sv ! u) \<and>
       wk_kind (su_workers sv ! t) \<noteq> Warm \<and> wk_gen (su_workers sv ! t) = su_generation sv \<and> wk_gen (su_workers sv ! u) = su_generation sv \<and>
       wk_phase (su_workers sv ! t) \<noteq> Finished \<and> wk_phase (su_workers sv ! u) \<noteq> Finished \<longrightarrow> t = u) \<and>
     (is_stopped sv \<longleftrightarrow> su_state sv = Stopped) \<and>
     length (filter (\<lambda>w. wk_gen w = su_generation sv \<and> wk_phase w \<notin> {Counted, Finished}) (su_workers sv)) \<le> su_running sv \<and>
     (sm_stops m = 0 \<longrightarrow>
        su_running sv = length (filter (\<lambda>w. wk_gen w = su_generation sv \<and> wk_phase w \<notin> {Counted, Finished}) (su_workers sv)))"
proof -
  have inv: "sup_inv m" using trace_invariant [OF assms(1), of sup_inv] sup_inv_step sup_inv_init by blast
  have "slot_of (wk_kind (su_workers sv ! t)) sv = Some t" if "t < length (su_workers sv)" "wk_kind (su_workers sv ! t) \<noteq> Warm"
      "wk_gen (su_workers sv ! t) = su_generation sv" "wk_phase (su_workers sv ! t) \<noteq> Finished" for t
    using inv that assms(2) by (simp add: sup_inv_def current_in_slot_def Let_def)
  then have "\<forall>t u. t < length (su_workers sv) \<and> u < length (su_workers sv) \<and> wk_kind (su_workers sv ! t) = wk_kind (su_workers sv ! u) \<and>
       wk_kind (su_workers sv ! t) \<noteq> Warm \<and> wk_gen (su_workers sv ! t) = su_generation sv \<and> wk_gen (su_workers sv ! u) = su_generation sv \<and>
       wk_phase (su_workers sv ! t) \<noteq> Finished \<and> wk_phase (su_workers sv ! u) \<noteq> Finished \<longrightarrow> t = u"
    by (metis option.inject)
  moreover have n: "live_count sv = length (filter (\<lambda>w. wk_gen w = su_generation sv \<and> wk_phase w \<notin> {Counted, Finished}) (su_workers sv))"
    by (simp add: live_count_def counts_live_def [abs_def])
  ultimately show ?thesis
    using inv unfolding sup_inv_def Let_def is_stopped_def n [symmetric] assms(2) [symmetric] by blast
qed

text \<open>
  C21: \<open>stop()\<close> ends every worker it left behind. Once a \<open>stop()\<close> has returned, a worker that was
  spawned before, joined or detached, never begins another tick, whatever starts, stops and
  nudges follow, and makes at most four more moves before its thread is finished. While no
  \<open>start()\<close> follows, no worker ticks at all and none is spawned.
\<close>
theorem stop_retires_workers:
  assumes "sup_inv m" "sm_stops m > 0" "m1 = \<lparr> sm_sup = stop_end (sm_sup m), sm_stops = sm_stops m - 1 \<rparr>"
    and "trace sup_step m1 ls m2" "t < length (su_workers (sm_sup m))"
  shows "Tick t \<notin> set (issued ls) \<and> moves_of t (issued ls) \<le> 4 \<and>
    (su_state (sm_sup m) = Stopped \<and> Permit \<notin> set (issued ls) \<longrightarrow>
       (\<forall>u. Tick u \<notin> set (issued ls)) \<and> length (su_workers (sm_sup m2)) = length (su_workers (sm_sup m)))"
proof -
  have "wk_gen (su_workers (sm_sup m) ! t) \<le> su_generation (sm_sup m)"
    using assms(1,5) by (auto simp: sup_inv_def Let_def)
  then have sup: "superseded t (sm_sup m1)" using assms(3,5) by (simp add: superseded_def stop_end_def)
  have "moves_left ph \<le> 4" for ph by (cases ph) simp_all
  then have "moves_of t (issued ls) \<le> 4" using superseded_trace [OF assms(4) sup] by (meson add_leD2 order_trans)
  moreover have "(\<forall>u. Tick u \<notin> set (issued ls)) \<and> length (su_workers (sm_sup m2)) = length (su_workers (sm_sup m1))"
    if "su_state (sm_sup m1) = Stopped" "Permit \<notin> set (issued ls)"
    using assms(4) that
  proof (induction rule: trace.induct)
    case (trace_cons s l s' ls s'')
    obtain e where l: "l = Some e" using sup_step_event trace_cons.hyps(1) by blast
    from stopped_step [OF trace_cons.hyps(1) [unfolded l] trace_cons.prems(1)] trace_cons.IH trace_cons.prems
    show ?case by (auto simp: l)
  qed simp
  ultimately show ?thesis using superseded_trace [OF assms(4) sup] assms(3) by (simp add: stop_end_def)
qed

section \<open>start and stop are serialised\<close>

text \<open>
  The bodies of \<open>start\<close> and \<open>stop\<close> (\<open>start_impl\<close> and \<open>stop_impl\<close> in \<open>lib.rs\<close>) hold one mutex, \<open>LIFECYCLE\<close>, from
  their first line to their last. \<open>lc_pending\<close> is what the holder has left to run, so the mutex is free when it
  is empty. Spawns outside of \<open>start\<close>, nudges and the workers themselves do not take it. A \<open>start\<close> that
  refuses its configuration gives the mutex back without running any section, so it is no call here.
\<close>

datatype lifecycle_call = StartCall | StopCall

fun call_sections :: "lifecycle_call \<Rightarrow> sup_event list" where
  "call_sections StartCall = [Permit, Ensure Poller, Ensure Refresher, StartWarm]"
| "call_sections StopCall = [StopBegin, StopEnd]"

record lifecycle =
  lc_machine :: sup_machine
  lc_pending :: "sup_event list"

datatype lifecycle_event = Acquire lifecycle_call | Section sup_event

definition lifecycle_new :: lifecycle where
  "lifecycle_new = \<lparr> lc_machine = machine_new, lc_pending = [] \<rparr>"

definition needs_lifecycle :: "sup_event \<Rightarrow> bool" where
  "needs_lifecycle e \<longleftrightarrow> e \<in> {Permit, StartWarm, StopBegin, StopEnd}"

inductive lifecycle_step :: "lifecycle \<Rightarrow> lifecycle_event option \<Rightarrow> lifecycle \<Rightarrow> bool" where
  lc_acquire: "lc_pending c = [] \<Longrightarrow> lifecycle_step c (Some (Acquire call)) (c \<lparr> lc_pending := call_sections call \<rparr>)"
| lc_section: "lc_pending c = e # es \<Longrightarrow> sup_step (lc_machine c) (Some e) m \<Longrightarrow>
     lifecycle_step c (Some (Section e)) \<lparr> lc_machine = m, lc_pending = es \<rparr>"
| lc_other: "\<not> needs_lifecycle e \<Longrightarrow> sup_step (lc_machine c) (Some e) m \<Longrightarrow>
     lifecycle_step c (Some (Section e)) (c \<lparr> lc_machine := m \<rparr>)"

text \<open>So the program's runs are among the interleavings of the sections.\<close>

fun section_of :: "lifecycle_event \<Rightarrow> sup_event option" where
  "section_of (Acquire call) = None"
| "section_of (Section e) = Some e"

lemma lifecycle_run_interleaves:
  assumes "trace lifecycle_step c ls c'"
  shows "trace sup_step (lc_machine c) (map Some (List.map_filter section_of (issued ls))) (lc_machine c')"
  using assms
proof (induction rule: trace.induct)
  case (trace_cons c l c' ls c'')
  from trace_cons.hyps(1) show ?case
    by cases (use trace_cons.IH in \<open>auto simp: map_filter_simps intro: trace.trace_cons\<close>)
qed (simp add: map_filter_simps trace_nil)

text \<open>The state a finished call leaves, and the last call of a run.\<close>

definition up :: "worker_kind \<Rightarrow> supervisor \<Rightarrow> bool" where
  "up k sv \<longleftrightarrow> (\<exists>t. slot_of k sv = Some t \<and> t < length (su_workers sv) \<and> wk_gen (su_workers sv ! t) = su_generation sv \<and>
     wk_phase (su_workers sv ! t) \<in> {InBody} \<union> range Waiting)"

definition vacant_or_up :: "worker_kind \<Rightarrow> supervisor \<Rightarrow> bool" where
  "vacant_or_up k sv \<longleftrightarrow> slot_of k sv = None \<or> up k sv"

definition emptied :: "supervisor \<Rightarrow> bool" where
  "emptied sv \<longleftrightarrow> (\<forall>k. slot_of k sv = None) \<and> (\<forall>w \<in> set (su_workers sv). wk_gen w < su_generation sv) \<and> su_running sv = 0"

fun state_after :: "lifecycle_call option \<Rightarrow> worker_state" where
  "state_after None = NeverStarted"
| "state_after (Some StartCall) = Running"
| "state_after (Some StopCall) = Stopped"

lemma up_simps [simp]:
  "up k (sv \<lparr> su_nudges := n \<rparr>) = up k sv" "vacant_or_up k (sv \<lparr> su_nudges := n \<rparr>) = vacant_or_up k sv"
  by (simp_all add: up_def vacant_or_up_def)

lemma spawn_up: "k \<noteq> k' \<Longrightarrow> up k sv \<Longrightarrow> up k (spawn_into k' sv)" "up k (spawn_into k sv)"
  by (auto simp: up_def nth_append spawn_into_def)

lemma ensure_ups:
  assumes "vacant_or_up k sv" "su_state sv \<noteq> Stopped"
  shows "up k (ensure k sv)"
  using assms spawn_up(2) by (auto simp: vacant_or_up_def up_def ensure_def done_flag_def split: option.splits)

lemma ensure_keeps_up: "up k sv \<Longrightarrow> up k (ensure k' sv)"
  using spawn_up(1) [of k k' sv] spawn_up(2) [of k sv] by (cases "k = k'") (auto simp: ensure_def split: option.splits)

lemma ensure_keeps_vacancy: "vacant_or_up k sv \<Longrightarrow> k \<noteq> k' \<Longrightarrow> vacant_or_up k (ensure k' sv)"
  using ensure_keeps_up [of k sv k'] by (auto simp: vacant_or_up_def ensure_def spawn_into_def split: option.splits)

lemma other_frame:
  assumes "sup_step m (Some e) m'" "\<not> needs_lifecycle e"
  shows "su_state (sm_sup m') = su_state (sm_sup m)" "sm_stops m' = sm_stops m" "su_generation (sm_sup m') = su_generation (sm_sup m)"
  using assms by (cases; auto simp: needs_lifecycle_def ensure_def nudge_wake_def set_phase_def exit_count_def split: option.splits)+

lemma other_up:
  assumes "sup_step m (Some e) m'" "\<not> needs_lifecycle e" "sup_inv m" "su_state (sm_sup m) \<noteq> Stopped" "k \<noteq> Warm" "up k (sm_sup m)"
  shows "up k (sm_sup m')"
proof -
  obtain u where u: "slot_of k (sm_sup m) = Some u" "u < length (su_workers (sm_sup m))"
    "wk_gen (su_workers (sm_sup m) ! u) = su_generation (sm_sup m)" "wk_phase (su_workers (sm_sup m) ! u) \<in> {InBody} \<union> range Waiting"
    using assms(6) by (auto simp: up_def)
  have kind: "wk_kind (su_workers (sm_sup m) ! u) \<noteq> Warm"
    using assms(3,5) u(1) by (auto simp: sup_inv_def slots_valid_def Let_def)
  have keep: "up k (set_phase t ph sv)" if "sv = sm_sup m" "t = u \<Longrightarrow> ph \<in> {InBody} \<union> range Waiting" for t ph sv
    unfolding up_def
  proof (intro exI [of _ u] conjI)
    show "slot_of k (set_phase t ph sv) = Some u" using that(1) u(1) by (simp add: set_phase_def)
  qed (use that u in \<open>cases "t = u"; auto simp: set_phase_def\<close>)+
  from assms(1) show ?thesis
  proof cases
    case (sup_ensure k')
    then show ?thesis using ensure_keeps_up assms(6) by simp
  next
    case (sup_leave t n w)
    then have "t \<noteq> u" using u(3) assms(4) by (auto simp: wait_verdict_def keeps_waiting_def)
    then show ?thesis using sup_leave keep by simp
  next
    case (sup_warm_leave t)
    then have "t \<noteq> u" using kind by auto
    then show ?thesis using sup_warm_leave keep by simp
  next
    case (sup_count t)
    then have "t \<noteq> u" using u(4) by (auto simp: alive_in_def)
    then show ?thesis using sup_count u unfolding up_def by (intro exI [of _ u]) (auto simp: exit_count_def set_phase_def)
  next
    case (sup_finish t)
    then have "t \<noteq> u" using u(4) by (auto simp: alive_in_def)
    then show ?thesis using sup_finish keep by simp
  qed (use assms(2,6) keep in \<open>auto simp: needs_lifecycle_def nudge_wake_def\<close>)
qed

lemma other_vacant_or_up:
  assumes "sup_step m (Some e) m'" "\<not> needs_lifecycle e" "sup_inv m" "su_state (sm_sup m) \<noteq> Stopped" "k \<noteq> Warm"
    and "vacant_or_up k (sm_sup m)"
  shows "vacant_or_up k (sm_sup m')"
proof (cases "up k (sm_sup m)")
  case True
  then show ?thesis using other_up [OF assms(1-5)] by (simp add: vacant_or_up_def)
next
  case False
  then have none: "slot_of k (sm_sup m) = None" using assms(6) by (simp add: vacant_or_up_def)
  from assms(1) show ?thesis
  proof cases
    case (sup_ensure k')
    then show ?thesis
      using ensure_ups [OF assms(6,4)] ensure_keeps_vacancy [OF assms(6), of k'] by (cases "k = k'") (auto simp: vacant_or_up_def)
  qed (use none assms(2) in \<open>auto simp: vacant_or_up_def needs_lifecycle_def nudge_wake_def set_phase_def exit_count_def\<close>)
qed

lemma other_emptied:
  assumes "sup_step m (Some e) m'" "\<not> needs_lifecycle e" "su_state (sm_sup m) = Stopped" "emptied (sm_sup m)"
  shows "emptied (sm_sup m')"
proof -
  have phase: "emptied (set_phase t ph (sm_sup m))" if "t < length (su_workers (sm_sup m))" for t ph
    using assms(4) that nth_mem [OF that] set_update_subset_insert
    by (fastforce simp: emptied_def set_phase_def)
  have count: "exit_count t (sm_sup m) = set_phase t Counted (sm_sup m)" if "t < length (su_workers (sm_sup m))" for t
    using assms(4) nth_mem [OF that] by (auto simp: exit_count_def emptied_def)
  from assms(1) show ?thesis
    by cases (use assms(2-4) phase count in \<open>auto simp: needs_lifecycle_def ensure_def nudge_wake_def alive_in_def emptied_def\<close>)
qed

definition settled_state :: "supervisor \<Rightarrow> bool" where
  "settled_state sv \<longleftrightarrow> (if su_state sv = Stopped then emptied sv else vacant_or_up Poller sv \<and> vacant_or_up Refresher sv)"

fun lifecycle_inv :: "lifecycle_call option \<Rightarrow> lifecycle \<Rightarrow> bool" where
  "lifecycle_inv call c \<longleftrightarrow> sup_inv (lc_machine c) \<and>
     (let sv = sm_sup (lc_machine c); stops = sm_stops (lc_machine c); es = lc_pending c in
      if es = [StopEnd] then call = Some StopCall \<and> su_state sv = Stopped \<and> stops = 1
      else settled_state sv \<and> stops = 0 \<and>
        (es = [] \<and> su_state sv = state_after call \<and> (call = Some StartCall \<longrightarrow> up Poller sv \<and> up Refresher sv) \<or>
         call = Some StopCall \<and> es = call_sections StopCall \<or>
         call = Some StartCall \<and>
           (es = call_sections StartCall \<or>
            su_state sv = Running \<and>
              (es = [Ensure Poller, Ensure Refresher, StartWarm] \<or> es = [Ensure Refresher, StartWarm] \<and> up Poller sv \<or>
               es = [StartWarm] \<and> up Poller sv \<and> up Refresher sv))))"

lemma settled_other:
  assumes "sup_step m (Some e) m'" "\<not> needs_lifecycle e" "sup_inv m" "settled_state (sm_sup m)"
  shows "settled_state (sm_sup m')"
  using assms(4) other_frame [OF assms(1,2)] other_emptied [OF assms(1,2)] other_vacant_or_up [OF assms(1-3)]
  by (auto simp: settled_state_def split: if_splits)

lemma inv_other:
  assumes "lifecycle_inv call c" "sup_step (lc_machine c) (Some e) m" "\<not> needs_lifecycle e"
  shows "lifecycle_inv call (c \<lparr> lc_machine := m \<rparr>)"
proof -
  have inv: "sup_inv (lc_machine c)" using assms(1) by simp
  note f = other_frame [OF assms(2,3)] and s = settled_other [OF assms(2,3) inv] and u = other_up [OF assms(2,3) inv]
  show ?thesis
    using assms(1) f s u [of Poller] u [of Refresher] sup_inv_step [OF inv assms(2)]
    by (cases call rule: option.exhaust) (auto simp: Let_def split: if_splits lifecycle_call.splits)
qed

lemma stop_end_settled:
  assumes "su_state sv = Stopped" "\<forall>w \<in> set (su_workers sv). wk_gen w \<le> su_generation sv"
  shows "settled_state (stop_end sv)"
proof -
  have "slot_of k (stop_end sv) = None" for k by (cases k) (simp_all add: stop_end_def)
  moreover have "su_state (stop_end sv) = Stopped" using assms(1) by (simp add: stop_end_def)
  moreover have "\<forall>w \<in> set (su_workers (stop_end sv)). wk_gen w < su_generation (stop_end sv)"
    using assms(2) by (auto simp: stop_end_def less_Suc_eq_le)
  ultimately show ?thesis by (simp add: settled_state_def emptied_def) (simp add: stop_end_def)
qed

lemma emptied_slots: "emptied sv \<Longrightarrow> su_poller sv = None \<and> su_refresher sv = None"
  unfolding emptied_def by (metis slot_of.simps(1,2))

lemma permit_settled: "settled_state sv \<Longrightarrow> settled_state (start_permit sv) \<and> su_state (start_permit sv) = Running"
  by (auto simp: settled_state_def vacant_or_up_def up_def start_permit_def dest: emptied_slots split: if_splits)

lemma settled_running: "su_state sv = Running \<Longrightarrow> settled_state sv \<longleftrightarrow> vacant_or_up Poller sv \<and> vacant_or_up Refresher sv"
  by (simp add: settled_state_def)

lemma up_vacant: "up k sv \<Longrightarrow> vacant_or_up k sv"
  by (simp add: vacant_or_up_def)

lemma ensure_state [simp]: "su_state (ensure k sv) = su_state sv"
  by (simp add: ensure_def split: option.splits)

lemma warm_keeps_up:
  assumes "k \<noteq> Warm" "up k sv"
  shows "up k (start_warm sv)"
proof -
  have "up k (set_slot Warm None sv)" using assms by (cases k) (simp_all add: up_def)
  then show ?thesis using assms(1) spawn_up(1) by (simp add: start_warm_def)
qed

lemma inv_start_section:
  assumes "lifecycle_inv (Some StartCall) c" "lc_pending c = e # es" "sup_step (lc_machine c) (Some e) m"
  shows "lifecycle_inv (Some StartCall) \<lparr> lc_machine = m, lc_pending = es \<rparr>"
proof -
  let ?sv = "sm_sup (lc_machine c)"
  have inv: "sup_inv (lc_machine c)" "sup_inv m" using assms(1) sup_inv_step [OF _ assms(3)] by simp_all
  have set: "settled_state ?sv" "sm_stops (lc_machine c) = 0" using assms(1,2) by (auto simp: Let_def split: if_splits)
  consider (permit) "e = Permit" "es = [Ensure Poller, Ensure Refresher, StartWarm]"
    | (poller) "e = Ensure Poller" "es = [Ensure Refresher, StartWarm]" "su_state ?sv = Running"
    | (refresher) "e = Ensure Refresher" "es = [StartWarm]" "su_state ?sv = Running" "up Poller ?sv"
    | (warm) "e = StartWarm" "es = []" "su_state ?sv = Running" "up Poller ?sv" "up Refresher ?sv"
    using assms(1,2) by (auto simp: Let_def split: if_splits)
  then show ?thesis
  proof cases
    case permit
    have "m = lc_machine c \<lparr> sm_sup := start_permit ?sv \<rparr>" using assms(3) unfolding permit by cases auto
    then show ?thesis using inv(2) set permit permit_settled [OF set(1)] by (simp add: Let_def)
  next
    case poller
    have m: "m = lc_machine c \<lparr> sm_sup := ensure Poller ?sv \<rparr>" using assms(3) unfolding poller by cases auto
    have "up Poller (sm_sup m)" "vacant_or_up Refresher (sm_sup m)"
      using ensure_ups ensure_keeps_vacancy set(1) poller(3) by (simp_all add: m settled_running)
    then show ?thesis using inv(2) set m poller up_vacant by (simp add: Let_def settled_running)
  next
    case refresher
    have m: "m = lc_machine c \<lparr> sm_sup := ensure Refresher ?sv \<rparr>" using assms(3) unfolding refresher by cases auto
    have "up Poller (sm_sup m)" "up Refresher (sm_sup m)"
      using ensure_ups ensure_keeps_up set(1) refresher(3,4) by (simp_all add: m settled_running)
    then show ?thesis using inv(2) set m refresher up_vacant by (simp add: Let_def settled_running)
  next
    case warm
    have m: "m = lc_machine c \<lparr> sm_sup := start_warm ?sv \<rparr>" using assms(3) unfolding warm by cases auto
    have "up Poller (sm_sup m)" "up Refresher (sm_sup m)" "su_state (sm_sup m) = Running"
      using warm_keeps_up warm(3-5) by (simp_all add: m) (simp add: start_warm_def)
    then show ?thesis using inv(2) set m warm(2) up_vacant by (simp add: Let_def settled_running)
  qed
qed

lemma inv_stop_section:
  assumes "lifecycle_inv (Some StopCall) c" "lc_pending c = e # es" "sup_step (lc_machine c) (Some e) m"
  shows "lifecycle_inv (Some StopCall) \<lparr> lc_machine = m, lc_pending = es \<rparr>"
proof -
  let ?sv = "sm_sup (lc_machine c)"
  have inv: "sup_inv (lc_machine c)" "sup_inv m" using assms(1) sup_inv_step [OF _ assms(3)] by simp_all
  consider (first) "e = StopBegin" "es = [StopEnd]" "sm_stops (lc_machine c) = 0"
    | (second) "e = StopEnd" "es = []" "su_state ?sv = Stopped" "sm_stops (lc_machine c) = 1"
    using assms(1,2) by (auto simp: Let_def split: if_splits)
  then show ?thesis
  proof cases
    case first
    have "m = \<lparr> sm_sup = stop_begin ?sv, sm_stops = sm_stops (lc_machine c) + 1 \<rparr>" using assms(3) unfolding first(1) by cases auto
    then show ?thesis using inv(2) first by (simp add: Let_def stop_begin_def)
  next
    case second
    have m: "m = \<lparr> sm_sup = stop_end ?sv, sm_stops = sm_stops (lc_machine c) - 1 \<rparr>" using assms(3) unfolding second(1) by cases auto
    have "settled_state (stop_end ?sv)" using inv(1) second(3) by (intro stop_end_settled) (auto simp: sup_inv_def Let_def)
    then show ?thesis using inv(2) second m by (simp add: Let_def) (simp add: stop_end_def)
  qed
qed

fun call_of :: "lifecycle_event \<Rightarrow> lifecycle_call option" where
  "call_of (Acquire call) = Some call"
| "call_of (Section e) = None"

definition last_call :: "lifecycle_event option list \<Rightarrow> lifecycle_call option" where
  "last_call ls = (case rev (List.map_filter call_of (issued ls)) of [] \<Rightarrow> None | call # _ \<Rightarrow> Some call)"

lemma last_call_simps [simp]:
  "last_call [] = None" "last_call (ls @ [Some (Acquire call)]) = Some call" "last_call (ls @ [Some (Section e)]) = last_call ls"
  by (simp_all add: last_call_def map_filter_def)

lemma lifecycle_inv_step:
  assumes "lifecycle_inv call c" "lifecycle_step c (Some l) c'"
  shows "lifecycle_inv (case l of Acquire call' \<Rightarrow> Some call' | Section e \<Rightarrow> call) c'"
  using assms(2)
proof cases
  case (lc_acquire call')
  then show ?thesis using assms(1) by (cases call') (auto simp: Let_def)
next
  case (lc_section e es m)
  have "\<exists>call'. call = Some call'" using assms(1) lc_section(3) by (cases call) (auto simp: Let_def split: if_splits)
  then consider "call = Some StartCall" | "call = Some StopCall" using lifecycle_call.exhaust by metis
  then have "lifecycle_inv call \<lparr> lc_machine = m, lc_pending = es \<rparr>"
    using inv_start_section [OF _ lc_section(3,4)] inv_stop_section [OF _ lc_section(3,4)] assms(1) by cases (simp_all only:)
  then show ?thesis using lc_section(1,2) by (simp del: lifecycle_inv.simps)
next
  case (lc_other e m)
  then show ?thesis using inv_other [OF assms(1)] by (simp del: lifecycle_inv.simps)
qed

lemma lifecycle_inv_trace:
  assumes "trace lifecycle_step c ls c'" "lifecycle_inv (last_call ks) c"
  shows "lifecycle_inv (last_call (ks @ ls)) c'"
  using assms
proof (induction arbitrary: ks rule: trace.induct)
  case (trace_cons c l c' ls c'')
  obtain e where l: "l = Some e" using trace_cons.hyps(1) by cases auto
  have "lifecycle_inv (last_call (ks @ [l])) c'"
    using lifecycle_inv_step [OF trace_cons.prems trace_cons.hyps(1) [unfolded l]] by (cases e) (simp_all add: l del: lifecycle_inv.simps)
  then show ?case using trace_cons.IH [of "ks @ [l]"] by (simp del: lifecycle_inv.simps)
qed (simp del: lifecycle_inv.simps)

text \<open>
  C40: \<open>start\<close> and \<open>stop\<close> take effect whole, in the order in which they got the mutex. Whatever callers,
  workers, nudges and spawns outside of \<open>start\<close> run concurrently, whenever no call is inside its body the
  supervisor is as the last one left it: before any, never started; after a \<open>start\<close> (one whose
  configuration was accepted), running, with the poller and the refresher alive and of the current
  generation; after a \<open>stop\<close>, stopped, with every slot empty, every thread superseded and none counted.
\<close>
theorem start_stop_serialised:
  assumes "trace lifecycle_step lifecycle_new ls c" "lc_pending c = []" "sv = sm_sup (lc_machine c)"
  shows "su_state sv = state_after (last_call ls) \<and>
    (last_call ls = Some StartCall \<longrightarrow> (\<forall>k \<in> {Poller, Refresher}. \<exists>t. slot_of k sv = Some t \<and> t < length (su_workers sv) \<and>
       wk_kind (su_workers sv ! t) = k \<and> wk_gen (su_workers sv ! t) = su_generation sv \<and>
       wk_phase (su_workers sv ! t) \<notin> {Returned, Counted, Finished})) \<and>
    (last_call ls = Some StopCall \<longrightarrow> (\<forall>k. slot_of k sv = None) \<and>
       (\<forall>w \<in> set (su_workers sv). wk_gen w < su_generation sv) \<and> su_running sv = 0)"
proof -
  have "slot_of k supervisor_new = None" for k by (cases k) (simp_all add: supervisor_new_def)
  then have "lifecycle_inv (last_call []) lifecycle_new"
    using sup_inv_init
    by (simp add: lifecycle_new_def Let_def machine_new_def settled_state_def vacant_or_up_def) (simp add: supervisor_new_def)
  from lifecycle_inv_trace [OF assms(1) this] have inv: "lifecycle_inv (last_call ls) c" by simp
  then have fin: "sup_inv (lc_machine c)" "settled_state sv" "su_state sv = state_after (last_call ls)"
    "last_call ls = Some StartCall \<Longrightarrow> up Poller sv \<and> up Refresher sv"
    using assms(2,3) by (auto simp: Let_def)
  have "\<exists>t. slot_of k sv = Some t \<and> t < length (su_workers sv) \<and> wk_kind (su_workers sv ! t) = k \<and>
      wk_gen (su_workers sv ! t) = su_generation sv \<and> wk_phase (su_workers sv ! t) \<notin> {Returned, Counted, Finished}" if "up k sv" for k
    using that fin(1) assms(3) by (fastforce simp: up_def sup_inv_def slots_valid_def Let_def)
  then have "\<forall>k \<in> {Poller, Refresher}. \<exists>t. slot_of k sv = Some t \<and> t < length (su_workers sv) \<and>
       wk_kind (su_workers sv ! t) = k \<and> wk_gen (su_workers sv ! t) = su_generation sv \<and>
       wk_phase (su_workers sv ! t) \<notin> {Returned, Counted, Finished}" if "last_call ls = Some StartCall"
    using fin(4) that by blast
  moreover have "emptied sv" if "last_call ls = Some StopCall" using fin(2,3) that by (simp add: settled_state_def)
  ultimately show ?thesis using fin(3) unfolding emptied_def by blast
qed

section \<open>A concrete run\<close>

definition started :: sup_machine where
  "started = \<lparr> sm_sup = start supervisor_new, sm_stops = 0 \<rparr>"

lemma started_sup:
  "start supervisor_new = \<lparr> su_state = Running, su_generation = 0, su_nudges = 0, su_running = 3, su_poller = Some 0,
     su_refresher = Some 1, su_warm = Some 2, su_stopped = False,
     su_workers = map (\<lambda>k. \<lparr> wk_kind = k, wk_gen = 0, wk_phase = InBody \<rparr>) [Poller, Refresher, Warm] \<rparr>"
  by (simp add: start_def start_warm_def start_permit_def ensure_def supervisor_new_def spawn_into_def)

lemma started_trace: "trace sup_step machine_new (map Some [Permit, Ensure Poller, Ensure Refresher, StartWarm]) started"
proof -
  let ?m = "\<lambda>sv. \<lparr> sm_sup = sv, sm_stops = 0 \<rparr>"
  have step: "sup_step (?m sv) (Some Permit) (?m (start_permit sv))" "k \<noteq> Warm \<Longrightarrow> sup_step (?m sv) (Some (Ensure k)) (?m (ensure k sv))"
    "sup_step (?m sv) (Some StartWarm) (?m (start_warm sv))" for sv k
    using sup_permit [of "?m sv"] sup_ensure [of k "?m sv"] sup_warm [of "?m sv"] by simp_all
  show ?thesis unfolding list.map started_def start_def machine_new_def
    by (rule trace_cons, rule step, rule trace_cons, rule step, simp, rule trace_cons, rule step, simp,
        rule trace_cons, rule step, rule trace_nil)
qed

lemma started_inv: "sup_inv started"
  using trace_invariant [OF started_trace, of sup_inv] sup_inv_step sup_inv_init by blast

definition start_run :: "lifecycle_event list" where
  "start_run = Acquire StartCall # map Section (call_sections StartCall)"

lemma start_run_trace: "trace lifecycle_step lifecycle_new (map Some start_run) \<lparr> lc_machine = started, lc_pending = [] \<rparr>"
proof -
  let ?c = "\<lambda>sv es. \<lparr> lc_machine = \<lparr> sm_sup = sv, sm_stops = 0 \<rparr>, lc_pending = es \<rparr>"
  have acq: "lifecycle_step (?c sv []) (Some (Acquire call)) (?c sv (call_sections call))" for sv call
    using lc_acquire [of "?c sv []" call] by simp
  have sect: "lifecycle_step (?c sv (e # es)) (Some (Section e)) (?c sv' es)"
    if "sup_step \<lparr> sm_sup = sv, sm_stops = 0 \<rparr> (Some e) \<lparr> sm_sup = sv', sm_stops = 0 \<rparr>" for sv sv' e es
    using lc_section [of "?c sv (e # es)" e es] that by simp
  let ?m = "\<lambda>sv. \<lparr> sm_sup = sv, sm_stops = 0 \<rparr>"
  have step: "sup_step (?m sv) (Some Permit) (?m (start_permit sv))" "k \<noteq> Warm \<Longrightarrow> sup_step (?m sv) (Some (Ensure k)) (?m (ensure k sv))"
    "sup_step (?m sv) (Some StartWarm) (?m (start_warm sv))" for sv k
    using sup_permit [of "?m sv"] sup_ensure [of k "?m sv"] sup_warm [of "?m sv"] by simp_all
  show ?thesis
    unfolding start_run_def call_sections.simps list.map lifecycle_new_def machine_new_def started_def start_def
    by (rule trace_cons, rule acq [of _ StartCall, unfolded call_sections.simps], rule trace_cons, rule sect, rule step(1),
        rule trace_cons, rule sect, rule step(2), simp, rule trace_cons, rule sect, rule step(2), simp,
        rule trace_cons, rule sect, rule step(3), rule trace_nil)
qed

theorem start_stop_serialised_witness:
  "(\<exists>c. trace lifecycle_step lifecycle_new (map Some start_run) c \<and> sm_sup (lc_machine c) = start supervisor_new) \<and>
   last_call (map Some start_run) = Some StartCall \<and> su_state (start supervisor_new) = Running \<and>
   (\<exists>t. slot_of Refresher (start supervisor_new) = Some t \<and> wk_phase (su_workers (start supervisor_new) ! t) = InBody)"
proof -
  have l: "last_call (map Some start_run) = Some StartCall" by (simp add: last_call_def start_run_def map_filter_def)
  have "su_state (start supervisor_new) = state_after (last_call (map Some start_run))"
    using start_stop_serialised [OF start_run_trace] by (simp add: started_def)
  moreover have "sm_sup (lc_machine \<lparr> lc_machine = started, lc_pending = [] \<rparr>) = start supervisor_new" by (simp add: started_def)
  ultimately show ?thesis using l start_run_trace by (auto simp: started_sup)
qed

theorem supervisor_exclusive_witness:
  "su_running (start supervisor_new) = 3 \<and>
   su_running (start supervisor_new) = length (filter (\<lambda>w. wk_gen w = su_generation (start supervisor_new) \<and>
     wk_phase w \<notin> {Counted, Finished}) (su_workers (start supervisor_new)))"
proof
  have f: "sm_stops started = 0" "sm_sup started = start supervisor_new" by (simp_all add: started_def)
  show "su_running (start supervisor_new) = length (filter (\<lambda>w. wk_gen w = su_generation (start supervisor_new) \<and>
     wk_phase w \<notin> {Counted, Finished}) (su_workers (start supervisor_new)))"
    using supervisor_exclusive [OF started_trace refl] f by metis
qed (simp add: started_sup)

theorem stop_retires_workers_witness:
  "sup_inv \<lparr> sm_sup = stop_begin (start supervisor_new), sm_stops = 1 \<rparr> \<and>
   (\<exists>m2. trace sup_step \<lparr> sm_sup = stop_end (stop_begin (start supervisor_new)), sm_stops = 0 \<rparr> (map Some [Permit, Nudge, Enter 0]) m2 \<and>
     Tick 0 \<notin> set (issued (map Some [Permit, Nudge, Enter 0])))"
proof -
  let ?m = "\<lparr> sm_sup = stop_begin (start supervisor_new), sm_stops = 1 \<rparr>"
  let ?m1 = "\<lparr> sm_sup = stop_end (stop_begin (start supervisor_new)), sm_stops = 0 \<rparr>"
  have inv: "sup_inv ?m" using sup_inv_step [OF started_inv sup_stop_begin] by (simp add: started_def)
  obtain m2 where t: "trace sup_step ?m1 (map Some [Permit, Nudge, Enter 0]) m2"
    by (rule that, unfold list.map, rule trace_cons, rule sup_permit, rule trace_cons, rule sup_nudge, rule trace_cons, rule sup_enter)
      (simp_all add: alive_in_def started_sup stop_begin_def stop_end_def start_permit_def nudge_wake_def)
  have "Tick 0 \<notin> set (issued (map Some [Permit, Nudge, Enter 0]))"
    using stop_retires_workers [OF inv _ _ t, of 0] by (simp add: started_sup stop_begin_def)
  then show ?thesis using inv t by blast
qed

end
