(* ===== verification/Poller.thy ===== *)
theory Poller
  imports Membership_Props Worker
begin

text \<open>
  The confirmation and lifecycle poller (\<open>poller.rs\<close>): one registry read per record, the
  confirmation and refresh writes with their events, the path refresh pass and the tick cadence.
  \<open>pi_during\<close> is what other handlers do to the module while a record's registry read is under way:
  the poller holds no lock across it. \<open>stopped n\<close> is the answer of the tick's \<open>n\<close>-th look at the
  stop flag. A panic inside a tick is not modelled.
\<close>

datatype record_update = Observed membership_state u64 u64 | Absent

record poll_io =
  pi_during :: "string \<Rightarrow> module_state \<Rightarrow> module_state"
  pi_write :: "string \<Rightarrow> write_outcome"
  pi_now :: "string \<Rightarrow> u64"

definition update_of :: "provider_membership \<Rightarrow> record_update" where
  "update_of pm = (if pm_registered pm then Observed (pm_state pm) (pm_leaf_index pm) (pm_rate_limit pm) else Absent)"

definition observe :: "'y sibling_scheme \<Rightarrow> membership_record \<Rightarrow> network_gate \<Rightarrow> record_update option \<times> network_gate" where
  "observe sb r g =
     (case parse (ib_registry_id (mr_identity r)) of
        Inl _ \<Rightarrow> (None, g)
      | Inr registry \<Rightarrow>
          if \<not> provider_for (rid_namespace registry) then (None, g)
          else case get_membership sb registry (ib_identity_commitment (mr_identity r)) g of
            (Inr pm, g') \<Rightarrow> (Some (update_of pm), g')
          | (Inl _, g') \<Rightarrow> (None, g'))"

definition observed_row :: "membership_state \<Rightarrow> u64 \<Rightarrow> u64 \<Rightarrow> cache_state \<Rightarrow> cache_state" where
  "observed_row st leaf_index rate_limit m =
     m \<lparr> cs_state := st, cs_leaf_index := Some leaf_index, cs_rate_limit := Some rate_limit,
         cs_failed_reason := None, cs_retryable := None \<rparr>"

definition window_elapsed_row :: "cache_state \<Rightarrow> cache_state" where
  "window_elapsed_row m =
     m \<lparr> cs_state := Failed, cs_failed_reason := Some ''confirmation_window_elapsed'', cs_retryable := Some True \<rparr>"

definition erased_row :: "cache_state \<Rightarrow> cache_state" where
  "erased_row m = m \<lparr> cs_state := Erased, cs_failed_reason := Some ''removed_from_registry'' \<rparr>"

text \<open>The state and row update a read leads to; \<open>None\<close> leaves the record alone.\<close>

definition pending_write :: "u64 \<Rightarrow> membership_record \<Rightarrow> record_update option \<Rightarrow> (membership_state \<times> (cache_state \<Rightarrow> cache_state)) option" where
  "pending_write now r u =
     (case u of
        Some (Observed st leaf_index rate_limit) \<Rightarrow> Some (st, observed_row st leaf_index rate_limit)
      | Some Absent \<Rightarrow>
          if saturating_sub now (ib_submitted_at (mr_identity r)) > CONFIRMATION_WINDOW_SECS
          then Some (Failed, window_elapsed_row) else None
      | None \<Rightarrow> None)"

definition refresh_write :: "record_update option \<Rightarrow> (membership_state \<times> (cache_state \<Rightarrow> cache_state)) option" where
  "refresh_write u =
     (case u of
        Some (Observed st leaf_index rate_limit) \<Rightarrow> Some (st, observed_row st leaf_index rate_limit)
      | Some Absent \<Rightarrow> Some (Erased, erased_row)
      | None \<Rightarrow> None)"

definition emit_transition :: "string \<Rightarrow> membership_record \<Rightarrow> membership_state \<Rightarrow> membership_state \<Rightarrow> state_event list" where
  "emit_transition hash r prior new_state = (case transition_event hash r prior new_state of None \<Rightarrow> [] | Some ev \<Rightarrow> [ev])"

definition apply_write ::
  "poll_io \<Rightarrow> membership_record \<Rightarrow> (membership_state \<times> (cache_state \<Rightarrow> cache_state)) option \<Rightarrow> module_state \<Rightarrow>
     state_event list \<times> module_state"
where
  "apply_write io r wr ms =
     (case wr of
        None \<Rightarrow> ([], ms)
      | Some (st, f) \<Rightarrow>
          (case ms_store ms of
             Inl _ \<Rightarrow> ([], ms)
           | Inr s \<Rightarrow>
               (let (u, s', d') = update_cache (pi_write io (mr_hash r)) (pi_now io (mr_hash r)) (mr_hash r) f s (ms_disk ms)
                in (case u of Inr prior \<Rightarrow> emit_transition (mr_hash r) r prior st | Inl _ \<Rightarrow> [],
                    ms \<lparr> ms_store := Inr s', ms_disk := d' \<rparr>))))"

definition poll_record ::
  "'y sibling_scheme \<Rightarrow> poll_io \<Rightarrow> (membership_record \<Rightarrow> record_update option \<Rightarrow> (membership_state \<times> (cache_state \<Rightarrow> cache_state)) option) \<Rightarrow>
     membership_record \<Rightarrow> module_state \<Rightarrow> state_event list \<times> module_state"
where
  "poll_record sb io write r ms =
     (let (u, g) = observe sb r (ms_gate ms)
      in apply_write io r (write r u) (pi_during io (mr_hash r) (ms \<lparr> ms_gate := g \<rparr>)))"

fun poll_records where
  "poll_records sb io write [] ms = ([], ms)"
| "poll_records sb io write (r # rs) ms =
     (let (ev, ms1) = poll_record sb io write r ms;
          (evs, ms2) = poll_records sb io write rs ms1
      in (ev @ evs, ms2))"

section \<open>Path refresh\<close>

fun refresh_path_list ::
  "('fr, 'zp) zerokit \<Rightarrow> 'y sibling_scheme \<Rightarrow> u64 \<Rightarrow> (nat \<Rightarrow> bool) \<Rightarrow> membership_record list \<Rightarrow> module_state \<Rightarrow> module_state"
where
  "refresh_path_list zk sb now stopped [] ms = ms"
| "refresh_path_list zk sb now stopped (r # rs) ms =
     (case parse (ib_registry_id (mr_identity r)) of
        Inl _ \<Rightarrow> refresh_path_list zk sb now stopped rs ms
      | Inr registry \<Rightarrow>
          if \<not> provider_for (rid_namespace registry) then refresh_path_list zk sb now stopped rs ms
          else case cs_leaf_index (mr_cache r) of
            None \<Rightarrow> refresh_path_list zk sb now stopped rs ms
          | Some leaf_index \<Rightarrow>
              (let (_, paths, roots, g) = fill_path_cache zk sb now registry (mr_hash r) leaf_index (ms_paths ms) (ms_roots ms) (ms_gate ms);
                   ms' = ms \<lparr> ms_paths := paths, ms_roots := roots, ms_gate := g \<rparr>
               in if stopped 0 then ms' else refresh_path_list zk sb now (\<lambda>n. stopped (Suc n)) rs ms'))"

definition refresh_paths ::
  "('fr, 'zp) zerokit \<Rightarrow> 'y sibling_scheme \<Rightarrow> u64 \<Rightarrow> (nat \<Rightarrow> bool) \<Rightarrow> module_state \<Rightarrow> module_state"
where
  "refresh_paths zk sb now stopped ms =
     (if stopped 0 then ms
      else case ms_store ms of
        Inl _ \<Rightarrow> ms
      | Inr s \<Rightarrow> refresh_path_list zk sb now (\<lambda>n. stopped (Suc n))
          (filter (\<lambda>r. is_usable (cs_state (mr_cache r))) (refreshable_records s)) ms)"

section \<open>The tick\<close>

definition tick ::
  "('fr, 'zp) zerokit \<Rightarrow> 'y sibling_scheme \<Rightarrow> poll_io \<Rightarrow> poll_io \<Rightarrow> u64 \<Rightarrow> u64 \<Rightarrow> (nat \<Rightarrow> bool) \<Rightarrow> bool \<Rightarrow> module_state \<Rightarrow>
     state_event list \<times> module_state"
where
  "tick zk sb io io_refresh now now_paths stopped refresh_states ms =
     (if stopped 0 then ([], ms)
      else case ms_store ms of
        Inl _ \<Rightarrow> ([], ms)
      | Inr s \<Rightarrow>
          (let (evs, ms1) = poll_records sb io (pending_write now) (pending_records s) ms in
           if \<not> refresh_states then (evs, ms1)
           else case ms_store ms1 of
             Inl _ \<Rightarrow> (evs, ms1)
           | Inr s1 \<Rightarrow>
               (let (evs2, ms2) = poll_records sb io_refresh (\<lambda>_. refresh_write) (refreshable_records s1) ms1
                in (evs @ evs2, refresh_paths zk sb now_paths (\<lambda>n. stopped (Suc n)) ms2))))"

text \<open>The loop's 32-bit tick counter and the refresh cadence it drives.\<close>

definition REFRESH_EVERY :: "32 word" where "REFRESH_EVERY = 4"

definition next_tick_no :: "32 word \<Rightarrow> 32 word" where
  "next_tick_no tick_no = tick_no + 1"

definition refresh_due :: "32 word \<Rightarrow> bool" where
  "refresh_due tick_no \<longleftrightarrow> tick_no mod REFRESH_EVERY = 0"

section \<open>Lemmas\<close>

lemma tick_number: "(next_tick_no ^^ n) 0 = of_nat n"
  by (induction n) (simp_all add: next_tick_no_def add.commute)

lemma apply_write_None [simp]: "apply_write io r None ms = ([], ms)"
  by (simp add: apply_write_def)

lemma poll_unanswered:
  assumes "\<And>h ms. pi_during io h ms = ms" "\<And>registry c g. isl (fst (get_membership sb registry c g))" "\<And>r. write r None = None"
    and "poll_records sb io write rs ms = (evs, ms')"
  shows "evs = [] \<and> ms_store ms' = ms_store ms \<and> ms_disk ms' = ms_disk ms"
  using assms(4)
proof (induction rs arbitrary: ms evs)
  case (Cons r rs)
  obtain u g where o: "observe sb r (ms_gate ms) = (u, g)" by fastforce
  have "u = None" using o assms(2) by (auto simp: observe_def split: sum.splits if_splits prod.splits) (metis fst_conv sum.disc(2))
  then show ?case using Cons o assms(1,3) by (auto simp: poll_record_def split: prod.splits)
qed simp

lemma snapshot_hash: "r \<in> set (bt_values (build_snapshot i)) \<Longrightarrow> bt_get (in_cache i) (mr_hash r) = Some c \<Longrightarrow> mr_cache r = c"
  by (auto simp: build_snapshot_def split: option.splits)

section \<open>Properties\<close>

text \<open>
  C22: the poller and a state read decide alike. For a pending record, and for one that was once
  active, whatever the registry answered, the state the poller writes is the state
  \<open>get_membership_state\<close> would report; it writes nothing exactly when a pending record is to stay
  pending; and where the two change the state, they write the same row.
\<close>
theorem poller_agrees_with_state_read:
  assumes "cs_state (mr_cache r) = Pending \<and> wr = pending_write now r (Some (update_of pm)) \<or>
      cs_state (mr_cache r) \<noteq> Pending \<and> has_been_active r \<and> wr = refresh_write (Some (update_of pm))"
  shows "case wr of
      None \<Rightarrow> merged_state now r pm = Pending \<and> cs_state (mr_cache r) = Pending
    | Some (st, f) \<Rightarrow> merged_state now r pm = st \<and> cs_state (f (mr_cache r)) = st \<and>
        (st \<noteq> cs_state (mr_cache r) \<longrightarrow> f (mr_cache r) = state_cas (cs_state (mr_cache r)) st pm (mr_cache r))"
  using assms
  by (auto simp: merged_state_def pending_write_def refresh_write_def update_of_def observed_row_def window_elapsed_row_def
      erased_row_def state_cas_def Let_def)

theorem poller_agrees_with_state_read_witness:
  "cs_state (mr_cache own_record) \<noteq> Pending \<and> has_been_active own_record \<and> merged_state 600 own_record grace_answer = GracePeriod"
  using poller_agrees_with_state_read [of own_record "refresh_write (Some (update_of grace_answer))" 600 grace_answer]
  by (simp add: own_record_def default_cache_state_def has_been_active_def is_active_like_def grace_answer_def update_of_def refresh_write_def)

text \<open>
  A registry that cannot be read proves nothing. If every membership read of a tick fails,
  the tick announces nothing and leaves the store and the disk exactly as they were, on
  confirmation and refresh ticks alike.
\<close>
lemma tick_needs_answers:
  assumes "tick zk sb io io2 now np stopped refresh ms = (evs, ms')"
    and "\<And>registry c g. isl (fst (get_membership sb registry c g))"
    and "\<And>h ms. pi_during io h ms = ms" "\<And>h ms. pi_during io2 h ms = ms"
  shows "evs = [] \<and> ms_store ms' = ms_store ms \<and> ms_disk ms' = ms_disk ms"
proof -
  have paths: "ms_store (refresh_path_list zk sb np st rs m) = ms_store m \<and> ms_disk (refresh_path_list zk sb np st rs m) = ms_disk m" for st rs m
    by (induction zk sb np st rs m rule: refresh_path_list.induct) (auto simp: Let_def split: sum.splits option.splits prod.splits)
  have "ms_store (refresh_paths zk sb np st m) = ms_store m \<and> ms_disk (refresh_paths zk sb np st m) = ms_disk m" for st m
    using paths by (auto simp: refresh_paths_def split: sum.splits)
  moreover have "poll_records sb io (pending_write now) rs m = (ev, m') \<Longrightarrow> ev = [] \<and> ms_store m' = ms_store m \<and> ms_disk m' = ms_disk m"
    for rs m ev m' by (rule poll_unanswered [OF assms(3,2)]) (simp_all add: pending_write_def)
  moreover have "poll_records sb io2 (\<lambda>_. refresh_write) rs m = (ev, m') \<Longrightarrow> ev = [] \<and> ms_store m' = ms_store m \<and> ms_disk m' = ms_disk m"
    for rs m ev m' by (rule poll_unanswered [OF assms(4,2)]) (simp_all add: refresh_write_def)
  ultimately show ?thesis using assms(1)
    by (auto simp: tick_def Let_def split: if_splits sum.splits prod.splits)
qed

definition mute_sibling :: sibling where
  "mute_sibling = \<lparr> sb_use_network = \<lambda>_. NoReply, sb_get_membership = \<lambda>_ _. NoReply, sb_get_merkle_proofs = \<lambda>_ _. NoReply,
     sb_get_valid_roots = \<lambda>_. NoReply, sb_get_registry_bounds = \<lambda>_. NoReply, sb_check_registry = \<lambda>_. NoReply, sb_wallet_status = NoReply,
     sb_get_native_balance = \<lambda>_. NoReply, sb_get_fee_state = NoReply,
     sb_register_member = \<lambda>_ _ _ _. NeverReply, sb_gifter_request = \<lambda>_. NeverReply, parse_json = \<lambda>_. Inl [], render_json = \<lambda>_. [] \<rparr>"

definition quiet_io :: poll_io where
  "quiet_io = \<lparr> pi_during = \<lambda>_ ms. ms, pi_write = \<lambda>_. WriteOk, pi_now = \<lambda>_. 600 \<rparr>"

text \<open>
  A lost cache file erases a registration that was only waiting for confirmation. After the
  loss every credential's row is the default one, state unknown; the refresh pass re-reads it and,
  the registration not having landed yet, marks it erased as removed from the registry and
  announces that, although it was never there and a state read would leave it unknown. The record
  is then on neither of the poller's work lists, so it is not read again, and it is not live, so
  the next registration mints another membership.
\<close>
lemma cache_loss_erases_pending:
  assumes "mr_cache r = default_cache_state" "ms_store ms = Inr s" "cache_row s (mr_hash r) = default_cache_state"
    and "in_lock (st_inner s)" "sealed_contains (st_inner s) (mr_hash r)"
    and "observe sb r (ms_gate ms) = (Some Absent, g)" "pi_write io (mr_hash r) = WriteOk"
    and "\<And>m. pi_during io (mr_hash r) m = m" "\<not> pm_registered pm"
  shows "\<exists>ms' s'. poll_record sb io (\<lambda>_. refresh_write) r ms =
      ([(ib_registry_id (mr_identity r), ib_rln_identifier (mr_identity r), mr_hash r, ''erased'', ''unknown'')], ms') \<and>
    ms_store ms' = Inr s' \<and> cs_state (cache_row s' (mr_hash r)) = Erased \<and>
    cs_failed_reason (cache_row s' (mr_hash r)) = Some ''removed_from_registry'' \<and>
    merged_state now r pm = Unknown \<and> \<not> is_live Erased \<and>
    (\<forall>x \<in> set (pending_records s' @ refreshable_records s'). mr_hash x \<noteq> mr_hash r)"
proof -
  let ?h = "mr_hash r"
  let ?row = "stamp_first_active (pi_now io ?h) (erased_row default_cache_state)"
  let ?i = "(st_inner s) \<lparr> in_cache := bt_insert ?h ?row (in_cache (st_inner s)) \<rparr>"
  let ?s' = "swap_snapshot (with_inner s ?i)"
  obtain d' where u: "update_cache WriteOk (pi_now io ?h) ?h erased_row s (ms_disk ms) = (Inr Unknown, ?s', d')"
    using assms(3,4,5) by (auto simp: update_cache_def ensure_open_def cache_row_def write_cache_def default_cache_state_def Let_def)
  have inner: "st_inner ?s' = ?i" and snap: "st_snapshot ?s' = build_snapshot ?i" by (simp_all add: swap_snapshot_def with_inner_def)
  have st: "cs_state ?row = Erased" "cs_failed_reason ?row = Some ''removed_from_registry''"
    by (simp_all add: stamp_first_active_def erased_row_def)
  have row: "cache_row ?s' ?h = ?row" using cache_row_insert [OF inner] by simp
  have c: "mr_cache x = ?row" if "x \<in> set (bt_values (st_snapshot ?s'))" "mr_hash x = ?h" for x
    using snapshot_hash [of x ?i ?row] that by (simp add: snap)
  have lists: "mr_hash x \<noteq> ?h" if "x \<in> set (pending_records ?s' @ refreshable_records ?s')" for x
  proof
    assume h: "mr_hash x = ?h"
    have "x \<in> set (bt_values (st_snapshot ?s'))" "cs_state (mr_cache x) \<noteq> Erased"
      using that unfolding pending_records_def refreshable_records_def by auto
    then show False using c [OF _ h] st(1) by simp
  qed
  have p: "poll_record sb io (\<lambda>_. refresh_write) r ms =
      ([(ib_registry_id (mr_identity r), ib_rln_identifier (mr_identity r), ?h, ''erased'', ''unknown'')],
       ms \<lparr> ms_gate := g, ms_store := Inr ?s', ms_disk := d' \<rparr>)"
  proof -
    have ev: "emit_transition ?h r Unknown Erased =
        [(ib_registry_id (mr_identity r), ib_rln_identifier (mr_identity r), ?h, ''erased'', ''unknown'')]"
      by (simp add: emit_transition_def transition_event_def)
    show ?thesis
      by (simp add: poll_record_def assms(2,6,7,8) refresh_write_def apply_write_def u ev)
  qed
  have "merged_state now r pm = Unknown"
    using assms(1,9) by (simp add: merged_state_def has_been_active_def default_cache_state_def is_active_like_def)
  moreover have "\<forall>x \<in> set (pending_records ?s' @ refreshable_records ?s'). mr_hash x \<noteq> ?h" using lists by blast
  moreover have "ms_store (ms \<lparr> ms_gate := g, ms_store := Inr ?s', ms_disk := d' \<rparr>) = Inr ?s'" by simp
  moreover have "\<not> is_live Erased" by (simp add: is_live_def is_usable_def)
  moreover have "cs_state (cache_row ?s' ?h) = Erased" "cs_failed_reason (cache_row ?s' ?h) = Some ''removed_from_registry''"
    using st by (simp_all only: row)
  ultimately show ?thesis using p by blast
qed

definition lost_record :: membership_record where
  "lost_record = own_record \<lparr> mr_cache := default_cache_state \<rparr>"

definition polled_module :: module_state where
  "polled_module = own_module \<lparr> ms_gate := Map.empty(''local'' \<mapsto> Inr ()) \<rparr>"

end
