(* ===== verification/Module_Machine.thy ===== *)
theory Module_Machine
  imports Poller
begin

text \<open>
  The module as one machine: every handler that reaches the store, the submit callbacks, the
  poller and the store's own transitions (open, unlock, lock, close, crash, file edits), in any
  order. A step is labelled with the slot a returned proof carries. The machine refines the store
  machine, so the slot contract carries over to the replies of \<open>generate_proof\<close>.

  As for the store machine, two things are excluded: restoring an older ledger, and minting an
  identity whose membership hash was minted before.
\<close>

record module_machine =
  mm_state :: module_state
  mm_seen :: "string set"

definition store_machine :: "module_machine \<Rightarrow> machine" where
  "store_machine mm = \<lparr> m_disk = ms_disk (mm_state mm), m_store = (case ms_store (mm_state mm) of Inr s \<Rightarrow> Some s | Inl _ \<Rightarrow> None),
     m_seen = mm_seen mm \<rparr>"

text \<open>The slot a reply of \<open>generate_proof\<close> hands out, read from the reply itself.\<close>

definition reply_slot :: "string \<Rightarrow> string \<Rightarrow> api_error + json \<Rightarrow> (issue_key \<times> nat) option" where
  "reply_slot registry_id_raw rln_identifier_hex r =
     (case r of
        Inl _ \<Rightarrow> None
      | Inr reply \<Rightarrow>
          (case parse_scope registry_id_raw rln_identifier_hex of
             Inl _ \<Rightarrow> None
           | Inr (_, _, rln_id_hex) \<Rightarrow>
               (case (get_str reply ''membership_hash'', get_u64 reply ''epoch_index'', get_u64 reply ''message_id'') of
                  (Some h, Some ep, Some mid) \<Rightarrow> Some ((h, rln_id_hex, ep), unat mid)
                | _ \<Rightarrow> None)))"

text \<open>The membership hash a registration mints.\<close>

definition minted :: "'z store_env_scheme \<Rightarrow> ('fr, 'zp) zerokit \<Rightarrow> register_inputs \<Rightarrow> string \<Rightarrow> string option" where
  "minted env zk ri registry_id_raw =
     (case (parse registry_id_raw, generate_identity zk (ri_seed ri)) of
        (Inr registry, Inr (commitment_hex, _)) \<Rightarrow>
          map_option (membership_hash (sha256_digest env) (rid_canonical registry)) (hex_to_bytes32 commitment_hex)
      | _ \<Rightarrow> None)"

definition same_store :: "module_state \<Rightarrow> module_state \<Rightarrow> bool" where
  "same_store ms ms' \<longleftrightarrow> ms_store ms' = ms_store ms \<and> ms_disk ms' = ms_disk ms"

definition quiet :: "poll_io \<Rightarrow> bool" where
  "quiet io \<longleftrightarrow> (\<forall>h ms. pi_during io h ms = ms)"

inductive module_step ::
  "'z store_env_scheme \<Rightarrow> ('fr, 'zp) zerokit \<Rightarrow> 'y sibling_scheme itself \<Rightarrow> module_machine \<Rightarrow> (issue_key \<times> nat) option \<Rightarrow> module_machine \<Rightarrow> bool"
  for env zk T
where
  mm_generate: "generate_proof_impl env zk (sb :: 'y sibling_scheme) now na w reg rid sig ts (mm_state mm) = (r, ms') \<Longrightarrow>
     module_step env zk T mm (reply_slot reg rid r) (mm \<lparr> mm_state := ms' \<rparr>)"
| mm_validate: "validate_proof_impl zk pj now nw nn sn reg rid sig ts pf (mm_state mm) = (r, ms') \<Longrightarrow>
     module_step env zk T mm None (mm \<lparr> mm_state := ms' \<rparr>)"
| mm_register: "register_impl env zk (sb :: 'y sibling_scheme) ri reg rid opts (mm_state mm) = (r, later, ms') \<Longrightarrow>
     set_option (minted env zk ri reg) \<inter> mm_seen mm = {} \<Longrightarrow>
     seen' = (if same_store (mm_state mm) ms' then mm_seen mm else mm_seen mm \<union> set_option (minted env zk ri reg)) \<Longrightarrow>
     module_step env zk T mm None \<lparr> mm_state = ms', mm_seen = seen' \<rparr>"
| mm_reply: "module_step env zk T mm None (mm \<lparr> mm_state := submit_callback upd alive w now h (mm_state mm) \<rparr>)"
| mm_read_state: "get_membership_state_impl (sb :: 'y sibling_scheme) progress (\<lambda>x. x) w now nu reg rid (mm_state mm) = (r, evs, ms') \<Longrightarrow>
     module_step env zk T mm None (mm \<lparr> mm_state := ms' \<rparr>)"
| mm_select: "select_membership_impl pj dbg reg rid sel (mm_state mm) = (r, ms') \<Longrightarrow>
     module_step env zk T mm None (mm \<lparr> mm_state := ms' \<rparr>)"
| mm_tick: "tick zk (sb :: 'y sibling_scheme) io io2 now np stopped refresh (mm_state mm) = (evs, ms') \<Longrightarrow> quiet io \<Longrightarrow> quiet io2 \<Longrightarrow>
     module_step env zk T mm None (mm \<lparr> mm_state := ms' \<rparr>)"
| mm_other: "same_store (mm_state mm) ms' \<Longrightarrow> module_step env zk T mm None (mm \<lparr> mm_state := ms' \<rparr>)"
| mm_store: "store_step env (store_machine mm) None m' \<Longrightarrow>
     st = (case m_store m' of Some s \<Rightarrow> Inr s | None \<Rightarrow> Inl e) \<Longrightarrow>
     module_step env zk T mm None \<lparr> mm_state = (mm_state mm) \<lparr> ms_store := st, ms_disk := m_disk m' \<rparr>, mm_seen = m_seen m' \<rparr>"

section \<open>Every step is a run of the store machine\<close>

text \<open>A run of cache updates, as the store machine sees it.\<close>

definition updates_to :: "'z store_env_scheme \<Rightarrow> string set \<Rightarrow> module_state \<Rightarrow> module_state \<Rightarrow> bool" where
  "updates_to env seen ms ms' \<longleftrightarrow>
     (\<exists>ls. trace (store_step env) (store_machine \<lparr> mm_state = ms, mm_seen = seen \<rparr>) ls (store_machine \<lparr> mm_state = ms', mm_seen = seen \<rparr>))"

lemma updates_same: "same_store ms ms' \<Longrightarrow> updates_to env seen ms ms'"
  unfolding updates_to_def same_store_def store_machine_def by (metis trace_nil module_machine.select_convs)

lemma updates_trans: "updates_to env seen ms ms' \<Longrightarrow> updates_to env seen ms' ms'' \<Longrightarrow> updates_to env seen ms ms''"
  unfolding updates_to_def by (meson trace_append)

lemma updates_cache:
  assumes "ms_store ms = Inr s" "update_cache w now h f s (ms_disk ms) = (r, s', d')" "ms_store ms' = Inr s'" "ms_disk ms' = d'"
  shows "updates_to env seen ms ms'"
proof -
  let ?m = "store_machine \<lparr> mm_state = ms, mm_seen = seen \<rparr>"
  have "store_step env ?m None (?m \<lparr> m_store := Some s', m_disk := d' \<rparr>)"
    by (rule step_update_cache [of _ s]) (use assms in \<open>simp_all add: store_machine_def\<close>)
  moreover have "?m \<lparr> m_store := Some s', m_disk := d' \<rparr> = store_machine \<lparr> mm_state = ms', mm_seen = seen \<rparr>"
    using assms(3,4) by (simp add: store_machine_def)
  ultimately show ?thesis unfolding updates_to_def by (metis trace_cons trace_nil)
qed

lemma updates_callback: "updates_to env seen ms (submit_callback upd alive w now h ms)"
proof (cases "ms_store ms")
  case (Inr s)
  obtain r s' d' where u: "update_cache w now h upd s (ms_disk ms) = (r, s', d')" by (metis prod_cases3)
  show ?thesis
  proof (cases alive)
    case True
    then show ?thesis using Inr u by (intro updates_cache [OF Inr u]) (simp_all add: submit_callback_def)
  next
    case False
    then show ?thesis using Inr by (intro updates_same) (simp add: submit_callback_def same_store_def)
  qed
qed (auto intro: updates_same simp: submit_callback_def same_store_def)

lemma updates_callbacks: "updates_to env seen ms (fold (\<lambda>result m. submit_callback (upd result) alive w now h m) results ms)"
proof (induction results arbitrary: ms)
  case (Cons x results)
  then show ?case using updates_trans [OF updates_callback Cons.IH] by simp
qed (auto intro: updates_same simp: same_store_def)

lemma updates_apply:
  assumes "apply_write io r wr ms = (evs, ms')"
  shows "updates_to env seen ms ms'"
proof (cases "\<exists>st f s. wr = Some (st, f) \<and> ms_store ms = Inr s")
  case True
  then obtain st f s where wr: "wr = Some (st, f)" and s: "ms_store ms = Inr s" by blast
  obtain u s' d' where u: "update_cache (pi_write io (mr_hash r)) (pi_now io (mr_hash r)) (mr_hash r) f s (ms_disk ms) = (u, s', d')"
    by (metis prod_cases3)
  show ?thesis by (rule updates_cache [OF s u]) (use assms wr s u in \<open>auto simp: apply_write_def\<close>)
next
  case False
  then have "ms' = ms" using assms by (auto simp: apply_write_def split: option.splits sum.splits)
  then show ?thesis by (simp add: updates_same same_store_def)
qed

lemma updates_poll:
  assumes "quiet io" "poll_records sb io write rs ms = (evs, ms')"
  shows "updates_to env seen ms ms'"
  using assms(2)
proof (induction rs arbitrary: ms evs)
  case (Cons r rs)
  obtain u g where o: "observe sb r (ms_gate ms) = (u, g)" by fastforce
  obtain ev ms1 where p: "apply_write io r (write r u) (ms \<lparr> ms_gate := g \<rparr>) = (ev, ms1)" by fastforce
  obtain evs2 where q: "poll_records sb io write rs ms1 = (evs2, ms')"
    using Cons.prems o p assms(1) by (auto simp: poll_record_def quiet_def split: prod.splits)
  have "updates_to env seen ms (ms \<lparr> ms_gate := g \<rparr>)" by (rule updates_same) (simp add: same_store_def)
  then show ?case using updates_trans updates_apply [OF p] Cons.IH [OF q] by blast
qed (auto intro: updates_same simp: same_store_def)

lemma refresh_path_list_same: "same_store ms (refresh_path_list zk sb now stopped rs ms)"
  by (induction zk sb now stopped rs ms rule: refresh_path_list.induct)
    (auto simp: same_store_def Let_def split: sum.splits option.splits prod.splits)

lemma refresh_paths_same: "same_store ms (refresh_paths zk sb now stopped ms)"
  by (simp add: refresh_paths_def same_store_def refresh_path_list_same [unfolded same_store_def] split: sum.split)

lemma updates_tick:
  assumes "tick zk sb io io2 now np stopped refresh ms = (evs, ms')" "quiet io" "quiet io2"
  shows "updates_to env seen ms ms'"
proof (cases "stopped 0 \<or> isl (ms_store ms)")
  case True
  then show ?thesis using assms(1) by (auto intro: updates_same simp: tick_def same_store_def split: sum.splits)
next
  case False
  then obtain s where s: "\<not> stopped 0" "ms_store ms = Inr s" by (auto simp: isl_def) (meson sum.exhaust)
  obtain ev1 ms1 where p1: "poll_records sb io (pending_write now) (pending_records s) ms = (ev1, ms1)" by fastforce
  note u1 = updates_poll [OF assms(2) p1, of env seen]
  show ?thesis
  proof (cases "refresh \<and> (\<exists>s1. ms_store ms1 = Inr s1)")
    case True
    then obtain s1 where s1: "refresh" "ms_store ms1 = Inr s1" by blast
    obtain ev2 ms2 where p2: "poll_records sb io2 (\<lambda>_. refresh_write) (refreshable_records s1) ms1 = (ev2, ms2)" by fastforce
    have "ms' = refresh_paths zk sb np (\<lambda>n. stopped (Suc n)) ms2" using assms(1) s s1 p1 p2 by (simp add: tick_def)
    then show ?thesis
      using updates_trans [OF u1 updates_trans [OF updates_poll [OF assms(3) p2]]] updates_same [OF refresh_paths_same] by blast
  next
    case False
    then have "ms' = ms1" using assms(1) s p1 by (auto simp: tick_def split: sum.splits)
    then show ?thesis using u1 by simp
  qed
qed

lemma updates_resolve:
  assumes "ms_store ms = Inr s" "resolve_state w now nu registry r pm s (ms_disk ms) = (view, evs, s', d')"
    and "ms_store ms' = Inr s'" "ms_disk ms' = d'"
  shows "updates_to env seen ms ms'"
proof (cases "merged_state now r pm = cs_state (mr_cache r)")
  case True
  then have "s' = s \<and> d' = ms_disk ms" using assms(2) by (auto simp: resolve_state_def merged_state_def Let_def split: if_splits)
  then show ?thesis using assms by (intro updates_same) (simp add: same_store_def)
next
  case False
  obtain u su du where u: "update_cache w nu (mr_hash r) (state_cas (cs_state (mr_cache r)) (merged_state now r pm) pm) s (ms_disk ms) = (u, su, du)"
    by (metis prod_cases3)
  have "s' = su \<and> d' = du"
    using assms(2) False u unfolding resolve_state_def Let_def merged_state_def [symmetric]
    by (cases "pm_registered pm") (auto split: sum.splits)
  then show ?thesis using updates_cache [OF assms(1) u] assms(3,4) by simp
qed

lemma get_membership_state_cases:
  assumes "get_membership_state_impl sb progress (\<lambda>x. x) w now nu reg rid ms = (r, evs, ms')"
  obtains "same_store ms ms'"
  | s registry rec pm g view s' d' where "ms_store ms = Inr s"
      "resolve_state w now nu registry rec pm s (ms_disk ms) = (view, evs, s', d')"
      "ms' = ms \<lparr> ms_gate := g, ms_store := Inr s', ms_disk := d' \<rparr>"
proof (cases "and_then (parse_scope reg rid) (\<lambda>(registry, _, rln_id_hex). and_then (provider_of registry) (\<lambda>_. Inr (registry, rln_id_hex)))")
  case (Inl e)
  then show thesis using assms that(1) by (simp add: get_membership_state_impl_def same_store_def)
next
  case (Inr p)
  obtain registry rid_hex where p: "p = (registry, rid_hex)" by (cases p)
  show thesis
  proof (cases "ms_store ms")
    case (Inl e)
    then show thesis using assms that(1) Inr p by (simp add: get_membership_state_impl_def same_store_def Let_def)
  next
    case s: (Inr s)
    let ?cs = "filter (\<lambda>r. \<not> mr_quarantined r) (scope_candidates (records_for_registry s registry) rid_hex)"
    show thesis
    proof (cases "\<exists>rec. ?cs = [rec]")
      case True
      then obtain rec where rec: "?cs = [rec]" by blast
      obtain res g where m: "get_membership sb registry (ib_identity_commitment (mr_identity rec)) (ms_gate ms) = (res, g)" by fastforce
      show thesis
      proof (cases res)
        case (Inl e)
        then show thesis using assms that(1) Inr p s rec m by (auto simp: get_membership_state_impl_def same_store_def Let_def)
      next
        case pm: (Inr pm)
        obtain view evs' s' d' where re: "resolve_state w now nu registry rec pm s (ms_disk ms) = (view, evs', s', d')" by (metis prod_cases4)
        then have "evs' = evs" "ms' = ms \<lparr> ms_gate := g, ms_store := Inr s', ms_disk := d' \<rparr>"
          using assms Inr p s rec m pm by (auto simp: get_membership_state_impl_def Let_def)
        then show thesis using that(2) [OF s] re by blast
      qed
    next
      case False
      then have "ms' = ms" using assms Inr p s by (simp add: get_membership_state_impl_def Let_def split: list.splits)
      then show thesis using that(1) by (simp add: same_store_def)
    qed
  qed
qed

lemma updates_read_state:
  assumes "get_membership_state_impl sb progress (\<lambda>x. x) w now nu reg rid ms = (r, evs, ms')"
  shows "updates_to env seen ms ms'"
proof (rule get_membership_state_cases [OF assms])
  assume "same_store ms ms'"
  then show ?thesis by (rule updates_same)
next
  fix s registry rec pm g view s' d'
  assume s: "ms_store ms = Inr s" and re: "resolve_state w now nu registry rec pm s (ms_disk ms) = (view, evs, s', d')"
    and ms': "ms' = ms \<lparr> ms_gate := g, ms_store := Inr s', ms_disk := d' \<rparr>"
  show ?thesis by (rule updates_resolve [OF s re]) (simp_all add: ms')
qed

section \<open>Generating and registering\<close>

lemma request_scope:
  "proof_request_of now cfg reg rid sig ts = Inr q \<Longrightarrow> \<exists>b. parse_scope reg rid = Inr (pq_registry q, b, pq_rln_id_hex q)"
  by (auto simp: proof_request_of_def result_iffs Let_def)

lemma generate_simulated:
  assumes "generate_proof_impl env zk sb now na w reg rid sig ts ms = (r, ms')"
  shows "\<exists>ls. trace (store_step env) (store_machine \<lparr> mm_state = ms, mm_seen = seen \<rparr>) ls
      (store_machine \<lparr> mm_state = ms', mm_seen = seen \<rparr>) \<and> set_option (reply_slot reg rid r) \<subseteq> set (issued ls)"
  using assms
proof (cases rule: generate_cases)
  case (before e)
  then have "updates_to env seen ms ms'" by (intro updates_same) (simp add: same_store_def)
  then show ?thesis using before(1) by (auto simp: updates_to_def reply_slot_def)
next
  case (reserved s q c res s' d')
  let ?m = "store_machine \<lparr> mm_state = ms, mm_seen = seen \<rparr>"
  have m: "m_store ?m = Some s" "m_disk ?m = ms_disk ms" using reserved(1) by (simp_all add: store_machine_def)
  have m': "store_machine \<lparr> mm_state = ms', mm_seen = seen \<rparr> = ?m \<lparr> m_store := Some s', m_disk := d' \<rparr>"
    using reserved(5,6) by (simp add: store_machine_def)
  show ?thesis
  proof (cases res)
    case (Inl e)
    have "store_step env ?m None (?m \<lparr> m_store := Some s', m_disk := d' \<rparr>)"
      by (rule step_reserve_err [OF m(1)]) (use reserved(4) Inl m(2) in simp)
    then have "trace (store_step env) ?m [None] (?m \<lparr> m_store := Some s', m_disk := d' \<rparr>)" by (rule trace_cons [OF _ trace_nil])
    then show ?thesis using reserved(7) Inl unfolding m' by (auto simp: reply_slot_def)
  next
    case (Inr mid)
    let ?x = "((cm_hash c, pq_rln_id_hex q, pq_epoch q), unat mid)"
    have "store_step env ?m (Some ?x) (?m \<lparr> m_store := Some s', m_disk := d' \<rparr>)"
      by (rule step_reserve_ok [OF m(1)]) (use reserved(4) Inr m(2) in simp)
    then have t: "trace (store_step env) ?m [Some ?x] (?m \<lparr> m_store := Some s', m_disk := d' \<rparr>)" by (rule trace_cons [OF _ trace_nil])
    obtain b where sc: "parse_scope reg rid = Inr (pq_registry q, b, pq_rln_id_hex q)" using request_scope [OF reserved(2)] by blast
    have "reply_slot reg rid r \<in> {None, Some ?x}"
      using reserved(7) Inr sc by (auto simp: reply_slot_def proof_reply_fields)
    then have "set_option (reply_slot reg rid r) \<subseteq> set (issued [Some ?x])" by auto
    then show ?thesis using t unfolding m' by blast
  qed
qed

lemma scope_registry: "parse_scope reg rid = Inr (registry, b, rid_hex) \<Longrightarrow> parse reg = Inr registry"
  by (auto simp: parse_scope_def parse_registry_def result_iffs map_err_eq_Inr Let_def split: sum.splits)

lemma register_fresh_cases:
  assumes "register_fresh env zk sb ri registry rid rate opts del s ms = (r, later, ms')" "parse reg = Inr registry"
  obtains "same_store ms ms'"
  | h ident cred res s1 d1 g where "minted env zk ri reg = Some h"
      "insert_membership env (ri_nonce ri) (ri_write_allocations ri) (ri_write_cache ri) (ri_write_sealed ri)
         h ident cred rate s (ms_disk ms) = (res, s1, d1)"
      "\<And>seen. updates_to env seen (ms \<lparr> ms_store := Inr s1, ms_disk := d1, ms_gate := g \<rparr>) ms'"
proof (cases "generate_identity zk (ri_seed ri)")
  case (Inl e)
  then show thesis using assms(1) that(1) by (simp add: register_fresh_def same_store_def)
next
  case (Inr cs)
  obtain commitment_hex secret where cs: "cs = (commitment_hex, secret)" by (cases cs)
  show thesis
  proof (cases "hex_to_bytes32 commitment_hex")
    case None
    then show thesis using assms(1) Inr cs that(1) by (simp add: register_fresh_def same_store_def)
  next
    case (Some commitment)
    let ?h = "membership_hash (sha256_digest env) (rid_canonical registry) commitment"
    have mint: "minted env zk ri reg = Some ?h" using assms(2) Inr cs Some by (simp add: minted_def)
    let ?cred = "\<lparr> sc_identity_commitment = commitment_hex, sc_identity_secret_hash = secret, sc_registry_id = rid_canonical registry \<rparr>"
    let ?ident = "\<lparr> ib_registry_id = rid_canonical registry, ib_rln_identifier = rid,
                   ib_identity_commitment = commitment_hex, ib_submitted_at = ri_submitted_at ri \<rparr>"
    obtain res s1 d1 where ins: "insert_membership env (ri_nonce ri) (ri_write_allocations ri) (ri_write_cache ri)
        (ri_write_sealed ri) ?h ?ident ?cred rate s (ms_disk ms) = (res, s1, d1)" by (metis prod_cases3)
    show thesis
    proof (cases res)
      case (Inl e)
      then have "ms' = ms \<lparr> ms_store := Inr s1, ms_disk := d1 \<rparr>" using assms(1) Inr cs Some ins by (simp add: register_fresh_def Let_def)
      then show thesis using that(2) [OF mint ins, of "ms_gate ms"] updates_same by (auto simp: same_store_def)
    next
      case ok: (Inr u)
      obtain sr dl lt g where sub: "submit sb registry opts del commitment_hex rate (ms_gate ms) = (sr, dl, lt, g)" by (metis prod_cases4)
      let ?ms1 = "ms \<lparr> ms_store := Inr s1, ms_disk := d1, ms_gate := g \<rparr>"
      let ?ms2 = "fold (\<lambda>result m. submit_callback (callback_update sb del result) True (ri_write_update ri) (ri_now_update ri) ?h m) dl ?ms1"
      have u2: "updates_to env seen ?ms1 ?ms2" for seen by (rule updates_callbacks)
      show thesis
      proof (cases "isl sr \<and> \<not> isl (ms_store ?ms2)")
        case True
        then obtain e s2 where sr: "sr = Inl e" and s2: "ms_store ?ms2 = Inr s2" by (metis isl_def sum.exhaust_sel)
        obtain u3 s3 d3 where u3: "update_cache (ri_write_update ri) (ri_now_update ri) ?h
            (mark_submit_failed (ae_message e) (is_retryable_submit_error e)) s2 (ms_disk ?ms2) = (u3, s3, d3)" by (metis prod_cases3)
        have "ms' = ?ms2 \<lparr> ms_store := Inr s3, ms_disk := d3 \<rparr>"
          using assms(1) Inr cs Some ins ok sub sr s2 u3 by (simp add: register_fresh_def Let_def)
        then have "updates_to env seen ?ms2 ms'" for seen by (intro updates_cache [OF s2 u3]) simp_all
        then show thesis using that(2) [OF mint ins] updates_trans u2 by blast
      next
        case False
        then have "ms' = ?ms2"
          using assms(1) Inr cs Some ins ok sub
          by (auto simp: register_fresh_def Let_def split: sum.splits option.splits)
        then show thesis using that(2) [OF mint ins] u2 by blast
      qed
    qed
  qed
qed

lemma register_claimed_cases:
  assumes "register_claimed env zk sb ri registry rid opts ms = (r, later, ms')"
  obtains "same_store ms ms'"
  | s rate o2 g where "ms_store ms = Inr s"
      "register_fresh env zk sb ri registry rid rate o2 (delegated_of o2) s (ms \<lparr> ms_gate := g \<rparr>) = (r, later, ms')"
proof (cases "and_then (parse_registry_options (parse_json sb) opts) (\<lambda>(rate_limit, opts).
             and_then (check_delegated opts (delegated_of opts)) (\<lambda>_.
             and_then (ms_store ms) (\<lambda>s. Inr (rate_limit, opts, s))))")
  case (Inl e)
  then show thesis using assms that(1) by (simp add: register_claimed_def same_store_def)
next
  case (Inr p)
  obtain rate o2 s where p: "p = (rate, o2, s)" by (cases p)
  then have s: "ms_store ms = Inr s" using Inr by (auto simp: result_iffs)
  obtain bounds g where bg: "get_registry_bounds sb registry (ms_gate ms) = (bounds, g)" by fastforce
  show thesis
  proof (cases "live_record (records_for_registry s registry) rid = None \<and> \<not> isl (bounds_check rate bounds)")
    case True
    then have "register_fresh env zk sb ri registry rid rate o2 (delegated_of o2) s (ms \<lparr> ms_gate := g \<rparr>) = (r, later, ms')"
      using assms Inr p bg by (auto simp: register_claimed_def Let_def split: sum.splits)
    then show thesis using that(2) [OF s] by blast
  next
    case False
    then have "same_store ms ms'"
      using assms Inr p bg s by (auto simp: register_claimed_def same_store_def Let_def isl_def split: option.splits)
    then show thesis by (rule that(1))
  qed
qed

lemma register_simulated:
  assumes "register_impl env zk sb ri reg rid opts ms = (r, later, ms')"
    and "set_option (minted env zk ri reg) \<inter> seen = {}"
    and "seen' = (if same_store ms ms' then seen else seen \<union> set_option (minted env zk ri reg))"
  shows "\<exists>ls. trace (store_step env) (store_machine \<lparr> mm_state = ms, mm_seen = seen \<rparr>) ls
      (store_machine \<lparr> mm_state = ms', mm_seen = seen' \<rparr>)"
proof (cases "same_store ms ms'")
  case True
  then show ?thesis using updates_same [OF True] assms(3) by (simp add: updates_to_def)
next
  case False
  obtain registry b rid_hex where sc: "parse_scope reg rid = Inr (registry, b, rid_hex)"
    and rs: "register_scoped env zk sb ri registry rid_hex opts ms = (r, later, ms')"
    using assms(1) False by (cases "parse_scope reg rid") (auto simp: register_impl_def same_store_def)
  obtain claims ms1 where rc: "register_claimed env zk sb ri registry rid_hex opts (ms \<lparr> ms_claims := claims \<rparr>) = (r, later, ms1)"
    and ms': "ms' = ms1 \<lparr> ms_claims := claim_drop (rid_canonical registry) rid_hex (ms_claims ms1) \<rparr>"
    using rs False by (auto simp: register_scoped_def same_store_def Let_def split: sum.splits prod.splits)
  have same1: "same_store ms1 ms'" by (simp add: ms' same_store_def)
  from rc show ?thesis
  proof (cases rule: register_claimed_cases)
    case 1
    then show ?thesis using False same1 by (simp add: same_store_def)
  next
    case (2 s rate o2 g)
    have s: "ms_store ms = Inr s" using 2(1) by simp
    from 2(2) scope_registry [OF sc] show ?thesis
    proof (cases rule: register_fresh_cases)
      case 1
      then show ?thesis using False same1 by (simp add: same_store_def)
    next
      case ins: (2 h ident cred res s1 d1 g1)
      let ?m = "store_machine \<lparr> mm_state = ms, mm_seen = seen \<rparr>"
      let ?ms1 = "ms \<lparr> ms_claims := claims, ms_gate := g, ms_store := Inr s1, ms_disk := d1, ms_gate := g1 \<rparr>"
      have "store_step env ?m None (?m \<lparr> m_store := Some s1, m_disk := d1, m_seen := insert h (m_seen ?m) \<rparr>)"
        by (rule step_insert [of _ s]) (use s ins assms(2) in \<open>simp_all add: store_machine_def\<close>)
      moreover have "?m \<lparr> m_store := Some s1, m_disk := d1, m_seen := insert h (m_seen ?m) \<rparr> =
          store_machine \<lparr> mm_state = ?ms1, mm_seen = insert h seen \<rparr>" by (simp add: store_machine_def)
      moreover have "updates_to env (insert h seen) ?ms1 ms'"
        using updates_trans [OF ins(3) updates_same [OF same1]] by simp
      moreover have "seen' = insert h seen" using False ins(1) assms(3) by simp
      ultimately show ?thesis unfolding updates_to_def by (metis trace_cons)
    qed
  qed
qed

lemma validate_same:
  "validate_proof_impl zk pj now nw nn sn reg rid sig ts pf ms = (r, ms') \<Longrightarrow> same_store ms ms'"
  by (auto simp: validate_proof_impl_def same_store_def Let_def split: sum.splits option.splits if_splits prod.splits bool.splits)

section \<open>The refinement\<close>

lemma module_step_simulated:
  assumes "module_step env zk T c l c'"
  shows "\<exists>ls. trace (store_step env) (store_machine c) ls (store_machine c') \<and> set_option l \<subseteq> set (issued ls)"
proof -
  have eta: "\<lparr> mm_state = mm_state c, mm_seen = mm_seen c \<rparr> = c" "\<lparr> mm_state = ms', mm_seen = mm_seen c \<rparr> = c \<lparr> mm_state := ms' \<rparr>" for ms'
    by simp_all
  have silent: ?thesis if "l = None" "updates_to env (mm_seen c) (mm_state c) ms'" "c' = c \<lparr> mm_state := ms' \<rparr>" for ms'
    using that by (auto simp: updates_to_def eta)
  from assms show ?thesis
  proof cases
    case (mm_generate sb now na w reg rid sig ts r ms')
    then show ?thesis using generate_simulated [OF mm_generate(3), of "mm_seen c"] by (simp add: eta)
  next
    case (mm_validate pj now nw nn sn reg rid sig ts pf r ms')
    then show ?thesis using updates_same [OF validate_same [OF mm_validate(3)]] silent by blast
  next
    case (mm_register sb ri reg rid opts r later ms' seen')
    then show ?thesis using register_simulated [OF mm_register(3-5)] by (simp add: eta)
  next
    case (mm_reply upd alive w now h)
    then show ?thesis using updates_callback silent by blast
  next
    case (mm_read_state sb progress w now nu reg rid r evs ms')
    then show ?thesis using updates_read_state [OF mm_read_state(3)] silent by blast
  next
    case (mm_select pj dbg reg rid sel r ms')
    then have "same_store (mm_state c) ms'"
      by (auto simp: select_membership_impl_def same_store_def Let_def split: sum.splits prod.splits)
    then show ?thesis using updates_same silent mm_select by blast
  next
    case (mm_tick sb io io2 now np stopped refresh evs ms')
    then show ?thesis using updates_tick [OF mm_tick(3-5)] silent by blast
  next
    case (mm_other ms')
    then show ?thesis using updates_same silent by blast
  next
    case (mm_store m' st e)
    have "store_machine c' = m'" using mm_store by (auto simp: store_machine_def split: option.splits)
    moreover have "trace (store_step env) (store_machine c) [None] m'" by (rule trace_cons [of "store_step env", OF mm_store(3) trace_nil])
    ultimately show ?thesis using mm_store(1) by auto
  qed
qed

interpretation module: issuer_refinement machine_inv "store_step env" machine_next "module_step env zk T" store_machine for env zk T
  by unfold_locales (rule module_step_simulated)

lemma reply_slot_total:
  assumes "generate_proof_impl env zk sb now na w reg rid sig ts ms = (Inr reply, ms')"
  shows "\<exists>x. reply_slot reg rid (Inr reply) = Some x"
  using assms
proof (cases rule: generate_cases)
  case (reserved s q c res s' d')
  then obtain mid rlp where "reply = proof_reply rlp mid (pq_epoch q) (cm_hash c)" by (auto split: sum.splits)
  then show ?thesis using request_scope [OF reserved(2)] by (auto simp: reply_slot_def proof_reply_fields)
qed simp

text \<open>
  C2: the module never puts one slot into two proofs. Run the module in any way: handlers in any
  order with any arguments, clocks, registry replies and write failures, submit replies arriving
  late, poller ticks, crashes and reopenings of the store, edits of its files, loss of the ledger.
  Then all slots carried by the proofs it returned differ, and the next proof it returns carries
  a membership, application, epoch and message id, as its own reply states them, that no earlier
  proof carried.
\<close>
theorem module_never_reuses_slot:
  fixes T :: "'y sibling_scheme itself" and sb :: "'y sibling_scheme"
  assumes "trace (module_step env zk T) c ls c'" "machine_inv (store_machine c)"
    and "generate_proof_impl env zk sb now na w reg rid sig ts (mm_state c') = (Inr reply, ms')"
  shows "distinct (issued ls) \<and> (\<exists>x. reply_slot reg rid (Inr reply) = Some x \<and> x \<notin> set (issued ls))"
proof -
  obtain x where x: "reply_slot reg rid (Inr reply) = Some x" using reply_slot_total [OF assms(3)] by blast
  have "module_step env zk T c' (Some x) (c' \<lparr> mm_state := ms' \<rparr>)" using mm_generate [OF assms(3), of T] x by simp
  then have "trace (module_step env zk T) c (ls @ [Some x]) (c' \<lparr> mm_state := ms' \<rparr>)"
    using trace_append [OF assms(1)] trace_cons trace_nil by metis
  from module.refined_distinct [OF this assms(2)] show ?thesis using x by simp
qed

definition own_machine :: module_machine where
  "own_machine = \<lparr> mm_state = own_module, mm_seen = {''h''} \<rparr>"

lemma own_machine_inv: "machine_inv (store_machine own_machine)"
  by (auto simp: machine_inv_def store_machine_def own_machine_def own_module_def sample_module_def own_store_def sample_inner_def
      empty_disk_def ledger_wf_def copies_def store_copies_def ledger_copies_def disk_section_def bt_get_Cons bt_wf_def split: if_splits)

theorem module_never_reuses_slot_witness:
  "\<exists>reply ms' x. generate_proof_impl own_env own_zk sample_sibling 600 600 WriteOk (rid_canonical logos_sample)
       (bytes_to_hex (replicate 32 1)) (bytes_to_hex [5]) ''600'' own_module = (Inr reply, ms') \<and>
     reply_slot (rid_canonical logos_sample) (bytes_to_hex (replicate 32 1)) (Inr reply) = Some x"
proof -
  obtain reply ms' where g: "generate_proof_impl own_env own_zk sample_sibling 600 600 WriteOk (rid_canonical logos_sample)
       (bytes_to_hex (replicate 32 1)) (bytes_to_hex [5]) ''600'' (mm_state own_machine) = (Inr reply, ms')"
    using own_reply by (auto simp: own_machine_def)
  from module_never_reuses_slot [where T = "TYPE(sibling)", OF trace_nil own_machine_inv g] g show ?thesis by (auto simp: own_machine_def)
qed

end
