(* ===== verification/Ensure.thy ===== *)
theory Ensure
  imports Module_Machine
begin

text \<open>
  Provisioning (\<open>ensure.rs\<close>): the detached pass that waits for the wallet and for funding, prices
  the registration and registers a registry-wide membership. The two waits have no deadline, so
  they are partial functions: \<open>None\<close> is a wait that never ends. Time is counted in sleeps of one
  \<open>TICK\<close>; \<open>pe_sib k\<close> is the sibling module and \<open>pe_superseded k\<close> the answer of \<open>superseded\<close> after
  \<open>k\<close> sleeps of the pass, \<open>pe_clock k\<close> the monotonic clock's reading, and
  \<open>pe_during\<close> what other handlers did to the module while the pass waited. Durations are in seconds.
\<close>

section \<open>Schedule and prices\<close>

definition TICK :: nat where "TICK = 5"

definition WALLET_WAIT_NOTICE :: nat where "WALLET_WAIT_NOTICE = 300"

definition REGISTRY_WIDE :: string where "REGISTRY_WIDE = []"

definition read_interval :: "nat \<Rightarrow> nat" where
  "read_interval waited = (if waited < 60 then TICK else if waited < 600 then 30 else 300)"

definition DECLARED_GAS_LIMIT :: u128 where "DECLARED_GAS_LIMIT = 10000000"

definition ASSUMED_DATA_BYTES :: u128 where "ASSUMED_DATA_BYTES = 100000"

definition BASE_FEE_HEADROOM :: u128 where "BASE_FEE_HEADROOM = 2"

definition FALLBACK_FEE_RESERVE :: u128 where
  "FALLBACK_FEE_RESERVE = (DECLARED_GAS_LIMIT + ASSUMED_DATA_BYTES) * 64"

datatype reserve_basis = Quote u64 | Fallback

definition fee_reserve_from :: "json \<Rightarrow> u128 option" where
  "fee_reserve_from quote =
     Option.bind (get_u64 quote ''next_base_fee_exec_ceiling'') (\<lambda>exec.
     Option.bind (get_u64 quote ''next_base_fee_stor_ceiling'') (\<lambda>stor.
     Some (saturating_mul (saturating_add (saturating_mul DECLARED_GAS_LIMIT (ucast exec))
        (saturating_mul ASSUMED_DATA_BYTES (ucast stor))) BASE_FEE_HEADROOM)))"

definition fee_reserve :: "api_error + json \<Rightarrow> u128 \<times> reserve_basis" where
  "fee_reserve quote =
     (case quote of
        Inl _ \<Rightarrow> (FALLBACK_FEE_RESERVE, Fallback)
      | Inr q \<Rightarrow>
          (case fee_reserve_from q of
             None \<Rightarrow> (FALLBACK_FEE_RESERVE, Fallback)
           | Some r \<Rightarrow> (r, Quote (unwrap_or 0 (get_u64 q ''height'')))))"

definition registration_price ::
  "'y sibling_scheme \<Rightarrow> canonical_registry_id \<Rightarrow> u64 \<Rightarrow> network_gate \<Rightarrow> (api_error + u128) \<times> network_gate"
where
  "registration_price sb registry rate_limit g =
     (let (bounds, g') = get_registry_bounds sb registry g in
      (and_then bounds (\<lambda>b.
         and_then (ok_or (api_new ProviderFailure ''registry bounds carry no price_per_unit'')
             (Option.bind (get_str b ''price_per_unit'') parse_uint)) (\<lambda>price_per_unit.
         Inr (saturating_mul price_per_unit (ucast rate_limit)))), g'))"

section \<open>Progress\<close>

datatype provision_step = WaitingForWallet | AwaitingFunding | Registering | ProvisionDone | ProvisionRefused

fun step_as_str :: "provision_step \<Rightarrow> string" where
  "step_as_str WaitingForWallet = ''waiting_for_wallet''"
| "step_as_str AwaitingFunding = ''awaiting_funding''"
| "step_as_str Registering = ''registering''"
| "step_as_str ProvisionDone = ''done''"
| "step_as_str ProvisionRefused = ''refused''"

type_synonym progress = "string \<rightharpoonup> provision_step \<times> string"

definition record_progress :: "string \<Rightarrow> provision_step \<Rightarrow> string \<Rightarrow> progress \<Rightarrow> progress" where
  "record_progress registry step detail p = p(registry \<mapsto> (step, detail))"

definition provisioning_view_of :: "progress \<Rightarrow> string \<Rightarrow> provisioning_view option" where
  "provisioning_view_of p registry = map_option (\<lambda>(step, detail). \<lparr> pw_step = step_as_str step, pw_detail = detail \<rparr>) (p registry)"

section \<open>Passes\<close>

text \<open>
  \<open>EPOCH\<close>: every pass takes a ticket on entry, and a pass is superseded when the module stopped or
  a later pass took one.
\<close>

definition take_ticket :: "u64 \<Rightarrow> u64 \<times> u64" where
  "take_ticket epoch = (epoch + 1, epoch + 1)"

definition pass_superseded :: "bool \<Rightarrow> u64 \<Rightarrow> u64 \<Rightarrow> bool" where
  "pass_superseded stopped epoch mine \<longleftrightarrow> stopped \<or> epoch \<noteq> mine"

lemma newest_pass_wins:
  assumes "take_ticket epoch = (first, e1)" "take_ticket e1 = (second, e2)"
  shows "pass_superseded False e2 first \<and> \<not> pass_superseded False e2 second"
  using assms by (auto simp: take_ticket_def pass_superseded_def)

section \<open>The waits\<close>

record 'y prov_env =
  pe_sib :: "nat \<Rightarrow> 'y sibling_scheme"
  pe_superseded :: "nat \<Rightarrow> bool"
  pe_clock :: "nat \<Rightarrow> nat"
  pe_during :: "module_state \<Rightarrow> module_state"
  pe_register :: register_inputs

definition show_u128 :: "u128 \<Rightarrow> string" where "show_u128 n = show_nat (unat n)"

datatype wait_outcome = StoodDown | Arrived | WaitFailed api_error

definition wallet_failed :: "json \<Rightarrow> api_error" where
  "wallet_failed status = api_new ProviderFailure
     (''the registry module's wallet failed to come up: '' @ unwrap_or [] (get_str status ''detail''))"

definition wallet_notice :: "nat \<Rightarrow> bool \<Rightarrow> json \<Rightarrow> string \<Rightarrow> progress \<Rightarrow> bool \<times> progress" where
  "wallet_notice waited noticed status registry p =
     (if get_str status ''state'' = Some ''pending'' \<and> WALLET_WAIT_NOTICE \<le> waited \<and> \<not> noticed
      then (True, record_progress registry WaitingForWallet
              (show_nat waited @ ''s: '' @ unwrap_or [] (get_str status ''detail'')) p)
      else (noticed, p))"

text \<open>\<open>k\<close> is the number of sleeps so far; the answer carries the sleep count at which the wait ended.\<close>

partial_function (option) wallet_wait ::
  "'y prov_env \<Rightarrow> string \<Rightarrow> nat \<Rightarrow> nat \<Rightarrow> nat \<Rightarrow> bool \<Rightarrow> progress \<Rightarrow> (wait_outcome \<times> nat \<times> progress) option"
where
  "wallet_wait pe registry began k due noticed p =
     (if pe_superseded pe k then Some (StoodDown, k, p)
      else if pe_clock pe k - began < due then wallet_wait pe registry began (Suc k) due noticed p
      else case wallet_status (pe_sib pe k) of
        Inl _ \<Rightarrow> wallet_wait pe registry began (Suc k) (pe_clock pe k - began + read_interval (pe_clock pe k - began)) noticed p
      | Inr status \<Rightarrow>
          if get_str status ''state'' = Some ''ready'' then Some (Arrived, k, p)
          else if get_str status ''state'' = Some ''failed'' then Some (WaitFailed (wallet_failed status), k, p)
          else (let (noticed', p') = wallet_notice (pe_clock pe k - began) noticed status registry p
                in wallet_wait pe registry began (Suc k) (pe_clock pe k - began + read_interval (pe_clock pe k - began)) noticed' p'))"

definition funding_detail :: "string \<Rightarrow> u128 \<Rightarrow> u128 \<Rightarrow> u128 \<Rightarrow> string" where
  "funding_detail payer required price reserve =
     payer @ '' needs '' @ show_u128 required @ '' native ('' @ show_u128 price @ '' price + '' @ show_u128 reserve @ '' fee reserve)''"

text \<open>
  The funding wait: \<open>w\<close> is the number of sleeps of this wait, so \<open>waited\<close> is \<open>TICK * w\<close>; \<open>k\<close> counts
  the sleeps of the whole pass. The reserve is re-quoted with every read but the first.
\<close>

definition quoted_reserve :: "'y prov_env \<Rightarrow> nat \<Rightarrow> nat \<Rightarrow> u128 \<Rightarrow> u128" where
  "quoted_reserve pe k w reserve = (if 0 < w then fst (fee_reserve (fee_state (pe_sib pe k))) else reserve)"

partial_function (option) funding_wait ::
  "'y prov_env \<Rightarrow> string \<Rightarrow> string \<Rightarrow> u128 \<Rightarrow> nat \<Rightarrow> nat \<Rightarrow> nat \<Rightarrow> u128 \<Rightarrow> progress \<Rightarrow> (wait_outcome \<times> nat \<times> progress) option"
where
  "funding_wait pe registry payer price k w due reserve p =
     (if pe_superseded pe k then Some (StoodDown, k, p)
      else if TICK * w < due then funding_wait pe registry payer price (Suc k) (Suc w) due reserve p
      else
        (let reserve' = quoted_reserve pe k w reserve;
             required = saturating_add price reserve';
             due' = TICK * w + read_interval (TICK * w) in
         case payer_balance (pe_sib pe k) of
           Inr balance \<Rightarrow>
             if required \<le> balance then Some (Arrived, k, p)
             else funding_wait pe registry payer price (Suc k) (Suc w) due' reserve'
                    (record_progress registry AwaitingFunding
                       (funding_detail payer required price reserve' @ ''; it holds '' @ show_u128 balance) p)
         | Inl _ \<Rightarrow> funding_wait pe registry payer price (Suc k) (Suc w) due' reserve' p))"

section \<open>One registry\<close>

definition quarantined_detail :: "string \<Rightarrow> string" where
  "quarantined_detail hash = ''membership '' @ hash @ '' is quarantined (local metadata failed its MAC); not registering a replacement '' @
     em_dash @ '' inspect with get_memberships, then register_membership deliberately''"

definition already_settled :: "module_state \<Rightarrow> canonical_registry_id \<Rightarrow> (provision_step \<times> string) option" where
  "already_settled ms registry =
     (case ms_store ms of
        Inl _ \<Rightarrow> None
      | Inr s \<Rightarrow>
          (let records = records_for_registry s registry in
           if list_ex (\<lambda>r. \<not> mr_quarantined r \<and> is_live (cs_state (mr_cache r))) records
           then Some (ProvisionDone, ''membership already present'')
           else map_option (\<lambda>r. (ProvisionRefused, quarantined_detail (mr_hash r))) (find mr_quarantined records)))"

definition rate_options :: "u64 \<Rightarrow> string" where
  "rate_options rate_limit = ''[{\"key\":\"rate_limit\",\"value\":\"'' @ show_nat (unat rate_limit) @ ''\"}]''"

definition provision_register ::
  "'z store_env_scheme \<Rightarrow> ('fr, 'zp) zerokit \<Rightarrow> 'y prov_env \<Rightarrow> canonical_registry_id \<Rightarrow> u64 \<Rightarrow> nat \<Rightarrow> progress \<Rightarrow> module_state \<Rightarrow>
     (api_error + unit) \<times> progress \<times> (api_error + string) list \<times> module_state"
where
  "provision_register env zk pe registry rate_limit k p ms =
     (let p1 = record_progress (rid_canonical registry) Registering [] p;
          (r, later, ms') = register_scoped env zk (pe_sib pe k) (pe_register pe) registry REGISTRY_WIDE (rate_options rate_limit) ms in
      case r of
        Inr _ \<Rightarrow> (Inr (), record_progress (rid_canonical registry) ProvisionDone ''submitted'' p1, later, ms')
      | Inl e \<Rightarrow>
          if ae_kind e = Locked
          then (Inr (), record_progress (rid_canonical registry) AwaitingFunding ''keystore locked'' p1, later, ms')
          else (Inl e, p1, later, ms'))"

definition provision_one ::
  "'z store_env_scheme \<Rightarrow> ('fr, 'zp) zerokit \<Rightarrow> 'y prov_env \<Rightarrow> canonical_registry_id \<Rightarrow> u64 \<Rightarrow> nat \<Rightarrow> progress \<Rightarrow> module_state \<Rightarrow>
     ((api_error + unit) \<times> nat \<times> progress \<times> (api_error + string) list \<times> module_state) option"
where
  "provision_one env zk pe registry rate_limit k p ms =
     (let rc = rid_canonical registry in
      case already_settled ms registry of
        Some (step, detail) \<Rightarrow> Some (Inr (), k, record_progress rc step detail p, [], ms)
      | None \<Rightarrow>
      case provider_of registry of
        Inl e \<Rightarrow> Some (Inl e, k, p, [], ms)
      | Inr _ \<Rightarrow>
      case wallet_wait pe rc (pe_clock pe k) k 0 False (record_progress rc WaitingForWallet [] p) of
        None \<Rightarrow> None
      | Some (WaitFailed e, k1, p1) \<Rightarrow> Some (Inl e, k1, p1, [], ms)
      | Some (StoodDown, k1, p1) \<Rightarrow> Some (Inr (), k1, p1, [], ms)
      | Some (Arrived, k1, p1) \<Rightarrow>
      case registry_problem (pe_sib pe k1) registry (ms_gate ms) of
        (Some msg, g1) \<Rightarrow> Some (Inl (api_new UnknownRegistry msg), k1, p1, [], ms \<lparr> ms_gate := g1 \<rparr>)
      | (None, g1) \<Rightarrow>
      case registration_price (pe_sib pe k1) registry rate_limit g1 of
        (Inl e, g2) \<Rightarrow> Some (Inl e, k1, p1, [], ms \<lparr> ms_gate := g2 \<rparr>)
      | (Inr price, g2) \<Rightarrow>
      let reserve = fst (fee_reserve (fee_state (pe_sib pe k1)));
          payer = (case wallet_status (pe_sib pe k1) of Inr st \<Rightarrow> unwrap_or [] (get_str st ''payer'') | Inl _ \<Rightarrow> []);
          ms1 = ms \<lparr> ms_gate := g2 \<rparr> in
      case funding_wait pe rc payer price k1 0 0 reserve
             (record_progress rc AwaitingFunding (funding_detail payer (saturating_add price reserve) price reserve) p1) of
        None \<Rightarrow> None
      | Some (WaitFailed e, k2, p2) \<Rightarrow> Some (Inl e, k2, p2, [], ms1)
      | Some (StoodDown, k2, p2) \<Rightarrow> Some (Inr (), k2, p2, [], ms1)
      | Some (Arrived, k2, p2) \<Rightarrow>
          (let (r, p3, later, ms') = provision_register env zk pe registry rate_limit k2 p2 (pe_during pe ms1)
           in Some (r, k2, p3, later, ms')))"

text \<open>The pass over every registry \<open>start()\<close> named; an error is recorded and the next one is taken up.\<close>

fun run :: "'z store_env_scheme \<Rightarrow> ('fr, 'zp) zerokit \<Rightarrow> 'y prov_env \<Rightarrow> u64 \<Rightarrow> string list \<Rightarrow> nat \<Rightarrow> progress \<Rightarrow> module_state \<Rightarrow>
     (progress \<times> (api_error + string) list \<times> module_state) option"
where
  "run env zk pe rate_limit [] k p ms = Some (p, [], ms)"
| "run env zk pe rate_limit (raw # rest) k p ms =
     (if pe_superseded pe k then Some (p, [], ms)
      else case parse raw of
        Inl _ \<Rightarrow> run env zk pe rate_limit rest k p ms
      | Inr registry \<Rightarrow>
          (case provision_one env zk pe registry rate_limit k p ms of
             None \<Rightarrow> None
           | Some (r, k', p', later, ms') \<Rightarrow>
               (let p'' = (case r of Inl e \<Rightarrow> record_progress (rid_canonical registry) ProvisionRefused (ae_message e) p' | Inr _ \<Rightarrow> p') in
                map_option (\<lambda>(p3, later', ms3). (p3, later @ later', ms3)) (run env zk pe rate_limit rest k' p'' ms'))))"

section \<open>Lemmas\<close>

lemma read_interval_bounds: "TICK \<le> read_interval x" "read_interval x \<le> 300" "0 < read_interval x"
  by (simp_all add: read_interval_def TICK_def)

definition quote_at :: "'y prov_env \<Rightarrow> nat \<Rightarrow> u128" where
  "quote_at pe k = fst (fee_reserve (fee_state (pe_sib pe k)))"

definition affordable :: "'y prov_env \<Rightarrow> u128 \<Rightarrow> nat \<Rightarrow> bool" where
  "affordable pe price k \<longleftrightarrow> (\<exists>b. payer_balance (pe_sib pe k) = Inr b \<and> saturating_add price (quote_at pe k) \<le> b)"

lemma quoted_reserve_at: "(w = 0 \<longrightarrow> reserve = quote_at pe k) \<Longrightarrow> quoted_reserve pe k w reserve = quote_at pe k"
  by (simp add: quoted_reserve_def quote_at_def)

definition funding_ok :: "'y prov_env \<Rightarrow> u128 \<Rightarrow> nat \<Rightarrow> wait_outcome \<times> nat \<times> progress \<Rightarrow> bool" where
  "funding_ok pe price k y \<longleftrightarrow> k \<le> fst (snd y) \<and> (fst y = Arrived \<longrightarrow> affordable pe price (fst (snd y))) \<and>
     (fst y = StoodDown \<longrightarrow> pe_superseded pe (fst (snd y))) \<and> fst y \<in> {Arrived, StoodDown}"

lemma funding_wait_safe:
  assumes ret: "funding_wait pe rc payer price k w due reserve p = Some y" and "w = 0 \<longrightarrow> reserve = quote_at pe k"
  shows "funding_ok pe price k y"
proof -
  let ?P = "\<lambda>pe rc payer price k w (due :: nat) reserve (p :: progress) y. (w = 0 \<longrightarrow> reserve = quote_at pe k) \<longrightarrow> funding_ok pe price k y"
  have "?P pe rc payer price k w due reserve p y"
  proof (rule funding_wait.raw_induct [where P = ?P, OF _ ret])
    fix f pe rc payer price k w due reserve p y
    assume IH: "\<And>pe rc payer price k w due reserve p y. f pe rc payer price k w due reserve p = Some y \<Longrightarrow> ?P pe rc payer price k w due reserve p y"
      and eq: "(if pe_superseded pe k then Some (StoodDown, k, p)
      else if TICK * w < due then f pe rc payer price (Suc k) (Suc w) due reserve p
      else
        (let reserve' = quoted_reserve pe k w reserve;
             required = saturating_add price reserve';
             due' = TICK * w + read_interval (TICK * w) in
         case payer_balance (pe_sib pe k) of
           Inl _ \<Rightarrow> f pe rc payer price (Suc k) (Suc w) due' reserve' p
         | Inr balance \<Rightarrow>
             if required \<le> balance then Some (Arrived, k, p)
             else f pe rc payer price (Suc k) (Suc w) due' reserve'
                    (record_progress rc AwaitingFunding
                       (funding_detail payer required price reserve' @ ''; it holds '' @ show_u128 balance) p))) = Some y"
    have later: "funding_ok pe price k y" if "funding_ok pe price (Suc k) y" using that by (simp add: funding_ok_def)
    show "?P pe rc payer price k w due reserve p y"
    proof
      assume r: "w = 0 \<longrightarrow> reserve = quote_at pe k"
      show "funding_ok pe price k y"
        using eq quoted_reserve_at [OF r]
        by (auto simp: Let_def split: if_splits sum.splits dest!: IH intro: later)
          (auto simp: funding_ok_def affordable_def)
    qed
  qed
  then show ?thesis using assms(2) by blast
qed

text \<open>Once the balance covers price and reserve for good, the next read sees it.\<close>

lemma funding_wait_arrives:
  assumes "k = k0 + w" "k0 \<le> K" "due \<le> TICK * min w (K - k0) + 300" "k \<le> K + 60" "w = 0 \<longrightarrow> reserve = quote_at pe k"
    and "\<And>j. j \<le> K + 60 \<Longrightarrow> \<not> pe_superseded pe j" "\<And>j. K \<le> j \<Longrightarrow> affordable pe price j"
  shows "\<exists>k' p'. funding_wait pe rc payer price k w due reserve p = Some (Arrived, k', p') \<and> k' \<le> K + 60"
  using assms(1,3-5)
proof (induction "K + 60 - k" arbitrary: k w due reserve p rule: less_induct)
  case less
  have ns: "\<not> pe_superseded pe k" using assms(6) less.prems(3) by blast
  have q: "quoted_reserve pe k w reserve = quote_at pe k" using less.prems(4) by (rule quoted_reserve_at)
  note unf = funding_wait.simps [of pe rc payer price k w due reserve p]
  show ?case
  proof (cases "TICK * w < due")
    case True
    then have "k < K + 60" using less.prems(1,2) assms(2) by (auto simp: TICK_def min_def split: if_splits)
    moreover have "due \<le> TICK * min (Suc w) (K - k0) + 300" using less.prems(2) by (auto simp: TICK_def min_def split: if_splits)
    ultimately show ?thesis
      using less.hyps [of "Suc k" "Suc w" due reserve p] less.prems True ns unf by auto
  next
    case False
    show ?thesis
    proof (cases "K \<le> k")
      case True
      then obtain b where "payer_balance (pe_sib pe k) = Inr b" "saturating_add price (quote_at pe k) \<le> b"
        using assms(7) by (auto simp: affordable_def)
      then show ?thesis using False ns q unf less.prems(3) by (simp add: Let_def)
    next
      case lt: False
      let ?due = "TICK * w + read_interval (TICK * w)"
      have "?due \<le> TICK * min (Suc w) (K - k0) + 300"
        using read_interval_bounds(2) [of "TICK * w"] lt less.prems(1) by (auto simp: TICK_def min_def)
      moreover have "K + 60 - Suc k < K + 60 - k" "Suc k = k0 + Suc w" "Suc k \<le> K + 60" using lt less.prems(1) by auto
      ultimately have step: "\<exists>k' p'. funding_wait pe rc payer price (Suc k) (Suc w) ?due (quote_at pe k) p2 = Some (Arrived, k', p') \<and> k' \<le> K + 60" for p2
        by (intro less.hyps) simp_all
      show ?thesis
        using unf ns False q step less.prems(3) by (cases "payer_balance (pe_sib pe k)") (auto simp: Let_def)
    qed
  qed
qed

definition wallet_ready :: "'y prov_env \<Rightarrow> nat \<Rightarrow> bool" where
  "wallet_ready pe k \<longleftrightarrow> (\<exists>st. wallet_status (pe_sib pe k) = Inr st \<and> get_str st ''state'' = Some ''ready'')"

lemma wallet_wait_safe:
  assumes ret: "wallet_wait pe rc began k due noticed p = Some y"
  shows "k \<le> fst (snd y) \<and> (fst y = Arrived \<longrightarrow> wallet_ready pe (fst (snd y)))"
proof -
  let ?P = "\<lambda>pe (rc :: string) (began :: nat) k (due :: nat) (noticed :: bool) (p :: progress) y. k \<le> fst (snd y) \<and> (fst y = Arrived \<longrightarrow> wallet_ready pe (fst (snd y)))"
  show ?thesis
  proof (rule wallet_wait.raw_induct [where P = ?P, OF _ ret])
    fix f pe rc began k due noticed p y
    assume IH: "\<And>pe rc began k due noticed p y. f pe rc began k due noticed p = Some y \<Longrightarrow> ?P pe rc began k due noticed p y"
      and eq: "(if pe_superseded pe k then Some (StoodDown, k, p)
      else if pe_clock pe k - began < due then f pe rc began (Suc k) due noticed p
      else case wallet_status (pe_sib pe k) of
        Inl _ \<Rightarrow> f pe rc began (Suc k) (pe_clock pe k - began + read_interval (pe_clock pe k - began)) noticed p
      | Inr status \<Rightarrow>
          if get_str status ''state'' = Some ''ready'' then Some (Arrived, k, p)
          else if get_str status ''state'' = Some ''failed'' then Some (WaitFailed (wallet_failed status), k, p)
          else (let (noticed', p') = wallet_notice (pe_clock pe k - began) noticed status rc p
                in f pe rc began (Suc k) (pe_clock pe k - began + read_interval (pe_clock pe k - began)) noticed' p')) = Some y"
    then show "?P pe rc began k due noticed p y"
      by (auto simp: wallet_ready_def split: if_splits sum.splits prod.splits dest!: IH)
  qed
qed

section \<open>Properties\<close>

text \<open>
  Funding is noticed, and within five minutes. The funding wait has no deadline, yet once the
  payer holds the price plus the fee reserve quoted at that moment, and keeps doing so, a pass
  that is not superseded ends its wait after at most sixty more sleeps of five seconds, however
  long it had waited before; and it never ends on less: at its last read the balance covered
  both.
\<close>
lemma funding_noticed:
  assumes "k \<le> K" "\<And>j. K \<le> j \<Longrightarrow> affordable pe price j" "\<And>j. j \<le> K + 60 \<Longrightarrow> \<not> pe_superseded pe j"
  shows "\<exists>k' p'. funding_wait pe rc payer price k 0 0 (quote_at pe k) p = Some (Arrived, k', p') \<and>
    k \<le> k' \<and> k' \<le> K + 300 div TICK \<and> affordable pe price k'"
proof -
  obtain k' p' where w: "funding_wait pe rc payer price k 0 0 (quote_at pe k) p = Some (Arrived, k', p')" "k' \<le> K + 60"
    using funding_wait_arrives [of k k 0 K 0 "quote_at pe k" pe price rc payer p] assms by auto
  then show ?thesis using funding_wait_safe [OF w(1)] by (auto simp: funding_ok_def TICK_def)
qed

definition paying_sibling :: sibling where
  "paying_sibling = sample_sibling \<lparr> sb_get_native_balance := (\<lambda>_. Replied ''b''),
     parse_json := (\<lambda>_. Inr (JObj [(''balance'', JStr ''646400100'')])) \<rparr>"

definition paying_env :: "unit prov_env" where
  "paying_env = \<lparr> pe_sib = (\<lambda>k. if k < 7 then sample_sibling else paying_sibling), pe_superseded = (\<lambda>_. False), pe_clock = (\<lambda>k. 5 * k),
     pe_during = (\<lambda>ms. ms), pe_register = sample_inputs \<rparr>"

lemma paying_affordable: "7 \<le> j \<Longrightarrow> affordable paying_env 100 j"
proof -
  assume "7 \<le> j"
  then have sib: "pe_sib paying_env j = paying_sibling" by (simp add: paying_env_def)
  have fee: "fee_reserve (fee_state paying_sibling) = (FALLBACK_FEE_RESERVE, Fallback)"
    by (simp add: fee_state_def paying_sibling_def sample_sibling_def read_reply_def await_reply_def fee_reserve_def)
  have "parse_uint ''646400100'' = Some (646400100 :: u128)"
    by (simp add: parse_uint_def digits_value_def is_ascii_digit_def)
  then have bal: "payer_balance paying_sibling = Inr 646400100"
    by (simp add: payer_balance_def paying_sibling_def sample_sibling_def read_reply_def await_reply_def parsed_as_def)
  show ?thesis
    by (simp add: affordable_def quote_at_def sib fee bal FALLBACK_FEE_RESERVE_def DECLARED_GAS_LIMIT_def ASSUMED_DATA_BYTES_def
        saturating_add_def)
qed

text \<open>
  C23: provisioning spends only when it must and can. A pass over a registry either leaves the
  module as it was, up to the network gate, or it went all the way to the registration; and then
  on entry the store held no live membership of that registry under any scope and none of its
  records was quarantined, the registry has a provider, the wallet reported ready during the
  pass, and at the pass's last read, no earlier than that report, the payer's balance covered the
  registry's price for the configured rate plus the fee reserve quoted then.
\<close>
theorem provision_spends_safely:
  assumes "provision_one env zk pe registry rate k p ms = Some (r, k', p', later, ms')"
  shows "(\<exists>g. ms' = ms \<lparr> ms_gate := g \<rparr> \<and> later = []) \<or>
    already_settled ms registry = None \<and> provider_of registry = Inr () \<and>
    (\<exists>k1 price g0 g p2. k \<le> k1 \<and> k1 \<le> k' \<and> wallet_ready pe k1 \<and>
       fst (registration_price (pe_sib pe k1) registry rate g0) = Inr price \<and> affordable pe price k' \<and>
       provision_register env zk pe registry rate k' p2 (pe_during pe (ms \<lparr> ms_gate := g \<rparr>)) = (r, p', later, ms'))"
proof (cases "\<exists>g. ms' = ms \<lparr> ms_gate := g \<rparr> \<and> later = []")
  case False
  let ?rc = "rid_canonical registry"
  have eta: "ms = ms \<lparr> ms_gate := ms_gate ms \<rparr>" by simp
  then have diff: "ms' \<noteq> ms \<or> later \<noteq> []" "\<And>g. ms' \<noteq> ms \<lparr> ms_gate := g \<rparr> \<or> later \<noteq> []" using False by metis+
  have none: "already_settled ms registry = None"
    using assms diff by (cases "already_settled ms registry") (auto simp: provision_one_def Let_def)
  have prov: "provider_of registry = Inr ()"
    using assms diff none by (cases "provider_of registry") (auto simp: provision_one_def Let_def)
  let ?ww = "wallet_wait pe ?rc (pe_clock pe k) k 0 False (record_progress ?rc WaitingForWallet [] p)"
  have "False" if "?ww = None" using assms none prov that by (simp add: provision_one_def Let_def)
  then obtain out k1 p1 where ww: "?ww = Some (out, k1, p1)" by (cases ?ww) auto
  have out: "out = Arrived" using assms diff none prov ww by (cases out) (auto simp: provision_one_def Let_def)
  note wsafe = wallet_wait_safe [OF ww, simplified out]
  obtain prob g1 where rp: "registry_problem (pe_sib pe k1) registry (ms_gate ms) = (prob, g1)" by fastforce
  have prob: "prob = None" using assms diff none prov ww out rp by (cases prob) (auto simp: provision_one_def Let_def)
  obtain pr g2 where pp: "registration_price (pe_sib pe k1) registry rate g1 = (pr, g2)" by fastforce
  obtain price where price: "pr = Inr price"
    using assms diff none prov ww out rp prob pp by (cases pr) (auto simp: provision_one_def Let_def)
  let ?payer = "case wallet_status (pe_sib pe k1) of Inr st \<Rightarrow> unwrap_or [] (get_str st ''payer'') | Inl _ \<Rightarrow> []"
  let ?q = "quote_at pe k1"
  let ?fw = "funding_wait pe ?rc ?payer price k1 0 0 ?q
      (record_progress ?rc AwaitingFunding (funding_detail ?payer (saturating_add price ?q) price ?q) p1)"
  have "False" if "?fw = None"
    using assms none prov ww out rp prob pp price that by (simp add: provision_one_def quote_at_def Let_def)
  then obtain o2 k2 p2 where fw: "?fw = Some (o2, k2, p2)" by (cases ?fw) auto
  have fsafe: "funding_ok pe price k1 (o2, k2, p2)" using funding_wait_safe [OF fw] by simp
  have "o2 = Arrived \<and> k' = k2 \<and> provision_register env zk pe registry rate k2 p2 (pe_during pe (ms \<lparr> ms_gate := g2 \<rparr>)) = (r, p', later, ms')"
    using assms diff none prov ww out rp prob pp price fw
    by (cases o2) (auto simp: provision_one_def quote_at_def Let_def split: prod.splits)
  then show ?thesis using none prov wsafe fsafe pp price unfolding funding_ok_def
    by (intro disjI2 conjI exI [of _ k1] exI [of _ price] exI [of _ g1] exI [of _ g2] exI [of _ p2]) auto
qed simp

definition ready_sibling :: sibling where
  "ready_sibling = sample_sibling \<lparr> sb_use_network := (\<lambda>_. Replied ''n''), sb_wallet_status := Replied ''w'',
     sb_get_registry_bounds := (\<lambda>_. Replied ''p''), sb_get_native_balance := (\<lambda>_. Replied ''b''),
     parse_json := (\<lambda>s. Inr (if s = ''n'' then JObj [(''accepted'', JBool True)] else if s = ''w'' then JObj [(''state'', JStr ''ready'')]
       else if s = ''p'' then JObj [(''price_per_unit'', JStr ''1'')] else if s = ''b'' then JObj [(''balance'', JStr ''646400100'')]
       else JArr [])) \<rparr>"

definition ready_env :: "unit prov_env" where
  "ready_env = \<lparr> pe_sib = (\<lambda>_. ready_sibling), pe_superseded = (\<lambda>_. False), pe_clock = (\<lambda>k. 5 * k),
     pe_during = (\<lambda>_. own_module), pe_register = sample_inputs \<rparr>"

definition closed_module :: module_state where
  "closed_module = own_module \<lparr> ms_store := Inl (api_internal ''closed''), ms_gate := Map.empty \<rparr>"

lemma ready_reads:
  "wallet_status ready_sibling = Inr (JObj [(''state'', JStr ''ready'')])"
  "registry_problem ready_sibling logos_sample Map.empty = (None, [''local'' \<mapsto> Inr ()])"
  "registration_price ready_sibling logos_sample 5 [''local'' \<mapsto> Inr ()] = (Inr 5, [''local'' \<mapsto> Inr ()])"
  "payer_balance ready_sibling = Inr 646400100"
  "fst (fee_reserve (fee_state ready_sibling)) = 646400000"
proof -
  have one: "parse_uint ''1'' = Some (1 :: u128)" and bal: "parse_uint ''646400100'' = Some (646400100 :: u128)"
    by (simp_all add: parse_uint_def digits_value_def is_ascii_digit_def)
  note rd = read_reply_def await_reply_def parsed_as_def
  have ref: "rid_reference logos_sample = ''local''" by (simp add: logos_sample_def)
  show "wallet_status ready_sibling = Inr (JObj [(''state'', JStr ''ready'')])"
    by (simp add: wallet_status_def ready_sibling_def sample_sibling_def rd)
  show "registry_problem ready_sibling logos_sample Map.empty = (None, [''local'' \<mapsto> Inr ()])"
    by (simp add: registry_problem_def check_registry_def ensure_network_def interpret_use_network_def remember_def ref
        ready_sibling_def sample_sibling_def rd Let_def)
  show "registration_price ready_sibling logos_sample 5 [''local'' \<mapsto> Inr ()] = (Inr 5, [''local'' \<mapsto> Inr ()])"
    by (simp add: registration_price_def get_registry_bounds_def gated_read_def ensure_network_def ref
        ready_sibling_def sample_sibling_def rd one saturating_mul_def Let_def)
  show "payer_balance ready_sibling = Inr 646400100"
    by (simp add: payer_balance_def ready_sibling_def sample_sibling_def rd bal)
  show "fst (fee_reserve (fee_state ready_sibling)) = 646400000"
    by (simp add: fee_state_def ready_sibling_def sample_sibling_def rd fee_reserve_def FALLBACK_FEE_RESERVE_def
        DECLARED_GAS_LIMIT_def ASSUMED_DATA_BYTES_def)
qed

lemma ready_env_fields:
  "pe_sib ready_env k = ready_sibling" "\<not> pe_superseded ready_env k" "pe_clock ready_env k = 5 * k" "pe_during ready_env m = own_module"
  by (simp_all add: ready_env_def)

lemma ready_register:
  "\<exists>v. register_scoped own_env own_zk ready_sibling ri logos_sample [] (rate_options 5) own_module = (Inr v, [], own_module)"
proof -
  have t: "trim (rate_options 5) = rate_options 5" "rate_options 5 \<noteq> []"
    "parse_json ready_sibling (rate_options 5) = Inr (JArr [])"
    unfolding ready_sibling_def by code_simp+
  have pre: "parse_registry_options (parse_json ready_sibling) (rate_options 5) = Inr (DEFAULT_RATE_LIMIT, JObj [])"
    using t by (simp add: parse_registry_options_def options_entries_def rate_limit_option_def Let_def)
  have del: "delegated_of (JObj []) = None" by (simp add: delegated_of_def flat_bool_option_def get_str_def)
  have chk: "check_delegated (JObj []) None = Inr ()" by (simp add: check_delegated_def)
  have free: "ms_claims own_module = {}" "ms_store own_module = Inr own_store" by (simp_all add: own_module_def sample_module_def)
  have "own_module \<lparr> ms_claims := {} \<rparr> = own_module" using free by simp
  then show ?thesis
    by (simp add: register_scoped_def register_claimed_def claim_take_def claim_drop_def logos_sample_provider free pre del chk
        own_records own_live)
qed

lemma ready_provision:
  "\<exists>p'. provision_one own_env own_zk ready_env logos_sample 5 0 Map.empty closed_module = Some (Inr (), 0, p', [], own_module)"
proof -
  let ?rc = "rid_canonical logos_sample"
  have settled: "already_settled closed_module logos_sample = None" by (simp add: already_settled_def closed_module_def)
  have ww: "wallet_wait ready_env ?rc 0 0 0 False p = Some (Arrived, 0, p)" for p
    by (subst wallet_wait.simps) (simp add: ready_env_fields ready_reads)
  have fw: "funding_wait ready_env ?rc payer 5 0 0 0 646400000 p = Some (Arrived, 0, p)" for payer p
    by (subst funding_wait.simps)
      (simp add: ready_env_fields ready_reads quoted_reserve_def saturating_add_def Let_def)
  obtain v where v: "register_scoped own_env own_zk ready_sibling (pe_register ready_env) logos_sample [] (rate_options 5) own_module = (Inr v, [], own_module)"
    using ready_register by blast
  have reg: "\<exists>p'. provision_register own_env own_zk ready_env logos_sample 5 0 p own_module = (Inr (), p', [], own_module)" for p
    by (simp add: provision_register_def REGISTRY_WIDE_def ready_env_fields v)
  have gate: "ms_gate closed_module = Map.empty" by (simp add: closed_module_def)
  obtain p3 where p3: "provision_register own_env own_zk ready_env logos_sample 5 0
      (record_progress ?rc AwaitingFunding (funding_detail [] (saturating_add 5 646400000) 5 646400000) (record_progress ?rc WaitingForWallet [] Map.empty))
      own_module = (Inr (), p3, [], own_module)" using reg by blast
  show ?thesis
    by (simp add: provision_one_def Let_def settled logos_sample_provider ready_env_fields ww gate ready_reads fw p3)
qed

theorem provision_spends_safely_witness:
  "\<exists>p' price. provision_one own_env own_zk ready_env logos_sample 5 0 Map.empty closed_module = Some (Inr (), 0, p', [], own_module) \<and>
     already_settled closed_module logos_sample = None \<and> affordable ready_env price 0"
proof -
  obtain p' where p: "provision_one own_env own_zk ready_env logos_sample 5 0 Map.empty closed_module = Some (Inr (), 0, p', [], own_module)"
    using ready_provision by blast
  have "ms_store own_module \<noteq> ms_store closed_module" by (simp add: own_module_def closed_module_def)
  moreover have "ms_store (closed_module \<lparr> ms_gate := g \<rparr>) = ms_store closed_module" for g by simp
  ultimately have "own_module \<noteq> closed_module \<lparr> ms_gate := g \<rparr>" for g by metis
  with provision_spends_safely [OF p] p show ?thesis by blast
qed

end
