(* ===== verification/Durable_File.thy ===== *)
theory Durable_File
  imports Rust_Text
begin

text \<open>
  The durable-file layer (\<open>sealed_store/fs.rs\<close>): the synced and the loose atomic write, step by
  step with every I/O outcome, over a file system that may lose what was not synced. The reader
  sees one content of the target file; a power loss leaves its last durable content or, if a
  rename was not made durable yet, possibly the renamed file, whose data is only guaranteed if it
  was synced before. Outcomes of the system calls are arguments.
\<close>

section \<open>Files and power loss\<close>

record files =
  fl_target :: "bytes option"
  fl_tmp :: "bytes option"
  fl_tmp_synced :: bool
  fl_durable :: "bytes option"
  fl_renamed :: "(bytes \<times> bool) option"

text \<open>What the target can hold after a power loss in this state.\<close>

definition after_power_loss :: "files \<Rightarrow> bytes option set" where
  "after_power_loss f = {fl_durable f} \<union>
     (case fl_renamed f of None \<Rightarrow> {} | Some (b, synced) \<Rightarrow> if synced then {Some b} else range Some)"

datatype sync_outcome = Synced | SyncUnsupported | SyncFailed string

definition sync_or_warn :: "sync_outcome \<Rightarrow> string + bool" where
  "sync_or_warn o1 = (case o1 of Synced \<Rightarrow> Inr True | SyncUnsupported \<Rightarrow> Inr False | SyncFailed e \<Rightarrow> Inl e)"

record write_io =
  wi_mkdir :: "string option"
  wi_open :: "string option"
  wi_perms :: "string option"
  wi_write :: "(string \<times> bytes) option"
  wi_sync :: sync_outcome
  wi_rename :: "string option"
  wi_open_dir :: "string option"
  wi_sync_dir :: sync_outcome

section \<open>Writing\<close>

text \<open>
  A write returns its result and the states it passed through, the last one being the state it
  leaves; a power loss can strike in any of them.
\<close>

definition tmp_written :: "bytes \<Rightarrow> files \<Rightarrow> files" where
  "tmp_written b f = f \<lparr> fl_tmp := Some b, fl_tmp_synced := False \<rparr>"

definition renamed :: "bytes \<Rightarrow> files \<Rightarrow> files" where
  "renamed b f = f \<lparr> fl_target := Some b, fl_tmp := None, fl_renamed := Some (b, fl_tmp_synced f) \<rparr>"

text \<open>Syncing the directory makes the rename durable, not the data of a file that was never synced.\<close>

definition dir_synced :: "bytes \<Rightarrow> files \<Rightarrow> files" where
  "dir_synced b f = (if fl_renamed f = Some (b, True) then f \<lparr> fl_durable := Some b, fl_renamed := None \<rparr> else f)"

definition write_tmp :: "write_io \<Rightarrow> bytes \<Rightarrow> files \<Rightarrow> (string + unit) \<times> files list" where
  "write_tmp io bytes f =
     (case wi_mkdir io of Some e \<Rightarrow> (Inl e, [f]) | None \<Rightarrow>
      case wi_open io of Some e \<Rightarrow> (Inl e, [f]) | None \<Rightarrow>
      let f1 = tmp_written [] f in
      case wi_perms io of Some e \<Rightarrow> (Inl e, [f, f1]) | None \<Rightarrow>
      case wi_write io of Some (e, part) \<Rightarrow> (Inl e, [f, f1, tmp_written part f]) | None \<Rightarrow>
      (Inr (), [f, f1, tmp_written bytes f]))"

definition write_durable :: "write_io \<Rightarrow> bytes \<Rightarrow> files \<Rightarrow> (string + unit) \<times> files list" where
  "write_durable io bytes f =
     (case write_tmp io bytes f of
        (Inl e, fs) \<Rightarrow> (Inl e, fs)
      | (Inr _, fs) \<Rightarrow>
          (case sync_or_warn (wi_sync io) of
             Inl e \<Rightarrow> (Inl e, fs)
           | Inr synced \<Rightarrow>
               (let f2 = (last fs) \<lparr> fl_tmp_synced := synced \<rparr> in
                case wi_rename io of
                  Some e \<Rightarrow> (Inl e, fs @ [f2])
                | None \<Rightarrow>
                    (let f3 = renamed bytes f2 in
                     case wi_open_dir io of
                       Some e \<Rightarrow> (Inl e, fs @ [f2, f3])
                     | None \<Rightarrow>
                         (case sync_or_warn (wi_sync_dir io) of
                            Inl e \<Rightarrow> (Inl e, fs @ [f2, f3])
                          | Inr synced_dir \<Rightarrow>
                              (Inr (), fs @ [f2, f3, if synced_dir then dir_synced bytes f3 else f3]))))))"

definition write_atomic_loose :: "write_io \<Rightarrow> bytes \<Rightarrow> files \<Rightarrow> (string + unit) \<times> files list" where
  "write_atomic_loose io bytes f =
     (case write_tmp io bytes f of
        (Inl e, fs) \<Rightarrow> (Inl e, fs)
      | (Inr _, fs) \<Rightarrow>
          (case wi_rename io of
             Some e \<Rightarrow> (Inl e, fs)
           | None \<Rightarrow> (Inr (), fs @ [renamed bytes (last fs)])))"

section \<open>Loading and locking\<close>

datatype read_outcome = ReadText string | ReadMissing | ReadFailed string

text \<open>The third component says whether the file was moved aside as \<open>.bad.<ts>\<close>.\<close>

definition load_json :: "(string \<Rightarrow> string + 'a) \<Rightarrow> 'a \<Rightarrow> bool \<Rightarrow> read_outcome \<Rightarrow> (string + 'a) \<times> bool" where
  "load_json parse_file dflt rename_ok r =
     (case r of
        ReadText raw \<Rightarrow> (case parse_file raw of Inr v \<Rightarrow> (Inr v, False) | Inl _ \<Rightarrow> (Inr dflt, rename_ok))
      | ReadMissing \<Rightarrow> (Inr dflt, False)
      | ReadFailed e \<Rightarrow> (Inl e, False))"

datatype try_lock = LockAcquired | WouldBlock | LockError string

definition acquire_dir_lock :: "string option \<Rightarrow> string option \<Rightarrow> string \<Rightarrow> try_lock \<Rightarrow> string + unit" where
  "acquire_dir_lock mkdir open_err sentinel l =
     (case mkdir of Some e \<Rightarrow> Inl e | None \<Rightarrow>
      case open_err of Some e \<Rightarrow> Inl e | None \<Rightarrow>
      case l of
        LockAcquired \<Rightarrow> Inr ()
      | WouldBlock \<Rightarrow> Inl (''another process holds the lock on '' @ sentinel)
      | LockError e \<Rightarrow> Inl e)"

section \<open>Properties\<close>

definition settled :: "files \<Rightarrow> bool" where
  "settled f \<longleftrightarrow> fl_renamed f = None \<and> fl_target f = fl_durable f"

lemma write_tmp_states:
  assumes "write_tmp io bytes f = (r, fs)" "settled f"
  shows "fs \<noteq> [] \<and> (\<forall>s \<in> set fs. after_power_loss s = {fl_durable f} \<and> fl_target s = fl_target f \<and> fl_durable s = fl_durable f \<and> fl_renamed s = None)"
  using assms
  by (auto simp: write_tmp_def after_power_loss_def tmp_written_def settled_def Let_def split: option.splits)

text \<open>
  C10: what a durable write leaves, whichever step fails and whatever can be synced, when the file had no
  rename of an earlier write still unsynced. A reader sees the old
  content or the complete new one in every state. If the file system can sync a file, the same holds after
  a power loss in any state on the way. A success leaves the new content, and if the file system can sync
  both the file and its directory, that content is what every later power loss leaves. Without syncing the
  write succeeds with a warning and a power loss may leave anything.
\<close>
theorem write_durable_survives_power_loss:
  assumes "write_durable io bytes f = (r, fs)" "settled f"
  shows "(\<forall>s \<in> set fs. fl_target s \<in> {fl_target f, Some bytes}) \<and>
    (wi_sync io \<noteq> SyncUnsupported \<longrightarrow> (\<forall>s \<in> set fs. after_power_loss s \<subseteq> {fl_target f, Some bytes})) \<and>
    (r = Inr () \<longrightarrow> fl_target (last fs) = Some bytes \<and>
       (wi_sync io \<noteq> SyncUnsupported \<and> wi_sync_dir io \<noteq> SyncUnsupported \<longrightarrow>
          settled (last fs) \<and> after_power_loss (last fs) = {Some bytes}) \<and>
       (wi_sync io = SyncUnsupported \<longrightarrow> range Some \<subseteq> after_power_loss (last fs)))"
proof -
  obtain r0 fs0 where t: "write_tmp io bytes f = (r0, fs0)" by fastforce
  note st = write_tmp_states [OF t assms(2)]
  have l: "last fs0 \<in> set fs0" using st by auto
  then have lf: "fl_target (last fs0) = fl_target f" "fl_durable (last fs0) = fl_durable f" "fl_renamed (last fs0) = None" using st by auto
  have d: "fl_durable f = fl_target f" using assms(2) by (simp add: settled_def)
  have safe0: "s \<in> set fs0 \<Longrightarrow> after_power_loss s \<subseteq> {fl_target f, Some bytes} \<and> fl_target s \<in> {fl_target f, Some bytes}" for s
    using st d by auto
  let ?y = "wi_sync io = Synced" and ?yd = "wi_sync_dir io = Synced"
  let ?f2 = "(last fs0) \<lparr> fl_tmp_synced := ?y \<rparr>"
  let ?f3 = "renamed bytes ?f2" let ?f4 = "if ?yd then dir_synced bytes ?f3 else ?f3"
  have form: "fs \<in> {fs0, fs0 @ [?f2], fs0 @ [?f2, ?f3], fs0 @ [?f2, ?f3, ?f4]}"
    "r = Inr () \<Longrightarrow> last fs = ?f4 \<and> wi_sync io \<in> {Synced, SyncUnsupported} \<and> wi_sync_dir io \<in> {Synced, SyncUnsupported}"
    "fs \<noteq> fs0 \<Longrightarrow> wi_sync io \<in> {Synced, SyncUnsupported}"
    using assms(1) t
    by (cases r0; cases "wi_sync io"; cases "wi_sync_dir io"; cases "wi_rename io"; cases "wi_open_dir io";
        auto simp: write_durable_def sync_or_warn_def Let_def)+
  have f2: "fl_target ?f2 = fl_target f" "after_power_loss ?f2 = {fl_target f}"
    and f3: "fl_target ?f3 = Some bytes" "after_power_loss ?f3 = {fl_target f} \<union> (if ?y then {Some bytes} else range Some)"
    and f4: "fl_target ?f4 = Some bytes"
    "after_power_loss ?f4 = (if ?y \<and> ?yd then {Some bytes} else after_power_loss ?f3)" "?y \<and> ?yd \<Longrightarrow> settled ?f4"
    using lf d by (auto simp: after_power_loss_def renamed_def dir_synced_def settled_def)
  have set: "set fs \<subseteq> set fs0 \<union> {?f2, ?f3, ?f4}" using form(1) by auto
  have "\<forall>s \<in> set fs. fl_target s \<in> {fl_target f, Some bytes}" using set safe0 f2(1) f3(1) f4(1) by blast
  moreover have "\<forall>s \<in> set fs. after_power_loss s \<subseteq> {fl_target f, Some bytes}" if "wi_sync io \<noteq> SyncUnsupported"
  proof (cases "fs = fs0")
    case False
    then have ?y using form(3) that by blast
    then have "after_power_loss ?f3 = {fl_target f, Some bytes}" using f3(2) by auto
    moreover have "after_power_loss ?f4 \<subseteq> after_power_loss ?f3" unfolding f4(2) f3(2) by auto
    ultimately have "after_power_loss s \<subseteq> {fl_target f, Some bytes}" if "s \<in> {?f2, ?f3, ?f4}" for s
      using that f2(2) by blast
    then show ?thesis using set safe0 by blast
  qed (use safe0 in blast)
  moreover have "fl_target (last fs) = Some bytes \<and>
      (wi_sync io \<noteq> SyncUnsupported \<and> wi_sync_dir io \<noteq> SyncUnsupported \<longrightarrow> settled (last fs) \<and> after_power_loss (last fs) = {Some bytes}) \<and>
      (wi_sync io = SyncUnsupported \<longrightarrow> range Some \<subseteq> after_power_loss (last fs))" if "r = Inr ()"
    using form(2) [OF that] f3(2) f4 by auto
  ultimately show ?thesis by blast
qed

definition good_io :: write_io where
  "good_io = \<lparr> wi_mkdir = None, wi_open = None, wi_perms = None, wi_write = None, wi_sync = Synced, wi_rename = None,
     wi_open_dir = None, wi_sync_dir = Synced \<rparr>"

definition old_file :: files where
  "old_file = \<lparr> fl_target = Some [1], fl_tmp = None, fl_tmp_synced = False, fl_durable = Some [1], fl_renamed = None \<rparr>"

theorem write_durable_survives_power_loss_witness:
  "fst (write_durable good_io [2, 3] old_file) = Inr () \<and>
   after_power_loss (last (snd (write_durable good_io [2, 3] old_file))) = {Some [2, 3]}"
proof -
  have "settled old_file" by (simp add: settled_def old_file_def)
  then have "fst (write_durable good_io [2, 3] old_file) = Inr () \<longrightarrow>
      after_power_loss (last (snd (write_durable good_io [2, 3] old_file))) = {Some [2, 3]}"
    using write_durable_survives_power_loss [of good_io "[2, 3]" old_file, OF prod.collapse [symmetric]] by (simp add: good_io_def)
  moreover have "fst (write_durable good_io [2, 3] old_file) = Inr ()"
    by (simp add: write_durable_def write_tmp_def sync_or_warn_def good_io_def Let_def)
  ultimately show ?thesis by blast
qed

text \<open>The loose write is atomic for readers, but a power loss after it can leave anything: it never syncs.\<close>

lemma write_atomic_loose_reader:
  assumes "write_atomic_loose io bytes f = (r, fs)" "settled f"
  shows "\<forall>s \<in> set fs. fl_target s \<in> {fl_target f, Some bytes}"
  using assms write_tmp_states [of io bytes f]
  by (auto simp: write_atomic_loose_def renamed_def split: sum.splits option.splits prod.splits)

lemma write_atomic_loose_torn:
  assumes "write_atomic_loose io bytes f = (Inr (), fs)"
  shows "range Some \<subseteq> after_power_loss (last fs)"
proof -
  obtain r0 fs0 where t: "write_tmp io bytes f = (r0, fs0)" by fastforce
  have "fs = fs0 @ [renamed bytes (last fs0)] \<and> \<not> fl_tmp_synced (last fs0)"
    using assms t by (auto simp: write_atomic_loose_def write_tmp_def tmp_written_def Let_def split: sum.splits option.splits)
  then show ?thesis by (auto simp: after_power_loss_def renamed_def)
qed

end
