(* ===== verification/Keychain.thy ===== *)
theory Keychain
  imports Ensure Durable_File
begin

text \<open>
  Keystore-password custody (\<open>keychain.rs\<close>): where the auto-unlock password comes from, when the
  module may invent one, and what it does with a secret that no longer fits. The OS keychain is a
  service behind the \<open>Keychain\<close> trait: what a read answers and whether a write succeeds are
  arguments; the secret file is what reading it gives.
\<close>

definition SERVICE :: string where "SERVICE = ''org.logos.rln-membership.keystore''"

definition AUTO_SECRET_FILE :: string where "AUTO_SECRET_FILE = ''rln_autounlock.secret''"

definition DISABLE_ENV :: string where "DISABLE_ENV = ''LOGOS_RLN_DISABLE_AUTO_UNLOCK''"

record custody =
  cu_file :: read_outcome
  cu_keychain :: "string \<Rightarrow> string \<Rightarrow> string + string option"

definition account_for_dir :: "'z store_env_scheme \<Rightarrow> string \<Rightarrow> string" where
  "account_for_dir env dir = bytes_to_hex (sha256_digest env (as_bytes dir))"

definition keychain_err :: "string \<Rightarrow> api_error" where
  "keychain_err message = api_new KeychainUnavailable message"

text \<open>The published store, which the unlock, wallet-home and worker paths use instead of the module's cell.\<close>

definition UNINIT_MSG :: string where
  "UNINIT_MSG = ''store not initialized (no instance persistence path from the host, unreadable '' @
     ''keystore, or another process holds the keystore lock)''"

definition current_or_uninit :: "module_state \<Rightarrow> api_error + store" where
  "current_or_uninit ms = (case ms_store ms of Inl _ \<Rightarrow> Inl (api_internal UNINIT_MSG) | Inr s \<Rightarrow> Inr s)"

section \<open>Stored secrets\<close>

text \<open>\<open>String::from_utf8\<close> on a byte sequence: the well-formed sequences of the Unicode standard.\<close>

fun utf8_valid :: "bytes \<Rightarrow> bool" where
  "utf8_valid [] = True"
| "utf8_valid (a # r) =
     (if a < 0x80 then utf8_valid r
      else case r of
        [] \<Rightarrow> False
      | b # r1 \<Rightarrow>
          let cont = (\<lambda>x. 0x80 \<le> x \<and> x \<le> 0xBF) in
          if 0xC2 \<le> a \<and> a \<le> 0xDF then cont b \<and> utf8_valid r1
          else case r1 of
            [] \<Rightarrow> False
          | c # r2 \<Rightarrow>
              if 0xE0 \<le> a \<and> a \<le> 0xEF
              then cont b \<and> cont c \<and> (a = 0xE0 \<longrightarrow> 0xA0 \<le> b) \<and> (a = 0xED \<longrightarrow> b \<le> 0x9F) \<and> utf8_valid r2
              else case r2 of
                [] \<Rightarrow> False
              | d # r3 \<Rightarrow>
                  0xF0 \<le> a \<and> a \<le> 0xF4 \<and> cont b \<and> cont c \<and> cont d \<and> (a = 0xF0 \<longrightarrow> 0x90 \<le> b) \<and> (a = 0xF4 \<longrightarrow> b \<le> 0x8F) \<and>
                  utf8_valid r3)"

definition from_utf8 :: "bytes \<Rightarrow> string option" where
  "from_utf8 b = (if utf8_valid b then Some (map (\<lambda>x. char_of (unat x)) b) else None)"

definition read_file_secret :: "read_outcome \<Rightarrow> string option \<times> string option" where
  "read_file_secret f =
     (case f of
        ReadText raw \<Rightarrow>
          if trim raw = [] then (None, Some (AUTO_SECRET_FILE @ '' is present but empty'')) else (Some (trim raw), None)
      | ReadMissing \<Rightarrow> (None, None)
      | ReadFailed e \<Rightarrow> (None, Some (AUTO_SECRET_FILE @ '': '' @ e)))"

definition note_suffix :: "string option \<Rightarrow> string option \<Rightarrow> string" where
  "note_suffix file keychain =
     (case (file, keychain) of
        (None, None) \<Rightarrow> []
      | (Some f, None) \<Rightarrow> '' ('' @ f @ '')''
      | (None, Some k) \<Rightarrow> '' (keychain: '' @ k @ '')''
      | (Some f, Some k) \<Rightarrow> '' ('' @ f @ ''; keychain: '' @ k @ '')'')"

definition read_keychain_secret :: "(string \<Rightarrow> string \<Rightarrow> string + string option) \<Rightarrow> string \<Rightarrow> api_error + string option \<times> string option" where
  "read_keychain_secret kc account =
     (case kc SERVICE account of
        Inr (Some payload) \<Rightarrow>
          and_then (ok_or (keychain_err (''keychain item payload is not hex '' @ em_dash @ '' foreign item?'')) (hex_to_vec payload)) (\<lambda>bytes.
          and_then (ok_or (keychain_err ''keychain item payload is not a utf-8 password'') (from_utf8 bytes)) (\<lambda>password.
          Inr (Some password, None)))
      | Inr None \<Rightarrow> Inr (None, None)
      | Inl e \<Rightarrow> Inr (None, Some e))"

text \<open>The rejected secret file is moved aside if the rename succeeds, and left in place otherwise.\<close>

definition quarantine_secret_file :: "bool \<Rightarrow> custody \<Rightarrow> custody" where
  "quarantine_secret_file rename_ok cu = (if rename_ok then cu \<lparr> cu_file := ReadMissing \<rparr> else cu)"

section \<open>Auto-unlock\<close>

record unlock_inputs =
  ui_salt :: "bytes option"
  ui_uuid :: "bytes option"
  ui_write :: write_outcome

record auto_inputs =
  ai_file :: unlock_inputs
  ai_keychain :: unlock_inputs
  ai_created :: unlock_inputs
  ai_rename_ok :: bool
  ai_entropy :: "string + bytes"
  ai_write_secret :: write_outcome
  ai_hint :: string

definition unlock_with :: "'z store_env_scheme \<Rightarrow> string \<Rightarrow> unlock_inputs \<Rightarrow> store \<Rightarrow> disk \<Rightarrow> (api_error + nat) \<times> store \<times> disk" where
  "unlock_with env password ui s d = unlock env password (ui_salt ui) (ui_uuid ui) (ui_write ui) s d"

text \<open>What the secret file reads as after an attempt to replace it durably.\<close>

definition secret_written :: "write_outcome \<Rightarrow> string \<Rightarrow> custody \<Rightarrow> custody" where
  "secret_written w secret cu = (case w of WriteErrOld _ \<Rightarrow> cu | _ \<Rightarrow> cu \<lparr> cu_file := ReadText secret \<rparr>)"

definition provisioned_refusal :: "store \<Rightarrow> string \<Rightarrow> string \<Rightarrow> api_error" where
  "provisioned_refusal s hint note =
     keychain_err (''no stored auto-unlock secret, but the keystore '' @
       (if has_credentials s then ''already has credentials'' else ''is already provisioned with a password (no credentials yet)'') @
       '' '' @ em_dash @ '' '' @ hint @ '' (restoring the keystore files from a backup first if entries are quarantined)'' @ note)"

definition self_provision ::
  "'z store_env_scheme \<Rightarrow> auto_inputs \<Rightarrow> custody \<Rightarrow> store \<Rightarrow> disk \<Rightarrow>
     (api_error + nat \<times> string \<times> string) \<times> custody \<times> store \<times> disk"
where
  "self_provision env ai cu s d =
     (case ai_entropy ai of
        Inl e \<Rightarrow> (Inl (api_internal (''no entropy for secret: '' @ e)), cu, s, d)
      | Inr raw \<Rightarrow>
          (let secret = bytes_to_hex raw; cu' = secret_written (ai_write_secret ai) secret cu in
           case write_result (ai_write_secret ai) of
             Inl e \<Rightarrow> (Inl (api_internal (''could not persist the generated secret: '' @ e)), cu', s, d)
           | Inr _ \<Rightarrow>
               (let (r, s', d') = unlock_with env secret (ai_created ai) s d
                in (case r of Inl e \<Rightarrow> Inl e | Inr n \<Rightarrow> Inr (n, ''created'', secret), cu', s', d'))))"

definition after_file ::
  "'z store_env_scheme \<Rightarrow> auto_inputs \<Rightarrow> api_error option \<Rightarrow> string option \<Rightarrow> custody \<Rightarrow> store \<Rightarrow> disk \<Rightarrow>
     (api_error + nat \<times> string \<times> string) \<times> custody \<times> store \<times> disk"
where
  "after_file env ai rejected file_note cu s d =
     (case read_keychain_secret (cu_keychain cu) (account_for_dir env (st_dir s)) of
        Inl e \<Rightarrow> (Inl e, cu, s, d)
      | Inr (Some password, _) \<Rightarrow>
          (let (r, s', d') = unlock_with env password (ai_keychain ai) s d
           in (case r of Inl e \<Rightarrow> Inl e | Inr n \<Rightarrow> Inr (n, ''existing'', password), cu, s', d'))
      | Inr (None, keychain_note) \<Rightarrow>
          (let note = note_suffix file_note keychain_note in
           case rejected of
             Some e \<Rightarrow> (Inl (api_new BadPassword (ae_message e @ '' '' @ em_dash @ '' the '' @ AUTO_SECRET_FILE @
                 '' that held it was moved aside; '' @ ai_hint ai @ note)), cu, s, d)
           | None \<Rightarrow>
               if is_provisioned s then (Inl (provisioned_refusal s (ai_hint ai) note), cu, s, d)
               else if file_note \<noteq> None
               then (Inl (keychain_err (''the auto-unlock secret file cannot be read, so the module will not self-provision over it '' @
                       em_dash @ '' move it aside or repair it first'' @ note)), cu, s, d)
               else self_provision env ai cu s d))"

definition auto_unlock_core ::
  "'z store_env_scheme \<Rightarrow> auto_inputs \<Rightarrow> custody \<Rightarrow> store \<Rightarrow> disk \<Rightarrow>
     (api_error + nat \<times> string \<times> string) \<times> custody \<times> store \<times> disk"
where
  "auto_unlock_core env ai cu s d =
     (let (file_secret, file_note) = read_file_secret (cu_file cu) in
      case file_secret of
        None \<Rightarrow> after_file env ai None file_note cu s d
      | Some password \<Rightarrow>
          (case unlock_with env password (ai_file ai) s d of
             (Inr n, s', d') \<Rightarrow> (Inr (n, ''existing'', password), cu, s', d')
           | (Inl e, s', d') \<Rightarrow>
               if ae_kind e = BadPassword
               then after_file env ai (Some e) file_note (quarantine_secret_file (ai_rename_ok ai) cu) s' d'
               else (Inl e, cu, s', d')))"

section \<open>Handlers\<close>

definition auto_unlock_impl where
  "auto_unlock_impl env ai disabled cu ms =
     (if disabled
      then (Inl (keychain_err (''module-owned auto-unlock is disabled on this deployment ('' @ DISABLE_ENV @ '' is set) '' @ em_dash @
              '' unlock with the user's password instead'')), cu, ms)
      else case current_or_uninit ms of
        Inl e \<Rightarrow> (Inl e, cu, ms)
      | Inr s \<Rightarrow>
          (let (r, cu', s', d') = auto_unlock_core env ai cu s (ms_disk ms) in
           (map_sum id (\<lambda>(n, source, secret).
              JObj ([(''membership_count'', JInt (int n))] @ (if source = ''created'' then [(''secret'', JStr secret)] else []) @
                [(''source'', JStr source), (''unlocked'', JBool True)])) r,
            cu', ms \<lparr> ms_store := Inr s', ms_disk := d' \<rparr>)))"

definition lazy_auto_unlock where
  "lazy_auto_unlock env ai disabled cu ms =
     (if disabled then (cu, ms)
      else case ms_store ms of
        Inl _ \<Rightarrow> (cu, ms)
      | Inr s \<Rightarrow>
          if session_password s \<noteq> None then (cu, ms)
          else (let (r, cu', s', d') = auto_unlock_core env ai cu s (ms_disk ms) in
                (cu', ms \<lparr> ms_store := Inr s', ms_disk := d' \<rparr>)))"

definition remember_impl :: "'z store_env_scheme \<Rightarrow> string + unit \<Rightarrow> custody \<Rightarrow> module_state \<Rightarrow> (api_error + json) \<times> custody" where
  "remember_impl env write cu ms =
     (case current_or_uninit ms of
        Inl e \<Rightarrow> (Inl e, cu)
      | Inr s \<Rightarrow>
          (case session_password s of
             None \<Rightarrow> (Inl (api_new Locked (''keystore is locked '' @ em_dash @ '' unlock before remembering'')), cu)
           | Some password \<Rightarrow>
               (let account = account_for_dir env (st_dir s); payload = bytes_to_hex (as_bytes password) in
                case write of
                  Inl e \<Rightarrow> (Inl (keychain_err e), cu)
                | Inr _ \<Rightarrow> (Inr (JObj [(''remembered'', JBool True)]),
                    cu \<lparr> cu_keychain := (\<lambda>sv a. if sv = SERVICE \<and> a = account then Inr (Some payload) else cu_keychain cu sv a) \<rparr>))))"

section \<open>Custody\<close>

lemma unlock_with_error:
  assumes "unlock_with env pw ui s d = (Inl e, s', d')"
  shows "s' = s" "0 < credential_count (st_inner s) \<Longrightarrow> d' = d"
  using assms unlock_provision_error [of env pw "ui_salt ui" "ui_uuid ui" "ui_write ui" s d e s' d']
    unlock_existing_error [of env pw s e s']
  by (auto simp: unlock_with_def unlock_cases prod_eq_iff split: if_splits)

lemma unlock_with_ok:
  assumes "unlock_with env pw ui s d = (Inr n, s', d')"
  shows "session_password s' = Some pw" "0 < credential_count (st_inner s) \<Longrightarrow> d' = d"
  using assms unlock_provision_ok [of env pw "ui_salt ui" "ui_uuid ui" "ui_write ui" s d n s' d']
    unlock_existing_ok [of env pw s n s']
  by (auto simp: unlock_with_def unlock_cases prod_eq_iff split: if_splits)

lemma secret_written_reads_back:
  assumes "write_result w = Inr ()" "length raw = 32"
  shows "read_file_secret (cu_file (secret_written w (bytes_to_hex raw) cu)) = (Some (bytes_to_hex raw), None)"
proof -
  have "bytes_to_hex raw \<noteq> []"
    using assms(2) length_bytes_to_hex [of raw] by force
  then show ?thesis
    using assms(1) by (cases w) (simp_all add: secret_written_def read_file_secret_def trim_bytes_to_hex)
qed

lemma credentials_provisioned: "0 < credential_count (st_inner s) \<Longrightarrow> is_provisioned s"
  by (cases "in_sealed (st_inner s)") (simp_all add: credential_count_def is_provisioned_def)

lemma self_provision_custody:
  assumes "self_provision env ai cu s d = (r, cu', s', d')" "\<And>raw. ai_entropy ai = Inr raw \<Longrightarrow> length raw = 32"
  shows "r = Inl e \<Longrightarrow> s' = s"
    "r = Inr (n, source, secret) \<Longrightarrow> source = ''created'' \<and> session_password s' = Some secret \<and>
       read_file_secret (cu_file cu') = (Some secret, None)"
  using assms unlock_with_error(1) [of env "bytes_to_hex (projr (ai_entropy ai))" "ai_created ai" s d]
    unlock_with_ok(1) [of env "bytes_to_hex (projr (ai_entropy ai))" "ai_created ai" s d]
  by (auto simp: self_provision_def Let_def secret_written_reads_back split: sum.splits prod.splits)

lemma after_file_custody:
  assumes "after_file env ai rej note cu s d = (r, cu', s', d')" "\<And>raw. ai_entropy ai = Inr raw \<Longrightarrow> length raw = 32"
  shows "r = Inl e \<Longrightarrow> s' = s"
    "r = Inr (n, source, secret) \<Longrightarrow> session_password s' = Some secret \<and>
       (source = ''existing'' \<and> cu' = cu \<or>
        source = ''created'' \<and> rej = None \<and> note = None \<and> \<not> is_provisioned s \<and> read_file_secret (cu_file cu') = (Some secret, None))"
    "is_provisioned s \<Longrightarrow> cu' = cu"
    "0 < credential_count (st_inner s) \<Longrightarrow> d' = d"
proof -
  consider (bad) e0 where "read_keychain_secret (cu_keychain cu) (account_for_dir env (st_dir s)) = Inl e0"
    | (found) pw k where "read_keychain_secret (cu_keychain cu) (account_for_dir env (st_dir s)) = Inr (Some pw, k)"
    | (none) k where "read_keychain_secret (cu_keychain cu) (account_for_dir env (st_dir s)) = Inr (None, k)"
    by (cases "read_keychain_secret (cu_keychain cu) (account_for_dir env (st_dir s))") (auto, metis option.exhaust)
  note step = this
  show "s' = s" if "r = Inl e"
    using step
  proof cases
    case found
    then show ?thesis
      using assms(1) that unlock_with_error(1) [of env pw "ai_keychain ai" s d]
      by (auto simp: after_file_def Let_def split: prod.splits sum.splits)
  qed (use assms that self_provision_custody(1) [OF _ assms(2)] in
      \<open>auto simp: after_file_def Let_def split: option.splits if_splits\<close>)
  show "session_password s' = Some secret \<and>
       (source = ''existing'' \<and> cu' = cu \<or>
        source = ''created'' \<and> rej = None \<and> note = None \<and> \<not> is_provisioned s \<and> read_file_secret (cu_file cu') = (Some secret, None))"
    if "r = Inr (n, source, secret)"
    using step
  proof cases
    case found
    then show ?thesis
      using assms(1) that unlock_with_ok(1) [of env pw "ai_keychain ai" s d]
      by (auto simp: after_file_def Let_def split: prod.splits sum.splits)
  next
    case none
    then show ?thesis
      using assms that self_provision_custody(2) [OF _ assms(2), of env ai cu s d r cu' s' d' n source secret]
      by (auto simp: after_file_def Let_def split: option.splits if_splits)
  qed (use assms that in \<open>auto simp: after_file_def\<close>)
  show "cu' = cu" if "is_provisioned s"
    using step assms(1) that by cases (auto simp: after_file_def Let_def split: option.splits prod.splits)
  show "d' = d" if "0 < credential_count (st_inner s)"
    using step
  proof cases
    case found
    then show ?thesis
      using assms(1) that unlock_with_ok(2) [of env pw "ai_keychain ai" s d] unlock_with_error(2) [of env pw "ai_keychain ai" s d]
      by (auto simp: after_file_def Let_def split: prod.splits sum.splits)
  qed (use assms(1) that credentials_provisioned in \<open>auto simp: after_file_def Let_def split: option.splits\<close>)
qed

text \<open>
  C11: the module never invents a password over an existing keystore. When the auto-unlock walk
  answers, the session is keyed to the secret it names. If that secret was generated, the store had
  never been provisioned, there was no secret file (an empty or unreadable one is not replaced), and
  the file on disk now reads back as exactly that secret; otherwise the secret was a stored one. Any
  refusal leaves the in-memory keystore unchanged, a provisioned store's secret file is at most moved
  aside, never overwritten, and the files of a keystore with credentials are untouched.
\<close>
theorem auto_unlock_never_invents:
  assumes run: "auto_unlock_core env ai cu s d = (r, cu', s', d')"
    and entropy: "\<And>raw. ai_entropy ai = Inr raw \<Longrightarrow> length raw = 32"
  shows "(case r of
      Inl _ \<Rightarrow> s' = s
    | Inr (n, source, secret) \<Rightarrow> session_password s' = Some secret \<and>
        (source = ''existing'' \<or>
         source = ''created'' \<and> \<not> is_provisioned s \<and> cu_file cu = ReadMissing \<and>
         read_file_secret (cu_file cu') = (Some secret, None))) \<and>
    (is_provisioned s \<longrightarrow> cu_file cu' = cu_file cu \<or> cu_file cu' = ReadMissing) \<and>
    (0 < credential_count (st_inner s) \<longrightarrow> d' = d)"
proof -
  obtain fs nt where rd: "read_file_secret (cu_file cu) = (fs, nt)" by fastforce
  have missing: "cu_file cu = ReadMissing" if "fs = None" "nt = None"
    using rd that by (auto simp: read_file_secret_def split: read_outcome.splits if_splits)
  show ?thesis
  proof (cases fs)
    case None
    then have "after_file env ai None nt cu s d = (r, cu', s', d')"
      using run rd by (simp add: auto_unlock_core_def)
    from after_file_custody [OF this entropy] show ?thesis
      using missing None by (cases r) (auto split: prod.splits)
  next
    case (Some pw)
    obtain r1 s1 d1 where u: "unlock_with env pw (ai_file ai) s d = (r1, s1, d1)"
      by (cases "unlock_with env pw (ai_file ai) s d") auto
    show ?thesis
    proof (cases r1)
      case (Inr n)
      then show ?thesis
        using run rd Some u unlock_with_ok [OF u [unfolded Inr]] by (auto simp: auto_unlock_core_def)
    next
      case (Inl e)
      note same = unlock_with_error [OF u [unfolded Inl]]
      show ?thesis
      proof (cases "ae_kind e = BadPassword")
        case False
        then show ?thesis
          using run rd Some u Inl same by (auto simp: auto_unlock_core_def)
      next
        case True
        then have "after_file env ai (Some e) nt (quarantine_secret_file (ai_rename_ok ai) cu) s d1 = (r, cu', s', d')"
          using run rd Some u Inl same(1) by (simp add: auto_unlock_core_def)
        from after_file_custody [OF this entropy] show ?thesis
          using same(2) by (cases r) (auto simp: quarantine_secret_file_def split: prod.splits)
      qed
    qed
  qed
qed

definition sample_auto :: auto_inputs where
  "sample_auto = (let ui = \<lparr> ui_salt = Some (replicate 16 0), ui_uuid = None, ui_write = WriteOk \<rparr> in
     \<lparr> ai_file = ui, ai_keychain = ui, ai_created = ui, ai_rename_ok = True, ai_entropy = Inr (replicate 32 7),
       ai_write_secret = WriteOk, ai_hint = [] \<rparr>)"

theorem auto_unlock_never_invents_witness:
  "\<exists>n cu' s' d'. auto_unlock_core sample_env sample_auto \<lparr> cu_file = ReadMissing, cu_keychain = (\<lambda>sv a. Inr None) \<rparr>
       (with_inner sample_locked ((st_inner sample_locked) \<lparr> in_sealed := None \<rparr>)) empty_disk =
         (Inr (n, ''created'', bytes_to_hex (replicate 32 7)), cu', s', d') \<and>
     session_password s' = Some (bytes_to_hex (replicate 32 7)) \<and>
     read_file_secret (cu_file cu') = (Some (bytes_to_hex (replicate 32 7)), None)"
proof -
  let ?s = "with_inner sample_locked ((st_inner sample_locked) \<lparr> in_sealed := None \<rparr>)"
  let ?cu = "\<lparr> cu_file = ReadMissing, cu_keychain = (\<lambda>sv a. Inr None) \<rparr>"
  have inputs: "ai_entropy sample_auto = Inr (replicate 32 7)" "ai_write_secret sample_auto = WriteOk"
    by (simp_all add: sample_auto_def Let_def)
  have "\<exists>s' d'. unlock_with sample_env pw (ai_created sample_auto) ?s empty_disk = (Inr 0, s', d')" for pw
    by (simp add: unlock_with_def sample_auto_def unlock_def ensure_open_def unlock_provision_def sample_locked_def
        with_inner_def sample_inner_def kdf_generate_def derive_keys_def master_key_derive_def sub_keys_derive_def
        expand32_def sample_env_def Let_def)
  then obtain s1 d1 where u:
    "unlock_with sample_env (bytes_to_hex (replicate 32 7)) (ai_created sample_auto) ?s empty_disk = (Inr 0, s1, d1)"
    by blast
  have "\<exists>n cu' s' d'. auto_unlock_core sample_env sample_auto ?cu ?s empty_disk =
      (Inr (n, ''created'', bytes_to_hex (replicate 32 7)), cu', s', d')"
    using u inputs by (simp add: auto_unlock_core_def after_file_def read_file_secret_def read_keychain_secret_def
        is_provisioned_def self_provision_def with_inner_def Let_def)
  then obtain n cu' s' d' where run: "auto_unlock_core sample_env sample_auto ?cu ?s empty_disk =
      (Inr (n, ''created'', bytes_to_hex (replicate 32 7)), cu', s', d')" by blast
  have "ai_entropy sample_auto = Inr raw \<Longrightarrow> length raw = 32" for raw
    using inputs(1) by auto
  from auto_unlock_never_invents [OF run this] show ?thesis
    using run by simp
qed

end
