(* ===== verification/Wallet_Home.thy ===== *)
theory Wallet_Home
  imports Keychain
begin

text \<open>
  Wallet-home provisioning (\<open>wallet_home.rs\<close>). A provisioning call is a sequence of file-system
  calls on the \<open>wallet-home\<close> directory, each one step: look for the config, claim by exclusive
  create, write the temporary file, rename it, remove the claim. The handler runs the steps of one
  call; the step relation interleaves the steps of any number of calls, which the \<open>multi\<close> dispatch
  runs on several threads, with process crashes.
\<close>

section \<open>The directory\<close>

datatype config_text = Whole json | Torn

record wallet_home =
  wh_config :: "config_text option"
  wh_tmp :: "config_text option"
  wh_claim :: bool
  wh_storage :: bool

definition wallet_config :: "string \<Rightarrow> json" where
  "wallet_config sequencer = JObj
     [(''gas_limit'', JInt 10000000),
      (''multi_sequencer_client_config'', JObj [(''calibration_limit'', JInt 3), (''distribution_limit'', JInt 1)]),
      (''seq_block_poll_max_amount'', JInt 100),
      (''seq_poll_max_retries'', JInt 10),
      (''seq_poll_timeout'', JStr ''30s''),
      (''seq_tx_poll_max_blocks'', JInt 15),
      (''sequencer'', JObj [(''sequencer_addr'', JStr sequencer)]),
      (''sequencer_addr'', JStr sequencer),
      (''sequencers'', JArr [JObj [(''sequencer_addr'', JStr sequencer)]])]"

section \<open>One call\<close>

text \<open>What the operating system answers each call of a provisioning, \<open>None\<close> for success.\<close>

record home_io =
  hi_create :: "string option"
  hi_claim :: "string option"
  hi_write :: "string option"
  hi_rename :: "string option"
  hi_remove_ok :: bool

datatype provision_phase =
    Looking string
  | Claiming string
  | Writing string
  | Renaming string
  | Releasing string "string option"
  | Answered "api_error + bool"

definition home_path :: "string \<Rightarrow> string \<Rightarrow> string" where
  "home_path dir name = dir @ ''/wallet-home/'' @ name"

fun provision_call :: "string \<Rightarrow> home_io \<Rightarrow> provision_phase \<Rightarrow> wallet_home \<Rightarrow> provision_phase \<times> wallet_home" where
  "provision_call dir io (Looking seq) h =
     ((if wh_config h \<noteq> None then Answered (Inr True) else Claiming seq), h)"
| "provision_call dir io (Claiming seq) h =
     (if wh_claim h then (Answered (Inr True), h)
      else case hi_claim io of
        Some e \<Rightarrow> (Answered (Inl (api_internal (''claim '' @ home_path dir ''wallet_config.json.claim'' @ '': '' @ e))), h)
      | None \<Rightarrow> (Writing seq, h \<lparr> wh_claim := True \<rparr>))"
| "provision_call dir io (Writing seq) h =
     (case hi_write io of
        Some e \<Rightarrow> (Releasing seq (Some e), h \<lparr> wh_tmp := Some Torn \<rparr>)
      | None \<Rightarrow> (Renaming seq, h \<lparr> wh_tmp := Some (Whole (wallet_config seq)) \<rparr>))"
| "provision_call dir io (Renaming seq) h =
     (case hi_rename io of
        Some e \<Rightarrow> (Releasing seq (Some e), h)
      | None \<Rightarrow> (Releasing seq None, h \<lparr> wh_config := wh_tmp h, wh_tmp := None \<rparr>))"
| "provision_call dir io (Releasing seq e) h =
     (Answered (case e of
        Some e \<Rightarrow> Inl (api_internal (''write '' @ home_path dir ''wallet_config.json'' @ '': '' @ e))
      | None \<Rightarrow> Inr False),
      if hi_remove_ok io then h \<lparr> wh_claim := False \<rparr> else h)"
| "provision_call dir io (Answered r) h = (Answered r, h)"

fun provision_from :: "string \<Rightarrow> home_io \<Rightarrow> nat \<Rightarrow> provision_phase \<Rightarrow> wallet_home \<Rightarrow> provision_phase \<times> wallet_home" where
  "provision_from dir io 0 ph h = (ph, h)"
| "provision_from dir io (Suc n) ph h = (case provision_call dir io ph h of (ph', h') \<Rightarrow> provision_from dir io n ph' h')"

text \<open>Five calls finish: look, claim, write, rename, release.\<close>

definition provision_config :: "string \<Rightarrow> home_io \<Rightarrow> string \<Rightarrow> wallet_home \<Rightarrow> (api_error + bool) \<times> wallet_home" where
  "provision_config dir io seq h =
     (case provision_from dir io 5 (Looking seq) h of
        (Answered r, h') \<Rightarrow> (r, h')
      | (_, h') \<Rightarrow> (Inl (api_internal []), h'))"

definition sequencer_option :: "(string \<Rightarrow> string + json) \<Rightarrow> string \<Rightarrow> api_error + string" where
  "sequencer_option pj options_json =
     (let raw = trim options_json in
      and_then (map_err (\<lambda>e. api_new InvalidArgument (''options_json: '' @ e)) (pj (if raw = [] then ''{}'' else raw))) (\<lambda>opts.
      let sequencer = (case get_str opts ''sequencer_addr'' of Some s \<Rightarrow> s | None \<Rightarrow> []) in
      if sequencer = [] then Inl (api_new InvalidArgument ''options_json.sequencer_addr is required'')
      else Inr sequencer))"

definition provision_impl ::
  "(string \<Rightarrow> string + json) \<Rightarrow> home_io \<Rightarrow> string \<Rightarrow> module_state \<Rightarrow> wallet_home \<Rightarrow> (api_error + json) \<times> wallet_home"
where
  "provision_impl pj io options_json ms h =
     (case and_then (sequencer_option pj options_json) (\<lambda>seq. and_then (current_or_uninit ms) (\<lambda>s. Inr (seq, st_dir s))) of
        Inl e \<Rightarrow> (Inl e, h)
      | Inr (seq, dir) \<Rightarrow>
          (case hi_create io of
             Some e \<Rightarrow> (Inl (api_internal (''create '' @ dir @ ''/wallet-home: '' @ e)), h)
           | None \<Rightarrow>
               (let (r, h') = provision_config dir io seq h in
                (and_then r (\<lambda>config_existed. Inr (JObj
                   [(''config_existed'', JBool config_existed),
                    (''config_path'', JStr (home_path dir ''wallet_config.json'')),
                    (''storage_exists'', JBool (wh_storage h')),
                    (''storage_path'', JStr (home_path dir ''storage.json''))])), h'))))"

section \<open>Concurrent calls\<close>

record provisioner =
  pv_home :: wallet_home
  pv_calls :: "provision_phase list"

datatype home_event = Call string | Advance nat home_io | CrashProcess

text \<open>
  A crash drops every call; a temporary file that was being written holds any part of its text.
\<close>

inductive home_step :: "string \<Rightarrow> provisioner \<Rightarrow> home_event option \<Rightarrow> provisioner \<Rightarrow> bool" for dir where
  home_call: "home_step dir p (Some (Call seq)) (p \<lparr> pv_calls := pv_calls p @ [Looking seq] \<rparr>)"
| home_advance: "t < length (pv_calls p) \<Longrightarrow> provision_call dir io (pv_calls p ! t) (pv_home p) = (ph, h) \<Longrightarrow>
     home_step dir p (Some (Advance t io)) \<lparr> pv_home = h, pv_calls = (pv_calls p)[t := ph] \<rparr>"
| home_crash: "tmp = wh_tmp (pv_home p) \<or> tmp = Some Torn \<and> Writing seq \<in> set (pv_calls p) \<Longrightarrow>
     home_step dir p (Some CrashProcess) \<lparr> pv_home = (pv_home p) \<lparr> wh_tmp := tmp \<rparr>, pv_calls = [] \<rparr>"

fun holds_claim :: "provision_phase \<Rightarrow> bool" where
  "holds_claim (Writing _) = True"
| "holds_claim (Renaming _) = True"
| "holds_claim (Releasing _ _) = True"
| "holds_claim _ = False"

fun works_for :: "provision_phase \<Rightarrow> string option" where
  "works_for (Looking seq) = Some seq"
| "works_for (Claiming seq) = Some seq"
| "works_for (Writing seq) = Some seq"
| "works_for (Renaming seq) = Some seq"
| "works_for (Releasing seq _) = Some seq"
| "works_for (Answered _) = None"

section \<open>What the steps keep\<close>

definition config_from :: "string set \<Rightarrow> wallet_home \<Rightarrow> bool" where
  "config_from S h \<longleftrightarrow> wh_config h = None \<or> (\<exists>seq\<in>S. wh_config h = Some (Whole (wallet_config seq)))"

definition claims_exclusive :: "provisioner \<Rightarrow> bool" where
  "claims_exclusive p \<longleftrightarrow>
     (\<forall>i j. i < length (pv_calls p) \<longrightarrow> j < length (pv_calls p) \<longrightarrow>
        holds_claim (pv_calls p ! i) \<longrightarrow> holds_claim (pv_calls p ! j) \<longrightarrow> i = j) \<and>
     (\<forall>i < length (pv_calls p). holds_claim (pv_calls p ! i) \<longrightarrow> wh_claim (pv_home p))"

definition home_inv :: "string set \<Rightarrow> provisioner \<Rightarrow> bool" where
  "home_inv S p \<longleftrightarrow> claims_exclusive p \<and> config_from S (pv_home p) \<and>
     (\<forall>i < length (pv_calls p). \<forall>seq. pv_calls p ! i = Renaming seq \<longrightarrow>
        wh_tmp (pv_home p) = Some (Whole (wallet_config seq))) \<and>
     (\<forall>i < length (pv_calls p). \<forall>seq. works_for (pv_calls p ! i) = Some seq \<longrightarrow> seq \<in> S)"

lemma provision_call_facts:
  assumes "provision_call dir io ph h = (ph', h')"
  shows "holds_claim ph' \<Longrightarrow> \<not> holds_claim ph \<Longrightarrow> \<not> wh_claim h \<and> wh_claim h'"
    "\<not> holds_claim ph \<Longrightarrow> wh_config h' = wh_config h \<and> wh_tmp h' = wh_tmp h \<and> (wh_claim h \<longrightarrow> wh_claim h')"
    "holds_claim ph \<Longrightarrow> holds_claim ph' \<Longrightarrow> wh_claim h' = wh_claim h"
    "works_for ph' = Some seq \<Longrightarrow> works_for ph = Some seq"
    "ph' = Renaming seq \<Longrightarrow> wh_tmp h' = Some (Whole (wallet_config seq))"
    "wh_config h' \<noteq> wh_config h \<Longrightarrow> \<exists>seq. ph = Renaming seq \<and> wh_config h' = wh_tmp h"
  using assms by (cases ph; auto split: option.splits if_splits)+

lemma claims_exclusive_advance:
  assumes "claims_exclusive p" "t < length (pv_calls p)"
    "provision_call dir io (pv_calls p ! t) (pv_home p) = (ph', h')"
  shows "claims_exclusive \<lparr> pv_home = h', pv_calls = (pv_calls p)[t := ph'] \<rparr>"
proof -
  note facts = provision_call_facts [OF assms(3)]
  have excl: "i = j" if "i < length (pv_calls p)" "j < length (pv_calls p)"
      "holds_claim (pv_calls p ! i)" "holds_claim (pv_calls p ! j)" for i j
    using assms(1) that unfolding claims_exclusive_def by blast
  have claim: "wh_claim (pv_home p)" if "i < length (pv_calls p)" "holds_claim (pv_calls p ! i)" for i
    using assms(1) that unfolding claims_exclusive_def by blast
  have other: "False" if "holds_claim ph'" "i < length (pv_calls p)" "i \<noteq> t" "holds_claim (pv_calls p ! i)" for i
    using facts(1) [OF that(1)] claim [OF that(2,4)] excl [OF that(2) assms(2) that(4)] that(3) by blast
  have kept: "wh_claim h'" if "i < length (pv_calls p)" "i \<noteq> t" "holds_claim (pv_calls p ! i)" for i
    using facts(2) claim [OF that(1,3)] excl [OF that(1) assms(2) that(3)] that(2) by blast
  have own: "wh_claim h'" if "holds_claim ph'"
    using facts(1) [OF that] facts(3) [OF _ that] claim [OF assms(2)] by blast
  show ?thesis
    using excl other kept own assms(2) unfolding claims_exclusive_def
    by (auto simp: nth_list_update split: if_splits)
qed

lemma home_inv_step:
  assumes "home_inv S p" "home_step dir p l p'" "\<And>seq. l = Some (Call seq) \<Longrightarrow> seq \<in> S"
  shows "home_inv S p'"
  using assms(2)
proof (cases rule: home_step.cases)
  case (home_call seq)
  then show ?thesis
    using assms(1,3) by (auto simp: home_inv_def claims_exclusive_def nth_append less_Suc_eq)
next
  case (home_advance t io ph h)
  note facts = provision_call_facts [OF home_advance(4)]
  have old: "claims_exclusive p" "config_from S (pv_home p)"
    and tmp: "\<And>i seq. i < length (pv_calls p) \<Longrightarrow> pv_calls p ! i = Renaming seq \<Longrightarrow>
        wh_tmp (pv_home p) = Some (Whole (wallet_config seq))"
    and works: "\<And>i seq. i < length (pv_calls p) \<Longrightarrow> works_for (pv_calls p ! i) = Some seq \<Longrightarrow> seq \<in> S"
    using assms(1) unfolding home_inv_def by blast+
  have new_excl: "claims_exclusive p'"
    using claims_exclusive_advance [OF old(1) home_advance(3,4)] home_advance(2) by simp
  have "config_from S h"
  proof (cases "wh_config h = wh_config (pv_home p)")
    case True
    then show ?thesis using old(2) by (simp add: config_from_def)
  next
    case False
    then obtain seq where r: "pv_calls p ! t = Renaming seq" "wh_config h = wh_tmp (pv_home p)"
      using facts(6) by blast
    then show ?thesis
      using tmp [OF home_advance(3) r(1)] works [OF home_advance(3), of seq] by (auto simp: config_from_def)
  qed
  moreover have "wh_tmp h = Some (Whole (wallet_config seq))"
    if "i < length (pv_calls p)" "(pv_calls p)[t := ph] ! i = Renaming seq" for i seq
  proof (cases "i = t")
    case True
    then show ?thesis using that home_advance(3) facts(5) by simp
  next
    case False
    then have r: "pv_calls p ! i = Renaming seq" using that by simp
    have "\<not> holds_claim (pv_calls p ! t)"
      using old(1) r that(1) home_advance(3) False unfolding claims_exclusive_def by (metis holds_claim.simps(2))
    then show ?thesis using facts(2) tmp [OF that(1) r] by simp
  qed
  moreover have "seq \<in> S" if "i < length (pv_calls p)" "works_for ((pv_calls p)[t := ph] ! i) = Some seq" for i seq
    using that home_advance(3) facts(4) works by (cases "i = t") auto
  ultimately show ?thesis
    using new_excl home_advance(2) by (auto simp: home_inv_def)
next
  case home_crash
  then show ?thesis
    using assms(1) by (auto simp: home_inv_def claims_exclusive_def config_from_def)
qed

lemma home_inv_trace:
  assumes "trace (home_step dir) p ls p'" "home_inv S p" "\<And>seq. Some (Call seq) \<in> set ls \<Longrightarrow> seq \<in> S"
  shows "home_inv S p'"
  using assms
proof (induction rule: trace.induct)
  case (trace_cons p l p' ls p'')
  then show ?case using home_inv_step [OF trace_cons.prems(1) trace_cons.hyps(1)] by auto
qed

section \<open>The config\<close>

text \<open>
  The wallet config is never torn. Whatever calls run concurrently, whatever file-system calls
  fail and whenever the process dies, the config file is absent or the complete text of one call's
  options, and at most one call at a time is between its claim and its release.
\<close>
lemma config_whole:
  assumes "trace (home_step dir) \<lparr> pv_home = h, pv_calls = [] \<rparr> ls p" "wh_config h = None"
  shows "(wh_config (pv_home p) = None \<or>
      (\<exists>seq. Some (Call seq) \<in> set ls \<and> wh_config (pv_home p) = Some (Whole (wallet_config seq)))) \<and>
    claims_exclusive p"
proof -
  let ?S = "{seq. Some (Call seq) \<in> set ls}"
  have "home_inv ?S p"
    by (rule home_inv_trace [OF assms(1)]) (use assms(2) in \<open>auto simp: home_inv_def claims_exclusive_def config_from_def\<close>)
  then show ?thesis by (auto simp: home_inv_def config_from_def)
qed

definition past_look :: "provision_phase \<Rightarrow> bool" where
  "past_look ph \<longleftrightarrow> (\<exists>seq. ph = Claiming seq \<or> ph = Writing seq \<or> ph = Renaming seq)"

lemma existing_config_step:
  assumes "home_step dir p l p'" "wh_config (pv_home p) = Some c" "\<forall>ph \<in> set (pv_calls p). \<not> past_look ph"
  shows "wh_config (pv_home p') = Some c \<and> (\<forall>ph \<in> set (pv_calls p'). \<not> past_look ph)"
  using assms(1)
proof (cases rule: home_step.cases)
  case (home_advance t io ph h)
  have "\<not> past_look (pv_calls p ! t)" using assms(3) home_advance(3) by simp
  then have "wh_config h = Some c \<and> \<not> past_look ph"
    using home_advance(4) assms(2) by (cases "pv_calls p ! t") (auto simp: past_look_def split: option.splits if_splits)
  then show ?thesis
    using home_advance(2) assms(3) set_update_subset_insert [of "pv_calls p" t ph] by auto
qed (use assms(2,3) in \<open>auto simp: past_look_def\<close>)

text \<open>
  An existing config is replaced only by a racing call. If a config that was there is later
  another one, some call had already looked, and not found it, when it appeared; a call that looks
  afterwards leaves it alone and says it existed.
\<close>
lemma config_replaced_only_by_race:
  assumes "trace (home_step dir) p ls p'" "wh_config (pv_home p) = Some c" "wh_config (pv_home p') \<noteq> Some c"
  shows "\<exists>ph \<in> set (pv_calls p). past_look ph"
proof (rule ccontr)
  assume "\<not> (\<exists>ph \<in> set (pv_calls p). past_look ph)"
  then have "wh_config (pv_home p) = Some c \<and> (\<forall>ph \<in> set (pv_calls p). \<not> past_look ph)"
    using assms(2) by blast
  then have "wh_config (pv_home p') = Some c \<and> (\<forall>ph \<in> set (pv_calls p'). \<not> past_look ph)"
    by (rule trace_invariant [OF assms(1), rotated]) (use existing_config_step in blast)
  then show False using assms(3) by blast
qed

text \<open>
  The race is there: two calls that both look before either claims each write the config, so the
  second silently points the wallet at its own sequencer after the first was told it had provisioned.
\<close>

definition fine_io :: home_io where
  "fine_io = \<lparr> hi_create = None, hi_claim = None, hi_write = None, hi_rename = None, hi_remove_ok = True \<rparr>"

definition race_prefix :: "string \<Rightarrow> string \<Rightarrow> home_event list" where
  "race_prefix a b = [Call a, Call b, Advance 0 fine_io, Advance 1 fine_io,
     Advance 0 fine_io, Advance 0 fine_io, Advance 0 fine_io, Advance 0 fine_io]"

fun home_exec :: "string \<Rightarrow> home_event list \<Rightarrow> provisioner \<Rightarrow> provisioner option" where
  "home_exec dir [] p = Some p"
| "home_exec dir (Call seq # es) p = home_exec dir es (p \<lparr> pv_calls := pv_calls p @ [Looking seq] \<rparr>)"
| "home_exec dir (Advance t io # es) p =
     (if t < length (pv_calls p)
      then (case provision_call dir io (pv_calls p ! t) (pv_home p) of
              (ph, h) \<Rightarrow> home_exec dir es \<lparr> pv_home = h, pv_calls = (pv_calls p)[t := ph] \<rparr>)
      else None)"
| "home_exec dir (CrashProcess # es) p = home_exec dir es (p \<lparr> pv_calls := [] \<rparr>)"

lemma home_exec_trace: "home_exec dir es p = Some p' \<Longrightarrow> trace (home_step dir) p (map Some es) p'"
proof (induction dir es p rule: home_exec.induct)
  case (3 dir t io es p)
  obtain ph h where c: "provision_call dir io (pv_calls p ! t) (pv_home p) = (ph, h)" by fastforce
  have t: "t < length (pv_calls p)" using 3(2) by (simp split: if_splits)
  show ?case
    using 3(1) [OF t c [symmetric]] 3(2) t c home_advance [OF t c] by (auto intro: trace_cons)
next
  case (4 dir es p)
  have "home_step dir p (Some CrashProcess) (p \<lparr> pv_calls := [] \<rparr>)"
    using home_crash [of "wh_tmp (pv_home p)" p undefined dir] by (cases p) simp
  then show ?case using 4 by (auto intro: trace_cons)
qed (auto intro: trace_cons home_call)

lemma provision_race_repoints:
  assumes "wh_config h = None" "\<not> wh_claim h"
  shows "\<exists>p p'. trace (home_step dir) \<lparr> pv_home = h, pv_calls = [] \<rparr> (map Some (race_prefix a b)) p \<and>
    pv_calls p = [Answered (Inr False), Claiming b] \<and> wh_config (pv_home p) = Some (Whole (wallet_config a)) \<and>
    trace (home_step dir) p (map Some (replicate 4 (Advance 1 fine_io))) p' \<and>
    pv_calls p' = [Answered (Inr False), Answered (Inr False)] \<and> wh_config (pv_home p') = Some (Whole (wallet_config b))"
proof -
  let ?p = "\<lparr> pv_home = h \<lparr> wh_config := Some (Whole (wallet_config a)), wh_tmp := None, wh_claim := False \<rparr>,
     pv_calls = [Answered (Inr False), Claiming b] \<rparr>"
  let ?p' = "\<lparr> pv_home = h \<lparr> wh_config := Some (Whole (wallet_config b)), wh_tmp := None, wh_claim := False \<rparr>,
     pv_calls = [Answered (Inr False), Answered (Inr False)] \<rparr>"
  have "home_exec dir (race_prefix a b) \<lparr> pv_home = h, pv_calls = [] \<rparr> = Some ?p"
    using assms by (simp add: race_prefix_def fine_io_def)
  moreover have "home_exec dir (replicate 4 (Advance 1 fine_io)) ?p = Some ?p'"
    by (simp add: numeral_eq_Suc fine_io_def)
  ultimately have "trace (home_step dir) \<lparr> pv_home = h, pv_calls = [] \<rparr> (map Some (race_prefix a b)) ?p"
    "trace (home_step dir) ?p (map Some (replicate 4 (Advance 1 fine_io))) ?p'"
    by (blast intro: home_exec_trace)+
  then show ?thesis by (intro exI [of _ ?p] exI [of _ ?p']) simp
qed

definition fresh_home :: wallet_home where
  "fresh_home = \<lparr> wh_config = None, wh_tmp = None, wh_claim = False, wh_storage = False \<rparr>"

text \<open>
  A process that dies between its claim and its release leaves the claim file behind: every later
  call then answers that the config existed, and none ever writes it.
\<close>

lemma abandoned_claim_blocks:
  assumes "trace (home_step dir) p ls p'" "wh_config (pv_home p) = None" "wh_claim (pv_home p)" "pv_calls p = []"
  shows "wh_config (pv_home p') = None \<and> wh_claim (pv_home p') \<and>
    (\<forall>ph \<in> set (pv_calls p'). \<exists>seq. ph \<in> {Looking seq, Claiming seq, Answered (Inr True)})"
proof -
  have step: "wh_config (pv_home q') = None \<and> wh_claim (pv_home q') \<and>
      (\<forall>ph \<in> set (pv_calls q'). \<exists>seq. ph \<in> {Looking seq, Claiming seq, Answered (Inr True)})"
    if "home_step dir q l q'" "wh_config (pv_home q) = None \<and> wh_claim (pv_home q) \<and>
      (\<forall>ph \<in> set (pv_calls q). \<exists>seq. ph \<in> {Looking seq, Claiming seq, Answered (Inr True)})" for q l q'
    using that(1)
  proof (cases rule: home_step.cases)
    case (home_advance t io ph h)
    note blocked = that(2)
    obtain seq where "pv_calls q ! t \<in> {Looking seq, Claiming seq, Answered (Inr True)}"
      using blocked home_advance(3) nth_mem by blast
    then have "h = pv_home q \<and> (\<exists>seq. ph \<in> {Looking seq, Claiming seq, Answered (Inr True)})"
      using home_advance(4) blocked by auto
    then show ?thesis
      using home_advance(2) blocked set_update_subset_insert [of "pv_calls q" t ph] by auto
  qed (use that(2) in auto)
  show ?thesis
    by (rule trace_invariant [OF assms(1)]) (use step assms(2-4) in auto)
qed

end
