(* ===== verification/Json_Codec.thy ===== *)
theory Json_Codec
  imports Json
begin

text \<open>
  A concrete codec of JSON values with the one law the sources rely on in \<open>serde_json\<close>: a rendered
  value parses back to itself. The models take parser and renderer as arguments; this codec shows the
  law can hold and is what the witnesses evaluate.
\<close>

fun enc_str :: "string \<Rightarrow> string" where
  "enc_str [] = ''.''"
| "enc_str (c # s) = CHR ''c'' # c # enc_str s"

definition enc_int :: "int \<Rightarrow> string" where
  "enc_int i = (if i < 0 then ''-'' else ''+'') @ replicate (nat \<bar>i\<bar>) (CHR ''1'') @ ''.''"

fun enc_json :: "json \<Rightarrow> string" where
  "enc_json JNull = ''n''"
| "enc_json (JBool b) = (if b then ''t'' else ''f'')"
| "enc_json (JInt i) = CHR ''i'' # enc_int i"
| "enc_json (JFloat m e) = CHR ''x'' # enc_int m @ enc_int e"
| "enc_json (JStr s) = CHR ''s'' # enc_str s"
| "enc_json (JArr vs) = CHR ''a'' # concat (map (\<lambda>v. CHR ''c'' # enc_json v) vs) @ ''.''"
| "enc_json (JObj fs) = CHR ''o'' # concat (map (\<lambda>(k, v). CHR ''c'' # enc_str k @ enc_json v) fs) @ ''.''"

fun dec_str :: "string \<Rightarrow> (string \<times> string) option" where
  "dec_str (t # r) =
     (if t = CHR ''.'' then Some ([], r)
      else case r of
        [] \<Rightarrow> None
      | c # r' \<Rightarrow> map_option (\<lambda>(s, r''). (c # s, r'')) (dec_str r'))"
| "dec_str [] = None"

fun dec_ones :: "string \<Rightarrow> (int \<times> string) option" where
  "dec_ones (t # r) = (if t = CHR ''.'' then Some (0, r) else map_option (\<lambda>(n, r'). (n + 1, r')) (dec_ones r))"
| "dec_ones [] = None"

definition dec_int :: "string \<Rightarrow> (int \<times> string) option" where
  "dec_int s =
     (case s of
        [] \<Rightarrow> None
      | t # r \<Rightarrow> map_option (\<lambda>(n, r'). (if t = CHR ''-'' then - n else n, r')) (dec_ones r))"

fun dec_json :: "nat \<Rightarrow> string \<Rightarrow> (json \<times> string) option"
and dec_list :: "nat \<Rightarrow> string \<Rightarrow> (json list \<times> string) option"
and dec_fields :: "nat \<Rightarrow> string \<Rightarrow> ((string \<times> json) list \<times> string) option" where
  "dec_json (Suc n) (t # r) =
     (if t = CHR ''n'' then Some (JNull, r)
      else if t = CHR ''t'' then Some (JBool True, r)
      else if t = CHR ''f'' then Some (JBool False, r)
      else if t = CHR ''x'' then Option.bind (dec_int r) (\<lambda>(m, r1). map_option (\<lambda>(e, r2). (JFloat m e, r2)) (dec_int r1))
      else if t = CHR ''i'' then map_option (\<lambda>(i, r'). (JInt i, r')) (dec_int r)
      else if t = CHR ''s'' then map_option (\<lambda>(s, r'). (JStr s, r')) (dec_str r)
      else if t = CHR ''a'' then map_option (\<lambda>(vs, r'). (JArr vs, r')) (dec_list n r)
      else if t = CHR ''o'' then map_option (\<lambda>(fs, r'). (JObj fs, r')) (dec_fields n r)
      else None)"
| "dec_list (Suc n) (t # r) =
     (if t = CHR ''.'' then Some ([], r)
      else Option.bind (dec_json n r) (\<lambda>(v, r1). map_option (\<lambda>(vs, r2). (v # vs, r2)) (dec_list n r1)))"
| "dec_fields (Suc n) (t # r) =
     (if t = CHR ''.'' then Some ([], r)
      else Option.bind (dec_str r) (\<lambda>(k, r1). Option.bind (dec_json n r1) (\<lambda>(v, r2).
        map_option (\<lambda>(fs, r3). ((k, v) # fs, r3)) (dec_fields n r2))))"
| "dec_json _ _ = None"
| "dec_list _ _ = None"
| "dec_fields _ _ = None"

text \<open>A one-element array of a decimal is also read as JSON text writes it.\<close>

definition decimal_array :: "string \<Rightarrow> json option" where
  "decimal_array s =
     (case s of
        [] \<Rightarrow> None
      | c # r \<Rightarrow>
          if c = CHR ''['' \<and> r \<noteq> [] \<and> last r = CHR '']'' \<and> butlast r \<noteq> [] \<and> list_all is_ascii_digit (butlast r)
          then Some (JArr [JInt (int (digits_value (butlast r)))]) else None)"

definition parse_enc :: "string \<Rightarrow> string + json" where
  "parse_enc s =
     (case decimal_array s of
        Some v \<Rightarrow> Inr v
      | None \<Rightarrow> (case dec_json (length s) s of Some (v, []) \<Rightarrow> Inr v | _ \<Rightarrow> Inl ''not an encoding''))"

lemma parse_enc_decimal: "parse_enc (''['' @ show_nat n @ '']'') = Inr (JArr [JInt (int n)])"
  using show_nat_digits [of n] by (simp add: parse_enc_def decimal_array_def butlast_append)

lemma decimal_array_enc [simp]: "decimal_array (enc_json v) = None"
  by (cases v) (simp_all add: decimal_array_def)

lemma dec_enc_str [simp]: "dec_str (enc_str s @ r) = Some (s, r)"
  by (induction s) simp_all

lemma dec_ones_replicate: "dec_ones (replicate n (CHR ''1'') @ CHR ''.'' # r) = Some (int n, r)"
  by (induction n) simp_all

lemma dec_enc_int [simp]: "dec_int (enc_int i @ r) = Some (i, r)"
  by (simp add: dec_int_def enc_int_def dec_ones_replicate)

lemma enc_str_pos: "0 < length (enc_str s)"
  by (cases s) simp_all

lemma dec_enc_list:
  assumes "\<And>v n r. v \<in> set vs \<Longrightarrow> length (enc_json v) \<le> n \<Longrightarrow> dec_json n (enc_json v @ r) = Some (v, r)"
    and "length (concat (map (\<lambda>v. CHR ''c'' # enc_json v) vs)) < n"
  shows "dec_list n (concat (map (\<lambda>v. CHR ''c'' # enc_json v) vs) @ CHR ''.'' # r) = Some (vs, r)"
  using assms
proof (induction vs arbitrary: n)
  case Nil
  then show ?case by (cases n) simp_all
next
  case (Cons v vs)
  then obtain m where n: "n = Suc m" by (cases n) auto
  have "dec_json m (enc_json v @ concat (map (\<lambda>v. CHR ''c'' # enc_json v) vs) @ CHR ''.'' # r) =
      Some (v, concat (map (\<lambda>v. CHR ''c'' # enc_json v) vs) @ CHR ''.'' # r)"
    using Cons.prems n by simp
  moreover have "dec_list m (concat (map (\<lambda>v. CHR ''c'' # enc_json v) vs) @ CHR ''.'' # r) = Some (vs, r)"
    using Cons.prems n by (intro Cons.IH) simp_all
  ultimately show ?case by (simp add: n)
qed

lemma dec_enc_fields:
  assumes "\<And>k v n r. (k, v) \<in> set fs \<Longrightarrow> length (enc_json v) \<le> n \<Longrightarrow> dec_json n (enc_json v @ r) = Some (v, r)"
    and "length (concat (map (\<lambda>(k, v). CHR ''c'' # enc_str k @ enc_json v) fs)) < n"
  shows "dec_fields n (concat (map (\<lambda>(k, v). CHR ''c'' # enc_str k @ enc_json v) fs) @ CHR ''.'' # r) = Some (fs, r)"
  using assms
proof (induction fs arbitrary: n)
  case Nil
  then show ?case by (cases n) simp_all
next
  case (Cons f fs)
  obtain k v where f: "f = (k, v)" by fastforce
  obtain m where n: "n = Suc m" using Cons.prems(2) by (cases n) auto
  let ?rest = "concat (map (\<lambda>(k, v). CHR ''c'' # enc_str k @ enc_json v) fs) @ CHR ''.'' # r"
  have "dec_json m (enc_json v @ ?rest) = Some (v, ?rest)"
    using Cons.prems(1) [of k v m ?rest] Cons.prems(2) n f by simp
  moreover have "dec_fields m ?rest = Some (fs, r)"
    by (rule Cons.IH) (use Cons.prems n f in \<open>auto intro: Cons.prems(1)\<close>)
  ultimately show ?case by (simp add: n f)
qed

lemma dec_enc_json: "length (enc_json v) \<le> n \<Longrightarrow> dec_json n (enc_json v @ r) = Some (v, r)"
proof (induction v arbitrary: n r)
  case (JArr vs)
  from JArr.prems obtain m where n: "n = Suc m" by (cases n) auto
  have "dec_list m (concat (map (\<lambda>v. CHR ''c'' # enc_json v) vs) @ CHR ''.'' # r) = Some (vs, r)"
    by (rule dec_enc_list) (use JArr n in auto)
  then show ?case by (simp add: n)
next
  case (JObj fs)
  from JObj.prems obtain m where n: "n = Suc m" by (cases n) auto
  have "dec_json k' (enc_json v @ r') = Some (v, r')" if "(k, v) \<in> set fs" "length (enc_json v) \<le> k'" for k v k' r'
    using JObj.IH [OF that(1), of v] that(2) by simp
  then have "dec_fields m (concat (map (\<lambda>(k, v). CHR ''c'' # enc_str k @ enc_json v) fs) @ CHR ''.'' # r) = Some (fs, r)"
    by (rule dec_enc_fields) (use JObj.prems n in auto)
  then show ?case by (simp add: n)
next
  case JNull then show ?case by (cases n) simp_all
next
  case (JBool b) then show ?case by (cases n; cases b) simp_all
next
  case (JInt i) then show ?case by (cases n) simp_all
next
  case (JFloat m e) then show ?case by (cases n) simp_all
next
  case (JStr s) then show ?case by (cases n) simp_all
qed

lemma parse_enc_enc [simp]: "parse_enc (enc_json v) = Inr v"
  using dec_enc_json [of v "length (enc_json v)" "[]"] by (simp add: parse_enc_def)

lemma enc_json_nonempty [simp]: "enc_json v \<noteq> []"
  by (cases v) simp_all

end
