(* ===== verification/Lez_Network.thy ===== *)
theory Lez_Network
  imports Lez_Core Wallet_Home Json_Codec
begin

text \<open>
  Which chain the registry module's wallet talks to (\<open>networks.rs\<close> and the network choice of
  \<open>wallet.rs\<close>): the built-in table, the plan for a wallet home, the marker that records a binding,
  and \<open>use_network\<close>. The home is its two files; the texts are written and parsed by \<open>serde_json\<close>,
  which is a parameter (\<open>json_text\<close>). Selection runs under one mutex, so each call is one step of the
  machine; a crash may fall between the two file writes of a provisioning.
\<close>

section \<open>The table\<close>

record registry_entry =
  rg_deployment :: string
  rg_config_account :: string
  rg_tree_id :: string
  rg_registration_program_id :: string
  rg_merkle_program_id :: string

record network_entry =
  nw_reference :: string
  nw_description :: string
  nw_sequencer :: string
  nw_registries :: "registry_entry list"

record network_table =
  nt_format :: string
  nt_version :: u32
  nt_networks :: "network_entry list"

definition FORMAT :: string where "FORMAT = ''lez-rln-networks''"

definition quoted :: "string \<Rightarrow> string" where
  "quoted s = [CHR 0x27] @ s @ [CHR 0x27]"

definition parse_table :: "(string \<Rightarrow> string + network_table) \<Rightarrow> string \<Rightarrow> string + network_entry list" where
  "parse_table de raw =
     and_then (de raw) (\<lambda>t.
     if nt_format t \<noteq> FORMAT then Inl (''format is '' @ quoted (nt_format t) @ '', expected '' @ quoted FORMAT)
     else if nt_version t \<noteq> 1 then Inl (''version '' @ show_nat (unat (nt_version t)) @ '' is not supported'')
     else Inr (nt_networks t))"

definition table_of :: "(string \<Rightarrow> string + network_table) \<Rightarrow> string \<Rightarrow> network_entry list" where
  "table_of de raw = (case parse_table de raw of Inr ns \<Rightarrow> ns | Inl _ \<Rightarrow> [])"

definition network_named :: "network_entry list \<Rightarrow> string \<Rightarrow> network_entry option" where
  "network_named tbl reference = List.find (\<lambda>n. nw_reference n = reference) tbl"

definition network_of_config :: "network_entry list \<Rightarrow> string \<Rightarrow> network_entry option" where
  "network_of_config tbl config_hex =
     (let config_hex = to_ascii_lowercase (trim config_hex) in
      List.find (\<lambda>n. list_ex (\<lambda>r. case decode32 (rg_config_account r) of
          None \<Rightarrow> False | Some b \<Rightarrow> bytes_to_hex b = config_hex) (nw_registries n)) tbl)"

definition known_references :: "network_entry list \<Rightarrow> string list" where
  "known_references tbl = map nw_reference tbl"

fun join_with :: "string \<Rightarrow> string list \<Rightarrow> string" where
  "join_with sep [] = []"
| "join_with sep [x] = x"
| "join_with sep (x # xs) = x @ sep @ join_with sep xs"

section \<open>Homes and plans\<close>

datatype binding_source = SourceTable | SourceEnv

primrec source_str :: "binding_source \<Rightarrow> string" where
  "source_str SourceTable = ''table''"
| "source_str SourceEnv = ''env''"

datatype binding = Operator | Recorded string binding_source

record env_view =
  ev_sequencer :: string
  ev_network :: string

definition env_from :: "string option \<Rightarrow> string option \<Rightarrow> env_view" where
  "env_from sequencer network =
     (let read = (\<lambda>v. trim (case v of Some s \<Rightarrow> s | None \<Rightarrow> []))
      in \<lparr> ev_sequencer = read sequencer, ev_network = to_ascii_lowercase (read network) \<rparr>)"

datatype home_plan =
    Adopt binding
  | Provision string binding
  | AwaitSelection
  | PlanFailed string

definition HOME_ENV :: string where "HOME_ENV = ''LEE_WALLET_HOME_DIR''"
definition SEQUENCER_ENV :: string where "SEQUENCER_ENV = ''LEZ_RLN_SEQUENCER''"
definition NETWORK_ENV :: string where "NETWORK_ENV = ''LEZ_RLN_NETWORK''"
definition CONFIG_FILE :: string where "CONFIG_FILE = ''wallet_config.json''"
definition NETWORK_FILE :: string where "NETWORK_FILE = ''network.json''"
definition GAS_LIMIT :: u64 where "GAS_LIMIT = 10000000"

text \<open>The home's files, and what the operating system answers when they are touched.\<close>

record home_files =
  hf_config :: "string option"
  hf_marker :: "string option"

datatype atomic_outcome = Replaced | TmpFailed string | RenameFailed string

record home_sys =
  hs_create :: "string option"
  hs_marker_read :: "string option"
  hs_marker_write :: atomic_outcome
  hs_marker_remove :: "string option"
  hs_config_write :: atomic_outcome
  hs_config_read :: "string option"

record json_text =
  jt_parse :: "string \<Rightarrow> string + json"
  jt_render :: "json \<Rightarrow> string"

definition path_join :: "string \<Rightarrow> string \<Rightarrow> string" where
  "path_join dir name = (if dir = [] then name else if last dir = CHR ''/'' then dir @ name else dir @ ''/'' @ name)"

definition unknown_network :: "network_entry list \<Rightarrow> string \<Rightarrow> string" where
  "unknown_network tbl reference =
     ''unknown network '' @ quoted reference @ '' (known: '' @ join_with '', '' (known_references tbl) @ ''); set '' @
     SEQUENCER_ENV @ '' or '' @ HOME_ENV"

text \<open>How \<open>{:?}\<close> shows an optional string; characters it would escape otherwise are shown as they are.\<close>

definition debug_option :: "string option \<Rightarrow> string" where
  "debug_option v =
     (case v of None \<Rightarrow> ''None''
      | Some s \<Rightarrow> ''Some('' @ [CHR 0x22] @
          concat (map (\<lambda>c. if c = CHR 0x22 \<or> c = CHR 0x5C then [CHR 0x5C, c] else [c]) s) @ [CHR 0x22] @ '')'')"

definition read_marker :: "json_text \<Rightarrow> home_sys \<Rightarrow> string \<Rightarrow> home_files \<Rightarrow> string + binding option" where
  "read_marker jt hs home h =
     (let path = path_join home NETWORK_FILE in
      case (hs_marker_read hs, hf_marker h) of
        (Some e, _) \<Rightarrow> Inl (''read '' @ path @ '': '' @ e)
      | (None, None) \<Rightarrow> Inr None
      | (None, Some raw) \<Rightarrow>
          (case jt_parse jt raw of
             Inl e \<Rightarrow> Inl (path @ '' is not JSON: '' @ e)
           | Inr doc \<Rightarrow>
               (let network = (case get_str doc ''network'' of Some n \<Rightarrow> n | None \<Rightarrow> []);
                    named = get_str doc ''source''
                in and_then
                     (if named = Some ''table'' then Inr SourceTable
                      else if named = Some ''env'' then Inr SourceEnv
                      else Inl (path @ '': unknown source '' @ debug_option named)) (\<lambda>src.
                   if network = [] then Inl (path @ '' names no network'')
                   else Inr (Some (Recorded network src))))))"

definition plan_home :: "json_text \<Rightarrow> network_entry list \<Rightarrow> home_sys \<Rightarrow> string \<Rightarrow> home_files \<Rightarrow> env_view \<Rightarrow> home_plan" where
  "plan_home jt tbl hs home h env =
     (if hf_config h \<noteq> None
      then (case read_marker jt hs home h of
              Inr binding \<Rightarrow> Adopt (case binding of Some b \<Rightarrow> b | None \<Rightarrow> Operator)
            | Inl e \<Rightarrow> PlanFailed e)
      else if ev_sequencer env \<noteq> []
      then Provision (ev_sequencer env) (if ev_network env = [] then Operator else Recorded (ev_network env) SourceEnv)
      else if ev_network env \<noteq> []
      then (case network_named tbl (ev_network env) of
              Some n \<Rightarrow> Provision (nw_sequencer n) (Recorded (nw_reference n) SourceTable)
            | None \<Rightarrow> PlanFailed (NETWORK_ENV @ '': '' @ unknown_network tbl (ev_network env)))
      else AwaitSelection)"

definition wallet_config_json :: "json_text \<Rightarrow> string \<Rightarrow> string" where
  "wallet_config_json jt sequencer = jt_render jt (JObj
     [(''gas_limit'', JInt (uint GAS_LIMIT)),
      (''multi_sequencer_client_config'', JObj [(''calibration_limit'', JInt 3), (''distribution_limit'', JInt 1)]),
      (''seq_block_poll_max_amount'', JInt 100),
      (''seq_poll_max_retries'', JInt 10),
      (''seq_poll_timeout'', JStr ''30s''),
      (''seq_tx_poll_max_blocks'', JInt 15),
      (''sequencer'', JObj [(''sequencer_addr'', JStr sequencer)]),
      (''sequencer_addr'', JStr sequencer),
      (''sequencers'', JArr [JObj [(''sequencer_addr'', JStr sequencer)]])])"

definition marker_text :: "json_text \<Rightarrow> string \<Rightarrow> binding_source \<Rightarrow> string" where
  "marker_text jt network src = jt_render jt (JObj [(''network'', JStr network), (''source'', JStr (source_str src))])"

definition write_atomic :: "string \<Rightarrow> atomic_outcome \<Rightarrow> string + unit" where
  "write_atomic path out =
     (case out of
        Replaced \<Rightarrow> Inr ()
      | TmpFailed e \<Rightarrow> Inl (''write '' @ path @ ''.tmp: '' @ e)
      | RenameFailed e \<Rightarrow> Inl (''rename to '' @ path @ '': '' @ e))"

text \<open>The two halves of a provisioning: the marker first, then the config.\<close>

definition write_marker :: "json_text \<Rightarrow> home_sys \<Rightarrow> string \<Rightarrow> binding \<Rightarrow> home_files \<Rightarrow> string + home_files" where
  "write_marker jt hs home b h =
     (let marker = path_join home NETWORK_FILE in
      case b of
        Recorded network src \<Rightarrow>
          and_then (write_atomic marker (hs_marker_write hs)) (\<lambda>_.
          Inr (h \<lparr> hf_marker := Some (marker_text jt network src) \<rparr>))
      | Operator \<Rightarrow>
          (if hf_marker h = None then Inr h
           else case hs_marker_remove hs of
             Some e \<Rightarrow> Inl (''remove '' @ marker @ '': '' @ e)
           | None \<Rightarrow> Inr (h \<lparr> hf_marker := None \<rparr>)))"

definition provision_home ::
  "json_text \<Rightarrow> home_sys \<Rightarrow> string \<Rightarrow> string \<Rightarrow> binding \<Rightarrow> home_files \<Rightarrow> (string + unit) \<times> home_files"
where
  "provision_home jt hs home sequencer b h =
     (case hs_create hs of
        Some e \<Rightarrow> (Inl (''create '' @ home @ '': '' @ e), h)
      | None \<Rightarrow>
          (case write_marker jt hs home b h of
             Inl e \<Rightarrow> (Inl e, h)
           | Inr h' \<Rightarrow>
               (case write_atomic (path_join home CONFIG_FILE) (hs_config_write hs) of
                  Inl e \<Rightarrow> (Inl e, h')
                | Inr _ \<Rightarrow> (Inr (), h' \<lparr> hf_config := Some (wallet_config_json jt sequencer) \<rparr>))))"

section \<open>Selection\<close>

datatype selection =
    Unresolved
  | Awaiting string
  | Bound string binding
  | SelectionFailed string

record selector =
  se_selection :: selection
  se_operator_noted :: bool

datatype select_action = ActNone | ActStart string | ActAwait | ActFail string

definition apply_plan ::
  "json_text \<Rightarrow> home_sys \<Rightarrow> string \<Rightarrow> home_plan \<Rightarrow> selector \<Rightarrow> home_files \<Rightarrow> select_action \<times> selector \<times> home_files"
where
  "apply_plan jt hs home plan sel h =
     (case plan of
        Adopt b \<Rightarrow> (ActStart home, sel \<lparr> se_selection := Bound home b \<rparr>, h)
      | Provision sequencer b \<Rightarrow>
          (case provision_home jt hs home sequencer b h of
             (Inl e, h') \<Rightarrow> (ActFail e, sel \<lparr> se_selection := SelectionFailed e \<rparr>, h')
           | (Inr _, h') \<Rightarrow> (ActStart home, sel \<lparr> se_selection := Bound home b \<rparr>, h'))
      | AwaitSelection \<Rightarrow> (ActAwait, sel \<lparr> se_selection := Awaiting home \<rparr>, h)
      | PlanFailed reason \<Rightarrow> (ActFail reason, sel \<lparr> se_selection := SelectionFailed reason \<rparr>, h))"

record network_reply =
  nr_accepted :: bool
  nr_detail :: string
  nr_network :: string
  nr_retry :: bool
  nr_source :: string

definition reply_refused :: "string \<Rightarrow> string \<Rightarrow> network_reply" where
  "reply_refused detail network =
     \<lparr> nr_accepted = False, nr_detail = detail, nr_network = network, nr_retry = False, nr_source = [] \<rparr>"

definition reply_to_json :: "network_reply \<Rightarrow> json" where
  "reply_to_json r = JObj
     [(''accepted'', JBool (nr_accepted r)), (''detail'', JStr (nr_detail r)), (''network'', JStr (nr_network r)),
      (''retry'', JBool (nr_retry r)), (''source'', JStr (nr_source r))]"

definition answer_bound :: "string \<Rightarrow> binding \<Rightarrow> string \<Rightarrow> bool \<Rightarrow> network_reply \<times> bool" where
  "answer_bound home b reference operator_noted =
     (case b of
        Operator \<Rightarrow>
          (\<lparr> nr_accepted = True, nr_detail = ''operator-configured home; the network is not checked'',
             nr_network = reference, nr_retry = False, nr_source = ''operator'' \<rparr>, True)
      | Recorded network src \<Rightarrow>
          (if network = reference
           then \<lparr> nr_accepted = True, nr_detail = [], nr_network = network, nr_retry = False, nr_source = source_str src \<rparr>
           else reply_refused (''wallet home '' @ home @ '' is bound to network '' @ network @
                  ''; refusing to re-point it to '' @ reference) network,
           operator_noted))"

definition select_network ::
  "json_text \<Rightarrow> network_entry list \<Rightarrow> home_sys \<Rightarrow> string \<Rightarrow> selector \<Rightarrow> home_files \<Rightarrow>
     network_reply \<times> select_action \<times> selector \<times> home_files"
where
  "select_network jt tbl hs raw_reference sel h =
     (let reference = to_ascii_lowercase (trim raw_reference) in
      case se_selection sel of
        Unresolved \<Rightarrow>
          (\<lparr> nr_accepted = False, nr_detail = ''the wallet home is not resolved yet'', nr_network = [],
             nr_retry = True, nr_source = [] \<rparr>, ActNone, sel, h)
      | SelectionFailed reason \<Rightarrow> (reply_refused (''the wallet cannot come up: '' @ reason) [], ActNone, sel, h)
      | Bound home b \<Rightarrow>
          (case answer_bound home b reference (se_operator_noted sel) of
             (reply, noted) \<Rightarrow> (reply, ActNone, sel \<lparr> se_operator_noted := noted \<rparr>, h))
      | Awaiting home \<Rightarrow>
          (if hf_config h \<noteq> None
           then (case apply_plan jt hs home (plan_home jt tbl hs home h \<lparr> ev_sequencer = [], ev_network = [] \<rparr>) sel h of
                   (action, sel', h') \<Rightarrow>
                     (case se_selection sel' of
                        Bound home' b \<Rightarrow>
                          (case answer_bound home' b reference (se_operator_noted sel') of
                             (reply, noted) \<Rightarrow> (reply, action, sel' \<lparr> se_operator_noted := noted \<rparr>, h'))
                      | SelectionFailed reason \<Rightarrow>
                          (reply_refused (''the wallet cannot come up: '' @ reason) [], action, sel', h')
                      | _ \<Rightarrow> (reply_refused ''the wallet home changed under selection'' [], action, sel', h')))
           else case network_named tbl reference of
             None \<Rightarrow> (reply_refused (unknown_network tbl reference) [], ActNone, sel, h)
           | Some n \<Rightarrow>
               (case apply_plan jt hs home (Provision (nw_sequencer n) (Recorded (nw_reference n) SourceTable)) sel h of
                  (action, sel', h') \<Rightarrow>
                    (case action of
                       ActFail e \<Rightarrow> reply_refused e []
                     | _ \<Rightarrow> \<lparr> nr_accepted = True, nr_detail = [], nr_network = nw_reference n, nr_retry = False,
                              nr_source = source_str SourceTable \<rparr>,
                     action, sel', h'))))"

definition bound_network :: "selector \<Rightarrow> string option" where
  "bound_network sel =
     (case se_selection sel of
        Bound _ b \<Rightarrow> (case b of Recorded network _ \<Rightarrow> Some network | Operator \<Rightarrow> None)
      | _ \<Rightarrow> None)"

definition nonempty_trimmed :: "string \<Rightarrow> string option" where
  "nonempty_trimmed s = (let t = trim s in if t = [] then None else Some t)"

definition sequencer_of_config :: "json_text \<Rightarrow> string \<Rightarrow> string option" where
  "sequencer_of_config jt raw =
     (case jt_parse jt raw of
        Inl _ \<Rightarrow> None
      | Inr config \<Rightarrow>
          (let nested = Option.bind (j_get config ''sequencer'') (\<lambda>s. j_get s ''sequencer_addr'');
               listed = Option.bind (Option.bind (j_get config ''sequencers'')
                   (\<lambda>s. case s of JArr (x # _) \<Rightarrow> Some x | JObj fs \<Rightarrow> map_of fs ''0'' | _ \<Rightarrow> None))
                 (\<lambda>x. j_get x ''sequencer_addr'');
               flat = j_get config ''sequencer_addr'';
               found = (case nested of Some v \<Rightarrow> Some v | None \<Rightarrow> (case listed of Some v \<Rightarrow> Some v | None \<Rightarrow> flat))
           in Option.bind (Option.bind found as_str) nonempty_trimmed))"

definition sequencer_addr :: "json_text \<Rightarrow> home_sys \<Rightarrow> selector \<Rightarrow> home_files \<Rightarrow> string option" where
  "sequencer_addr jt hs sel h =
     (case se_selection sel of
        Bound _ _ \<Rightarrow>
          (case (hs_config_read hs, hf_config h) of
             (None, Some raw) \<Rightarrow> sequencer_of_config jt raw
           | _ \<Rightarrow> None)
      | _ \<Rightarrow> None)"

definition spawn_bring_up ::
  "json_text \<Rightarrow> network_entry list \<Rightarrow> home_sys \<Rightarrow> string option \<Rightarrow> env_view \<Rightarrow> string \<Rightarrow> selector \<Rightarrow> home_files \<Rightarrow>
     select_action \<times> selector \<times> home_files"
where
  "spawn_bring_up jt tbl hs home_env env persistence_path sel h =
     (if se_selection sel \<noteq> Unresolved then (ActNone, sel, h)
      else
        let configured = (case home_env of Some dir \<Rightarrow> trim dir | None \<Rightarrow> []);
            reason = ''no instance_persistence_path from the host and no '' @ HOME_ENV @ '' '' @ em_dash @
              '' the wallet has nowhere to live''
        in if configured = [] \<and> persistence_path = []
           then (ActFail reason, sel \<lparr> se_selection := SelectionFailed reason \<rparr>, h)
           else let home = (if configured \<noteq> [] then configured else path_join persistence_path ''wallet-home'')
                in apply_plan jt hs home (plan_home jt tbl hs home h env) sel h)"

section \<open>The machine\<close>

text \<open>
  One process at a time over one home: the host hands over the context, consumers name networks, the
  process ends (losing the selection) or dies between the two writes of a provisioning. Every call
  sees its own answers of the operating system.
\<close>

record net_state =
  ns_selector :: selector
  ns_files :: home_files
  ns_envs :: "env_view set"

definition fresh_selector :: selector where
  "fresh_selector = \<lparr> se_selection = Unresolved, se_operator_noted = False \<rparr>"

datatype net_event =
    ContextReady home_sys "string option" env_view string
  | UseNetwork home_sys string network_reply
  | Restart
  | DiesProvisioning home_sys string binding

text \<open>What a process may be provisioning when it dies: the plan of a start, or a consumer's choice.\<close>

definition provisioning :: "network_entry list \<Rightarrow> net_state \<Rightarrow> env_view \<Rightarrow> string \<Rightarrow> binding \<Rightarrow> bool" where
  "provisioning tbl s env sequencer b \<longleftrightarrow> hf_config (ns_files s) = None \<and>
     (ev_sequencer env \<noteq> [] \<and> sequencer = ev_sequencer env \<and>
        b = (if ev_network env = [] then Operator else Recorded (ev_network env) SourceEnv) \<or>
      (\<exists>n \<in> set tbl. sequencer = nw_sequencer n \<and> b = Recorded (nw_reference n) SourceTable))"

inductive net_step ::
  "json_text \<Rightarrow> network_entry list \<Rightarrow> net_state \<Rightarrow> net_event option \<Rightarrow> net_state \<Rightarrow> bool"
  for jt :: json_text and tbl :: "network_entry list"
where
  net_ready: "spawn_bring_up jt tbl hs home_env env path (ns_selector s) (ns_files s) = (action, sel, h) \<Longrightarrow>
     net_step jt tbl s (Some (ContextReady hs home_env env path))
       \<lparr> ns_selector = sel, ns_files = h, ns_envs = insert env (ns_envs s) \<rparr>"
| net_use: "select_network jt tbl hs reference (ns_selector s) (ns_files s) = (reply, action, sel, h) \<Longrightarrow>
     net_step jt tbl s (Some (UseNetwork hs reference reply)) (s \<lparr> ns_selector := sel, ns_files := h \<rparr>)"
| net_restart: "net_step jt tbl s (Some Restart) (s \<lparr> ns_selector := fresh_selector \<rparr>)"
| net_dies: "provisioning tbl s env sequencer b \<Longrightarrow> write_marker jt hs home b (ns_files s) = Inr h \<Longrightarrow>
     net_step jt tbl s (Some (DiesProvisioning hs sequencer b))
       \<lparr> ns_selector = fresh_selector, ns_files = h, ns_envs = insert env (ns_envs s) \<rparr>"

section \<open>A home keeps its chain\<close>

definition json_roundtrip :: "json_text \<Rightarrow> bool" where
  "json_roundtrip jt \<longleftrightarrow> (\<forall>v. jt_parse jt (jt_render jt v) = Inr v)"

definition binding_holds :: "network_entry list \<Rightarrow> env_view set \<Rightarrow> string \<Rightarrow> binding \<Rightarrow> bool" where
  "binding_holds tbl envs sequencer b \<longleftrightarrow>
     (case b of
        Operator \<Rightarrow> \<exists>env \<in> envs. ev_sequencer env = sequencer
      | Recorded network SourceEnv \<Rightarrow> \<exists>env \<in> envs. ev_sequencer env = sequencer \<and> ev_network env = network
      | Recorded network SourceTable \<Rightarrow> \<exists>n \<in> set tbl. nw_sequencer n = sequencer \<and> nw_reference n = network)"

primrec marker_of :: "json_text \<Rightarrow> binding \<Rightarrow> string option" where
  "marker_of jt Operator = None"
| "marker_of jt (Recorded network src) = Some (marker_text jt network src)"

lemma write_marker_ok:
  assumes "write_marker jt hs home b h = Inr h'"
  shows "hf_marker h' = marker_of jt b" "hf_config h' = hf_config h"
proof -
  have "hf_marker h' = marker_of jt b \<and> hf_config h' = hf_config h"
  proof (cases b)
    case Operator
    then show ?thesis using assms by (auto simp: write_marker_def split: if_splits option.splits)
  next
    case (Recorded network src)
    then show ?thesis
      using assms by (cases "hs_marker_write hs") (auto simp: write_marker_def write_atomic_def)
  qed
  then show "hf_marker h' = marker_of jt b" "hf_config h' = hf_config h" by blast+
qed

lemma provision_home_cases:
  assumes "provision_home jt hs home sequencer b h = (r, h')"
  shows "r = Inr () \<and> hf_config h' = Some (wallet_config_json jt sequencer) \<and> hf_marker h' = marker_of jt b \<or>
    (\<exists>e. r = Inl e) \<and> hf_config h' = hf_config h"
proof (cases "write_marker jt hs home b h")
  case (Inl e)
  then show ?thesis using assms by (auto simp: provision_home_def split: option.splits)
next
  case (Inr h1)
  then show ?thesis
    using assms write_marker_ok [OF Inr]
    by (cases "hs_config_write hs") (auto simp: provision_home_def write_atomic_def split: option.splits)
qed

lemma read_marker_back:
  assumes "json_roundtrip jt" "hf_marker h = marker_of jt b" "read_marker jt hs home h = Inr r"
  shows "(case r of Some b \<Rightarrow> b | None \<Rightarrow> Operator) = b"
proof (cases b)
  case Operator
  then show ?thesis using assms by (auto simp: read_marker_def Let_def split: option.splits)
next
  case (Recorded network src)
  then show ?thesis
    using assms by (cases src)
      (auto simp: read_marker_def Let_def marker_text_def json_roundtrip_def split: option.splits if_splits)
qed

lemma binding_holds_mono: "binding_holds tbl envs sequencer b \<Longrightarrow> envs \<subseteq> envs' \<Longrightarrow> binding_holds tbl envs' sequencer b"
  by (auto simp: binding_holds_def split: binding.splits binding_source.splits)

lemma network_named_Some: "network_named tbl r = Some n \<Longrightarrow> n \<in> set tbl \<and> nw_reference n = r"
  by (auto simp: network_named_def find_Some_iff)

text \<open>Configured homes: the plan adopts the recorded binding or fails.\<close>

lemma plan_configured:
  assumes "json_roundtrip jt" "hf_config h \<noteq> None" "hf_marker h = marker_of jt b"
  shows "plan_home jt tbl hs home h env = Adopt b \<or> (\<exists>e. plan_home jt tbl hs home h env = PlanFailed e)"
  using read_marker_back [OF assms(1,3), of hs home] assms(2)
  by (cases "read_marker jt hs home h") (auto simp: plan_home_def)

lemma plan_unconfigured:
  assumes "hf_config h = None" "plan_home jt tbl hs home h env = Provision sequencer b"
  shows "binding_holds tbl (insert env envs) sequencer b"
  using assms by (auto simp: plan_home_def binding_holds_def dest!: network_named_Some split: if_splits option.splits)

lemma plan_no_adopt: "hf_config h = None \<Longrightarrow> plan_home jt tbl hs home h env \<noteq> Adopt b"
  by (auto simp: plan_home_def split: option.splits)

text \<open>One plan applied: either nothing is bound and the config stays, or home and selection agree on it.\<close>

lemma apply_plan_agrees:
  assumes "apply_plan jt hs home plan sel h = (action, sel', h')"
    and "\<And>b. plan = Adopt b \<Longrightarrow> \<exists>sequencer. hf_config h = Some (wallet_config_json jt sequencer) \<and>
      binding_holds tbl envs sequencer b \<and> hf_marker h = marker_of jt b"
    and "\<And>sequencer b. plan = Provision sequencer b \<Longrightarrow> binding_holds tbl envs sequencer b \<and> hf_config h = None"
  shows "(\<forall>home' b. se_selection sel' \<noteq> Bound home' b) \<and> hf_config h' = hf_config h \<and> (hf_config h \<noteq> None \<longrightarrow> h' = h) \<or>
    (\<exists>sequencer b. se_selection sel' = Bound home b \<and> hf_config h' = Some (wallet_config_json jt sequencer) \<and>
       binding_holds tbl envs sequencer b \<and> hf_marker h' = marker_of jt b)"
proof (cases plan)
  case (Adopt b)
  then show ?thesis using assms(1) assms(2) [OF Adopt] by (auto simp: apply_plan_def)
next
  case (Provision sequencer b)
  obtain r h1 where p: "provision_home jt hs home sequencer b h = (r, h1)" by fastforce
  note ok = assms(3) [OF Provision]
  from provision_home_cases [OF p] show ?thesis
  proof
    assume "r = Inr () \<and> hf_config h1 = Some (wallet_config_json jt sequencer) \<and> hf_marker h1 = marker_of jt b"
    then show ?thesis
      using assms(1) ok Provision p by (intro disjI2 exI [of _ sequencer] exI [of _ b]) (auto simp: apply_plan_def)
  next
    assume "(\<exists>e. r = Inl e) \<and> hf_config h1 = hf_config h"
    then show ?thesis using assms(1) ok Provision p by (auto simp: apply_plan_def)
  qed
qed (use assms(1) in \<open>auto simp: apply_plan_def\<close>)

text \<open>Planning and applying in one go, from files that agree.\<close>

definition files_agree :: "json_text \<Rightarrow> network_entry list \<Rightarrow> env_view set \<Rightarrow> home_files \<Rightarrow> bool" where
  "files_agree jt tbl envs h \<longleftrightarrow> (\<forall>text. hf_config h = Some text \<longrightarrow>
     (\<exists>sequencer b. text = wallet_config_json jt sequencer \<and> binding_holds tbl envs sequencer b \<and> hf_marker h = marker_of jt b))"

lemma planned_agrees:
  assumes "json_roundtrip jt" "files_agree jt tbl envs h" "env \<in> envs \<or> hf_config h \<noteq> None"
    and "apply_plan jt hs home (plan_home jt tbl hs home h env) sel h = (action, sel', h')"
  shows "(\<forall>home' b. se_selection sel' \<noteq> Bound home' b) \<and> hf_config h' = hf_config h \<and> (hf_config h \<noteq> None \<longrightarrow> h' = h) \<or>
    (\<exists>sequencer b. se_selection sel' = Bound home b \<and> hf_config h' = Some (wallet_config_json jt sequencer) \<and>
       binding_holds tbl envs sequencer b \<and> hf_marker h' = marker_of jt b)"
proof (rule apply_plan_agrees [OF assms(4)])
  fix b
  assume a: "plan_home jt tbl hs home h env = Adopt b"
  then obtain t where c: "hf_config h = Some t" using plan_no_adopt by fastforce
  then obtain sequencer b' where "t = wallet_config_json jt sequencer" "binding_holds tbl envs sequencer b'"
    "hf_marker h = marker_of jt b'"
    using assms(2) unfolding files_agree_def by blast
  then show "\<exists>sequencer. hf_config h = Some (wallet_config_json jt sequencer) \<and> binding_holds tbl envs sequencer b \<and>
      hf_marker h = marker_of jt b"
    using plan_configured [OF assms(1), of h b' tbl hs home env] a c by auto
next
  fix sequencer b
  assume a: "plan_home jt tbl hs home h env = Provision sequencer b"
  then have "hf_config h = None" by (auto simp: plan_home_def split: if_splits sum.splits)
  then show "binding_holds tbl envs sequencer b \<and> hf_config h = None"
    using plan_unconfigured [OF _ a, of envs] assms(3) by (auto simp: insert_absorb)
qed

lemma files_agree_mono: "files_agree jt tbl envs h \<Longrightarrow> envs \<subseteq> envs' \<Longrightarrow> files_agree jt tbl envs' h"
  unfolding files_agree_def using binding_holds_mono by blast

lemma planned_keeps:
  assumes "(\<forall>home' b. se_selection sel' \<noteq> Bound home' b) \<and> hf_config h' = hf_config h \<and> (hf_config h \<noteq> None \<longrightarrow> h' = h) \<or>
    (\<exists>sequencer b. se_selection sel' = Bound home b \<and> hf_config h' = Some (wallet_config_json jt sequencer) \<and>
       binding_holds tbl envs sequencer b \<and> hf_marker h' = marker_of jt b)"
    and "files_agree jt tbl envs h"
  shows "files_agree jt tbl envs h' \<and> (\<forall>home b. se_selection sel' = Bound home b \<longrightarrow>
    (\<exists>sequencer. hf_config h' = Some (wallet_config_json jt sequencer) \<and>
       binding_holds tbl envs sequencer b \<and> hf_marker h' = marker_of jt b))"
  using assms by (cases "hf_config h") (auto simp: files_agree_def)

text \<open>What \<open>use_network\<close> does in each selection.\<close>

definition selected :: "json_text \<Rightarrow> network_entry list \<Rightarrow> env_view set \<Rightarrow> selector \<Rightarrow> home_files \<Rightarrow> bool" where
  "selected jt tbl envs sel h \<longleftrightarrow> files_agree jt tbl envs h \<and>
     (\<forall>home b. se_selection sel = Bound home b \<longrightarrow>
        (\<exists>sequencer. hf_config h = Some (wallet_config_json jt sequencer) \<and>
           binding_holds tbl envs sequencer b \<and> hf_marker h = marker_of jt b))"

lemma select_network_agrees:
  assumes "select_network jt tbl hs raw sel h = (reply, action, sel', h')" "json_roundtrip jt" "selected jt tbl envs sel h"
  shows "selected jt tbl envs sel' h'"
proof (cases "se_selection sel")
  case (Awaiting home)
  have files: "files_agree jt tbl envs h" using assms(3) by (simp add: selected_def)
  show ?thesis
  proof (cases "hf_config h = None")
    case False
    obtain act sel1 h1 where ap: "apply_plan jt hs home
        (plan_home jt tbl hs home h \<lparr> ev_sequencer = [], ev_network = [] \<rparr>) sel h = (act, sel1, h1)"
      by (metis prod_cases3)
    have "selected jt tbl envs sel1 h1"
      using planned_keeps [OF planned_agrees [OF assms(2) files _ ap] files] False by (simp add: selected_def)
    moreover have "h' = h1 \<and> se_selection sel' = se_selection sel1"
      using assms(1) Awaiting False ap by (auto simp: select_network_def split: selection.splits prod.splits)
    ultimately show ?thesis by (simp add: selected_def)
  next
    case True
    show ?thesis
    proof (cases "network_named tbl (to_ascii_lowercase (trim raw))")
      case None
      then show ?thesis using assms(1,3) Awaiting True by (auto simp: select_network_def)
    next
      case (Some n)
      let ?plan = "Provision (nw_sequencer n) (Recorded (nw_reference n) SourceTable)"
      obtain act sel1 h1 where ap: "apply_plan jt hs home ?plan sel h = (act, sel1, h1)"
        by (metis prod_cases3)
      have "binding_holds tbl envs (nw_sequencer n) (Recorded (nw_reference n) SourceTable)"
        using network_named_Some [OF Some] by (auto simp: binding_holds_def)
      then have "selected jt tbl envs sel1 h1"
        using planned_keeps [OF apply_plan_agrees [OF ap] files] True by (simp add: selected_def)
      moreover have "h' = h1 \<and> sel' = sel1"
        using assms(1) Awaiting True Some ap by (auto simp: select_network_def)
      ultimately show ?thesis by simp
    qed
  qed
qed (use assms(1,3) in \<open>auto simp: select_network_def selected_def split: prod.splits\<close>)

lemma spawn_agrees:
  assumes "spawn_bring_up jt tbl hs home_env env path sel h = (action, sel', h')" "json_roundtrip jt"
    "selected jt tbl envs sel h" "env \<in> envs"
  shows "selected jt tbl envs sel' h'"
proof -
  let ?c = "case home_env of Some dir \<Rightarrow> trim dir | None \<Rightarrow> []"
  have files: "files_agree jt tbl envs h" using assms(3) by (simp add: selected_def)
  show ?thesis
  proof (cases "se_selection sel = Unresolved \<and> \<not> (?c = [] \<and> path = [])")
    case True
    define home where "home = (if ?c \<noteq> [] then ?c else path_join path ''wallet-home'')"
    have ap: "apply_plan jt hs home (plan_home jt tbl hs home h env) sel h = (action, sel', h')"
      using assms(1) True unfolding home_def by (simp only: spawn_bring_up_def Let_def simp_thms if_False if_True)
    show ?thesis
      using planned_keeps [OF planned_agrees [OF assms(2) files _ ap] files] assms(4) by (simp add: selected_def)
  next
    case False
    then have "h' = h \<and> (sel' = sel \<or> (\<exists>r. se_selection sel' = SelectionFailed r))"
      using assms(1) by (auto simp: spawn_bring_up_def Let_def split: if_splits)
    then show ?thesis using assms(3) by (auto simp: selected_def)
  qed
qed

text \<open>Who gets an accepting answer.\<close>

lemma answer_bound_accepted:
  assumes "answer_bound home b reference noted = (reply, noted')" "nr_accepted reply"
  shows "b = Operator \<and> nr_source reply = ''operator'' \<or> (\<exists>src. b = Recorded reference src \<and> nr_source reply = source_str src)"
  using assms by (auto simp: answer_bound_def reply_refused_def split: binding.splits if_splits)

lemma select_network_accepted:
  assumes "select_network jt tbl hs raw sel h = (reply, action, sel', h')" "nr_accepted reply"
  shows "\<exists>home b. se_selection sel' = Bound home b \<and> (b = Operator \<and> nr_source reply = ''operator'' \<or>
    (\<exists>src. b = Recorded (to_ascii_lowercase (trim raw)) src \<and> nr_source reply = source_str src))"
proof (cases "se_selection sel")
  case (Bound home b)
  obtain reply1 noted where a: "answer_bound home b (to_ascii_lowercase (trim raw)) (se_operator_noted sel) = (reply1, noted)"
    by fastforce
  then have "reply = reply1 \<and> se_selection sel' = Bound home b"
    using assms(1) Bound by (auto simp: select_network_def)
  then show ?thesis using answer_bound_accepted [OF a] assms(2) by blast
next
  case (Awaiting home)
  show ?thesis
  proof (cases "hf_config h = None")
    case True
    then obtain n where n: "network_named tbl (to_ascii_lowercase (trim raw)) = Some n"
      using assms Awaiting
      by (cases "network_named tbl (to_ascii_lowercase (trim raw))") (auto simp: select_network_def reply_refused_def)
    obtain r h1 where p: "provision_home jt hs home (nw_sequencer n) (Recorded (nw_reference n) SourceTable) h = (r, h1)"
      by fastforce
    have ref: "nw_reference n = to_ascii_lowercase (trim raw)" using network_named_Some [OF n] by blast
    show ?thesis
      using assms Awaiting True n p
      by (cases r) (auto simp: select_network_def apply_plan_def reply_refused_def ref Let_def)
  next
    case False
    obtain act sel1 h1 where ap: "apply_plan jt hs home
        (plan_home jt tbl hs home h \<lparr> ev_sequencer = [], ev_network = [] \<rparr>) sel h = (act, sel1, h1)"
      by (metis prod_cases3)
    show ?thesis
    proof (cases "se_selection sel1")
      case (Bound home' b)
      obtain reply1 noted where a: "answer_bound home' b (to_ascii_lowercase (trim raw)) (se_operator_noted sel1) = (reply1, noted)"
        by fastforce
      then have "reply = reply1 \<and> se_selection sel' = Bound home' b"
        using assms(1) Awaiting False ap Bound by (auto simp: select_network_def)
      then show ?thesis using answer_bound_accepted [OF a] assms(2) by blast
    qed (use assms Awaiting False ap in \<open>auto simp: select_network_def reply_refused_def\<close>)
  qed
qed (use assms in \<open>auto simp: select_network_def reply_refused_def\<close>)

text \<open>A config that is there is never rewritten, whatever it says.\<close>

lemma apply_plan_keeps_config:
  assumes "apply_plan jt hs home (plan_home jt tbl hs home h env) sel h = (action, sel', h')" "hf_config h \<noteq> None"
  shows "hf_config h' = hf_config h"
  using assms by (auto simp: apply_plan_def plan_home_def split: sum.splits)

lemma select_network_keeps_config:
  assumes "select_network jt tbl hs raw sel h = (reply, action, sel', h')" "hf_config h \<noteq> None"
  shows "hf_config h' = hf_config h"
proof (cases "se_selection sel")
  case (Awaiting home)
  obtain act sel1 h1 where ap: "apply_plan jt hs home
      (plan_home jt tbl hs home h \<lparr> ev_sequencer = [], ev_network = [] \<rparr>) sel h = (act, sel1, h1)"
    by (metis prod_cases3)
  then have "h' = h1"
    using assms Awaiting by (auto simp: select_network_def split: selection.splits prod.splits)
  then show ?thesis using apply_plan_keeps_config [OF ap assms(2)] by simp
qed (use assms in \<open>auto simp: select_network_def split: prod.splits\<close>)

lemma net_step_keeps_config:
  assumes "net_step jt tbl s l s'" "hf_config (ns_files s) \<noteq> None"
  shows "hf_config (ns_files s') = hf_config (ns_files s)"
  using assms(1)
proof (cases rule: net_step.cases)
  case (net_ready hs home_env env path action sel h)
  then show ?thesis
    using assms(2) apply_plan_keeps_config
    by (auto simp: spawn_bring_up_def Let_def split: if_splits)
next
  case (net_use hs reference reply action sel h)
  then show ?thesis using select_network_keeps_config [OF net_use(3) assms(2)] by simp
next
  case (net_dies env sequencer b hs h)
  then show ?thesis using assms(2) by (simp add: provisioning_def)
qed simp

lemma net_trace_keeps_config:
  assumes "trace (net_step jt tbl) s ls s'" "hf_config (ns_files s) = Some t"
  shows "hf_config (ns_files s') = Some t"
  by (rule trace_invariant [OF assms(1), of "\<lambda>s. hf_config (ns_files s) = Some t"])
    (use assms(2) net_step_keeps_config in force)+

abbreviation net_selected :: "json_text \<Rightarrow> network_entry list \<Rightarrow> net_state \<Rightarrow> bool" where
  "net_selected jt tbl s \<equiv> selected jt tbl (ns_envs s) (ns_selector s) (ns_files s)"

lemma net_step_selected:
  assumes "net_step jt tbl s l s'" "json_roundtrip jt" "net_selected jt tbl s"
  shows "net_selected jt tbl s'"
  using assms(1)
proof (cases rule: net_step.cases)
  case (net_ready hs home_env env path action sel h)
  have "selected jt tbl (insert env (ns_envs s)) (ns_selector s) (ns_files s)"
    using assms(3) files_agree_mono [of jt tbl "ns_envs s"] binding_holds_mono [of tbl "ns_envs s"]
    unfolding selected_def by (meson subset_insertI)
  then show ?thesis
    using spawn_agrees [OF net_ready(3) assms(2)] net_ready(2) by simp
next
  case (net_use hs reference reply action sel h)
  then show ?thesis using select_network_agrees [OF net_use(3) assms(2,3)] by simp
next
  case net_restart
  then show ?thesis using assms(3) by (simp add: selected_def fresh_selector_def)
next
  case (net_dies env sequencer b hs h)
  then show ?thesis
    using write_marker_ok(2) [OF net_dies(4)] by (simp add: selected_def fresh_selector_def files_agree_def provisioning_def)
qed

lemma sequencer_of_written:
  "json_roundtrip jt \<Longrightarrow> sequencer_of_config jt (wallet_config_json jt sequencer) = nonempty_trimmed sequencer"
  by (simp add: sequencer_of_config_def wallet_config_json_def json_roundtrip_def)

text \<open>
  C25: an accepted network is the one the wallet talks to, for good. On a home that started
  unconfigured and that only this module writes, through any sequence of starts, choices, restarts and
  deaths between the two file writes: when \<open>use_network\<close> accepts a name, the home is configured for a
  sequencer that name was bound to (by the table or the environment, as the reply's source says, or by
  the operator's environment, where no name is checked), the wallet reads that sequencer back, trimmed,
  and no later step of any kind changes the config.
\<close>
theorem network_choice_truthful:
  assumes "json_roundtrip jt"
    and "trace (net_step jt tbl) \<lparr> ns_selector = fresh_selector, ns_files = \<lparr> hf_config = None, hf_marker = m \<rparr>, ns_envs = {} \<rparr> ls s"
    and "net_step jt tbl s (Some (UseNetwork hs reference reply)) s'" "nr_accepted reply"
    and "trace (net_step jt tbl) s' ls' s''"
  shows "\<exists>sequencer b. hf_config (ns_files s'') = Some (wallet_config_json jt sequencer) \<and>
    sequencer_of_config jt (wallet_config_json jt sequencer) = nonempty_trimmed sequencer \<and>
    binding_holds tbl (ns_envs s') sequencer b \<and>
    (b = Operator \<and> nr_source reply = ''operator'' \<or>
     (\<exists>src. b = Recorded (to_ascii_lowercase (trim reference)) src \<and> nr_source reply = source_str src))"
proof -
  have "net_selected jt tbl s"
    by (rule trace_invariant [OF assms(2), of "net_selected jt tbl"])
      (use net_step_selected [OF _ assms(1)] in \<open>auto simp: selected_def files_agree_def fresh_selector_def\<close>)
  then have sel: "net_selected jt tbl s'" using net_step_selected [OF assms(3,1)] by blast
  obtain action sel' h' where u: "select_network jt tbl hs reference (ns_selector s) (ns_files s) = (reply, action, sel', h')"
    "ns_selector s' = sel'"
    using assms(3) by (cases rule: net_step.cases) auto
  from select_network_accepted [OF u(1) assms(4)] obtain home b where b: "se_selection (ns_selector s') = Bound home b"
    "b = Operator \<and> nr_source reply = ''operator'' \<or>
     (\<exists>src. b = Recorded (to_ascii_lowercase (trim reference)) src \<and> nr_source reply = source_str src)"
    using u(2) by blast
  then obtain sequencer where q: "hf_config (ns_files s') = Some (wallet_config_json jt sequencer)"
    "binding_holds tbl (ns_envs s') sequencer b"
    using sel unfolding selected_def by blast
  then show ?thesis
    using net_trace_keeps_config [OF assms(5) q(1)] sequencer_of_written [OF assms(1)] b(2) by blast
qed

definition builtin_networks :: "network_entry list" where
  "builtin_networks =
     [\<lparr> nw_reference = ''devnet'',
        nw_description = ''LEZ devnet zone 2 (v0.2.5-rc3); used by logos-rln-e2e --target devnet, no delivery preset'',
        nw_sequencer = ''http://209.38.241.182:3140/'',
        nw_registries = [\<lparr> rg_deployment = ''devnet-z2'', rg_config_account = ''BbWaV7mqVx3kAk1h8rsjZ3cACzPrT4M2J7RVQSCXrDUU'',
          rg_tree_id = ''166d398596959b1ff0f2aa99d669f6b2db4da88677dd6a60a8a38267ec4400b9'',
          rg_registration_program_id = ''a908a461bf129a507a927fef446262c2428a082f846a78f88a816ba0153dfab1'',
          rg_merkle_program_id = ''a2eda7e5f8fe44b2d119db89ba16dafb1452fe128ed0d526829095fd7018492c'' \<rparr>] \<rparr>,
      \<lparr> nw_reference = ''testnet'',
        nw_description = ''LEZ testnet zone (v0.3.0, https://testnet.lez.logos.co) on the Logos blockchain testnet; '' @
          ''registry used by the logos-delivery-module logos.test preset'',
        nw_sequencer = ''https://testnet.lez.logos.co/'',
        nw_registries = [\<lparr> rg_deployment = ''testnet-v03-z3'', rg_config_account = ''J3NXPWUspX2zqJU3tUbR6MHmm83aJc5AzvidEaBBKnat'',
          rg_tree_id = ''4f3e8ef1b38ae86eb1e8180f6b864b10f0e5ff45b1a2e5ff84d8562b40fa0fc9'',
          rg_registration_program_id = ''eb53eb29132ef2a4ae1073ee206ac584a7aeea560146c3a600f5f4034703ca68'',
          rg_merkle_program_id = ''0a69f1b28291d32dc2d3442c2f333c22e5cfae891eb9a7e184b31c32156a8cee'' \<rparr>] \<rparr>]"

definition codec_text :: json_text where
  "codec_text = \<lparr> jt_parse = parse_enc, jt_render = enc_json \<rparr>"

lemma codec_text_roundtrip: "json_roundtrip codec_text"
  by (simp add: json_roundtrip_def codec_text_def)

definition calm_sys :: home_sys where
  "calm_sys = \<lparr> hs_create = None, hs_marker_read = None, hs_marker_write = Replaced, hs_marker_remove = None,
     hs_config_write = Replaced, hs_config_read = None \<rparr>"

definition no_env :: env_view where "no_env = \<lparr> ev_sequencer = [], ev_network = [] \<rparr>"

text \<open>A first start with nothing configured, then a consumer's choice.\<close>

lemma testnet_named: "network_named builtin_networks ''testnet'' = Some (builtin_networks ! 1)"
  by (simp add: network_named_def builtin_networks_def)

lemma testnet_trim: "to_ascii_lowercase (trim ''testnet'') = ''testnet''"
proof -
  have "trim ''testnet'' = ''testnet''" by (rule trim_graphic) (simp add: is_ascii_graphic_def less_eq_char_def)
  then show ?thesis by (simp add: to_ascii_lowercase_def lower_char_def is_ascii_uppercase_def less_eq_char_def)
qed

definition awaiting_state :: "string option \<Rightarrow> net_state" where
  "awaiting_state m = \<lparr> ns_selector = \<lparr> se_selection = Awaiting ''p/wallet-home'', se_operator_noted = False \<rparr>,
     ns_files = \<lparr> hf_config = None, hf_marker = m \<rparr>, ns_envs = {no_env} \<rparr>"

lemma first_start:
  "net_step codec_text tbl \<lparr> ns_selector = fresh_selector, ns_files = \<lparr> hf_config = None, hf_marker = m \<rparr>, ns_envs = {} \<rparr>
     (Some (ContextReady calm_sys None no_env ''p'')) (awaiting_state m)"
proof -
  have "spawn_bring_up codec_text tbl calm_sys None no_env ''p'' fresh_selector \<lparr> hf_config = None, hf_marker = m \<rparr> =
      (ActAwait, ns_selector (awaiting_state m), ns_files (awaiting_state m))"
    by (simp add: spawn_bring_up_def fresh_selector_def plan_home_def no_env_def apply_plan_def awaiting_state_def path_join_def)
  from net_ready [where s = "\<lparr> ns_selector = fresh_selector, ns_files = \<lparr> hf_config = None, hf_marker = m \<rparr>, ns_envs = {} \<rparr>",
      simplified, OF this]
  show ?thesis by (simp add: awaiting_state_def)
qed

lemma first_choice:
  "\<exists>reply s'. net_step codec_text builtin_networks (awaiting_state m) (Some (UseNetwork calm_sys ''testnet'' reply)) s' \<and>
     nr_accepted reply \<and> nr_source reply = ''table''"
proof -
  have "\<exists>reply action sel h. select_network codec_text builtin_networks calm_sys ''testnet''
      (ns_selector (awaiting_state m)) (ns_files (awaiting_state m)) = (reply, action, sel, h) \<and> nr_accepted reply \<and> nr_source reply = ''table''"
    by (simp add: select_network_def testnet_trim testnet_named awaiting_state_def apply_plan_def provision_home_def
        write_marker_def write_atomic_def calm_sys_def)
  then show ?thesis using net_use by blast
qed

theorem network_choice_truthful_witness:
  "\<exists>s s' reply sequencer b.
     net_step codec_text builtin_networks s (Some (UseNetwork calm_sys ''testnet'' reply)) s' \<and> nr_accepted reply \<and>
     hf_config (ns_files s') = Some (wallet_config_json codec_text sequencer) \<and>
     binding_holds builtin_networks (ns_envs s') sequencer b \<and> nr_source reply = ''table'' \<and> b = Recorded ''testnet'' SourceTable"
proof -
  obtain reply s' where u: "net_step codec_text builtin_networks (awaiting_state None) (Some (UseNetwork calm_sys ''testnet'' reply)) s'"
    "nr_accepted reply" "nr_source reply = ''table''"
    using first_choice by blast
  have t: "trace (net_step codec_text builtin_networks)
      \<lparr> ns_selector = fresh_selector, ns_files = \<lparr> hf_config = None, hf_marker = None \<rparr>, ns_envs = {} \<rparr>
      [Some (ContextReady calm_sys None no_env ''p'')] (awaiting_state None)"
    using first_start by (auto intro: trace_cons trace_nil)
  obtain sequencer b where q: "hf_config (ns_files s') = Some (wallet_config_json codec_text sequencer)"
    "binding_holds builtin_networks (ns_envs s') sequencer b"
    "b = Operator \<and> nr_source reply = ''operator'' \<or>
     (\<exists>src. b = Recorded (to_ascii_lowercase (trim ''testnet'')) src \<and> nr_source reply = source_str src)"
    using network_choice_truthful [OF codec_text_roundtrip t u(1,2) trace_nil] by blast
  have "b = Recorded ''testnet'' SourceTable"
  proof -
    from q(3) u(3) obtain src where src: "b = Recorded ''testnet'' src" "source_str src = ''table''"
      unfolding testnet_trim by auto
    then show ?thesis by (cases src) simp_all
  qed
  then show ?thesis using u q(1,2) by blast
qed

text \<open>How the other module reads the reply.\<close>

lemma interpret_reply:
  "interpret_use_network parse_enc (enc_json (reply_to_json r)) =
     (if nr_accepted r then Accepted else if nr_retry r then Retry else Refused (nr_detail r))"
  by (cases "nr_accepted r"; cases "nr_retry r") (simp_all add: interpret_use_network_def reply_to_json_def get_bool_def get_str_def del: enc_json.simps)

section \<open>A marker without its config\<close>

text \<open>
  A marker left by an interrupted provisioning binds a config it does not describe. If the process
  died between marker and config and the operator then stages a config of its own, the next start
  adopts that config under the dead provisioning's network: \<open>use_network\<close> accepts the name with
  source \<open>table\<close> and refuses every other, while the wallet talks to the staged sequencer.
\<close>
lemma stale_marker_mislabels:
  assumes "json_roundtrip jt" "n \<in> set tbl" "nw_reference n \<noteq> []"
    and "to_ascii_lowercase (trim reference) = nw_reference n"
    and "write_marker jt hs home (Recorded (nw_reference n) SourceTable) \<lparr> hf_config = None, hf_marker = m \<rparr> = Inr left_behind"
    and "hs_marker_read hs' = None" "path \<noteq> []"
  shows "\<exists>sel reply.
    spawn_bring_up jt tbl hs' None env path fresh_selector (left_behind \<lparr> hf_config := Some (wallet_config_json jt staged) \<rparr>) =
      (ActStart (path_join path ''wallet-home''), sel, left_behind \<lparr> hf_config := Some (wallet_config_json jt staged) \<rparr>) \<and>
    fst (select_network jt tbl hs' reference sel (left_behind \<lparr> hf_config := Some (wallet_config_json jt staged) \<rparr>)) = reply \<and>
    nr_accepted reply \<and> nr_source reply = ''table'' \<and> bound_network sel = Some (nw_reference n) \<and>
    sequencer_of_config jt (wallet_config_json jt staged) = nonempty_trimmed staged"
proof -
  let ?h = "left_behind \<lparr> hf_config := Some (wallet_config_json jt staged) \<rparr>"
  let ?b = "Recorded (nw_reference n) SourceTable"
  let ?home = "path_join path ''wallet-home''"
  have marker: "hf_marker ?h = Some (marker_text jt (nw_reference n) SourceTable)"
    using write_marker_ok(1) [OF assms(5)] by simp
  have "read_marker jt hs' ?home ?h = Inr (Some ?b)"
    using assms(1,3,6) marker by (simp add: read_marker_def marker_text_def json_roundtrip_def)
  then have "plan_home jt tbl hs' ?home ?h env = Adopt ?b" by (simp add: plan_home_def)
  then have ap: "apply_plan jt hs' ?home (plan_home jt tbl hs' ?home ?h env) fresh_selector ?h =
      (ActStart ?home, fresh_selector \<lparr> se_selection := Bound ?home ?b \<rparr>, ?h)"
    by (simp add: apply_plan_def)
  have "se_selection fresh_selector = Unresolved" by (simp add: fresh_selector_def)
  then have "spawn_bring_up jt tbl hs' None env path fresh_selector ?h =
      (ActStart ?home, fresh_selector \<lparr> se_selection := Bound ?home ?b \<rparr>, ?h)"
    using assms(7) ap by (simp only: spawn_bring_up_def Let_def option.case simp_thms if_False if_True)
  moreover have "fst (select_network jt tbl hs' reference (fresh_selector \<lparr> se_selection := Bound ?home ?b \<rparr>) ?h) =
      \<lparr> nr_accepted = True, nr_detail = [], nr_network = nw_reference n, nr_retry = False, nr_source = ''table'' \<rparr>"
    using assms(4) by (simp add: select_network_def answer_bound_def fresh_selector_def Let_def)
  ultimately show ?thesis
    using sequencer_of_written [OF assms(1)] by (simp add: bound_network_def)
qed

end
