(* ===== verification/Lez_Wallet.thy ===== *)
theory Lez_Wallet
  imports Lez_Network
begin

text \<open>
  The wallet the registry module owns (\<open>wallet.rs\<close>, the rest of it): bring-up with its endless open,
  the payer it settles on, readiness and the waits of the handlers, and the calls into the wallet
  library; and the reads of the sequencer (\<open>fee_state.rs\<close>). The library (\<open>wallet_ffi\<close>), the HTTP
  client (\<open>ureq\<close>), the file system and the environment answer through records of results. Log lines
  are left out; the stub library of the unit tests is not modelled.
\<close>

section \<open>Hex from the wire\<close>

definition strip_hex_prefix :: "string \<Rightarrow> string" where
  "strip_hex_prefix s =
     (let trimmed = trim s in
      case strip_prefix ''0x'' trimmed of
        Some r \<Rightarrow> r
      | None \<Rightarrow> (case strip_prefix ''0X'' trimmed of Some r \<Rightarrow> r | None \<Rightarrow> trimmed))"

definition hex_to_bytes :: "string \<Rightarrow> nat option \<Rightarrow> bytes option" where
  "hex_to_bytes hex expected_len =
     (let digits = strip_hex_prefix hex in
      if \<not> even (length digits) then None
      else case hex_pairs digits of
        None \<Rightarrow> None
      | Some out \<Rightarrow>
          (case expected_len of
             Some expected \<Rightarrow> if length out \<noteq> expected then None else Some out
           | None \<Rightarrow> Some out))"

definition lez_hex_to_bytes32 :: "string \<Rightarrow> bytes option" where
  "lez_hex_to_bytes32 hex = hex_to_bytes hex (Some 32)"

text \<open>Both modules read hex the same way.\<close>

lemma hex_to_bytes_vec [simp]: "hex_to_bytes s None = hex_to_vec s"
  by (auto simp: hex_to_bytes_def hex_to_vec_def strip_hex_prefix_def Let_def split: option.splits)

lemma lez_hex_to_bytes32_eq [simp]: "lez_hex_to_bytes32 = hex_to_bytes32"
  by (rule ext)
    (auto simp: lez_hex_to_bytes32_def hex_to_bytes_def hex_to_bytes32_def hex_to_vec_def strip_hex_prefix_def Let_def
      split: option.splits)

definition account_id_from_base58 :: "string \<Rightarrow> string" where
  "account_id_from_base58 s = (case decode32 (trim s) of Some bs \<Rightarrow> bytes_to_hex bs | None \<Rightarrow> [])"

definition fee_payer_env_hex :: "string option \<Rightarrow> string" where
  "fee_payer_env_hex var =
     (case var of
        None \<Rightarrow> []
      | Some raw \<Rightarrow>
          (let raw = trim raw in
           if raw = [] then []
           else if lez_hex_to_bytes32 raw \<noteq> None then to_ascii_lowercase raw
           else account_id_from_base58 raw))"

definition show_int :: "int \<Rightarrow> string" where
  "show_int i = (if i < 0 then ''-'' @ show_nat (nat (- i)) else show_nat (nat i))"

text \<open>\<open>CString::new\<close>: an interior NUL is the only refusal.\<close>

definition nul_check :: "string \<Rightarrow> string + unit" where
  "nul_check s =
     (case position (CHR 0x00) s of
        None \<Rightarrow> Inr ()
      | Some i \<Rightarrow> Inl (''nul byte found in provided data at position: '' @ show_nat i))"

definition cstring :: "string \<Rightarrow> string + unit" where
  "cstring path = map_err (\<lambda>e. path @ '': '' @ e) (nul_check path)"

section \<open>Opening\<close>

datatype readiness = Pending string | Ready | Failed string

record wallet_state =
  ws_readiness :: readiness
  ws_payer_hex :: string
  ws_wallet :: bool

definition initial_wallet_state :: wallet_state where
  "initial_wallet_state = \<lparr> ws_readiness = Pending [], ws_payer_hex = [], ws_wallet = False \<rparr>"

definition wallet_fail :: "string \<Rightarrow> wallet_state \<Rightarrow> wallet_state" where
  "wallet_fail reason st = st \<lparr> ws_readiness := Failed reason \<rparr>"

definition wallet_pending :: "string \<Rightarrow> wallet_state \<Rightarrow> wallet_state" where
  "wallet_pending detail st = st \<lparr> ws_readiness := Pending detail \<rparr>"

text \<open>One attempt: whether the storage exists, and whether the library hands back a handle.\<close>

definition open_or_create :: "string \<Rightarrow> string \<Rightarrow> bool \<Rightarrow> bool \<Rightarrow> string + unit" where
  "open_or_create config storage exists handle =
     and_then (cstring config) (\<lambda>_.
     and_then (cstring storage) (\<lambda>_.
     if exists
     then (if handle then Inr () else Inl (''open '' @ storage @ '' returned no handle''))
     else (if handle then Inr () else Inl (''create_new at '' @ storage @ '' returned no handle''))))"

definition LATCH_AFTER :: nat where "LATCH_AFTER = 600"

definition open_detail :: "string \<Rightarrow> nat \<Rightarrow> nat \<Rightarrow> string" where
  "open_detail e waited attempt =
     (if LATCH_AFTER \<le> waited
      then ''cannot open the wallet after '' @ show_nat waited @ ''s and '' @ show_nat attempt @ '' attempts '' @ em_dash @
        '' is the sequencer reachable? last error: '' @ e
      else ''opening the wallet: '' @ e)"

definition open_retry_interval :: "nat \<Rightarrow> nat" where
  "open_retry_interval waited = (if waited < 60 then 5 else if waited < 600 then 30 else 300)"

function sleep_in_slices :: "nat \<Rightarrow> nat list" where
  "sleep_in_slices left =
     (if left > 0 then (let step = (if left < 5 then left else 5) in step # sleep_in_slices (left - step)) else [])"
  by pat_completeness auto

termination
  by (relation "measure id") (auto simp: Let_def split: if_splits)

declare sleep_in_slices.simps [simp del]

text \<open>
  The loop: what each attempt yields and the seconds passed when it has. The result lists the details
  published and the sleeps taken; no result means it never returns.
\<close>

partial_function (option) open_with_retry ::
  "(nat \<Rightarrow> string + unit) \<Rightarrow> (nat \<Rightarrow> nat) \<Rightarrow> nat \<Rightarrow> (nat \<times> (string \<times> nat list) list) option"
where
  "open_with_retry attempt_result elapsed attempt =
     (case attempt_result attempt of
        Inr _ \<Rightarrow> Some (attempt, [])
      | Inl e \<Rightarrow>
          (let waited = elapsed attempt in
           Option.bind (open_with_retry attempt_result elapsed (Suc attempt)) (\<lambda>(k, ps).
           Some (k, (open_detail e waited attempt, sleep_in_slices (open_retry_interval waited)) # ps))))"

lemma open_with_retry_from:
  assumes "attempt_result k = Inr ()" "\<forall>i. n \<le> i \<and> i < k \<longrightarrow> attempt_result i = Inl (err i)" "n \<le> k"
  shows "open_with_retry attempt_result elapsed n =
    Some (k, map (\<lambda>i. (open_detail (err i) (elapsed i) i, sleep_in_slices (open_retry_interval (elapsed i)))) [n..<k])"
  using assms(3,2)
proof (induction rule: inc_induct)
  case base
  then show ?case using assms(1) by (subst open_with_retry.simps) simp
next
  case (step n)
  have "attempt_result n = Inl (err n)" using step by simp
  then show ?case using step by (subst open_with_retry.simps) (simp add: upt_conv_Cons Let_def)
qed

lemma open_with_retry_succeeds:
  assumes "open_with_retry attempt_result elapsed n = Some r"
  shows "n \<le> fst r \<and> attempt_result (fst r) = Inr ()"
proof (rule open_with_retry.raw_induct [OF _ assms])
  fix f attempt_result elapsed n r
  assume IH: "\<And>a e i r. f a e i = Some r \<Longrightarrow> i \<le> fst r \<and> a (fst r) = Inr ()"
    and step: "(case attempt_result n of
        Inr _ \<Rightarrow> Some (n, [])
      | Inl e \<Rightarrow>
          (let waited = elapsed n in
           Option.bind (f attempt_result elapsed (Suc n)) (\<lambda>(k, ps).
           Some (k, (open_detail e waited n, sleep_in_slices (open_retry_interval waited)) # ps)))) = Some r"
  show "n \<le> fst r \<and> attempt_result (fst r) = Inr ()"
  proof (cases "attempt_result n")
    case (Inl e)
    then obtain k ps where "f attempt_result elapsed (Suc n) = Some (k, ps)" "fst r = k"
      using step by (auto simp: Let_def bind_eq_Some_conv)
    then show ?thesis using IH [of attempt_result elapsed "Suc n"] by simp
  next
    case (Inr u)
    then show ?thesis using step by auto
  qed
qed

section \<open>The payer\<close>

datatype plain_write = Written | NotWritten string "string option"

text \<open>
  What the environment, the wallet library and the file system answer while a payer is resolved. A
  failed plain write reports an error and leaves some content behind. \<open>save\<close> answers a code that the
  code only logs.
\<close>

record payer_sys =
  ps_env :: "string option"
  ps_read :: "string option"
  ps_derive :: "int + bytes"
  ps_save :: int
  ps_write :: plain_write

definition PAYER_FILE :: string where "PAYER_FILE = ''payer.json''"
definition PAYER_KEY_ENV :: string where "PAYER_KEY_ENV = ''LEZ_RLN_PAYER_KEY''"

definition trim_quotes :: "string \<Rightarrow> string" where
  "trim_quotes s = rev (dropWhile (\<lambda>c. c = CHR 0x22) (rev (dropWhile (\<lambda>c. c = CHR 0x22) s)))"

definition recorded_payer :: "string \<Rightarrow> string" where
  "recorded_payer raw = to_ascii_lowercase (trim_quotes (trim raw))"

definition resolve_payer :: "'z payer_sys_scheme \<Rightarrow> string \<Rightarrow> string option \<Rightarrow> (string + string) \<times> string option" where
  "resolve_payer ps home payer_file =
     (let configured = fee_payer_env_hex (ps_env ps);
          recorded = path_join home PAYER_FILE
      in if configured \<noteq> [] then (Inr configured, payer_file)
         else case (if ps_read ps = None then payer_file else None) of
           Some raw \<Rightarrow>
             (let id = recorded_payer raw in
              (if lez_hex_to_bytes32 id \<noteq> None then Inr id
               else Inl (recorded @ '' does not contain a 32-byte hex account id''), payer_file))
         | None \<Rightarrow>
             (case ps_derive ps of
                Inl rc \<Rightarrow> (Inl (''deriving a payer account failed (code '' @ show_int rc @ '')''), payer_file)
              | Inr out \<Rightarrow>
                  (let id = bytes_to_hex out in
                   case ps_write ps of
                     Written \<Rightarrow> (Inr id, Some id)
                   | NotWritten e left \<Rightarrow> (Inl (''write '' @ recorded @ '': '' @ e), left))))"

section \<open>Bring-up\<close>

record bring_sys = payer_sys +
  bs_create :: "string option"
  bs_exists :: "nat \<Rightarrow> bool"
  bs_handle :: "nat \<Rightarrow> bool"
  bs_elapsed :: "nat \<Rightarrow> nat"
  bs_key :: "string option"
  bs_import :: "string \<Rightarrow> int"
  bs_head :: "int + u64"
  bs_sync :: "u64 \<Rightarrow> int"

definition import_payer_key :: "'z bring_sys_scheme \<Rightarrow> string + unit" where
  "import_payer_key bs =
     (case bs_key bs of
        None \<Rightarrow> Inr ()
      | Some raw \<Rightarrow>
          (let raw = trim raw in
           if raw = [] then Inr ()
           else if lez_hex_to_bytes32 raw = None then Inl (PAYER_KEY_ENV @ '' is not 32-byte hex'')
           else and_then (nul_check raw) (\<lambda>_.
             let rc = bs_import bs raw in
             if rc \<noteq> 0 then Inl (PAYER_KEY_ENV @ '' import failed (code '' @ show_int rc @ '')'') else Inr ())))"

definition wallet_sync :: "'z bring_sys_scheme \<Rightarrow> string + u64" where
  "wallet_sync bs =
     (case bs_head bs of
        Inl rc \<Rightarrow> Inl (''chain head unavailable (code '' @ show_int rc @ '')'')
      | Inr head \<Rightarrow>
          (let rc = bs_sync bs head in
           if rc \<noteq> 0 then Inl (''sync to '' @ show_nat (unat head) @ '' failed (code '' @ show_int rc @ '')'') else Inr head))"

definition bring_up_open :: "'z bring_sys_scheme \<Rightarrow> string \<Rightarrow> (nat \<times> (string \<times> nat list) list) option" where
  "bring_up_open bs home =
     open_with_retry
       (\<lambda>n. open_or_create (path_join home CONFIG_FILE) (path_join home ''storage.json'') (bs_exists bs n) (bs_handle bs n))
       (bs_elapsed bs) 1"

text \<open>
  What follows a successful open. The result of the sync is only logged: it does not enter the state.
\<close>

definition bring_up_opened ::
  "'z bring_sys_scheme \<Rightarrow> string \<Rightarrow> string option \<Rightarrow> wallet_state \<Rightarrow> wallet_state \<times> string option"
where
  "bring_up_opened bs home payer_file st =
     (case import_payer_key bs of
        Inl e \<Rightarrow> (wallet_fail e st, payer_file)
      | Inr _ \<Rightarrow>
          (case resolve_payer bs home payer_file of
             (Inl e, payer_file') \<Rightarrow> (wallet_fail e st, payer_file')
           | (Inr payer_hex, payer_file') \<Rightarrow>
               (st \<lparr> ws_wallet := True, ws_payer_hex := payer_hex, ws_readiness := Ready \<rparr>, payer_file')))"

text \<open>The states published one after the other, and the payer file; no result: it is still opening.\<close>

definition bring_up ::
  "'z bring_sys_scheme \<Rightarrow> string \<Rightarrow> string option \<Rightarrow> wallet_state \<Rightarrow> (wallet_state list \<times> string option) option"
where
  "bring_up bs home payer_file st =
     (case bs_create bs of
        Some e \<Rightarrow> Some ([wallet_fail (''create '' @ home @ '': '' @ e) st], payer_file)
      | None \<Rightarrow>
          (case bring_up_open bs home of
             None \<Rightarrow> None
           | Some (attempt, waits) \<Rightarrow>
               (let details = map (\<lambda>(d, _). wallet_pending d st) waits;
                    (st', payer_file') = bring_up_opened bs home payer_file (last (st # details))
                in Some (details @ [st'], payer_file'))))"

section \<open>Waiting for the wallet\<close>

text \<open>
  A handler sees the state, and while it is pending the state after each wakeup of its wait; when no
  more wakeups come within the bound the wait times out, and the state is not looked at again.
\<close>

fun wallet :: "wallet_state \<Rightarrow> wallet_state list \<Rightarrow> bool" where
  "wallet st wakes =
     (case ws_readiness st of
        Ready \<Rightarrow> ws_wallet st
      | Failed _ \<Rightarrow> False
      | Pending _ \<Rightarrow> (case wakes of [] \<Rightarrow> False | st' # rest \<Rightarrow> wallet st' rest))"

declare wallet.simps [simp del]

definition status_json :: "wallet_state \<Rightarrow> selector \<Rightarrow> json" where
  "status_json st sel =
     (let network = (case bound_network sel of Some n \<Rightarrow> n | None \<Rightarrow> []);
          (name, detail) =
            (case ws_readiness st of
               Ready \<Rightarrow> (''ready'', [])
             | Pending d \<Rightarrow> (if d = [] then (''pending'', ''opening the wallet'') else (''pending'', d))
             | Failed reason \<Rightarrow> (''failed'', reason))
      in JObj [(''detail'', JStr detail), (''network'', JStr network), (''payer'', JStr (ws_payer_hex st)),
           (''ready'', JBool (name = ''ready'')), (''state'', JStr name)])"

section \<open>Carrying out a choice\<close>

definition AWAIT_DETAIL :: string where
  "AWAIT_DETAIL = ''no network selected '' @ em_dash @ '' no wallet_config.json, LEZ_RLN_SEQUENCER unset; '' @
     ''liblogos_rln_module.start selects one from its registry ids''"

text \<open>
  The third component of the result is the home a bring-up thread was started for. \<open>begun\<close> is the flag
  that admits one bring-up per process; \<open>spawn_error\<close> what the thread builder answers.
\<close>

definition start_bring_up :: "string option \<Rightarrow> string \<Rightarrow> bool \<Rightarrow> wallet_state \<Rightarrow> bool \<times> wallet_state \<times> string option" where
  "start_bring_up spawn_error home begun st =
     (if begun then (True, st, None)
      else case spawn_error of
        None \<Rightarrow> (True, st, Some home)
      | Some e \<Rightarrow> (False, wallet_fail (''cannot spawn the wallet bring-up thread: '' @ e) st, None))"

definition perform :: "string option \<Rightarrow> select_action \<Rightarrow> bool \<Rightarrow> wallet_state \<Rightarrow> bool \<times> wallet_state \<times> string option" where
  "perform spawn_error action begun st =
     (case action of
        ActNone \<Rightarrow> (begun, st, None)
      | ActStart home \<Rightarrow> start_bring_up spawn_error home begun st
      | ActAwait \<Rightarrow> (begun, wallet_pending AWAIT_DETAIL st, None)
      | ActFail reason \<Rightarrow> (begun, wallet_fail reason st, None))"

section \<open>Slices of a sleep\<close>

lemma sleep_in_slices_step:
  "sleep_in_slices n = (if n = 0 then [] else min n 5 # sleep_in_slices (n - min n 5))"
  by (subst sleep_in_slices.simps) (simp add: Let_def min_def)

lemma sleep_in_slices_sum: "sum_list (sleep_in_slices n) = n \<and> (\<forall>k \<in> set (sleep_in_slices n). 0 < k \<and> k \<le> 5)"
proof (induction n rule: less_induct)
  case (less n)
  show ?case
  proof (cases "n = 0")
    case True
    then show ?thesis by (simp add: sleep_in_slices_step [of 0])
  next
    case False
    define k where "k = min n 5"
    have k: "0 < k" "k \<le> 5" "k \<le> n" using False by (simp_all add: k_def)
    have e: "sleep_in_slices n = k # sleep_in_slices (n - k)"
      using False unfolding k_def by (subst sleep_in_slices_step) simp
    have "sum_list (sleep_in_slices (n - k)) = n - k" "\<forall>j \<in> set (sleep_in_slices (n - k)). 0 < j \<and> j \<le> 5"
      using less [of "n - k"] k by simp_all
    then show ?thesis using k unfolding e by simp
  qed
qed

section \<open>The payer is decided once\<close>

lemma to_ascii_lowercase_hex [simp]: "to_ascii_lowercase (bytes_to_hex bs) = bytes_to_hex bs"
proof -
  have "lower_char c = c" if "c \<in> set (bytes_to_hex bs)" for c
  proof -
    have d: "\<forall>c \<in> set HEX. lower_char c = c" by (simp add: HEX_def lower_char_def is_ascii_uppercase_def less_eq_char_def)
    have "length HEX = 16" by (simp add: HEX_def)
    then have "c \<in> set HEX"
      using that nibbles_less by (auto simp: bytes_to_hex_def hex_of_byte_def)
    then show ?thesis using d by blast
  qed
  then show ?thesis by (simp add: to_ascii_lowercase_def map_idI)
qed

lemma trim_quotes_hex: "trim_quotes (bytes_to_hex bs) = bytes_to_hex bs"
proof -
  have "c \<noteq> CHR 0x22" if "c \<in> set (bytes_to_hex bs)" for c
    using bytes_to_hex_alphanumeric [of bs] that by (auto simp: ascii_defs less_eq_char_def is_ascii_alphanumeric_def)
  moreover have w: "dropWhile P s = s" if "\<forall>c \<in> set s. \<not> P c" for P and s :: string
    using that by (cases s) simp_all
  ultimately have "dropWhile (\<lambda>c. c = CHR 0x22) (bytes_to_hex bs) = bytes_to_hex bs"
    "dropWhile (\<lambda>c. c = CHR 0x22) (rev (bytes_to_hex bs)) = rev (bytes_to_hex bs)"
    by (simp_all add: w)
  then show ?thesis by (simp add: trim_quotes_def)
qed

lemma recorded_payer_hex [simp]: "recorded_payer (bytes_to_hex bs) = bytes_to_hex bs"
  by (simp add: recorded_payer_def trim_bytes_to_hex trim_quotes_hex)

lemma resolve_unconfigured:
  assumes "resolve_payer ps home f = (Inr payer, f')" "fee_payer_env_hex (ps_env ps) = []"
  shows "\<exists>raw. f' = Some raw \<and> recorded_payer raw = payer \<and> (f = Some raw \<or> (\<exists>bs. ps_derive ps = Inr bs \<and> payer = bytes_to_hex bs))"
  using assms
  by (auto simp: resolve_payer_def Let_def split: option.splits if_splits sum.splits plain_write.splits)

text \<open>Bring-ups of later processes, each with its own environment and its own answers.\<close>

fun later_bring_ups :: "payer_sys list \<Rightarrow> string \<Rightarrow> string option \<Rightarrow> string option" where
  "later_bring_ups [] home f = f"
| "later_bring_ups (ps # rest) home f = later_bring_ups rest home (snd (resolve_payer ps home f))"

lemma recorded_stays:
  assumes "f = Some raw" "ps_read ps = None"
  shows "snd (resolve_payer ps home f) = f"
  using assms by (auto simp: resolve_payer_def Let_def)

text \<open>
  The payer is decided once. When a bring-up with no \<open>LEZ_RLN_PAYER\<close> settled on a payer, recorded or
  derived, then as long as no later start fails to read the record, every later start with no
  \<open>LEZ_RLN_PAYER\<close> settles on the same payer whatever the wallet would derive, and leaves the record as
  it is.
\<close>
lemma payer_kept:
  assumes "resolve_payer ps home f = (Inr payer, f')" "fee_payer_env_hex (ps_env ps) = []"
    and "\<forall>bs. ps_derive ps = Inr bs \<longrightarrow> length bs = 32"
    and "\<forall>ps' \<in> set later. ps_read ps' = None"
    and "fee_payer_env_hex (ps_env next) = []" "ps_read next = None"
  shows "resolve_payer next home (later_bring_ups later home f') = (Inr payer, f')"
proof -
  obtain raw where raw: "f' = Some raw" "recorded_payer raw = payer"
    "f = Some raw \<or> (\<exists>bs. ps_derive ps = Inr bs \<and> payer = bytes_to_hex bs)"
    using resolve_unconfigured [OF assms(1,2)] by blast
  have stays: "later_bring_ups later home f' = f'"
    using assms(4) by (induction later) (simp_all add: recorded_stays [OF raw(1)])
  have "hex_to_bytes32 payer \<noteq> None"
  proof (cases "\<exists>bs. ps_derive ps = Inr bs \<and> payer = bytes_to_hex bs")
    case True
    then show ?thesis using assms(3) by auto
  next
    case False
    then have "f = Some raw" using raw(3) by blast
    then show ?thesis
      using assms(1,2) raw(2) False
      by (auto simp: resolve_payer_def Let_def split: option.splits if_splits sum.splits plain_write.splits)
  qed
  then show ?thesis
    using assms(5,6) raw(1,2) unfolding stays by (simp add: resolve_payer_def Let_def)
qed

definition first_start_sys :: payer_sys where
  "first_start_sys = \<lparr> ps_env = None, ps_read = None, ps_derive = Inr (replicate 32 0x11), ps_save = 0, ps_write = Written \<rparr>"

definition second_start_sys :: payer_sys where
  "second_start_sys = first_start_sys \<lparr> ps_derive := Inr (replicate 32 0x22) \<rparr>"

lemma fee_payer_unset [simp]: "fee_payer_env_hex None = []"
  by (simp add: fee_payer_env_hex_def)

lemma derived_first:
  "fee_payer_env_hex (ps_env ps) = [] \<Longrightarrow> ps_derive ps = Inr bs \<Longrightarrow> ps_write ps = Written \<Longrightarrow> f = None \<or> ps_read ps \<noteq> None \<Longrightarrow>
     resolve_payer ps home f = (Inr (bytes_to_hex bs), Some (bytes_to_hex bs))"
  by (auto simp: resolve_payer_def Let_def)

text \<open>
  A start that cannot read the record replaces it. Any read error is taken for a missing record: a
  new account is derived and written over the funded one, and every later start pays from the new
  account.
\<close>
lemma payer_record_lost:
  assumes "fee_payer_env_hex (ps_env ps) = []" "ps_read ps = Some e" "ps_derive ps = Inr bs" "length bs = 32" "ps_write ps = Written"
    and "fee_payer_env_hex (ps_env next) = []" "ps_read next = None"
  shows "resolve_payer ps home (Some funded) = (Inr (bytes_to_hex bs), Some (bytes_to_hex bs)) \<and>
    resolve_payer next home (Some (bytes_to_hex bs)) = (Inr (bytes_to_hex bs), Some (bytes_to_hex bs))"
  using derived_first [OF assms(1,3,5), of "Some funded" home] assms(2,4,6,7)
  by (simp add: resolve_payer_def Let_def)

section \<open>Bring-up settles\<close>

lemma trim_Nil [simp]: "trim [] = []"
  by (rule trim_graphic) simp

lemma hex_to_bytes32_Nil [simp]: "hex_to_bytes32 [] = None"
  by (simp add: hex_to_bytes32_def hex_to_vec_def strip_prefix_def)

abbreviation attempt_of :: "'z bring_sys_scheme \<Rightarrow> string \<Rightarrow> nat \<Rightarrow> string + unit" where
  "attempt_of bs home n \<equiv>
     open_or_create (path_join home CONFIG_FILE) (path_join home ''storage.json'') (bs_exists bs n) (bs_handle bs n)"

lemma bring_up_open_iff: "(\<exists>r. bring_up_open bs home = Some r) \<longleftrightarrow> (\<exists>n \<ge> 1. attempt_of bs home n = Inr ())"
proof
  assume "\<exists>r. bring_up_open bs home = Some r"
  then show "\<exists>n \<ge> 1. attempt_of bs home n = Inr ()"
    using open_with_retry_succeeds unfolding bring_up_open_def by blast
next
  assume "\<exists>n \<ge> 1. attempt_of bs home n = Inr ()"
  then obtain m where m: "1 \<le> m \<and> attempt_of bs home m = Inr ()" by blast
  define k where "k = (LEAST n. 1 \<le> n \<and> attempt_of bs home n = Inr ())"
  have k: "1 \<le> k \<and> attempt_of bs home k = Inr ()" unfolding k_def by (rule LeastI [of "\<lambda>n. 1 \<le> n \<and> attempt_of bs home n = Inr ()", OF m])
  have "\<exists>e. attempt_of bs home i = Inl e" if "1 \<le> i \<and> i < k" for i
    using not_less_Least [of i "\<lambda>n. 1 \<le> n \<and> attempt_of bs home n = Inr ()"] that
    by (cases "attempt_of bs home i") (auto simp: k_def)
  then obtain err where "\<forall>i. 1 \<le> i \<and> i < k \<longrightarrow> attempt_of bs home i = Inl (err i)" by metis
  then show "\<exists>r. bring_up_open bs home = Some r"
    using open_with_retry_from [of "attempt_of bs home" k 1 err] k unfolding bring_up_open_def by auto
qed

lemma resolve_payer_nonempty:
  assumes "resolve_payer ps home f = (Inr payer, f')" "\<forall>bs. ps_derive ps = Inr bs \<longrightarrow> bs \<noteq> []"
  shows "payer \<noteq> []"
  using assms
  by (auto simp: resolve_payer_def Let_def bytes_to_hex_def hex_of_byte_def split: option.splits if_splits sum.splits plain_write.splits
      simp del: length_bytes_to_hex)

lemma bring_up_opened_settles:
  assumes "bring_up_opened bs home f st = (st', f')" "\<forall>d. ps_derive bs = Inr d \<longrightarrow> d \<noteq> []"
  shows "(\<exists>reason. ws_readiness st' = Failed reason) \<or> ws_readiness st' = Ready \<and> ws_wallet st' \<and> ws_payer_hex st' \<noteq> []"
  using assms resolve_payer_nonempty [OF _ assms(2), of home f]
  by (auto simp: bring_up_opened_def wallet_fail_def split: sum.splits prod.splits)

text \<open>
  C30: bring-up comes to an end exactly when it can. It returns if and only if the home cannot be
  created or some attempt opens the wallet, however late; what it publishes until then is pending, and
  its last state is failed, or ready with a handle and a payer.
\<close>
theorem bring_up_settles:
  assumes "\<forall>d. ps_derive bs = Inr d \<longrightarrow> length d = 32"
  shows "((\<exists>r. bring_up bs home f st = Some r) \<longleftrightarrow>
      bs_create bs \<noteq> None \<or> (\<exists>n \<ge> 1. attempt_of bs home n = Inr ())) \<and>
    (\<forall>states f'. bring_up bs home f st = Some (states, f') \<longrightarrow> states \<noteq> [] \<and>
      (\<forall>s \<in> set (butlast states). \<exists>d. ws_readiness s = Pending d) \<and>
      ((\<exists>reason. ws_readiness (last states) = Failed reason) \<or>
       ws_readiness (last states) = Ready \<and> ws_wallet (last states) \<and> ws_payer_hex (last states) \<noteq> []))"
proof (cases "bs_create bs")
  case None
  have d: "\<forall>d. ps_derive bs = Inr d \<longrightarrow> d \<noteq> []" using assms by auto
  have "(\<exists>r. bring_up bs home f st = Some r) \<longleftrightarrow> (\<exists>r. bring_up_open bs home = Some r)"
    using None by (auto simp: bring_up_def Let_def split: option.splits prod.splits)
  moreover have "states \<noteq> [] \<and> (\<forall>s \<in> set (butlast states). \<exists>d. ws_readiness s = Pending d) \<and>
      ((\<exists>reason. ws_readiness (last states) = Failed reason) \<or>
       ws_readiness (last states) = Ready \<and> ws_wallet (last states) \<and> ws_payer_hex (last states) \<noteq> [])"
    if run: "bring_up bs home f st = Some (states, f')" for states f'
  proof -
    obtain k waits where o: "bring_up_open bs home = Some (k, waits)"
      using run None by (cases "bring_up_open bs home") (auto simp: bring_up_def)
    obtain st' where e: "states = map (\<lambda>(d, _). wallet_pending d st) waits @ [st']"
      "bring_up_opened bs home f (last (st # map (\<lambda>(d, _). wallet_pending d st) waits)) = (st', f')"
      using run None o by (auto simp: bring_up_def Let_def split: prod.splits)
    have "\<forall>s \<in> set (butlast states). \<exists>d. ws_readiness s = Pending d" by (auto simp: e(1) wallet_pending_def)
    then show ?thesis using bring_up_opened_settles [OF e(2) d] by (simp add: e(1))
  qed
  ultimately show ?thesis using bring_up_open_iff [of bs home] None by blast
next
  case (Some e)
  then show ?thesis by (auto simp: bring_up_def wallet_fail_def)
qed

definition slow_chain_sys :: bring_sys where
  "slow_chain_sys = \<lparr> ps_env = None, ps_read = None, ps_derive = Inr (replicate 32 0x11), ps_save = 0, ps_write = Written,
     bs_create = None, bs_exists = (\<lambda>n. True), bs_handle = (\<lambda>n. n = 100), bs_elapsed = (\<lambda>n. 30 * n), bs_key = None,
     bs_import = (\<lambda>_. 0), bs_head = Inl 3, bs_sync = (\<lambda>_. 0) \<rparr>"

theorem bring_up_settles_witness:
  "\<exists>states f'. bring_up slow_chain_sys ''h'' None initial_wallet_state = Some (states, f') \<and> states \<noteq> []"
proof -
  have len: "\<forall>d. ps_derive slow_chain_sys = Inr d \<longrightarrow> length d = 32" by (auto simp: slow_chain_sys_def)
  have "attempt_of slow_chain_sys ''h'' 100 = Inr ()"
    by (simp add: slow_chain_sys_def open_or_create_def cstring_def nul_check_def path_join_def CONFIG_FILE_def)
  then have "\<exists>n \<ge> 1. attempt_of slow_chain_sys ''h'' n = Inr ()" by (intro exI [of _ 100]) simp
  then show ?thesis
    using bring_up_settles [OF len, of "''h''" None initial_wallet_state] by (metis prod.collapse)
qed

end
