(* ===== verification/Lez_Chain.thy ===== *)
theory Lez_Chain
  imports Lez_Wallet
begin

text \<open>
  The calls a handler of the registry module makes: into the wallet library (accounts, sends, balances)
  and to the sequencer over HTTP (\<open>wallet.rs\<close>, \<open>fee_state.rs\<close>). What one call meets is the record
  \<open>lez_env\<close>: the wallet state and the wakeups of its wait, the selection and the home's files, and the
  answers of the library and the HTTP client. A handler that makes several calls takes one such record
  per call.
\<close>

section \<open>One call's surroundings\<close>

record ffi_account =
  fa_shards :: "(bytes \<times> bytes) list"
  fa_nonce :: bytes

record submission =
  sx_mentions :: "(bytes \<times> bool \<times> bytes) list"
  sx_instruction :: bytes
  sx_program :: bytes
  sx_payer :: "bytes option"

record lez_env =
  le_text :: json_text
  le_state :: wallet_state
  le_wakes :: "wallet_state list"
  le_payer_env :: "string option"
  le_selector :: selector
  le_home_sys :: home_sys
  le_files :: home_files
  le_account :: "bytes \<Rightarrow> int + ffi_account"
  le_balance :: "bytes \<Rightarrow> int + bytes"
  le_send :: "submission \<Rightarrow> int + bool \<times> string option"
  le_http :: "string \<Rightarrow> string \<Rightarrow> string + string"

definition render :: "lez_env \<Rightarrow> json \<Rightarrow> string" where
  "render e = jt_render (le_text e)"

definition parse_doc :: "lez_env \<Rightarrow> string \<Rightarrow> string + json" where
  "parse_doc e = jt_parse (le_text e)"

definition ok :: "'e + 'a \<Rightarrow> 'a option" where
  "ok r = (case r of Inl _ \<Rightarrow> None | Inr x \<Rightarrow> Some x)"

lemma ok_simps [simp]: "ok (Inl e) = None" "ok (Inr x) = Some x" "ok r = Some x \<longleftrightarrow> r = Inr x"
  by (simp_all add: ok_def split: sum.splits)

section \<open>Accounts\<close>

fun shard_map :: "(bytes \<times> bytes) list \<Rightarrow> (string, json) btmap \<Rightarrow> (string, json) btmap" where
  "shard_map [] m = m"
| "shard_map ((program, data) # rest) m =
     shard_map rest (bt_insert (bytes_to_hex program) (JStr (bytes_to_hex data)) m)"

definition account_json :: "ffi_account \<Rightarrow> json" where
  "account_json a = JObj
     [(''nonce'', JStr (show_nat (unat (from_le_bytes (fa_nonce a) :: u128)))), (''shards'', JObj (shard_map (fa_shards a) []))]"

definition get_account_public :: "lez_env \<Rightarrow> string \<Rightarrow> string" where
  "get_account_public e account_id_hex =
     (case lez_hex_to_bytes32 account_id_hex of
        None \<Rightarrow> []
      | Some acct \<Rightarrow>
          if \<not> wallet (le_state e) (le_wakes e) then []
          else case le_account e acct of
            Inl rc \<Rightarrow> []
          | Inr account \<Rightarrow> render e (account_json account))"

section \<open>Sending\<close>

record mention =
  mn_account_hex :: string
  mn_signs :: bool
  mn_shard_program_hex :: string

fun ffi_mentions :: "mention list \<Rightarrow> (bytes \<times> bool \<times> bytes) list option" where
  "ffi_mentions [] = Some []"
| "ffi_mentions (m # rest) =
     (case lez_hex_to_bytes32 (mn_account_hex m) of
        None \<Rightarrow> None
      | Some account \<Rightarrow>
          (case lez_hex_to_bytes32 (mn_shard_program_hex m) of
             None \<Rightarrow> None
           | Some shard \<Rightarrow> map_option ((#) (account, mn_signs m, shard)) (ffi_mentions rest)))"

text \<open>
  The fee payer of a send: an empty one is self-pay, which is no failure; a malformed one is. The lock
  around the submission only keeps two of them apart. The second component of a send is what it handed
  to the library, if it came that far.
\<close>

definition send_payer :: "string \<Rightarrow> bytes option option" where
  "send_payer payer_account_id_hex =
     (if trim payer_account_id_hex = [] then Some None
      else map_option Some (lez_hex_to_bytes32 payer_account_id_hex))"

definition send_generic_public_transaction ::
  "lez_env \<Rightarrow> mention list \<Rightarrow> bytes \<Rightarrow> string \<Rightarrow> string \<Rightarrow> string \<times> submission option"
where
  "send_generic_public_transaction e mentions instruction program_hex payer_account_id_hex =
     (case (ffi_mentions mentions, lez_hex_to_bytes32 program_hex, send_payer payer_account_id_hex) of
        (Some ms, Some program, Some payer) \<Rightarrow>
          if \<not> wallet (le_state e) (le_wakes e) then ([], None)
          else
            let sx = \<lparr> sx_mentions = ms, sx_instruction = instruction, sx_program = program, sx_payer = payer \<rparr>
            in (case le_send e sx of
                  Inl rc \<Rightarrow> render e (JObj [(''error'', JStr (''wallet_ffi error '' @ show_int rc)),
                      (''success'', JBool False), (''tx_hash'', JStr [])])
                | Inr (success, tx_hash) \<Rightarrow> render e (JObj [(''error'', JStr []), (''success'', JBool success),
                      (''tx_hash'', JStr (case tx_hash of Some h \<Rightarrow> h | None \<Rightarrow> []))]),
                Some sx)
      | _ \<Rightarrow> ([], None))"

section \<open>Balances\<close>

definition native_balance :: "lez_env \<Rightarrow> string \<Rightarrow> (string \<times> u128) option" where
  "native_balance e account_hex =
     (let id_hex = (if trim account_hex = [] then ws_payer_hex (le_state e) else to_ascii_lowercase (trim account_hex)) in
      if id_hex = [] then None
      else case lez_hex_to_bytes32 id_hex of
        None \<Rightarrow> None
      | Some acct \<Rightarrow>
          if \<not> wallet (le_state e) (le_wakes e) then None
          else case le_balance e acct of
            Inl rc \<Rightarrow> None
          | Inr out \<Rightarrow> Some (id_hex, from_le_bytes out))"

definition fee_payer_hex :: "lez_env \<Rightarrow> string" where
  "fee_payer_hex e =
     (let configured = fee_payer_env_hex (le_payer_env e) in
      if configured \<noteq> [] then configured else ws_payer_hex (le_state e))"

section \<open>The sequencer over HTTP\<close>

definition MAX_REPLY :: nat where "MAX_REPLY = 1024 * 1024"

text \<open>Well-formed UTF-8, as \<open>read_to_string\<close> demands of what it read.\<close>

definition in_bytes :: "nat \<Rightarrow> nat \<Rightarrow> char list \<Rightarrow> nat \<Rightarrow> bool" where
  "in_bytes lo hi s i \<longleftrightarrow> i < length s \<and> lo \<le> of_char (s ! i) \<and> of_char (s ! i) \<le> hi"

fun utf8_length :: "string \<Rightarrow> nat" where
  "utf8_length s =
     (if in_bytes 0 0x7F s 0 then 1
      else if in_bytes 0xC2 0xDF s 0 \<and> in_bytes 0x80 0xBF s 1 then 2
      else if in_bytes 0x80 0xBF s 2 \<and>
        (in_bytes 0xE0 0xE0 s 0 \<and> in_bytes 0xA0 0xBF s 1 \<or> in_bytes 0xE1 0xEC s 0 \<and> in_bytes 0x80 0xBF s 1 \<or>
         in_bytes 0xED 0xED s 0 \<and> in_bytes 0x80 0x9F s 1 \<or> in_bytes 0xEE 0xEF s 0 \<and> in_bytes 0x80 0xBF s 1) then 3
      else if in_bytes 0x80 0xBF s 2 \<and> in_bytes 0x80 0xBF s 3 \<and>
        (in_bytes 0xF0 0xF0 s 0 \<and> in_bytes 0x90 0xBF s 1 \<or> in_bytes 0xF1 0xF3 s 0 \<and> in_bytes 0x80 0xBF s 1 \<or>
         in_bytes 0xF4 0xF4 s 0 \<and> in_bytes 0x80 0x8F s 1) then 4
      else 0)"

declare utf8_length.simps [simp del]

function valid_utf8 :: "string \<Rightarrow> bool" where
  "valid_utf8 s = (if s = [] then True else if utf8_length s = 0 then False else valid_utf8 (drop (utf8_length s) s))"
  by pat_completeness auto

termination
  by (relation "measure length") auto

declare valid_utf8.simps [simp del]

definition post :: "lez_env \<Rightarrow> string \<Rightarrow> string \<Rightarrow> string + string" where
  "post e url body =
     (if \<not> (starts_with ''http://'' url \<or> starts_with ''https://'' url)
      then Inl (''not an http(s) sequencer: '' @ quoted url)
      else and_then (le_http e url body) (\<lambda>reply.
        let read = take MAX_REPLY reply in
        if valid_utf8 read then Inr read else Inl ''read: stream did not contain valid UTF-8''))"

definition rpc_body :: "string \<Rightarrow> string \<Rightarrow> string" where
  "rpc_body method params =
     ''{'' @ [CHR 0x22] @ ''jsonrpc'' @ [CHR 0x22] @ '':'' @ [CHR 0x22] @ ''2.0'' @ [CHR 0x22] @ '','' @ [CHR 0x22] @ ''id'' @
     [CHR 0x22] @ '':1,'' @ [CHR 0x22] @ ''method'' @ [CHR 0x22] @ '':'' @ [CHR 0x22] @ method @ [CHR 0x22] @ '','' @ [CHR 0x22] @
     ''params'' @ [CHR 0x22] @ '':'' @ params @ ''}''"

definition REQUEST :: string where "REQUEST = rpc_body ''getFeeState'' ''[]''"

definition result_of :: "lez_env \<Rightarrow> string \<Rightarrow> string + string" where
  "result_of e body =
     and_then (map_err (\<lambda>m. ''reply parse: '' @ m) (parse_doc e body)) (\<lambda>reply.
     case j_get reply ''error'' of
       Some err \<Rightarrow> Inl (''RPC error '' @ render e err)
     | None \<Rightarrow>
         (case j_get reply ''result'' of
            Some result \<Rightarrow> if is_object result then Inr (render e result) else Inl ''reply carries no result object''
          | None \<Rightarrow> Inl ''reply carries no result object''))"

definition fee_fetch :: "lez_env \<Rightarrow> string \<Rightarrow> string + string" where
  "fee_fetch e sequencer = and_then (post e sequencer REQUEST) (result_of e)"

definition wallet_sequencer :: "lez_env \<Rightarrow> string option" where
  "wallet_sequencer e = sequencer_addr (le_text e) (le_home_sys e) (le_selector e) (le_files e)"

definition get_fee_state :: "lez_env \<Rightarrow> string" where
  "get_fee_state e =
     (case wallet_sequencer e of
        None \<Rightarrow> []
      | Some sequencer \<Rightarrow> (case fee_fetch e sequencer of Inr st \<Rightarrow> st | Inl _ \<Rightarrow> []))"

definition chain_head :: "lez_env \<Rightarrow> u64 option" where
  "chain_head e =
     Option.bind (wallet_sequencer e) (\<lambda>sequencer.
     Option.bind (ok (post e sequencer (rpc_body ''getLastBlockId'' ''[]''))) (\<lambda>reply.
     Option.bind (ok (parse_doc e reply)) (\<lambda>doc.
     Option.bind (j_get doc ''result'') as_u64)))"

definition tx_included :: "lez_env \<Rightarrow> string \<Rightarrow> bool option" where
  "tx_included e tx_hash =
     Option.bind (wallet_sequencer e) (\<lambda>sequencer.
     let body = render e (JObj [(''id'', JInt 1), (''jsonrpc'', JStr ''2.0''), (''method'', JStr ''getTransaction''),
           (''params'', JArr [JStr tx_hash])])
     in Option.bind (ok (post e sequencer body)) (\<lambda>reply.
        Option.bind (ok (parse_doc e reply)) (\<lambda>doc.
        if j_get doc ''error'' \<noteq> None then None
        else map_option (\<lambda>r. r \<noteq> JNull) (j_get doc ''result''))))"

end
