(* ===== verification/Lez_Module.thy ===== *)
theory Lez_Module
  imports Lez_Chain
begin

text \<open>
  The handlers of the registry module (\<open>lib.rs\<close>): the registry context behind a config account, the
  reads of roots, proofs, memberships and bounds, and the registration with its pre-flight, the map
  that keeps repeat calls from submitting twice, and the watcher that follows a submission. A handler
  makes its calls one after the other and the chain may move between them, so each call of a handler
  takes its own \<open>lez_env\<close>: \<open>ev 0\<close>, \<open>ev 1\<close>, and so on in the order of the code.
\<close>

section \<open>Shards\<close>

definition resolve_account_id :: "string \<Rightarrow> string" where
  "resolve_account_id acct =
     (let stripped = strip_hex_prefix acct in
      if length stripped = 64 then stripped else account_id_from_base58 acct)"

definition NATIVE_TOKEN_PROGRAM :: bytes where "NATIVE_TOKEN_PROGRAM = replicate 32 0"

datatype fetch_outcome = Present bytes | Absent | FetchError

fun as_object :: "json \<Rightarrow> (string \<times> json) list option" where
  "as_object (JObj fs) = Some fs"
| "as_object _ = None"

fun read_shards :: "(string \<times> json) list \<Rightarrow> (bytes \<times> bytes) list option" where
  "read_shards [] = Some []"
| "read_shards ((program_hex, v) # rest) =
     Option.bind (lez_hex_to_bytes32 program_hex) (\<lambda>program.
     Option.bind (as_str v) (\<lambda>s.
     Option.bind (hex_to_bytes s None) (\<lambda>data.
     map_option ((#) (program, data)) (read_shards rest))))"

definition fetch_shards :: "lez_env \<Rightarrow> string \<Rightarrow> (bytes \<times> bytes) list option" where
  "fetch_shards e account_id_hex =
     (let raw = get_account_public e account_id_hex in
      if raw = [] then None
      else Option.bind (ok (parse_doc e raw)) (\<lambda>doc.
        Option.bind (as_object doc) (\<lambda>fs.
        Option.bind (map_of fs ''shards'') (\<lambda>v.
        Option.bind (as_object v) read_shards))))"

definition fetch_shard_tri_state :: "lez_env \<Rightarrow> string \<Rightarrow> bytes \<Rightarrow> fetch_outcome" where
  "fetch_shard_tri_state e account_id_hex program =
     (case fetch_shards e account_id_hex of
        None \<Rightarrow> FetchError
      | Some shards \<Rightarrow>
          (case List.find (\<lambda>(p, _). p = program) shards of
             Some (_, data) \<Rightarrow> if data \<noteq> [] then Present data else Absent
           | None \<Rightarrow> Absent))"

definition fetch_shard_quiet :: "lez_env \<Rightarrow> string \<Rightarrow> bytes \<Rightarrow> bytes option" where
  "fetch_shard_quiet e account_id_hex program =
     (case fetch_shard_tri_state e account_id_hex program of Present data \<Rightarrow> Some data | _ \<Rightarrow> None)"

text \<open>The loud variant only logs more.\<close>

definition fetch_shard :: "lez_env \<Rightarrow> string \<Rightarrow> bytes \<Rightarrow> bytes option" where
  "fetch_shard e account_id_hex program =
     (case fetch_shard_tri_state e account_id_hex program of
        Present data \<Rightarrow> Some data
      | Absent \<Rightarrow> None
      | FetchError \<Rightarrow> None)"

section \<open>The registry behind a config account\<close>

record config_ctx =
  cc_config_data :: bytes
  cc_registration_program :: bytes
  cc_merkle_program :: bytes

record registry_trouble =
  rt_status :: string
  rt_detail :: string

definition trouble :: "string \<Rightarrow> string \<Rightarrow> registry_trouble" where
  "trouble status detail = \<lparr> rt_status = status, rt_detail = detail \<rparr>"

definition network_conflict :: "network_entry list \<Rightarrow> string option \<Rightarrow> string \<Rightarrow> string option" where
  "network_conflict tbl bound config_hex =
     Option.bind bound (\<lambda>bound.
     Option.bind (network_of_config tbl config_hex) (\<lambda>listed.
     if nw_reference listed \<noteq> bound
     then Some (''config account '' @ config_hex @ '' is on network '' @ nw_reference listed @
            '', but this wallet is bound to '' @ bound)
     else None))"

definition config_context :: "layouts \<Rightarrow> network_entry list \<Rightarrow> lez_env \<Rightarrow> string \<Rightarrow> registry_trouble + config_ctx" where
  "config_context ly tbl e config_account_id =
     (let config_hex = resolve_account_id config_account_id in
      if config_hex = [] then Inl (trouble ''invalid'' (quoted config_account_id @ '' is not an account id''))
      else case network_conflict tbl (bound_network (le_selector e)) config_hex of
        Some reason \<Rightarrow> Inl (trouble ''network_conflict'' reason)
      | None \<Rightarrow>
          (case fetch_shards e config_hex of
             None \<Rightarrow> Inl (trouble ''unreachable'' (''could not read config account '' @ config_hex @ '' from the sequencer''))
           | Some shards \<Rightarrow>
               (case filter (\<lambda>(p, data). p \<noteq> NATIVE_TOKEN_PROGRAM \<and> data \<noteq> []) shards of
                  [] \<Rightarrow> Inl (trouble ''not_deployed'' (''config account '' @ config_hex @
                     '' holds no program state on this chain '' @ em_dash @
                     '' the registry is not deployed here (the network may have been reset)''))
                | (registration_program, config_data) # others \<Rightarrow>
                    if others \<noteq> [] then Inl (trouble ''unexpected_layout'' (''config account '' @ config_hex @
                      '' holds more than one program shard''))
                    else if length config_data \<noteq> ly_config_state_size ly
                    then Inl (trouble ''wrong_generation'' (''config shard is '' @ show_nat (length config_data) @
                      '' bytes, expected '' @ show_nat (ly_config_state_size ly) @ '' '' @ em_dash @
                      '' this is a config from a different program generation, not a short read''))
                    else Inr \<lparr> cc_config_data = config_data, cc_registration_program = registration_program,
                           cc_merkle_program = config_field_32 config_data CONFIG_OFFSET_MERKLE_PROGRAM_ID \<rparr>)))"

definition fetch_tree_shard :: "layouts \<Rightarrow> lez_env \<Rightarrow> config_ctx \<Rightarrow> bytes option" where
  "fetch_tree_shard ly e ctx =
     (case tree_main_account_id ly (cc_config_data ctx) (cc_registration_program ctx) of
        Inl _ \<Rightarrow> None
      | Inr main \<Rightarrow> fetch_shard e (bytes_to_hex main) (cc_merkle_program ctx))"

definition derive_register_plan :: "layouts \<Rightarrow> lez_env \<Rightarrow> config_ctx \<Rightarrow> bytes \<Rightarrow> register_plan option" where
  "derive_register_plan ly e ctx id_commitment =
     (case tree_main_account_id ly (cc_config_data ctx) (cc_registration_program ctx) of
        Inl _ \<Rightarrow> None
      | Inr main \<Rightarrow>
          Option.bind (fetch_shard e (bytes_to_hex main) (cc_merkle_program ctx)) (\<lambda>tree_main_data.
          ok (register_plan_of ly (cc_config_data ctx) tree_main_data (cc_registration_program ctx) id_commitment)))"

definition chain_now_ms :: "layouts \<Rightarrow> lez_env \<Rightarrow> u64 option" where
  "chain_now_ms ly e =
     Option.bind (fetch_shard e (bytes_to_hex (ly_clock_account ly)) (ly_clock_program ly)) (\<lambda>data.
     ok (decode_clock_timestamp_ms data))"

definition membership_leaf_index ::
  "('fr, 'zp) zerokit \<Rightarrow> layouts \<Rightarrow> lez_env \<Rightarrow> config_ctx \<Rightarrow> membership_data \<Rightarrow> u64 option"
where
  "membership_leaf_index zk ly e ctx m =
     Option.bind (fetch_tree_shard ly e ctx) (\<lambda>tree.
     Option.bind (registration_leaf zk (md_id_commitment m) (md_rate_limit m)) (\<lambda>leaf.
     find_leaf_index ly tree leaf))"

section \<open>Roots, proofs and bounds\<close>

definition roots_to_json_array :: "bytes list \<Rightarrow> json" where
  "roots_to_json_array roots = JArr (map (\<lambda>r. JStr (bytes_to_hex r)) roots)"

definition proofs_with_roots_json :: "lez_env \<Rightarrow> rln_merkle_proof list \<Rightarrow> json \<Rightarrow> string" where
  "proofs_with_roots_json e proofs roots_array =
     render e (JArr (map (\<lambda>p. JObj (bt_insert ''valid_roots'' roots_array
       (case proof_json p of JObj obj \<Rightarrow> obj | _ \<Rightarrow> []))) proofs))"

definition get_valid_roots_impl :: "layouts \<Rightarrow> network_entry list \<Rightarrow> (nat \<Rightarrow> lez_env) \<Rightarrow> string \<Rightarrow> string" where
  "get_valid_roots_impl ly tbl ev account =
     (case config_context ly tbl (ev 0) account of
        Inl _ \<Rightarrow> []
      | Inr ctx \<Rightarrow>
          (case fetch_tree_shard ly (ev 1) ctx of
             None \<Rightarrow> []
           | Some main_data \<Rightarrow>
               (case core_valid_roots ly main_data of
                  Inl _ \<Rightarrow> []
                | Inr roots \<Rightarrow>
                    (case tree_depth ly main_data of
                       Inl _ \<Rightarrow> []
                     | Inr depth \<Rightarrow> render (ev 1) (JObj [(''depth'', j_u64 (ucast depth)),
                         (''valid_roots'', roots_to_json_array roots)])))))"

text \<open>A JSON number as an index: exact, else the wrapped negative, else truncated and saturated.\<close>

fun float_as_u64 :: "int \<Rightarrow> int \<Rightarrow> u64" where
  "float_as_u64 m ex =
     (let v = (if 0 \<le> ex then m * 2 ^ nat ex else if 0 \<le> m then m div 2 ^ nat (- ex) else 0)
      in if v \<le> 0 then 0 else if 2 ^ 64 \<le> v then - 1 else word_of_int v)"

fun number_index :: "json \<Rightarrow> u64 option" where
  "number_index (JInt i) =
     (if 0 \<le> i \<and> i < 2 ^ 64 then Some (word_of_int i)
      else if - (2 ^ 63) \<le> i \<and> i < 2 ^ 63 then Some (word_of_int i)
      else Some (float_as_u64 i 0))"
| "number_index (JFloat m ex) = Some (float_as_u64 m ex)"
| "number_index _ = None"

fun leaf_indices :: "json list \<Rightarrow> u64 list option" where
  "leaf_indices [] = Some []"
| "leaf_indices (v # vs) = Option.bind (number_index v) (\<lambda>i. map_option ((#) i) (leaf_indices vs))"

definition get_merkle_proofs_impl ::
  "layouts \<Rightarrow> network_entry list \<Rightarrow> (nat \<Rightarrow> lez_env) \<Rightarrow> string \<Rightarrow> string \<Rightarrow> string"
where
  "get_merkle_proofs_impl ly tbl ev config_account_id leaf_indices_json =
     (case Option.bind (ok (parse_doc (ev 0) leaf_indices_json)) as_array of
        None \<Rightarrow> []
      | Some indices_array \<Rightarrow>
          if indices_array = [] then ''[]''
          else case leaf_indices indices_array of
            None \<Rightarrow> []
          | Some indices \<Rightarrow>
              (case config_context ly tbl (ev 0) config_account_id of
                 Inl _ \<Rightarrow> []
               | Inr ctx \<Rightarrow>
                   (case fetch_tree_shard ly (ev 1) ctx of
                      None \<Rightarrow> []
                    | Some main_data \<Rightarrow>
                        (case core_valid_roots ly main_data of
                           Inl _ \<Rightarrow> []
                         | Inr roots \<Rightarrow>
                             (case merkle_proofs_exec ly main_data indices of
                                Inl _ \<Rightarrow> []
                              | Inr proofs \<Rightarrow> proofs_with_roots_json (ev 1) proofs (roots_to_json_array roots))))))"

definition get_registry_bounds_handler :: "layouts \<Rightarrow> network_entry list \<Rightarrow> lez_env \<Rightarrow> string \<Rightarrow> string" where
  "get_registry_bounds_handler ly tbl e config_account_id =
     (case config_context ly tbl e config_account_id of
        Inl _ \<Rightarrow> []
      | Inr ctx \<Rightarrow>
          (let cfg = cc_config_data ctx in
           render e (JObj
             [(''active_duration'', j_u64 (ucast (config_field_u32 cfg CONFIG_OFFSET_ACTIVE_DURATION))),
              (''current_total_rate_limit'', j_u64 (config_field_u64 cfg CONFIG_OFFSET_CURRENT_TOTAL_RATE_LIMIT)),
              (''grace_period_duration'', j_u64 (ucast (config_field_u32 cfg CONFIG_OFFSET_GRACE_DURATION))),
              (''max_rate_limit'', j_u64 (ly_max_rate_limit ly)),
              (''max_total_rate_limit'', j_u64 (config_field_u64 cfg CONFIG_OFFSET_MAX_TOTAL_RATE_LIMIT)),
              (''min_rate_limit'', j_u64 (ly_min_rate_limit ly)),
              (''price_per_unit'', JStr (show_nat (unat (config_field_u128 cfg CONFIG_OFFSET_PRICE_PER_UNIT)))),
              (''total_registrations'', j_u64 (config_field_u64 cfg CONFIG_OFFSET_TOTAL_REGISTRATIONS))])))"

text \<open>The reply's extra fields are inserted into the object, which is kept sorted.\<close>

definition check_registry_handler :: "layouts \<Rightarrow> network_entry list \<Rightarrow> (nat \<Rightarrow> lez_env) \<Rightarrow> string \<Rightarrow> string" where
  "check_registry_handler ly tbl ev config_account_id =
     (let out = (case config_context ly tbl (ev 0) config_account_id of
            Inr ctx \<Rightarrow> [(''registration_program'', JStr (bytes_to_hex (cc_registration_program ctx))), (''status'', JStr ''ok'')]
          | Inl p \<Rightarrow> [(''detail'', JStr (rt_detail p)), (''status'', JStr (rt_status p))]);
          out = (case wallet_sequencer (ev 1) of Some sq \<Rightarrow> bt_insert ''sequencer'' (JStr sq) out | None \<Rightarrow> out);
          out = (case chain_head (ev 2) of Some head \<Rightarrow> bt_insert ''chain_head'' (j_u64 head) out | None \<Rightarrow> out)
      in render (ev 0) (JObj out))"

definition get_native_balance_handler :: "lez_env \<Rightarrow> string \<Rightarrow> string" where
  "get_native_balance_handler e account_id =
     (case native_balance e account_id of
        None \<Rightarrow> []
      | Some (account, balance) \<Rightarrow>
          render e (JObj [(''account'', JStr account), (''balance'', JStr (show_nat (unat balance)))]))"

section \<open>Memberships\<close>

definition get_membership_handler ::
  "('fr, 'zp) zerokit \<Rightarrow> layouts \<Rightarrow> network_entry list \<Rightarrow> (nat \<Rightarrow> lez_env) \<Rightarrow> string \<Rightarrow> string \<Rightarrow> string"
where
  "get_membership_handler zk ly tbl ev config_account_id id_commitment_hex =
     (case lez_hex_to_bytes32 id_commitment_hex of
        None \<Rightarrow> []
      | Some id_commitment \<Rightarrow>
          (case config_context ly tbl (ev 0) config_account_id of
             Inl _ \<Rightarrow> []
           | Inr ctx \<Rightarrow>
               (case derive_register_plan ly (ev 1) ctx id_commitment of
                  None \<Rightarrow> []
                | Some plan \<Rightarrow>
                    (case fetch_shard_tri_state (ev 2) (bytes_to_hex (rp_membership_account_id plan)) (cc_registration_program ctx) of
                       Absent \<Rightarrow> render (ev 2) (JObj [(''registered'', JBool False)])
                     | FetchError \<Rightarrow> []
                     | Present data \<Rightarrow>
                         (case decode_membership ly data of
                            Inl _ \<Rightarrow> []
                          | Inr m \<Rightarrow>
                              (case chain_now_ms ly (ev 3) of
                                 None \<Rightarrow> []
                               | Some now_ms \<Rightarrow>
                                   (case membership_leaf_index zk ly (ev 4) ctx m of
                                      None \<Rightarrow> []
                                    | Some leaf_index \<Rightarrow> render (ev 4) (JObj
                                        [(''clock_timestamp'', j_u64 now_ms),
                                         (''grace_period_duration'', j_u64 (ucast (md_grace_duration_sec m))),
                                         (''grace_period_start_timestamp'', j_u64 (md_grace_start_ms m)),
                                         (''leaf_index'', JInt (sint leaf_index)),
                                         (''rate_limit'', JInt (sint (md_rate_limit m))),
                                         (''registered'', JBool True),
                                         (''state'', JStr (membership_status ly (md_grace_start_ms m)
                                            (md_grace_duration_sec m) now_ms))]))))))))"

end
