(* ===== verification/Lez_Reads.thy ===== *)
theory Lez_Reads
  imports Lez_Module
begin

text \<open>
  What the handlers' reads mean on the chain: a shard read is exactly the account's last entry for the
  program, as the wallet library returned it, and a failed read is never an absent one. At the end, a
  small registry on which the handlers run, for the witnesses of the theories that follow.
\<close>

section \<open>Reading an account back\<close>

definition shard_entry :: "bytes \<times> bytes \<Rightarrow> string \<times> json" where
  "shard_entry pd = (bytes_to_hex (fst pd), JStr (bytes_to_hex (snd pd)))"

definition ids32 :: "ffi_account \<Rightarrow> bool" where
  "ids32 a \<longleftrightarrow> (\<forall>pd \<in> set (fa_shards a). length (fst pd) = 32)"

lemma shard_entry_pair [simp]: "shard_entry (p, d) = (bytes_to_hex p, JStr (bytes_to_hex d))"
  by (simp add: shard_entry_def)

lemma read_shards_entries:
  "\<forall>pd \<in> set X. length (fst pd) = 32 \<Longrightarrow> read_shards (map shard_entry X) = Some X"
  by (induction X) (auto simp: shard_entry_def)

lemma bt_insert_entries:
  "\<exists>Y. bt_insert (bytes_to_hex p) (JStr (bytes_to_hex d)) (map shard_entry X) = map shard_entry Y \<and> set Y \<subseteq> insert (p, d) (set X)"
proof (induction X)
  case Nil
  then show ?case by (intro exI [of _ "[(p, d)]"]) (simp add: shard_entry_def)
next
  case (Cons x X)
  obtain q c where x: "x = (q, c)" by (cases x)
  from Cons obtain Y where Y: "bt_insert (bytes_to_hex p) (JStr (bytes_to_hex d)) (map shard_entry X) = map shard_entry Y"
    "set Y \<subseteq> insert (p, d) (set X)" by blast
  consider "bytes_to_hex p < bytes_to_hex q" | "bytes_to_hex p = bytes_to_hex q" | "bytes_to_hex q < bytes_to_hex p"
    using linorder_less_linear by blast
  then show ?case
  proof cases
    case 1
    then show ?thesis by (intro exI [of _ "(p, d) # x # X"]) (auto simp: x)
  next
    case 2
    then show ?thesis by (intro exI [of _ "(p, d) # X"]) (auto simp: x)
  next
    case 3
    then show ?thesis using Y by (intro exI [of _ "x # Y"]) (auto simp: x)
  qed
qed

lemma shard_map_entries:
  "\<exists>Y. shard_map S (map shard_entry X) = map shard_entry Y \<and> set Y \<subseteq> set S \<union> set X"
proof (induction S arbitrary: X)
  case Nil
  then show ?case by auto
next
  case (Cons pd S)
  obtain p d where pd: "pd = (p, d)" by (cases pd)
  obtain Z where Z: "bt_insert (bytes_to_hex p) (JStr (bytes_to_hex d)) (map shard_entry X) = map shard_entry Z"
    "set Z \<subseteq> insert (p, d) (set X)"
    using bt_insert_entries by blast
  obtain Y where "shard_map S (map shard_entry Z) = map shard_entry Y" "set Y \<subseteq> set S \<union> set Z"
    using Cons.IH by blast
  then show ?case using Z by (intro exI [of _ Y]) (auto simp: pd)
qed

lemma shard_map_get:
  "map_of (shard_map S m) (bytes_to_hex q) =
     (case map_of (rev S) q of Some d \<Rightarrow> Some (JStr (bytes_to_hex d)) | None \<Rightarrow> map_of m (bytes_to_hex q))"
proof (induction S arbitrary: m)
  case (Cons pd S)
  obtain p d where pd: "pd = (p, d)" by (cases pd)
  have "map_of (bt_insert (bytes_to_hex p) (JStr (bytes_to_hex d)) m) (bytes_to_hex q) =
      (if q = p then Some (JStr (bytes_to_hex d)) else map_of m (bytes_to_hex q))"
    using bt_get_insert [of "bytes_to_hex p" "JStr (bytes_to_hex d)" m "bytes_to_hex q"]
    by (simp add: bt_get_def bytes_to_hex_inj)
  then show ?case using Cons by (auto simp: pd map_add_def split: option.splits)
qed simp

lemma shard_map_wf: "bt_wf m \<Longrightarrow> bt_wf (shard_map S m)"
  by (induction S arbitrary: m) auto

text \<open>The last entry for a program wins, as in the map the wallet code fills.\<close>

lemma fetch_shards_exact:
  assumes "json_roundtrip (le_text e)" "jt_render (le_text e) (account_json a) \<noteq> []"
    and "hex_to_bytes32 hex = Some acct" "wallet (le_state e) (le_wakes e)" "le_account e acct = Inr a" "ids32 a"
  shows "\<exists>X. fetch_shards e hex = Some X \<and> distinct (map fst X) \<and> (\<forall>q. map_of X q = map_of (rev (fa_shards a)) q)"
proof -
  obtain X where X: "shard_map (fa_shards a) [] = map shard_entry X" "set X \<subseteq> set (fa_shards a)"
    using shard_map_entries [of "fa_shards a" "[]"] by auto
  have "get_account_public e hex = jt_render (le_text e) (account_json a)"
    using assms by (simp add: get_account_public_def render_def)
  then have f: "fetch_shards e hex = read_shards (map shard_entry X)"
    using assms(1,2) by (simp add: fetch_shards_def parse_doc_def json_roundtrip_def account_json_def X(1))
  have len: "\<forall>pd \<in> set X. length (fst pd) = 32" using X(2) assms(6) by (auto simp: ids32_def)
  have dist: "distinct (map fst (map shard_entry X))"
    using shard_map_wf [of "[]" "fa_shards a"] bt_wf_distinct unfolding X(1) by fastforce
  have e: "map fst (map shard_entry X) = map bytes_to_hex (map fst X)" by (simp add: shard_entry_def)
  have "distinct (map bytes_to_hex (map fst X))" using dist unfolding e .
  then have dX: "distinct (map fst X)" unfolding distinct_map by blast
  have "map_of X q = map_of (rev (fa_shards a)) q" for q
  proof -
    have "map_of (map shard_entry X) (bytes_to_hex q) = map_option (\<lambda>d. JStr (bytes_to_hex d)) (map_of X q)"
      by (induction X) (auto simp: shard_entry_def bytes_to_hex_inj)
    then have "map_option (\<lambda>d. JStr (bytes_to_hex d)) (map_of X q) =
        map_option (\<lambda>d. JStr (bytes_to_hex d)) (map_of (rev (fa_shards a)) q)"
      using shard_map_get [of "fa_shards a" "[]" q] by (simp add: X(1) split: option.splits)
    then show ?thesis by (cases "map_of X q"; cases "map_of (rev (fa_shards a)) q") (auto simp: bytes_to_hex_inj)
  qed
  then show ?thesis using read_shards_entries [OF len] dX f by auto
qed

lemma find_key: "List.find (\<lambda>(p, _). p = q) X = map_option (Pair q) (map_of X q)"
  by (induction X) auto

text \<open>What a shard read says of the account, read off the code's three outcomes.\<close>

lemma tri_state_exact:
  assumes "json_roundtrip (le_text e)" "jt_render (le_text e) (account_json a) \<noteq> []"
    and "hex_to_bytes32 hex = Some acct" "wallet (le_state e) (le_wakes e)" "le_account e acct = Inr a" "ids32 a"
  shows "fetch_shard_tri_state e hex program =
    (case map_of (rev (fa_shards a)) program of
       Some data \<Rightarrow> if data \<noteq> [] then Present data else Absent
     | None \<Rightarrow> Absent)"
  using fetch_shards_exact [OF assms]
  by (auto simp: fetch_shard_tri_state_def find_key split: option.splits)

lemma tri_state_error:
  assumes "hex_to_bytes32 hex = None \<or> \<not> wallet (le_state e) (le_wakes e) \<or>
    (\<exists>acct rc. hex_to_bytes32 hex = Some acct \<and> le_account e acct = Inl rc)"
  shows "fetch_shard_tri_state e hex program = FetchError"
  using assms
  by (auto simp: fetch_shard_tri_state_def fetch_shards_def get_account_public_def split: option.splits)

section \<open>A small registry\<close>

text \<open>
  The layouts are those of \<open>sample_layouts\<close>, where every derived account id is the registration
  program's own; its account carries the tree, and the membership when there is one.
\<close>

definition sample_program :: bytes where "sample_program = replicate 32 3"
definition sample_merkle_program :: bytes where "sample_merkle_program = replicate 32 4"
definition sample_config_id :: bytes where "sample_config_id = replicate 32 5"
definition sample_payer :: bytes where "sample_payer = replicate 32 7"

definition sample_config :: bytes where
  "sample_config = sample_merkle_program @ replicate 32 0 @ (1 # replicate 15 0) @ replicate 32 6 @ replicate 8 0 @
     (9 # replicate 7 0) @ (4 # replicate 7 0) @ replicate 8 0"

definition sample_account :: "bool \<Rightarrow> bytes \<Rightarrow> int + ffi_account" where
  "sample_account registered acct =
     (if acct = sample_config_id then Inr \<lparr> fa_shards = [(sample_program, sample_config)], fa_nonce = replicate 16 0 \<rparr>
      else if acct = sample_program
      then Inr \<lparr> fa_shards = (sample_merkle_program, sample_shard) # (if registered then [(sample_program, replicate 4 1)] else []),
             fa_nonce = replicate 16 0 \<rparr>
      else if acct = replicate 32 9
      then Inr \<lparr> fa_shards = [(replicate 32 8, replicate 8 0 @ 5 # replicate 7 0)], fa_nonce = replicate 16 0 \<rparr>
      else Inl 4)"

definition lez_sample_env :: "bool \<Rightarrow> (string \<Rightarrow> string + string) \<Rightarrow> lez_env" where
  "lez_sample_env registered http =
     \<lparr> le_text = codec_text, le_state = \<lparr> ws_readiness = Ready, ws_payer_hex = bytes_to_hex sample_payer, ws_wallet = True \<rparr>,
       le_wakes = [], le_payer_env = None,
       le_selector = \<lparr> se_selection = Bound ''h'' Operator, se_operator_noted = False \<rparr>,
       le_home_sys = calm_sys, le_files = \<lparr> hf_config = Some (wallet_config_json codec_text ''http://s/''), hf_marker = None \<rparr>,
       le_account = sample_account registered, le_balance = (\<lambda>_. Inr (replicate 16 0)),
       le_send = (\<lambda>_. Inr (True, Some ''abc'')), le_http = (\<lambda>url body. http body) \<rparr>"

lemma codec_renders: "jt_render (le_text (lez_sample_env b h)) v \<noteq> []" "json_roundtrip (le_text (lez_sample_env b h))"
  by (simp_all add: lez_sample_env_def codec_text_roundtrip) (simp add: codec_text_def)

lemma sample_wallet: "wallet (le_state (lez_sample_env b h)) (le_wakes (lez_sample_env b h))"
  by (simp add: lez_sample_env_def wallet.simps)

lemma sample_read:
  assumes "length acct = 32" "sample_account b acct = Inr a" "ids32 a"
  shows "fetch_shard_tri_state (lez_sample_env b h) (bytes_to_hex acct) program =
    (case map_of (rev (fa_shards a)) program of Some data \<Rightarrow> if data \<noteq> [] then Present data else Absent | None \<Rightarrow> Absent)"
proof -
  have "le_account (lez_sample_env b h) acct = Inr a" using assms(2) by (simp add: lez_sample_env_def)
  then show ?thesis
    using tri_state_exact [OF codec_renders(2) codec_renders(1) _ sample_wallet _ assms(3)] assms(1) by simp
qed

lemma sample_ids_distinct:
  "sample_program \<noteq> sample_config_id" "sample_program \<noteq> sample_merkle_program" "sample_program \<noteq> NATIVE_TOKEN_PROGRAM"
  by (simp_all add: sample_program_def sample_config_id_def sample_merkle_program_def NATIVE_TOKEN_PROGRAM_def replicate_eq_replicate)

lemma sample_lengths: "length sample_program = 32" "length sample_merkle_program = 32" "length sample_config_id = 32" "length sample_payer = 32"
  "length sample_config = 144"
  by (simp_all add: sample_program_def sample_merkle_program_def sample_config_id_def sample_payer_def sample_config_def)

lemma sample_tree_read:
  "fetch_shard_tri_state (lez_sample_env b h) (bytes_to_hex sample_program) sample_merkle_program = Present sample_shard"
  using sample_read [of sample_program b _ h sample_merkle_program] sample_ids_distinct sample_lengths
  by (auto simp: sample_account_def ids32_def sample_shard_def)

lemma sample_member_read:
  "fetch_shard_tri_state (lez_sample_env b h) (bytes_to_hex sample_program) sample_program =
     (if b then Present (replicate 4 1) else Absent)"
  using sample_read [of sample_program b _ h sample_program] sample_ids_distinct sample_lengths
  by (auto simp: sample_account_def ids32_def)

lemma from_le_zeros [simp]: "from_le_bytes (replicate n 0) = 0"
  by (induction n) simp_all

lemma sample_clock: "chain_now_ms sample_layouts (lez_sample_env b h) = Some 5"
proof -
  have "fetch_shard_tri_state (lez_sample_env b h) (bytes_to_hex (replicate 32 9)) (replicate 32 8) = Present (replicate 8 0 @ 5 # replicate 7 0)"
    using sample_read [of "replicate 32 9" b _ h "replicate 32 8"]
    by (auto simp: sample_account_def ids32_def sample_program_def sample_config_id_def replicate_eq_replicate)
  then show ?thesis
    by (simp add: chain_now_ms_def fetch_shard_def sample_layouts_def decode_clock_timestamp_ms_def slice_def)
qed

lemma sample_context:
  "config_context sample_layouts tbl (lez_sample_env b h) (bytes_to_hex sample_config_id) =
     Inr \<lparr> cc_config_data = sample_config, cc_registration_program = sample_program, cc_merkle_program = sample_merkle_program \<rparr>"
proof -
  have r: "resolve_account_id (bytes_to_hex sample_config_id) = bytes_to_hex sample_config_id"
    using sample_lengths
    by (simp add: resolve_account_id_def strip_hex_prefix_def trim_bytes_to_hex bytes_to_hex_no_prefix)
  have n: "bytes_to_hex sample_config_id \<noteq> []" using sample_lengths by (metis length_bytes_to_hex list.size(3) mult_eq_0_iff zero_neq_numeral)
  have "\<exists>X. fetch_shards (lez_sample_env b h) (bytes_to_hex sample_config_id) = Some X \<and> distinct (map fst X) \<and>
      (\<forall>q. map_of X q = map_of [(sample_program, sample_config)] q)"
    using fetch_shards_exact [OF codec_renders(2) codec_renders(1), where hex = "bytes_to_hex sample_config_id" and acct = sample_config_id]
      sample_wallet sample_lengths
    by (simp add: lez_sample_env_def sample_account_def ids32_def)
  then obtain X where X: "fetch_shards (lez_sample_env b h) (bytes_to_hex sample_config_id) = Some X" "distinct (map fst X)"
    "\<forall>q. map_of X q = map_of [(sample_program, sample_config)] q" by blast
  have "X = [(sample_program, sample_config)]"
  proof -
    have "set X = {(sample_program, sample_config)}"
    proof -
      have "(q, d) \<in> set X \<longleftrightarrow> q = sample_program \<and> d = sample_config" for q d
        using X(3) map_of_eq_Some_iff [OF X(2), of q d] by (auto split: if_splits)
      then show ?thesis by auto
    qed
    then show ?thesis using X(2) by (cases X; cases "tl X") auto
  qed
  then show ?thesis
    using X(1) r n sample_ids_distinct sample_lengths
    by (simp add: config_context_def Let_def network_conflict_def lez_sample_env_def bound_network_def sample_layouts_def
        config_field_32_def slice_def CONFIG_OFFSET_MERKLE_PROGRAM_ID_def sample_config_def)
qed

definition sample_ctx :: config_ctx where
  "sample_ctx = \<lparr> cc_config_data = sample_config, cc_registration_program = sample_program, cc_merkle_program = sample_merkle_program \<rparr>"

definition sample_plan :: register_plan where
  "sample_plan = \<lparr> rp_config_account_id = sample_program, rp_tree_main_account_id = sample_program,
     rp_treasury_account_id = replicate 32 6, rp_membership_account_id = sample_program, rp_tree_id = replicate 32 0,
     rp_merkle_program_id = sample_merkle_program, rp_next_leaf_index = 2, rp_price_per_unit = 1, rp_active_duration_sec = 0,
     rp_grace_period_duration_sec = 0 \<rparr>"

lemma sample_pda: "derive_pda sample_layouts sample_program seed = sample_program"
proof -
  have "length PDA_PREFIX = 32" by (simp add: PDA_PREFIX_def)
  then show ?thesis using sample_lengths by (simp add: derive_pda_def sample_layouts_def)
qed

lemma sample_main: "tree_main_account_id sample_layouts sample_config sample_program = Inr sample_program"
  using sample_pda sample_lengths by (simp add: tree_main_account_id_def) (simp add: sample_layouts_def)

lemma sample_tree: "fetch_tree_shard sample_layouts (lez_sample_env b h) sample_ctx = Some sample_shard"
  by (simp add: fetch_tree_shard_def sample_ctx_def sample_main fetch_shard_def sample_tree_read)

lemma sample_config_fields:
  "config_field_32 sample_config CONFIG_OFFSET_TREE_ID = replicate 32 0"
  "config_field_32 sample_config CONFIG_OFFSET_TREASURY_ACCOUNT_ID = replicate 32 6"
  "config_field_32 sample_config CONFIG_OFFSET_MERKLE_PROGRAM_ID = sample_merkle_program"
  "config_field_u128 sample_config CONFIG_OFFSET_PRICE_PER_UNIT = 1"
  "config_field_u32 sample_config CONFIG_OFFSET_ACTIVE_DURATION = 0"
  "config_field_u32 sample_config CONFIG_OFFSET_GRACE_DURATION = 0"
  "config_field_u64 sample_config CONFIG_OFFSET_MAX_TOTAL_RATE_LIMIT = 9"
  "config_field_u64 sample_config CONFIG_OFFSET_CURRENT_TOTAL_RATE_LIMIT = 4"
  using sample_lengths
  by (simp_all add: config_field_32_def config_field_u128_def config_field_u32_def config_field_u64_def slice_def sample_config_def
      CONFIG_OFFSET_TREE_ID_def CONFIG_OFFSET_TREASURY_ACCOUNT_ID_def CONFIG_OFFSET_MERKLE_PROGRAM_ID_def
      CONFIG_OFFSET_PRICE_PER_UNIT_def CONFIG_OFFSET_ACTIVE_DURATION_def CONFIG_OFFSET_GRACE_DURATION_def
      CONFIG_OFFSET_MAX_TOTAL_RATE_LIMIT_def CONFIG_OFFSET_CURRENT_TOTAL_RATE_LIMIT_def)

lemma lez_sample_derive: "derive_register_plan sample_layouts (lez_sample_env b h) sample_ctx idc = Some sample_plan"
proof -
  have t: "ly_header_size sample_layouts \<le> length sample_shard" "ly_config_state_size sample_layouts = length sample_config"
    "th_next_index (ly_header sample_layouts sample_shard) = 2"
    using sample_lengths by (simp_all add: sample_layouts_def sample_shard_def)
  have "register_plan_of sample_layouts sample_config sample_shard sample_program idc = Inr sample_plan"
    by (simp add: register_plan_of_def t linorder_not_less Let_def sample_pda sample_config_fields sample_plan_def)
  then show ?thesis
    by (simp add: derive_register_plan_def sample_ctx_def sample_main fetch_shard_def sample_tree_read)
qed

definition sample_commitment :: bytes where "sample_commitment = 7 # replicate 31 0"

lemma sample_leaf:
  "membership_leaf_index sample_zk sample_layouts (lez_sample_env b h) sample_ctx
     \<lparr> md_id_commitment = sample_commitment, md_rate_limit = 3, md_grace_start_ms = 10, md_grace_duration_sec = 1 \<rparr> = Some 1"
proof -
  have "registration_leaf sample_zk sample_commitment 3 = Some (24 # replicate 31 0)"
    by (simp add: registration_leaf_def sample_zk_def sample_commitment_def)
  then show ?thesis by (simp add: membership_leaf_index_def sample_tree sample_find)
qed

lemma sample_decode:
  "decode_membership sample_layouts (replicate 4 1) =
     Inr \<lparr> md_id_commitment = sample_commitment, md_rate_limit = 3, md_grace_start_ms = 10, md_grace_duration_sec = 1 \<rparr>"
  by (simp add: decode_membership_def sample_layouts_def sample_commitment_def)

end
