(* ===== verification/Lez_Register.thy ===== *)
theory Lez_Register
  imports Lez_Reads
begin

text \<open>
  The registration of the registry module (\<open>register_member\<close> and its watcher in \<open>lib.rs\<close>): pre-flight,
  the map of registrations in flight with its expiry, the submission with claims read just before it,
  and the thread that follows a submission and re-sends one that reverted. Instants are nanoseconds of
  a monotone clock. Every access of the map runs under its mutex, so a handler is two steps of the
  machine below (the claim, then the submission with its bookkeeping) and a round of a watcher is one.
\<close>

section \<open>Registrations in flight\<close>

type_synonym reg_map = "string \<rightharpoonup> string \<times> nat"

definition REG_IN_FLIGHT_TTL :: nat where "REG_IN_FLIGHT_TTL = 300 * 10 ^ 9"
definition REG_WATCH_INTERVAL :: nat where "REG_WATCH_INTERVAL = 2 * 10 ^ 9"
definition REG_MAX_RESUBMITS :: u32 where "REG_MAX_RESUBMITS = 5"
definition REGISTER_DATA_ALLOWANCE :: u128 where "REGISTER_DATA_ALLOWANCE = 100000"

definition reg_retain :: "nat \<Rightarrow> reg_map \<Rightarrow> reg_map" where
  "reg_retain now m =
     (\<lambda>k. case m k of
        Some (reply, inserted_at) \<Rightarrow> if now - inserted_at < REG_IN_FLIGHT_TTL then Some (reply, inserted_at) else None
      | None \<Rightarrow> None)"

definition reg_in_flight :: "nat \<Rightarrow> (reg_map \<Rightarrow> 'r \<times> reg_map) \<Rightarrow> reg_map \<Rightarrow> 'r \<times> reg_map" where
  "reg_in_flight now f m = f (reg_retain now m)"

definition reg_insert :: "nat \<Rightarrow> string \<Rightarrow> string \<Rightarrow> reg_map \<Rightarrow> reg_map" where
  "reg_insert now key reply m = snd (reg_in_flight now (\<lambda>m. ((), m(key \<mapsto> (reply, now)))) m)"

definition reg_remove :: "nat \<Rightarrow> string \<Rightarrow> reg_map \<Rightarrow> reg_map" where
  "reg_remove now key m = snd (reg_in_flight now (\<lambda>m. ((), m(key := None))) m)"

text \<open>The prior reply, or the claim.\<close>

definition reg_claim :: "nat \<Rightarrow> string \<Rightarrow> string \<Rightarrow> reg_map \<Rightarrow> string option \<times> reg_map" where
  "reg_claim now key placeholder m =
     reg_in_flight now (\<lambda>m. case m key of
         Some (reply, _) \<Rightarrow> (Some reply, m)
       | None \<Rightarrow> (None, m(key \<mapsto> (placeholder, now)))) m"

section \<open>Submitting\<close>

definition tx_hash_of :: "lez_env \<Rightarrow> string \<Rightarrow> string" where
  "tx_hash_of e send_result =
     (case Option.bind (ok (parse_doc e send_result)) (\<lambda>v. get_str v ''tx_hash'') of Some h \<Rightarrow> h | None \<Rightarrow> [])"

definition send_generic_tx ::
  "lez_env \<Rightarrow> mention list \<Rightarrow> bytes \<Rightarrow> string \<Rightarrow> string \<Rightarrow> string option \<times> submission option"
where
  "send_generic_tx e mentions instruction program_hex payer_hex =
     (case send_generic_public_transaction e mentions instruction program_hex payer_hex of
        (reply, sx) \<Rightarrow> (if reply = [] then None else Some reply, sx))"

definition mention_of :: "bytes \<Rightarrow> bool \<Rightarrow> string \<Rightarrow> mention" where
  "mention_of account signs shard =
     \<lparr> mn_account_hex = bytes_to_hex account, mn_signs = signs, mn_shard_program_hex = shard \<rparr>"

definition register_mentions :: "layouts \<Rightarrow> config_ctx \<Rightarrow> register_plan \<Rightarrow> bytes \<Rightarrow> mention list" where
  "register_mentions ly ctx plan payer_bytes =
     (let registration_hex = bytes_to_hex (cc_registration_program ctx);
          native_hex = bytes_to_hex NATIVE_TOKEN_PROGRAM
      in [mention_of (rp_config_account_id plan) False registration_hex,
          mention_of (rp_tree_main_account_id plan) False (bytes_to_hex (cc_merkle_program ctx)),
          mention_of payer_bytes True native_hex,
          mention_of (rp_treasury_account_id plan) False native_hex,
          mention_of (ly_clock_account ly) False (bytes_to_hex (ly_clock_program ly)),
          mention_of (rp_membership_account_id plan) False registration_hex])"

definition submit_register ::
  "layouts \<Rightarrow> lez_env \<Rightarrow> lez_env \<Rightarrow> config_ctx \<Rightarrow> register_plan \<Rightarrow> bytes \<Rightarrow> u64 \<Rightarrow> string \<Rightarrow> string option \<times> submission option"
where
  "submit_register ly clock_env send_env ctx plan id_commitment rate_limit payer_hex =
     (case chain_now_ms ly clock_env of
        None \<Rightarrow> (None, None)
      | Some now_ms \<Rightarrow>
          (case register_build_instruction ly plan id_commitment rate_limit now_ms of
             Inl _ \<Rightarrow> (None, None)
           | Inr instruction \<Rightarrow>
               (case lez_hex_to_bytes32 payer_hex of
                  None \<Rightarrow> (None, None)
                | Some payer_bytes \<Rightarrow>
                    send_generic_tx send_env (register_mentions ly ctx plan payer_bytes) instruction
                      (bytes_to_hex (cc_registration_program ctx)) (fee_payer_hex send_env))))"

definition fee_ceiling :: "lez_env \<Rightarrow> string \<Rightarrow> u128 option" where
  "fee_ceiling e key =
     map_option ucast (Option.bind (ok (parse_doc e (get_fee_state e))) (\<lambda>q. get_u64 q key))"

definition registration_need :: "register_plan \<Rightarrow> u64 \<Rightarrow> u128 \<Rightarrow> u128 \<Rightarrow> u128" where
  "registration_need plan rate_limit exec stor =
     saturating_add (saturating_mul (rp_price_per_unit plan) (ucast rate_limit))
       (saturating_add (saturating_mul (ucast GAS_LIMIT) exec) (saturating_mul REGISTER_DATA_ALLOWANCE stor))"

definition preflight_register ::
  "layouts \<Rightarrow> lez_env \<Rightarrow> lez_env \<Rightarrow> config_ctx \<Rightarrow> register_plan \<Rightarrow> bytes \<Rightarrow> u64 \<Rightarrow> string \<Rightarrow> string + unit"
where
  "preflight_register ly fee_env balance_env ctx plan id_commitment rate_limit payer_hex =
     and_then (check_register ly (cc_config_data ctx) (rp_next_leaf_index plan) id_commitment rate_limit) (\<lambda>_.
     case (fee_ceiling fee_env ''next_base_fee_exec_ceiling'', fee_ceiling fee_env ''next_base_fee_stor_ceiling'') of
       (Some exec, Some stor) \<Rightarrow>
         (case native_balance balance_env payer_hex of
            None \<Rightarrow> Inr ()
          | Some (_, balance) \<Rightarrow>
              (let price = saturating_mul (rp_price_per_unit plan) (ucast rate_limit);
                   reserve = saturating_add (saturating_mul (ucast GAS_LIMIT) exec) (saturating_mul REGISTER_DATA_ALLOWANCE stor);
                   needed = saturating_add price reserve
               in if balance < needed
                  then Inl (''insufficient_balance: payer '' @ payer_hex @ '' holds '' @ show_nat (unat balance) @
                    '', a registration needs '' @ show_nat (unat needed) @ '' ('' @ show_nat (unat price) @ '' price + '' @
                    show_nat (unat reserve) @ '' fee reserve at the next block'' @ [CHR 0x27] @ ''s base fee ceiling)'')
                  else Inr ()))
     | _ \<Rightarrow> Inr ())"

section \<open>The handler\<close>

record admitted =
  ad_ctx :: config_ctx
  ad_plan :: register_plan
  ad_id_commitment :: bytes
  ad_payer_hex :: string
  ad_rate_limit :: u64
  ad_config_account_id :: string

definition ad_key :: "admitted \<Rightarrow> string" where
  "ad_key a = bytes_to_hex (rp_membership_account_id (ad_plan a))"

definition register_payer :: "lez_env \<Rightarrow> string \<Rightarrow> string" where
  "register_payer e payer_account_id =
     (if trim payer_account_id = [] then ws_payer_hex (le_state e) else resolve_account_id payer_account_id)"

text \<open>Everything before the claim: an answer, or the registration that may go on.\<close>

definition register_admit ::
  "('fr, 'zp) zerokit \<Rightarrow> layouts \<Rightarrow> network_entry list \<Rightarrow> (nat \<Rightarrow> lez_env) \<Rightarrow> string \<Rightarrow> string \<Rightarrow> string \<Rightarrow> int \<Rightarrow> string + admitted"
where
  "register_admit zk ly tbl ev config_account_id payer_account_id id_commitment_hex rate_limit =
     (case lez_hex_to_bytes32 id_commitment_hex of
        None \<Rightarrow> Inl []
      | Some id_commitment \<Rightarrow>
          (case config_context ly tbl (ev 0) config_account_id of
             Inl _ \<Rightarrow> Inl []
           | Inr ctx \<Rightarrow>
               (let payer_hex = register_payer (ev 1) payer_account_id in
                if payer_hex = [] then Inl []
                else case derive_register_plan ly (ev 2) ctx id_commitment of
                  None \<Rightarrow> Inl []
                | Some plan \<Rightarrow>
                    (case Option.bind (fetch_shard_quiet (ev 3) (bytes_to_hex (rp_membership_account_id plan))
                              (cc_registration_program ctx)) (\<lambda>existing. ok (decode_membership ly existing)) of
                       Some m \<Rightarrow>
                         (case membership_leaf_index zk ly (ev 4) ctx m of
                            None \<Rightarrow> Inl []
                          | Some leaf \<Rightarrow> Inl (render (ev 4) (JObj [(''already_registered'', JBool True),
                              (''leaf_index'', JInt (sint leaf))])))
                     | None \<Rightarrow>
                         (case preflight_register ly (ev 5) (ev 6) ctx plan id_commitment (word_of_int rate_limit) payer_hex of
                            Inl why \<Rightarrow> Inl (render (ev 6) (JObj [(''error'', JStr why)]))
                          | Inr _ \<Rightarrow> Inr \<lparr> ad_ctx = ctx, ad_plan = plan, ad_id_commitment = id_commitment,
                              ad_payer_hex = payer_hex, ad_rate_limit = word_of_int rate_limit,
                              ad_config_account_id = config_account_id \<rparr>)))))"

definition placeholder_reply :: "lez_env \<Rightarrow> admitted \<Rightarrow> string" where
  "placeholder_reply e a =
     render e (JObj [(''leaf_index'', JInt (sint (rp_next_leaf_index (ad_plan a)))), (''pending'', JBool True)])"

definition pending_reply :: "lez_env \<Rightarrow> register_plan \<Rightarrow> string \<Rightarrow> string" where
  "pending_reply e plan send_result =
     render e (JObj [(''leaf_index'', JInt (sint (rp_next_leaf_index plan))), (''pending'', JBool True),
       (''tx_result'', JStr send_result)])"

record register_watch =
  rw_config_account_id :: string
  rw_payer_hex :: string
  rw_id_commitment :: bytes
  rw_rate_limit :: u64
  rw_reg_key :: string
  rw_tx_hash :: string

text \<open>After the claim: the reply, the map, the submission made and the watcher started.\<close>

definition register_finish ::
  "layouts \<Rightarrow> (nat \<Rightarrow> lez_env) \<Rightarrow> nat \<Rightarrow> admitted \<Rightarrow> reg_map \<Rightarrow>
     string \<times> reg_map \<times> submission option \<times> register_watch option"
where
  "register_finish ly ev now a m =
     (case submit_register ly (ev 7) (ev 8) (ad_ctx a) (ad_plan a) (ad_id_commitment a) (ad_rate_limit a) (ad_payer_hex a) of
        (None, sx) \<Rightarrow> ([], reg_remove now (ad_key a) m, sx, None)
      | (Some send_result, sx) \<Rightarrow>
          (let reply = pending_reply (ev 8) (ad_plan a) send_result in
           (reply, reg_insert now (ad_key a) reply m, sx,
            Some \<lparr> rw_config_account_id = ad_config_account_id a, rw_payer_hex = ad_payer_hex a,
              rw_id_commitment = ad_id_commitment a, rw_rate_limit = ad_rate_limit a, rw_reg_key = ad_key a,
              rw_tx_hash = tx_hash_of (ev 8) send_result \<rparr>)))"

definition register_member ::
  "('fr, 'zp) zerokit \<Rightarrow> layouts \<Rightarrow> network_entry list \<Rightarrow> (nat \<Rightarrow> lez_env) \<Rightarrow> nat \<Rightarrow> nat \<Rightarrow>
     string \<Rightarrow> string \<Rightarrow> string \<Rightarrow> int \<Rightarrow> reg_map \<Rightarrow> string \<times> reg_map \<times> submission option \<times> register_watch option"
where
  "register_member zk ly tbl ev claimed_at finished_at config_account_id payer_account_id id_commitment_hex rate_limit m =
     (case register_admit zk ly tbl ev config_account_id payer_account_id id_commitment_hex rate_limit of
        Inl reply \<Rightarrow> (reply, m, None, None)
      | Inr a \<Rightarrow>
          (case reg_claim claimed_at (ad_key a) (placeholder_reply (ev 6) a) m of
             (Some prior, m') \<Rightarrow> (prior, m', None, None)
           | (None, m') \<Rightarrow> register_finish ly ev finished_at a m'))"

section \<open>On the small registry\<close>

lemma no_fee_state:
  assumes "\<And>url body. \<exists>m. le_http e url body = Inl m"
  shows "get_fee_state e = []"
proof -
  have "\<exists>m. post e sq REQUEST = Inl m" for sq
    using assms [of sq REQUEST] by (auto simp: post_def)
  then show ?thesis
    by (auto simp: get_fee_state_def fee_fetch_def split: option.splits) (metis and_then_simps(1) sum.simps(5))
qed

lemma parse_enc_Nil: "parse_enc [] = Inl ''not an encoding''"
  by (simp add: parse_enc_def decimal_array_def)

lemma sample_check: "check_register sample_layouts sample_config 2 sample_commitment 3 = Inr ()"
proof -
  have "be_value (rev sample_commitment) = 7" by (simp add: be_value_def sample_commitment_def)
  then show ?thesis
    using check_register_exact [of sample_commitment sample_layouts sample_config 2 3] sample_config_fields
    by (simp add: BN254_R_def sample_layouts_def sample_commitment_def)
qed

lemma sample_preflight:
  assumes "get_fee_state (lez_sample_env b h) = []"
  shows "preflight_register sample_layouts (lez_sample_env b h) e sample_ctx sample_plan sample_commitment 3 payer = Inr ()"
proof -
  have "fee_ceiling (lez_sample_env b h) k = None" for k
    using assms by (simp add: fee_ceiling_def parse_doc_def lez_sample_env_def codec_text_def parse_enc_Nil)
  then show ?thesis using sample_check by (simp add: preflight_register_def sample_ctx_def sample_plan_def)
qed

definition sample_admitted :: admitted where
  "sample_admitted = \<lparr> ad_ctx = sample_ctx, ad_plan = sample_plan, ad_id_commitment = sample_commitment,
     ad_payer_hex = bytes_to_hex sample_payer, ad_rate_limit = 3, ad_config_account_id = bytes_to_hex sample_config_id \<rparr>"

lemma sample_admit:
  assumes "get_fee_state (lez_sample_env False h) = []"
  shows "register_admit sample_zk sample_layouts tbl (\<lambda>_. lez_sample_env False h) (bytes_to_hex sample_config_id) []
    (bytes_to_hex sample_commitment) 3 = Inr sample_admitted"
proof -
  have "hex_to_bytes32 (bytes_to_hex sample_commitment) = Some sample_commitment" by (simp add: sample_commitment_def)
  moreover have "config_context sample_layouts tbl (lez_sample_env False h) (bytes_to_hex sample_config_id) = Inr sample_ctx"
    by (simp add: sample_context sample_ctx_def)
  moreover have "register_payer (lez_sample_env False h) [] = bytes_to_hex sample_payer"
    by (simp add: register_payer_def lez_sample_env_def)
  moreover have "bytes_to_hex sample_payer \<noteq> []" by (simp add: sample_payer_def bytes_to_hex_def hex_of_byte_def)
  moreover have "fetch_shard_quiet (lez_sample_env False h) (bytes_to_hex (rp_membership_account_id sample_plan))
      (cc_registration_program sample_ctx) = None"
    by (simp add: fetch_shard_quiet_def sample_plan_def sample_ctx_def sample_member_read)
  ultimately show ?thesis
    using sample_preflight [OF assms] by (simp add: register_admit_def lez_sample_derive sample_admitted_def)
qed

lemma sample_submit_to:
  "\<exists>reply sx. submit_register sample_layouts (lez_sample_env b h) (lez_sample_env b h \<lparr> le_send := f \<rparr>) sample_ctx sample_plan
     sample_commitment 3 (bytes_to_hex sample_payer) = (Some reply, Some sx)"
proof -
  let ?e = "lez_sample_env b h \<lparr> le_send := f \<rparr>"
  have "\<exists>i. register_build_instruction sample_layouts sample_plan sample_commitment 3 5 = Inr i"
    by (simp add: register_build_instruction_def sample_layouts_def)
  then obtain i where i: "register_build_instruction sample_layouts sample_plan sample_commitment 3 5 = Inr i" ..
  have p: "hex_to_bytes32 (bytes_to_hex sample_payer) = Some sample_payer" by (simp add: sample_lengths)
  have "\<exists>ms. ffi_mentions (register_mentions sample_layouts sample_ctx sample_plan sample_payer) = Some ms"
    by (simp add: register_mentions_def mention_of_def Let_def sample_lengths sample_ctx_def sample_plan_def NATIVE_TOKEN_PROGRAM_def
        sample_layouts_def)
  then obtain ms where ms: "ffi_mentions (register_mentions sample_layouts sample_ctx sample_plan sample_payer) = Some ms" ..
  have fp: "fee_payer_hex ?e = bytes_to_hex sample_payer" by (simp add: fee_payer_hex_def lez_sample_env_def)
  have sp: "send_payer (bytes_to_hex sample_payer) \<noteq> None" by (simp add: send_payer_def p sample_lengths)
  have "hex_to_bytes32 (bytes_to_hex (cc_registration_program sample_ctx)) = Some sample_program"
    by (simp add: sample_ctx_def sample_lengths)
  then show ?thesis
    using i p ms fp sp sample_wallet [of b h] codec_renders(1) [of b h]
    by (auto simp: submit_register_def sample_clock send_generic_tx_def send_generic_public_transaction_def Let_def render_def
        split: sum.splits)
qed

lemma sample_submit:
  "\<exists>reply sx. submit_register sample_layouts (lez_sample_env b h) (lez_sample_env b h) sample_ctx sample_plan sample_commitment 3
     (bytes_to_hex sample_payer) = (Some reply, Some sx)"
  using sample_submit_to [of b h "le_send (lez_sample_env b h)"] by simp

section \<open>A refused send\<close>

lemma send_reply:
  assumes "submit_register ly e1 e2 ctx plan c r p = (Some send_result, Some sx)"
  shows "send_result = (case le_send e2 sx of
      Inl rc \<Rightarrow> render e2 (JObj [(''error'', JStr (''wallet_ffi error '' @ show_int rc)), (''success'', JBool False), (''tx_hash'', JStr [])])
    | Inr (success, h) \<Rightarrow> render e2 (JObj [(''error'', JStr []), (''success'', JBool success),
        (''tx_hash'', JStr (case h of Some h \<Rightarrow> h | None \<Rightarrow> []))]))"
  using assms
  by (auto simp: submit_register_def send_generic_tx_def send_generic_public_transaction_def Let_def
      split: option.splits sum.splits prod.splits if_splits)

text \<open>
  C29: a send the wallet refused is answered as pending. When the wallet library rejects the transaction
  or reports that the sequencer did not take it, the handler still replies that the registration is
  pending, with no error for the membership module to see, and keeps that reply in the membership's slot.
  As long as the slot's entry is that one, and until it expires, every later call for the membership that
  gets as far as the claim of its slot is answered with that reply and leaves the entry as it is, so it
  submits nothing.
\<close>
theorem refused_send_pending:
  assumes "json_roundtrip (le_text (ev 8))"
    and "submit_register ly (ev 7) (ev 8) (ad_ctx a) (ad_plan a) (ad_id_commitment a) (ad_rate_limit a) (ad_payer_hex a) =
      (Some send_result, Some sx)"
    and "(\<exists>rc. le_send (ev 8) sx = Inl rc) \<or> (\<exists>h. le_send (ev 8) sx = Inr (False, h))"
    and "later < now + REG_IN_FLIGHT_TTL"
  shows "\<exists>reply m' w v r. register_finish ly ev now a m = (reply, m', Some sx, Some w) \<and>
    parse_doc (ev 8) reply = Inr v \<and> get_bool v ''pending'' = Some True \<and> j_get v ''error'' = None \<and>
    parse_doc (ev 8) send_result = Inr r \<and> get_bool r ''success'' = Some False \<and>
    (\<forall>m2 placeholder. m2 (ad_key a) = m' (ad_key a) \<longrightarrow>
       fst (reg_claim later (ad_key a) placeholder m2) = Some reply \<and>
       snd (reg_claim later (ad_key a) placeholder m2) (ad_key a) = m' (ad_key a))"
proof -
  let ?reply = "pending_reply (ev 8) (ad_plan a) send_result"
  have "\<exists>r. parse_doc (ev 8) send_result = Inr r \<and> get_bool r ''success'' = Some False"
    using send_reply [OF assms(2)] assms(1,3) by (auto simp: parse_doc_def render_def json_roundtrip_def)
  moreover have "parse_doc (ev 8) ?reply = Inr (JObj [(''leaf_index'', JInt (sint (rp_next_leaf_index (ad_plan a)))),
      (''pending'', JBool True), (''tx_result'', JStr send_result)])"
    using assms(1) by (simp add: pending_reply_def parse_doc_def render_def json_roundtrip_def)
  moreover have "fst (reg_claim later (ad_key a) placeholder m2) = Some ?reply \<and>
      snd (reg_claim later (ad_key a) placeholder m2) (ad_key a) = reg_insert now (ad_key a) ?reply m (ad_key a)"
    if "m2 (ad_key a) = reg_insert now (ad_key a) ?reply m (ad_key a)" for m2 placeholder
    using assms(4) that by (auto simp: reg_claim_def reg_insert_def reg_in_flight_def reg_retain_def REG_IN_FLIGHT_TTL_def)
  ultimately show ?thesis using assms(2) by (auto simp: register_finish_def Let_def)
qed

theorem refused_send_pending_witness:
  "\<exists>reply m' sx w. register_finish sample_layouts
     (\<lambda>i. if i = 8 then lez_sample_env False Inl \<lparr> le_send := \<lambda>_. Inl 9 \<rparr> else lez_sample_env False Inl) 0 sample_admitted Map.empty =
       (reply, m', Some sx, Some w) \<and>
     fst (reg_claim (299 * 10 ^ 9) (ad_key sample_admitted) [] m') = Some reply"
proof -
  let ?ev = "\<lambda>i :: nat. if i = 8 then lez_sample_env False Inl \<lparr> le_send := \<lambda>_. Inl 9 \<rparr> else lez_sample_env False Inl"
  have t: "json_roundtrip (le_text (?ev 8))" using codec_renders(2) by simp
  obtain reply sx where "submit_register sample_layouts (?ev 7) (?ev 8) sample_ctx sample_plan sample_commitment 3
      (bytes_to_hex sample_payer) = (Some reply, Some sx)"
    using sample_submit_to [of False Inl "\<lambda>_. Inl 9"] by auto
  then have s: "submit_register sample_layouts (?ev 7) (?ev 8) (ad_ctx sample_admitted) (ad_plan sample_admitted)
      (ad_id_commitment sample_admitted) (ad_rate_limit sample_admitted) (ad_payer_hex sample_admitted) = (Some reply, Some sx)"
    by (simp add: sample_admitted_def)
  have r: "(\<exists>rc. le_send (?ev 8) sx = Inl rc) \<or> (\<exists>h. le_send (?ev 8) sx = Inr (False, h))" by simp
  have "(299 * 10 ^ 9 :: nat) < 0 + REG_IN_FLIGHT_TTL" by (simp add: REG_IN_FLIGHT_TTL_def)
  from refused_send_pending [OF t s r this] show ?thesis by blast
qed

end
