(* ===== verification/Lez_Watch.thy ===== *)
theory Lez_Watch
  imports Lez_Register
begin

text \<open>
  The watcher of a submitted registration (\<open>register_watch\<close> in \<open>lib.rs\<close>) and the machine of the
  registrations in flight: handlers between their claim and their bookkeeping, watchers between
  rounds, one map, one clock.
\<close>

section \<open>A watcher's round\<close>

datatype watch_next = WatchOn register_watch u32 | WatchLanded | WatchGaveUp | WatchHopeless string

definition landed :: "layouts \<Rightarrow> lez_env \<Rightarrow> config_ctx \<Rightarrow> register_plan \<Rightarrow> membership_data option" where
  "landed ly e ctx plan =
     Option.bind (fetch_shard_quiet e (bytes_to_hex (rp_membership_account_id plan)) (cc_registration_program ctx))
       (\<lambda>data. ok (decode_membership ly data))"

definition error_reply :: "lez_env \<Rightarrow> string \<Rightarrow> string" where
  "error_reply e why = render e (JObj [(''error'', JStr why)])"

definition watch_round ::
  "layouts \<Rightarrow> network_entry list \<Rightarrow> (nat \<Rightarrow> lez_env) \<Rightarrow> nat \<Rightarrow> register_watch \<Rightarrow> u32 \<Rightarrow> reg_map \<Rightarrow>
     watch_next \<times> reg_map \<times> submission option"
where
  "watch_round ly tbl ev now w resubmits m =
     (case config_context ly tbl (ev 0) (rw_config_account_id w) of
        Inl _ \<Rightarrow> (WatchOn w resubmits, m, None)
      | Inr ctx \<Rightarrow>
          (case derive_register_plan ly (ev 1) ctx (rw_id_commitment w) of
             None \<Rightarrow> (WatchOn w resubmits, m, None)
           | Some plan \<Rightarrow>
               if landed ly (ev 2) ctx plan \<noteq> None then (WatchLanded, m, None)
               else if tx_included (ev 3) (rw_tx_hash w) \<noteq> Some True then (WatchOn w resubmits, m, None)
               else if landed ly (ev 4) ctx plan \<noteq> None then (WatchOn w resubmits, m, None)
               else if REG_MAX_RESUBMITS \<le> resubmits then (WatchGaveUp, reg_remove now (rw_reg_key w) m, None)
               else
                 (case preflight_register ly (ev 5) (ev 6) ctx plan (rw_id_commitment w) (rw_rate_limit w) (rw_payer_hex w) of
                    Inl why \<Rightarrow> (WatchHopeless why, reg_insert now (rw_reg_key w) (error_reply (ev 6) why) m, None)
                  | Inr _ \<Rightarrow>
                      (case submit_register ly (ev 7) (ev 8) ctx plan (rw_id_commitment w) (rw_rate_limit w) (rw_payer_hex w) of
                         (None, sx) \<Rightarrow> (WatchOn w (resubmits + 1), m, sx)
                       | (Some send_result, sx) \<Rightarrow>
                           (WatchOn (w \<lparr> rw_tx_hash := tx_hash_of (ev 8) send_result \<rparr>) (resubmits + 1),
                            reg_insert now (rw_reg_key w) (pending_reply (ev 8) plan send_result) m, sx)))))"

text \<open>
  The thread: before each round it looks at the clock (the first component of a round) and sleeps.
  A list of rounds that runs out is the end of the process.
\<close>

fun register_watch_run ::
  "layouts \<Rightarrow> network_entry list \<Rightarrow> nat \<Rightarrow> (nat \<times> nat \<times> (nat \<Rightarrow> lez_env)) list \<Rightarrow> register_watch \<Rightarrow> u32 \<Rightarrow> reg_map \<Rightarrow>
     reg_map \<times> submission list"
where
  "register_watch_run ly tbl deadline [] w resubmits m = (m, [])"
| "register_watch_run ly tbl deadline ((looked, now, ev) # rounds) w resubmits m =
     (if \<not> looked < deadline then (m, [])
      else case watch_round ly tbl ev now w resubmits m of
        (next, m', sx) \<Rightarrow>
          (case next of
             WatchOn w' n \<Rightarrow>
               (case register_watch_run ly tbl deadline rounds w' n m' of
                  (m'', subs) \<Rightarrow> (m'', (case sx of Some x \<Rightarrow> x # subs | None \<Rightarrow> subs)))
           | _ \<Rightarrow> (m', (case sx of Some x \<Rightarrow> [x] | None \<Rightarrow> []))))"

section \<open>When a watcher re-sends\<close>

lemma send_needs_submission: "submit_register ly e1 e2 ctx plan c r p = (Some reply, sx) \<Longrightarrow> sx \<noteq> None"
  by (auto simp: submit_register_def send_generic_tx_def send_generic_public_transaction_def Let_def
      split: option.splits sum.splits prod.splits if_splits)

lemma watch_round_cases:
  assumes "watch_round ly tbl ev now w n m = (nx, m', sx)"
  shows "(sx = None \<longrightarrow> (\<forall>w' n'. nx = WatchOn w' n' \<longrightarrow> n' = n \<and> w' = w \<or> n' = n + 1 \<and> n < REG_MAX_RESUBMITS)) \<and>
    (sx \<noteq> None \<longrightarrow> n < REG_MAX_RESUBMITS \<and> (\<exists>w'. nx = WatchOn w' (n + 1)) \<and> tx_included (ev 3) (rw_tx_hash w) = Some True \<and>
      (\<exists>ctx plan. config_context ly tbl (ev 0) (rw_config_account_id w) = Inr ctx \<and>
        derive_register_plan ly (ev 1) ctx (rw_id_commitment w) = Some plan \<and>
        landed ly (ev 2) ctx plan = None \<and> landed ly (ev 4) ctx plan = None \<and>
        preflight_register ly (ev 5) (ev 6) ctx plan (rw_id_commitment w) (rw_rate_limit w) (rw_payer_hex w) = Inr ()))"
proof -
  consider (ctx) e where "config_context ly tbl (ev 0) (rw_config_account_id w) = Inl e"
    | (plan) ctx where "config_context ly tbl (ev 0) (rw_config_account_id w) = Inr ctx"
      "derive_register_plan ly (ev 1) ctx (rw_id_commitment w) = None"
    | (go) ctx plan where "config_context ly tbl (ev 0) (rw_config_account_id w) = Inr ctx"
      "derive_register_plan ly (ev 1) ctx (rw_id_commitment w) = Some plan"
    by (cases "config_context ly tbl (ev 0) (rw_config_account_id w)") auto
  then show ?thesis
  proof cases
    case ctx
    then show ?thesis using assms by (auto simp: watch_round_def)
  next
    case plan
    then show ?thesis using assms by (auto simp: watch_round_def)
  next
    case go
    show ?thesis
    proof (cases "landed ly (ev 2) ctx plan = None \<and> tx_included (ev 3) (rw_tx_hash w) = Some True \<and>
        landed ly (ev 4) ctx plan = None \<and> \<not> REG_MAX_RESUBMITS \<le> n \<and>
        preflight_register ly (ev 5) (ev 6) ctx plan (rw_id_commitment w) (rw_rate_limit w) (rw_payer_hex w) = Inr ()")
      case True
      obtain r x where "submit_register ly (ev 7) (ev 8) ctx plan (rw_id_commitment w) (rw_rate_limit w) (rw_payer_hex w) = (r, x)"
        by fastforce
      then show ?thesis using assms True go by (auto simp: watch_round_def Let_def split: option.splits)
    next
      case False
      then have "sx = None \<and> (\<forall>w' n'. nx = WatchOn w' n' \<longrightarrow> n' = n \<and> w' = w)"
        using assms go by (auto simp: watch_round_def split: if_splits sum.splits)
      then show ?thesis by blast
    qed
  qed
qed

lemma resubmit_count: "(n :: u32) < REG_MAX_RESUBMITS \<Longrightarrow> unat (n + 1) = unat n + 1"
  using unat_inc_less [of n REG_MAX_RESUBMITS] by simp

lemma watch_submissions_bound:
  assumes "register_watch_run ly tbl deadline rounds w n m = (m', subs)"
  shows "length subs \<le> unat REG_MAX_RESUBMITS - unat n"
  using assms
proof (induction rounds arbitrary: w n m m' subs)
  case Nil
  then show ?case by simp
next
  case (Cons r rounds)
  obtain looked now ev where r: "r = (looked, now, ev)" by (cases r)
  obtain nx m1 sx where w: "watch_round ly tbl ev now w n m = (nx, m1, sx)" by (cases "watch_round ly tbl ev now w n m")
  note c = watch_round_cases [OF w]
  show ?case
  proof (cases "looked < deadline")
    case False
    then show ?thesis using Cons.prems by (simp add: r)
  next
    case True
    show ?thesis
    proof (cases nx)
      case (WatchOn w' n')
      obtain m2 subs' where rec: "register_watch_run ly tbl deadline rounds w' n' m1 = (m2, subs')" by fastforce
      have subs: "subs = (case sx of Some x \<Rightarrow> x # subs' | None \<Rightarrow> subs')"
        using Cons.prems True w WatchOn rec by (simp add: r)
      have IH: "length subs' \<le> unat REG_MAX_RESUBMITS - unat n'" using Cons.IH [OF rec] .
      show ?thesis
      proof (cases sx)
        case None
        then have "n' = n \<or> n' = n + 1 \<and> n < REG_MAX_RESUBMITS" using c WatchOn by blast
        then show ?thesis using IH None subs by (auto dest: resubmit_count)
      next
        case (Some x)
        then have "n < REG_MAX_RESUBMITS" "n' = n + 1" using c WatchOn by auto
        then show ?thesis using IH Some subs by (auto simp: resubmit_count word_less_nat_alt)
      qed
    next
      case WatchLanded
      then show ?thesis using Cons.prems True w c by (auto simp: r split: option.splits)
    next
      case WatchGaveUp
      then show ?thesis using Cons.prems True w c by (auto simp: r split: option.splits)
    next
      case (WatchHopeless why)
      then show ?thesis using Cons.prems True w c by (auto simp: r split: option.splits)
    qed
  qed
qed

section \<open>The machine\<close>

record reg_machine =
  rg_map :: reg_map
  rg_now :: nat
  rg_calls :: "admitted list"
  rg_watchers :: "(register_watch \<times> u32 \<times> nat) list"

datatype reg_event =
    RegClaimed string nat bool
  | RegFinished string "submission option" bool
  | RegWatched string watch_next "submission option"

text \<open>
  Time passes; a call that was admitted asks for the claim; a call that holds one submits and records
  (or, when nothing was submitted, gives the claim up); a watcher makes a round, having looked at the
  clock before its sleep. Environments are arbitrary at every step.
\<close>

inductive reg_step ::
  "('fr, 'zp) zerokit \<Rightarrow> layouts \<Rightarrow> network_entry list \<Rightarrow> reg_machine \<Rightarrow> reg_event option \<Rightarrow> reg_machine \<Rightarrow> bool"
  for zk :: "('fr, 'zp) zerokit" and ly :: layouts and tbl :: "network_entry list"
where
  reg_tick: "rg_now s \<le> now' \<Longrightarrow> reg_step zk ly tbl s None (s \<lparr> rg_now := now' \<rparr>)"
| reg_call: "register_admit zk ly tbl ev cfg payer idc rate = Inr a \<Longrightarrow>
     reg_claim (rg_now s) (ad_key a) (placeholder_reply (ev 6) a) (rg_map s) = (prior, m') \<Longrightarrow>
     reg_step zk ly tbl s (Some (RegClaimed (ad_key a) (rg_now s) (prior = None)))
       (s \<lparr> rg_map := m', rg_calls := (if prior = None then a # rg_calls s else rg_calls s) \<rparr>)"
| reg_done: "rg_calls s = xs @ a # ys \<Longrightarrow>
     register_finish ly ev (rg_now s) a (rg_map s) = (reply, m', sx, w) \<Longrightarrow>
     reg_step zk ly tbl s (Some (RegFinished (ad_key a) sx (w = None)))
       (s \<lparr> rg_map := m', rg_calls := xs @ ys,
          rg_watchers := (case w of Some w \<Rightarrow> [(w, 0, rg_now s + REG_IN_FLIGHT_TTL)] | None \<Rightarrow> []) @ rg_watchers s \<rparr>)"
| reg_watch: "rg_watchers s = xs @ (w, n, deadline) # ys \<Longrightarrow> looked < deadline \<Longrightarrow> looked + REG_WATCH_INTERVAL \<le> rg_now s \<Longrightarrow>
     watch_round ly tbl ev (rg_now s) w n (rg_map s) = (nx, m', sx) \<Longrightarrow>
     reg_step zk ly tbl s (Some (RegWatched (rw_reg_key w) nx sx))
       (s \<lparr> rg_map := m', rg_watchers := xs @ (case nx of WatchOn w' n' \<Rightarrow> [(w', n', deadline)] | _ \<Rightarrow> []) @ ys \<rparr>)"

text \<open>An event that gives a membership's slot up.\<close>

definition frees :: "string \<Rightarrow> reg_event option \<Rightarrow> bool" where
  "frees key l \<longleftrightarrow> (\<exists>sx. l = Some (RegFinished key sx True)) \<or> (\<exists>sx. l = Some (RegWatched key WatchGaveUp sx))"

section \<open>One submission at a time\<close>

text \<open>Since the claim at \<open>t0\<close> the slot is held by an entry no older, or its time is over.\<close>

definition held_since :: "string \<Rightarrow> nat \<Rightarrow> nat \<Rightarrow> reg_map \<Rightarrow> bool" where
  "held_since key t0 now m \<longleftrightarrow> t0 \<le> now \<and>
     (case m key of
        Some (_, t) \<Rightarrow> t0 \<le> t \<and> t \<le> now
      | None \<Rightarrow> t0 + REG_IN_FLIGHT_TTL \<le> now)"

lemma held_retain: "held_since key t0 now m \<Longrightarrow> held_since key t0 now (reg_retain now m)"
  by (auto simp: held_since_def reg_retain_def split: option.splits)

lemma held_insert: "held_since key t0 now m \<Longrightarrow> held_since key t0 now (reg_insert now k r m)"
  using held_retain [of key t0 now m] by (auto simp: held_since_def reg_insert_def reg_in_flight_def)

lemma held_remove: "held_since key t0 now m \<Longrightarrow> k \<noteq> key \<Longrightarrow> held_since key t0 now (reg_remove now k m)"
  using held_retain [of key t0 now m] by (auto simp: held_since_def reg_remove_def reg_in_flight_def)

lemma held_later: "held_since key t0 now m \<Longrightarrow> now \<le> now' \<Longrightarrow> held_since key t0 now' m"
  by (auto simp: held_since_def split: option.splits)

lemma held_insert_same: "held_since key now now (reg_insert now key r m)"
  by (simp add: held_since_def reg_insert_def reg_in_flight_def)

lemma claim_cases:
  assumes "reg_claim now k r m = (prior, m')"
  shows "prior \<noteq> None \<and> m' = reg_retain now m \<or> prior = None \<and> reg_retain now m k = None \<and> m' = reg_insert now k r m"
  using assms by (auto simp: reg_claim_def reg_in_flight_def reg_insert_def split: option.splits)

lemma finish_map:
  assumes "register_finish ly ev now a m = (reply, m', sx, w)"
  shows "w = None \<and> m' = reg_remove now (ad_key a) m \<or> w \<noteq> None \<and> m' = reg_insert now (ad_key a) reply m"
  using assms by (auto simp: register_finish_def Let_def split: prod.splits option.splits)

lemma round_map:
  assumes "watch_round ly tbl ev now w n m = (nx, m', sx)"
  shows "m' = m \<or> (\<exists>r. m' = reg_insert now (rw_reg_key w) r m) \<or> nx = WatchGaveUp \<and> m' = reg_remove now (rw_reg_key w) m"
  using assms
  by (auto simp: watch_round_def Let_def split: prod.splits option.splits sum.splits if_splits)

lemma reg_step_held:
  assumes "reg_step zk ly tbl s l s'" "held_since key t0 (rg_now s) (rg_map s)" "\<not> frees key l"
  shows "held_since key t0 (rg_now s') (rg_map s')"
  using assms(1)
proof (cases rule: reg_step.cases)
  case (reg_tick now')
  then show ?thesis using held_later [OF assms(2)] by simp
next
  case (reg_call ev cfg payer idc rate a prior m')
  then show ?thesis using claim_cases [OF reg_call(4)] held_insert [OF assms(2)] held_retain [OF assms(2)] by auto
next
  case (reg_done xs a ys ev reply m' sx w)
  then show ?thesis
    using finish_map [OF reg_done(4)] held_insert [OF assms(2)] held_remove [OF assms(2), of "ad_key a"] assms(3)
    by (auto simp: frees_def)
next
  case (reg_watch xs w n deadline ys looked ev nx m' sx)
  then show ?thesis
    using round_map [OF reg_watch(6)] held_insert [OF assms(2)] held_remove [OF assms(2), of "rw_reg_key w"] assms(2,3)
    by (auto simp: frees_def)
qed

text \<open>
  C27: one submission at a time for a membership. Once a call was granted the claim of a membership, no
  other call is granted it for the whole expiry time, whatever handlers, watchers and clock do in
  between, unless the claim was given up: the holder could not submit, or its watcher gave up after a
  revert.
\<close>
theorem registration_single_flight:
  assumes "reg_step zk ly tbl s (Some (RegClaimed key t0 True)) s1"
    and "trace (reg_step zk ly tbl) s1 ls s2" "\<forall>l \<in> set ls. \<not> frees key l"
    and "reg_step zk ly tbl s2 (Some (RegClaimed key t1 True)) s3"
  shows "t0 + REG_IN_FLIGHT_TTL \<le> t1"
proof -
  have "held_since key t0 (rg_now s1) (rg_map s1)"
    using assms(1) by (cases rule: reg_step.cases) (auto dest!: claim_cases simp: held_insert_same)
  with assms(2,3) have h: "held_since key t0 (rg_now s2) (rg_map s2)"
    by (induction rule: trace.induct) (auto intro: reg_step_held)
  show ?thesis
    using assms(4) by (cases rule: reg_step.cases) (use held_retain [OF h] in \<open>auto dest!: claim_cases simp: held_since_def\<close>)
qed

text \<open>A call is granted the claim on the empty map, time passes, and another one is.\<close>

definition idle_machine :: reg_machine where
  "idle_machine = \<lparr> rg_map = Map.empty, rg_now = 0, rg_calls = [], rg_watchers = [] \<rparr>"

lemma sample_claim:
  assumes "reg_retain (rg_now s) (rg_map s) (ad_key sample_admitted) = None"
  shows "\<exists>s'. reg_step sample_zk sample_layouts [] s (Some (RegClaimed (ad_key sample_admitted) (rg_now s) True)) s' \<and>
    rg_now s' = rg_now s \<and> reg_retain (rg_now s + REG_IN_FLIGHT_TTL) (rg_map s') (ad_key sample_admitted) = None"
proof -
  let ?env = "\<lambda>_. lez_sample_env False (\<lambda>_. Inl ''down'')"
  have "get_fee_state (lez_sample_env False (\<lambda>_. Inl ''down'')) = []"
    by (rule no_fee_state) (simp add: lez_sample_env_def)
  then have a: "register_admit sample_zk sample_layouts [] ?env (bytes_to_hex sample_config_id) [] (bytes_to_hex sample_commitment) 3 =
      Inr sample_admitted"
    by (rule sample_admit)
  have c: "reg_claim (rg_now s) (ad_key sample_admitted) (placeholder_reply (?env 6) sample_admitted) (rg_map s) =
      (None, (reg_retain (rg_now s) (rg_map s)) (ad_key sample_admitted \<mapsto> (placeholder_reply (?env 6) sample_admitted, rg_now s)))"
    using assms by (simp add: reg_claim_def reg_in_flight_def)
  show ?thesis using reg_call [OF a c] by (auto simp: reg_retain_def)
qed

theorem registration_single_flight_witness:
  "\<exists>s1 s2 s3. reg_step sample_zk sample_layouts [] idle_machine (Some (RegClaimed (ad_key sample_admitted) 0 True)) s1 \<and>
     trace (reg_step sample_zk sample_layouts []) s1 [None] s2 \<and>
     reg_step sample_zk sample_layouts [] s2 (Some (RegClaimed (ad_key sample_admitted) (300 * 10 ^ 9) True)) s3 \<and>
     0 + REG_IN_FLIGHT_TTL \<le> 300 * 10 ^ 9"
proof -
  have i: "rg_now idle_machine = 0" "reg_retain (rg_now idle_machine) (rg_map idle_machine) k = None" for k
    by (simp_all add: idle_machine_def reg_retain_def)
  obtain s1 where s1: "reg_step sample_zk sample_layouts [] idle_machine (Some (RegClaimed (ad_key sample_admitted) 0 True)) s1"
    "rg_now s1 = 0" "reg_retain REG_IN_FLIGHT_TTL (rg_map s1) (ad_key sample_admitted) = None"
    using sample_claim [OF i(2)] unfolding i(1) by auto
  define s2 where "s2 = s1 \<lparr> rg_now := REG_IN_FLIGHT_TTL \<rparr>"
  have t: "trace (reg_step sample_zk sample_layouts []) s1 [None] s2"
  proof -
    have "reg_step sample_zk sample_layouts [] s1 None s2"
      unfolding s2_def by (rule reg_tick) (simp add: s1(2))
    then show ?thesis using trace_nil by (rule trace_cons)
  qed
  have n: "rg_now s2 = 300 * 10 ^ 9" by (simp add: s2_def REG_IN_FLIGHT_TTL_def)
  obtain s3 where s3: "reg_step sample_zk sample_layouts [] s2 (Some (RegClaimed (ad_key sample_admitted) (300 * 10 ^ 9) True)) s3"
    using sample_claim [of s2] s1(3) unfolding n by (auto simp: s2_def REG_IN_FLIGHT_TTL_def)
  show ?thesis using registration_single_flight [OF s1(1) t _ s3] s1(1) t s3 by (auto simp: frees_def)
qed

text \<open>
  C28: when a watcher sends again. A round that submits saw the last transaction in a block, got no
  decodable membership from the account read before it asked and none from the read after, passed the
  pre-flight, and had re-sends left; and a watcher submits at most five times, however long it runs and
  whatever it reads. A read that failed counts as no membership here, so a transaction that did apply is
  sent again when both reads fail.
\<close>
theorem watcher_resends_reverted:
  assumes "watch_round ly tbl ev now w n m = (nx, m', Some sx)"
  shows "tx_included (ev 3) (rw_tx_hash w) = Some True \<and> n < REG_MAX_RESUBMITS \<and>
    (\<exists>ctx plan. config_context ly tbl (ev 0) (rw_config_account_id w) = Inr ctx \<and>
      derive_register_plan ly (ev 1) ctx (rw_id_commitment w) = Some plan \<and>
      landed ly (ev 2) ctx plan = None \<and> landed ly (ev 4) ctx plan = None \<and>
      preflight_register ly (ev 5) (ev 6) ctx plan (rw_id_commitment w) (rw_rate_limit w) (rw_payer_hex w) = Inr ()) \<and>
    (\<forall>deadline rounds m0 m1 subs. register_watch_run ly tbl deadline rounds w 0 m0 = (m1, subs) \<longrightarrow> length subs \<le> 5)"
proof -
  have "length subs \<le> 5" if "register_watch_run ly tbl deadline rounds w 0 m0 = (m1, subs)" for deadline rounds m0 m1 subs
    using watch_submissions_bound [OF that] by (simp add: REG_MAX_RESUBMITS_def)
  then show ?thesis using watch_round_cases [OF assms] by simp
qed

text \<open>Ascii text is well-formed.\<close>

lemma ascii_valid_utf8: "list_all (\<lambda>c. of_char c < (128 :: nat)) s \<Longrightarrow> valid_utf8 s"
proof (induction s)
  case Nil
  then show ?case by (subst valid_utf8.simps) simp
next
  case (Cons c s)
  then have "utf8_length (c # s) = 1" by (subst utf8_length.simps) (simp add: in_bytes_def)
  then show ?case using Cons by (subst valid_utf8.simps) simp
qed

definition included_reply :: string where
  "included_reply = enc_json (JObj [(''result'', JBool True)])"

lemma sample_sequencer: "wallet_sequencer (lez_sample_env b h) = Some ''http://s/''"
proof -
  have "trim ''http://s/'' = ''http://s/''" by (rule trim_graphic) (simp add: is_ascii_graphic_def less_eq_char_def)
  then show ?thesis
    using sequencer_of_written [OF codec_text_roundtrip, of "''http://s/''"]
    by (simp add: wallet_sequencer_def sequencer_addr_def lez_sample_env_def calm_sys_def nonempty_trimmed_def)
qed

lemma sample_post: "post (lez_sample_env b (\<lambda>_. Inr included_reply)) ''http://s/'' body = Inr included_reply"
proof -
  have "valid_utf8 included_reply" "length included_reply \<le> MAX_REPLY"
    by (rule ascii_valid_utf8) (simp_all add: included_reply_def MAX_REPLY_def)
  then show ?thesis by (simp add: post_def starts_with_def lez_sample_env_def)
qed

lemma sample_reply_parse: "parse_doc (lez_sample_env b h) included_reply = Inr (JObj [(''result'', JBool True)])"
  unfolding included_reply_def by (simp add: parse_doc_def lez_sample_env_def codec_text_def del: enc_json.simps)

lemma sample_included: "tx_included (lez_sample_env b (\<lambda>_. Inr included_reply)) hash = Some True"
  by (simp add: tx_included_def sample_sequencer sample_post sample_reply_parse Let_def)

lemma sample_no_fees: "get_fee_state (lez_sample_env b (\<lambda>_. Inr included_reply)) = []"
  by (simp add: get_fee_state_def sample_sequencer fee_fetch_def sample_post result_of_def sample_reply_parse)

definition sample_watch :: register_watch where
  "sample_watch = \<lparr> rw_config_account_id = bytes_to_hex sample_config_id, rw_payer_hex = bytes_to_hex sample_payer,
     rw_id_commitment = sample_commitment, rw_rate_limit = 3, rw_reg_key = bytes_to_hex sample_program, rw_tx_hash = ''abc'' \<rparr>"

theorem watcher_resends_reverted_witness:
  "\<exists>nx m' sx. watch_round sample_layouts [] (\<lambda>_. lez_sample_env False (\<lambda>_. Inr included_reply)) 7 sample_watch 0 Map.empty =
       (nx, m', Some sx) \<and> (0 :: u32) < REG_MAX_RESUBMITS"
proof -
  let ?e = "lez_sample_env False (\<lambda>_. Inr included_reply)"
  have c: "config_context sample_layouts [] ?e (rw_config_account_id sample_watch) = Inr sample_ctx"
    by (simp add: sample_watch_def sample_context sample_ctx_def)
  have l: "landed sample_layouts ?e sample_ctx sample_plan = None"
    by (simp add: landed_def fetch_shard_quiet_def sample_plan_def sample_ctx_def sample_member_read)
  have w: "rw_id_commitment sample_watch = sample_commitment" "rw_rate_limit sample_watch = 3"
    "rw_payer_hex sample_watch = bytes_to_hex sample_payer"
    by (simp_all add: sample_watch_def)
  have max: "REG_MAX_RESUBMITS \<noteq> 0" by (simp add: REG_MAX_RESUBMITS_def)
  obtain reply sx where sub: "submit_register sample_layouts ?e ?e sample_ctx sample_plan sample_commitment 3 (bytes_to_hex sample_payer) =
      (Some reply, Some sx)"
    using sample_submit by blast
  have pre: "preflight_register sample_layouts ?e ?e sample_ctx sample_plan sample_commitment 3 (bytes_to_hex sample_payer) = Inr ()"
    by (rule sample_preflight [OF sample_no_fees])
  have "\<exists>nx m'. watch_round sample_layouts [] (\<lambda>_. ?e) 7 sample_watch 0 Map.empty = (nx, m', Some sx)"
    unfolding watch_round_def by (simp add: c lez_sample_derive l sample_included max w pre sub)
  then obtain nx m' where r: "watch_round sample_layouts [] (\<lambda>_. ?e) 7 sample_watch 0 Map.empty = (nx, m', Some sx)"
    by blast
  from watcher_resends_reverted [OF r] r show ?thesis by blast
qed

end
