(* ===== verification/Registry_Service.thy ===== *)
theory Registry_Service
  imports Module_Machine
begin

text \<open>
  What the membership module relies on when it asks the registry module about a membership, as an
  interface, and what it may conclude: every cache row it changes holds what was answered about that very
  membership, and one it marks erased, or failed for want of confirmation, was answered absent. The two predicates say what a reply means on the provider's side; the provider's
  theory interprets the locale on its own handler.
\<close>

text \<open>The states a provider may report for a registered membership; the others are the module's own.\<close>

definition chain_state :: "membership_state \<Rightarrow> bool" where
  "chain_state st \<longleftrightarrow> st \<in> {Active, GracePeriod, Expired}"

text \<open>A membership the store publishes or keeps sealed, by its hash and identity.\<close>

definition stored_identity :: "store \<Rightarrow> string \<Rightarrow> identity_block \<Rightarrow> bool" where
  "stored_identity s h ib \<longleftrightarrow> (\<exists>r \<in> set (bt_values (st_snapshot s)). mr_hash r = h \<and> mr_identity r = ib) \<or>
     (\<exists>f entry. in_sealed (st_inner s) = Some f \<and> (h, entry) \<in> set (sf_credentials f) \<and> se_identity entry = ib)"

text \<open>
  A cache row says what the provider answered about a membership: present in the row's state, at the row's
  leaf and rate limit, or absent.
\<close>

definition row_answered ::
  "(string \<Rightarrow> string \<Rightarrow> bool) \<Rightarrow> (string \<Rightarrow> string \<Rightarrow> membership_state \<Rightarrow> u64 \<Rightarrow> u64 \<Rightarrow> bool) \<Rightarrow> identity_block \<Rightarrow> cache_state \<Rightarrow> bool"
where
  "row_answered absent present ib c \<longleftrightarrow> (\<exists>registry. parse (ib_registry_id ib) = Inr registry \<and>
     (chain_state (cs_state c) \<and> (\<exists>leaf rate. cs_leaf_index c = Some leaf \<and> cs_rate_limit c = Some rate \<and>
          present (rid_account registry) (ib_identity_commitment ib) (cs_state c) leaf rate) \<or>
      cs_state c \<in> {Erased, Failed} \<and> absent (rid_account registry) (ib_identity_commitment ib)))"

text \<open>From one store to another, every row that changed says what was answered about its own membership.\<close>

definition moves_truthful ::
  "(string \<Rightarrow> string \<Rightarrow> bool) \<Rightarrow> (string \<Rightarrow> string \<Rightarrow> membership_state \<Rightarrow> u64 \<Rightarrow> u64 \<Rightarrow> bool) \<Rightarrow> store \<Rightarrow> store \<Rightarrow> bool"
where
  "moves_truthful absent present s s' \<longleftrightarrow>
     (\<forall>h. cache_row s' h = cache_row s h \<or>
        (\<exists>ib. stored_identity s h ib \<and> row_answered absent present ib (cache_row s' h))) \<and>
     (\<forall>h ib. stored_identity s' h ib \<longrightarrow> stored_identity s h ib)"

lemma moves_refl [simp]: "moves_truthful absent present s s"
  by (simp add: moves_truthful_def)

lemma update_cache_stored:
  assumes "update_cache w now h f s d = (r, s', d')" "stored_identity s' x ib"
  shows "stored_identity s x ib"
  using assms(1)
proof (cases rule: update_cache_cases)
  case (row c)
  have sealed: "in_sealed (st_inner s') = in_sealed (st_inner s)" using row(2) by simp
  have "st_snapshot s' = build_snapshot (st_inner s') \<or> st_snapshot s' = st_snapshot s" using row(3) by blast
  then show ?thesis using assms(2) sealed
    by (auto simp: stored_identity_def build_snapshot_def split: option.splits) force
qed (use assms(2) in simp)

lemma update_cache_row:
  assumes "update_cache w now h f s d = (r, s', d')"
  shows "s' = s \<or> (\<forall>x. cache_row s' x = (if x = h then stamp_first_active now (f (cache_row s h)) else cache_row s x))"
  using assms by (cases rule: update_cache_cases) (auto simp: cache_row_def)

lemma stamp_keeps_state [simp]: "cs_state (stamp_first_active now c) = cs_state c"
  by (simp add: stamp_first_active_def)

locale registry_service =
  fixes sb :: "'y sibling_scheme"
    and absent :: "string \<Rightarrow> string \<Rightarrow> bool"
    and present :: "string \<Rightarrow> string \<Rightarrow> membership_state \<Rightarrow> u64 \<Rightarrow> u64 \<Rightarrow> bool"
  assumes absent_reply: "sb_get_membership sb account idc = Replied raw \<Longrightarrow> raw \<noteq> [] \<Longrightarrow>
      parse_membership_reply sb raw = Inr pm \<Longrightarrow> \<not> pm_registered pm \<Longrightarrow> absent account idc"
    and present_reply: "sb_get_membership sb account idc = Replied raw \<Longrightarrow> raw \<noteq> [] \<Longrightarrow>
      parse_membership_reply sb raw = Inr pm \<Longrightarrow> pm_registered pm \<Longrightarrow>
      present account idc (pm_state pm) (pm_leaf_index pm) (pm_rate_limit pm)"
    and present_state: "present account idc st leaf rate \<Longrightarrow> chain_state st"
begin

text \<open>A read that succeeds was answered.\<close>

lemma read_answered:
  assumes "get_membership sb r idc g = (Inr pm, g')"
  obtains raw where "sb_get_membership sb (rid_account r) idc = Replied raw" "raw \<noteq> []" "parse_membership_reply sb raw = Inr pm"
  using assms
  by (auto simp: get_membership_def gated_read_def read_reply_def await_reply_def explained_def
      split: sum.splits prod.splits if_splits call_outcome.splits)

lemma read_truthful:
  assumes "get_membership sb r idc g = (Inr pm, g')"
  shows "if pm_registered pm then present (rid_account r) idc (pm_state pm) (pm_leaf_index pm) (pm_rate_limit pm)
    else absent (rid_account r) idc"
  using read_answered [OF assms] absent_reply present_reply by metis

lemma observe_truthful:
  assumes "observe sb r g = (Some u, g')"
  shows "\<exists>registry. parse (ib_registry_id (mr_identity r)) = Inr registry \<and>
    (case u of
       Absent \<Rightarrow> absent (rid_account registry) (ib_identity_commitment (mr_identity r))
     | Observed st leaf rate \<Rightarrow> present (rid_account registry) (ib_identity_commitment (mr_identity r)) st leaf rate)"
  using assms read_truthful
  by (auto simp: observe_def update_of_def split: sum.splits if_splits prod.splits)

text \<open>What the poller writes for a record is what was answered about it.\<close>

lemma write_truthful:
  assumes "observe sb r g = (u, g')" "wr = pending_write now r u \<or> wr = refresh_write u" "wr = Some (st, f)"
  shows "row_answered absent present (mr_identity r) (stamp_first_active t (f c))"
proof (cases u)
  case None
  then show ?thesis using assms(2,3) by (auto simp: pending_write_def refresh_write_def)
next
  case (Some x)
  note t = observe_truthful [OF assms(1) [unfolded Some]]
  show ?thesis
    using t assms(2,3) Some present_state
    by (cases x)
      (auto simp: pending_write_def refresh_write_def observed_row_def erased_row_def window_elapsed_row_def row_answered_def
         stamp_first_active_def split: if_splits)
qed

lemma update_truthful:
  assumes "update_cache w t h f s d = (v, s1, d1)" "moves_truthful absent present s0 s"
    and "stored_identity s0 h ib" "\<And>c. row_answered absent present ib (stamp_first_active t (f c))"
  shows "moves_truthful absent present s0 s1"
  using update_cache_row [OF assms(1)] update_cache_stored [OF assms(1)] assms(2-4)
  unfolding moves_truthful_def by metis

lemma poll_truthful:
  assumes "quiet io" "write = pending_write now \<or> write = (\<lambda>_. refresh_write)"
    and "poll_records sb io write rs ms = (evs, ms')" "ms_store ms = Inr s" "moves_truthful absent present s0 s"
    and "\<forall>r \<in> set rs. stored_identity s0 (mr_hash r) (mr_identity r)"
  shows "\<exists>s'. ms_store ms' = Inr s' \<and> moves_truthful absent present s0 s'"
  using assms(3-)
proof (induction rs arbitrary: ms evs s)
  case (Cons r rs)
  obtain u g where o: "observe sb r (ms_gate ms) = (u, g)" by fastforce
  obtain ev ms1 where p: "apply_write io r (write r u) (ms \<lparr> ms_gate := g \<rparr>) = (ev, ms1)" by fastforce
  obtain evs2 where q: "poll_records sb io write rs ms1 = (evs2, ms')"
    using Cons.prems o p assms(1) by (auto simp: poll_record_def quiet_def split: prod.splits)
  have "\<exists>s1. ms_store ms1 = Inr s1 \<and> moves_truthful absent present s0 s1"
  proof (cases "write r u")
    case None
    then show ?thesis using p Cons.prems(2,3) by auto
  next
    case (Some x)
    obtain st f where x: "x = (st, f)" by (cases x)
    obtain v s1 d1 where up: "update_cache (pi_write io (mr_hash r)) (pi_now io (mr_hash r)) (mr_hash r) f s (ms_disk ms) = (v, s1, d1)"
      by (metis prod_cases3)
    have ms1: "ms_store ms1 = Inr s1" using p Cons.prems(2) Some x up by (auto simp: apply_write_def split: sum.splits)
    have "row_answered absent present (mr_identity r) (stamp_first_active t (f c))" for t c
      using write_truthful [OF o, of "write r u" now st f t c] assms(2) Some x by auto
    then have "moves_truthful absent present s0 s1" 
      using update_truthful [OF up Cons.prems(3), of "mr_identity r"] Cons.prems(4) by auto
    then show ?thesis using ms1 by blast
  qed
  then show ?case using Cons.IH [OF q] Cons.prems(4) by auto
qed auto

lemma snapshot_stored: "r \<in> set (bt_values (st_snapshot s)) \<Longrightarrow> stored_identity s (mr_hash r) (mr_identity r)"
  unfolding stored_identity_def by blast

lemma tick_truthful:
  assumes "tick zk sb io io2 now np stopped refresh ms = (evs, ms')" "quiet io" "quiet io2" "ms_store ms = Inr s"
  shows "\<exists>s'. ms_store ms' = Inr s' \<and> moves_truthful absent present s s'"
proof (cases "stopped 0")
  case True
  then show ?thesis using assms(1,4) by (auto simp: tick_def)
next
  case False
  obtain ev1 ms1 where p1: "poll_records sb io (pending_write now) (pending_records s) ms = (ev1, ms1)" by fastforce
  obtain s1 where s1: "ms_store ms1 = Inr s1" "moves_truthful absent present s s1" 
    using poll_truthful [OF assms(2) _ p1 assms(4) moves_refl, of now] snapshot_stored by (auto simp: pending_records_def)
  show ?thesis
  proof (cases refresh)
    case True
    obtain ev2 ms2 where p2: "poll_records sb io2 (\<lambda>_. refresh_write) (refreshable_records s1) ms1 = (ev2, ms2)" by fastforce
    have "\<forall>r \<in> set (refreshable_records s1). stored_identity s (mr_hash r) (mr_identity r)"
      using snapshot_stored [of _ s1] s1(2) by (auto simp: refreshable_records_def moves_truthful_def)
    then obtain s2 where s2: "ms_store ms2 = Inr s2" "moves_truthful absent present s s2"
      using poll_truthful [OF assms(3) _ p2 s1] by blast
    have "ms' = refresh_paths zk sb np (\<lambda>n. stopped (Suc n)) ms2" using assms(1,4) False True p1 p2 s1(1) by (simp add: tick_def)
    then have "ms_store ms' = Inr s2" using refresh_paths_same [of ms2 zk sb np "\<lambda>n. stopped (Suc n)"] s2(1) by (simp add: same_store_def)
    then show ?thesis using s2(2) by blast
  next
    case False
    then have "ms' = ms1" using assms(1,4) \<open>\<not> stopped 0\<close> p1 s1(1) by (simp add: tick_def)
    then show ?thesis using s1 by blast
  qed
qed

end

end
