(* ===== verification/Lez_Service.thy ===== *)
theory Lez_Service
  imports Lez_Watch Registry_Service
begin

text \<open>
  The two modules together: what the membership module reads of the registry module's replies, and what
  that says about the chain.
\<close>

section \<open>What the other module reads\<close>

text \<open>The provider's sibling, when its membership reads are answered by this module.\<close>

definition serves_membership ::
  "('fr, 'zp) zerokit \<Rightarrow> layouts \<Rightarrow> network_entry list \<Rightarrow> (nat \<Rightarrow> lez_env) \<Rightarrow> json_text \<Rightarrow> 'z sibling_scheme \<Rightarrow> bool"
where
  "serves_membership zk ly tbl ev jt sb \<longleftrightarrow>
     (\<forall>account idc. sb_get_membership sb account idc = Replied (get_membership_handler zk ly tbl ev account idc)) \<and>
     parse_json sb = jt_parse jt \<and> (\<forall>i. le_text (ev i) = jt)"

abbreviation membership_read :: "config_ctx \<Rightarrow> register_plan \<Rightarrow> lez_env \<Rightarrow> fetch_outcome" where
  "membership_read ctx plan e \<equiv>
     fetch_shard_tri_state e (bytes_to_hex (rp_membership_account_id plan)) (cc_registration_program ctx)"

definition member_json :: "layouts \<Rightarrow> membership_data \<Rightarrow> u64 \<Rightarrow> u64 \<Rightarrow> json" where
  "member_json ly m now leaf = JObj
     [(''clock_timestamp'', j_u64 now), (''grace_period_duration'', j_u64 (ucast (md_grace_duration_sec m))),
      (''grace_period_start_timestamp'', j_u64 (md_grace_start_ms m)), (''leaf_index'', JInt (sint leaf)),
      (''rate_limit'', JInt (sint (md_rate_limit m))), (''registered'', JBool True),
      (''state'', JStr (membership_status ly (md_grace_start_ms m) (md_grace_duration_sec m) now))]"

text \<open>A nonempty reply is one of two, after the context and the plan were read.\<close>

lemma handler_reply_cases:
  assumes "get_membership_handler zk ly tbl ev account idc = raw" "raw \<noteq> []"
  obtains (absent) idb ctx plan where "hex_to_bytes32 idc = Some idb" "config_context ly tbl (ev 0) account = Inr ctx"
      "derive_register_plan ly (ev 1) ctx idb = Some plan" "membership_read ctx plan (ev 2) = Absent"
      "raw = render (ev 2) (JObj [(''registered'', JBool False)])"
    | (present) idb ctx plan data m now leaf where "hex_to_bytes32 idc = Some idb" "config_context ly tbl (ev 0) account = Inr ctx"
      "derive_register_plan ly (ev 1) ctx idb = Some plan" "membership_read ctx plan (ev 2) = Present data"
      "decode_membership ly data = Inr m" "chain_now_ms ly (ev 3) = Some now" "membership_leaf_index zk ly (ev 4) ctx m = Some leaf"
      "raw = render (ev 4) (member_json ly m now leaf)"
  using assms
  by (auto simp: get_membership_handler_def member_json_def split: option.splits sum.splits fetch_outcome.splits)

lemma as_u64_sint: "as_u64 (JInt (sint (w :: u64))) = Some n \<Longrightarrow> n = w"
  by (auto split: if_splits)

lemma absent_account:
  assumes "fetch_shard_tri_state e hex program = Absent" "json_roundtrip (le_text e)" "\<forall>v. jt_render (le_text e) v \<noteq> []"
  shows "\<exists>acct a. hex_to_bytes32 hex = Some acct \<and> wallet (le_state e) (le_wakes e) \<and> le_account e acct = Inr a \<and>
    (ids32 a \<longrightarrow> map_of (rev (fa_shards a)) program \<in> {None, Some []})"
proof -
  obtain acct a where a: "hex_to_bytes32 hex = Some acct" "wallet (le_state e) (le_wakes e)" "le_account e acct = Inr a"
    using tri_state_error [of hex e program] assms(1)
    by (cases "hex_to_bytes32 hex"; cases "le_account e (the (hex_to_bytes32 hex))") auto
  have "map_of (rev (fa_shards a)) program \<in> {None, Some []}" if "ids32 a"
    using tri_state_exact [OF assms(2) _ a that, of program] assms(1,3) by (auto split: option.splits if_splits)
  then show ?thesis using a by blast
qed

text \<open>How the two replies are read.\<close>

lemma read_absent:
  assumes "parse_json sb raw = Inr (JObj [(''registered'', JBool False)])" "parse_membership_reply sb raw = Inr pm"
  shows "pm_registered pm = False"
  using assms by (auto simp: parse_membership_reply_def parsed_as_def)

lemma read_present:
  assumes "parse_json sb raw = Inr (member_json ly m now leaf)" "parse_membership_reply sb raw = Inr pm"
  shows "pm_registered pm" "pm_leaf_index pm = leaf" "pm_rate_limit pm = md_rate_limit m"
    "state_of_wire (membership_status ly (md_grace_start_ms m) (md_grace_duration_sec m) now) = Some (pm_state pm)"
  using assms
  by (auto simp: parse_membership_reply_def parsed_as_def member_json_def membership_required_def result_iffs ok_or_eq_Inr
      dest!: as_u64_sint simp del: as_u64.simps)

text \<open>What an answer means on the chain, at the moments the handler made its calls.\<close>

definition chain_absent :: "layouts \<Rightarrow> network_entry list \<Rightarrow> (nat \<Rightarrow> lez_env) \<Rightarrow> string \<Rightarrow> string \<Rightarrow> bool" where
  "chain_absent ly tbl ev account idc \<longleftrightarrow>
     (\<exists>idb ctx plan acct a. hex_to_bytes32 idc = Some idb \<and> config_context ly tbl (ev 0) account = Inr ctx \<and>
        derive_register_plan ly (ev 1) ctx idb = Some plan \<and>
        hex_to_bytes32 (bytes_to_hex (rp_membership_account_id plan)) = Some acct \<and> le_account (ev 2) acct = Inr a \<and>
        (ids32 a \<longrightarrow> map_of (rev (fa_shards a)) (cc_registration_program ctx) \<in> {None, Some []}))"

definition chain_present ::
  "('fr, 'zp) zerokit \<Rightarrow> layouts \<Rightarrow> network_entry list \<Rightarrow> (nat \<Rightarrow> lez_env) \<Rightarrow> string \<Rightarrow> string \<Rightarrow>
     membership_state \<Rightarrow> u64 \<Rightarrow> u64 \<Rightarrow> bool"
where
  "chain_present zk ly tbl ev account idc st index rate \<longleftrightarrow>
     (\<exists>idb ctx plan data m now leaf tree. hex_to_bytes32 idc = Some idb \<and> config_context ly tbl (ev 0) account = Inr ctx \<and>
        derive_register_plan ly (ev 1) ctx idb = Some plan \<and>
        membership_read ctx plan (ev 2) = Present data \<and> decode_membership ly data = Inr m \<and> rate = md_rate_limit m \<and>
        registration_leaf zk (md_id_commitment m) (md_rate_limit m) = Some leaf \<and> fetch_tree_shard ly (ev 4) ctx = Some tree \<and>
        find_leaf_index ly tree leaf = Some index \<and> chain_now_ms ly (ev 3) = Some now \<and>
        state_of_wire (membership_status ly (md_grace_start_ms m) (md_grace_duration_sec m) now) = Some st)"

lemma chain_present_state: "chain_present zk ly tbl ev account idc st index rate \<Longrightarrow> chain_state st"
  by (auto simp: chain_present_def chain_state_def membership_status_def state_of_wire_def Let_def split: if_splits)

lemma membership_answer:
  assumes "\<And>i. le_text (ev i) = jt" "json_roundtrip jt" "\<And>v. jt_render jt v \<noteq> []" "parse_json sb = jt_parse jt"
    and "get_membership_handler zk ly tbl ev account idc = raw" "raw \<noteq> []" "parse_membership_reply sb raw = Inr pm"
  shows "if pm_registered pm then chain_present zk ly tbl ev account idc (pm_state pm) (pm_leaf_index pm) (pm_rate_limit pm)
    else chain_absent ly tbl ev account idc"
proof -
  have rtrip: "parse_json sb (render (ev i) v) = Inr v" for i v
    using assms(1,2,4) by (simp add: render_def json_roundtrip_def)
  from assms(5,6) show ?thesis
  proof (cases rule: handler_reply_cases)
    case (absent idb ctx plan)
    have "parse_json sb raw = Inr (JObj [(''registered'', JBool False)])" using rtrip absent(5) by simp
    then have no: "pm_registered pm = False" using assms(7) by (rule read_absent)
    have "\<exists>acct a. hex_to_bytes32 (bytes_to_hex (rp_membership_account_id plan)) = Some acct \<and> le_account (ev 2) acct = Inr a \<and>
        (ids32 a \<longrightarrow> map_of (rev (fa_shards a)) (cc_registration_program ctx) \<in> {None, Some []})"
      using absent_account [OF absent(4)] assms(2,3) unfolding assms(1) by blast
    then show ?thesis using absent unfolding no if_False chain_absent_def by blast
  next
    case (present idb ctx plan data m now leaf)
    have "parse_json sb raw = Inr (member_json ly m now leaf)" using rtrip present(8) by simp
    note q = read_present [OF this assms(7)]
    then show ?thesis using present(1-7) by (auto simp: chain_present_def membership_leaf_index_def bind_eq_Some_conv)
  qed
qed

section \<open>The registry module as the other module's registry service\<close>

text \<open>What the sources rely on in \<open>serde_json\<close>.\<close>

locale lawful_codec =
  fixes jt :: json_text
  assumes parses_back: "json_roundtrip jt"
    and renders: "jt_render jt v \<noteq> []"

interpretation codec: lawful_codec codec_text
  by unfold_locales (simp_all add: codec_text_roundtrip, simp add: codec_text_def)

definition on_text :: "json_text \<Rightarrow> (nat \<Rightarrow> lez_env) \<Rightarrow> nat \<Rightarrow> lez_env" where
  "on_text jt ev i = (ev i) \<lparr> le_text := jt \<rparr>"

text \<open>
  Any sibling, with its membership reads answered by the registry module. Each account and commitment has
  its own surroundings, so the chain may move between the reads of different members.
\<close>

definition lez_answers ::
  "('fr, 'zp) zerokit \<Rightarrow> layouts \<Rightarrow> network_entry list \<Rightarrow> (string \<Rightarrow> string \<Rightarrow> nat \<Rightarrow> lez_env) \<Rightarrow> json_text \<Rightarrow>
     'y sibling_scheme \<Rightarrow> 'y sibling_scheme"
where
  "lez_answers zk ly tbl ev jt sb = sb
     \<lparr> sb_get_membership := \<lambda>account idc. Replied (get_membership_handler zk ly tbl (on_text jt (ev account idc)) account idc),
       parse_json := jt_parse jt \<rparr>"

definition answered_absent ::
  "layouts \<Rightarrow> network_entry list \<Rightarrow> (string \<Rightarrow> string \<Rightarrow> nat \<Rightarrow> lez_env) \<Rightarrow> json_text \<Rightarrow> string \<Rightarrow> string \<Rightarrow> bool"
where
  "answered_absent ly tbl ev jt account idc \<longleftrightarrow> chain_absent ly tbl (on_text jt (ev account idc)) account idc"

definition answered_present ::
  "('fr, 'zp) zerokit \<Rightarrow> layouts \<Rightarrow> network_entry list \<Rightarrow> (string \<Rightarrow> string \<Rightarrow> nat \<Rightarrow> lez_env) \<Rightarrow> json_text \<Rightarrow>
     string \<Rightarrow> string \<Rightarrow> membership_state \<Rightarrow> u64 \<Rightarrow> u64 \<Rightarrow> bool"
where
  "answered_present zk ly tbl ev jt account idc st leaf rate \<longleftrightarrow>
     chain_present zk ly tbl (on_text jt (ev account idc)) account idc st leaf rate"

lemma lez_answers_reply:
  assumes "lawful_codec jt" "sb_get_membership (lez_answers zk ly tbl ev jt sb) account idc = Replied raw" "raw \<noteq> []"
    and "parse_membership_reply (lez_answers zk ly tbl ev jt sb) raw = Inr pm"
  shows "if pm_registered pm
    then answered_present zk ly tbl ev jt account idc (pm_state pm) (pm_leaf_index pm) (pm_rate_limit pm)
    else answered_absent ly tbl ev jt account idc"
  unfolding answered_absent_def answered_present_def
proof (rule membership_answer [where jt = jt and sb = "lez_answers zk ly tbl ev jt sb"])
  show "le_text (on_text jt (ev account idc) i) = jt" for i by (simp add: on_text_def)
  show "json_roundtrip jt" "\<And>v. jt_render jt v \<noteq> []" using assms(1) by (simp_all add: lawful_codec_def)
  show "parse_json (lez_answers zk ly tbl ev jt sb) = jt_parse jt" by (simp add: lez_answers_def)
  show "get_membership_handler zk ly tbl (on_text jt (ev account idc)) account idc = raw" using assms(2) by (simp add: lez_answers_def)
qed (fact assms(3,4))+

sublocale lawful_codec \<subseteq> served: registry_service "lez_answers zk ly tbl ev jt sb"
  "answered_absent ly tbl ev jt" "answered_present zk ly tbl ev jt" for zk ly tbl ev sb
proof unfold_locales
  fix account idc raw pm
  assume a: "sb_get_membership (lez_answers zk ly tbl ev jt sb) account idc = Replied raw" "raw \<noteq> []"
    "parse_membership_reply (lez_answers zk ly tbl ev jt sb) raw = Inr pm"
  note r = lez_answers_reply [OF lawful_codec_axioms a]
  show "\<not> pm_registered pm \<Longrightarrow> answered_absent ly tbl ev jt account idc" using r by simp
  show "pm_registered pm \<Longrightarrow> answered_present zk ly tbl ev jt account idc (pm_state pm) (pm_leaf_index pm) (pm_rate_limit pm)"
    using r by simp
qed (auto simp: answered_present_def dest: chain_present_state)

context lawful_codec
begin

lemma served_tick:
  assumes "tick zk' (lez_answers zk ly tbl ev jt sb) io io2 now np stopped refresh ms = (evs, ms')" "quiet io" "quiet io2"
    and "ms_store ms = Inr s"
  shows "\<exists>s'. ms_store ms' = Inr s' \<and> moves_truthful (answered_absent ly tbl ev jt) (answered_present zk ly tbl ev jt) s s'"
  using assms by (rule served.tick_truthful)

end

text \<open>
  C38: what a poller tick writes about a membership is what the chain says of that membership. Over a whole
  tick with the registry module as the sibling, and no handler running beside it, every cache row either
  stays as it was or is that of a membership the store has, and then it is in a state, at a leaf and with a
  rate limit that the chain holds for that membership's registry and commitment, or it is erased or failed
  and the wallet library read that very membership's account and found no data of the registration program.
  No failure on the way, in either module, ever marks a membership erased or failed.
\<close>
theorem erased_only_when_absent:
  assumes "json_roundtrip jt" "\<And>v. jt_render jt v \<noteq> []" "quiet io" "quiet io2" "ms_store ms = Inr s"
    and "tick zk' (lez_answers zk ly tbl ev jt sb) io io2 now np stopped refresh ms = (evs, ms')"
  shows "\<exists>s'. ms_store ms' = Inr s' \<and>
    (\<forall>h. cache_row s' h = cache_row s h \<or>
       (\<exists>ib registry. stored_identity s h ib \<and> parse (ib_registry_id ib) = Inr registry \<and>
          (let c = cache_row s' h; account = rid_account registry; idc = ib_identity_commitment ib in
           cs_state c \<in> {Active, GracePeriod, Expired} \<and>
             (\<exists>leaf rate. cs_leaf_index c = Some leaf \<and> cs_rate_limit c = Some rate \<and>
                chain_present zk ly tbl (on_text jt (ev account idc)) account idc (cs_state c) leaf rate) \<or>
           cs_state c \<in> {Erased, membership_state.Failed} \<and> chain_absent ly tbl (on_text jt (ev account idc)) account idc)))"
proof -
  have "lawful_codec jt" using assms(1,2) by unfold_locales
  from lawful_codec.served_tick [OF this assms(6,3-5)] show ?thesis
    unfolding moves_truthful_def row_answered_def answered_absent_def answered_present_def chain_state_def Let_def by metis
qed

text \<open>
  C26: what the membership module believes about a membership is what the chain says. When its read of
  a membership comes back as absent, the sequencer answered the read of the membership account and no
  data of the registration program is there; no failure anywhere on the way is ever read as absent.
  When it comes back as registered, the data is there and decodes, its rate limit is the reported one,
  the reported index is where the tree holds the member's leaf, and the state is judged by the chain's
  clock.
\<close>
theorem membership_reply_truthful:
  assumes "serves_membership zk ly tbl ev jt sb" "json_roundtrip jt" "\<forall>v. jt_render jt v \<noteq> []"
    and "get_membership sb r idc g = (Inr pm, g')"
  shows "\<exists>idb ctx plan. hex_to_bytes32 idc = Some idb \<and> config_context ly tbl (ev 0) (rid_account r) = Inr ctx \<and>
    derive_register_plan ly (ev 1) ctx idb = Some plan \<and>
    (if pm_registered pm then
       \<exists>data m now leaf tree.
         membership_read ctx plan (ev 2) = Present data \<and> decode_membership ly data = Inr m \<and> pm_rate_limit pm = md_rate_limit m \<and>
         registration_leaf zk (md_id_commitment m) (md_rate_limit m) = Some leaf \<and> fetch_tree_shard ly (ev 4) ctx = Some tree \<and>
         find_leaf_index ly tree leaf = Some (pm_leaf_index pm) \<and> chain_now_ms ly (ev 3) = Some now \<and>
         state_of_wire (membership_status ly (md_grace_start_ms m) (md_grace_duration_sec m) now) = Some (pm_state pm)
     else
       \<exists>acct a. hex_to_bytes32 (bytes_to_hex (rp_membership_account_id plan)) = Some acct \<and> le_account (ev 2) acct = Inr a \<and>
         (ids32 a \<longrightarrow> map_of (rev (fa_shards a)) (cc_registration_program ctx) \<in> {None, Some []}))"
proof -
  let ?raw = "get_membership_handler zk ly tbl ev (rid_account r) idc"
  have raw: "?raw \<noteq> []" "parse_membership_reply sb ?raw = Inr pm"
    using assms(1,4)
    by (auto simp: get_membership_def gated_read_def serves_membership_def read_reply_def await_reply_def explained_def
        split: sum.splits prod.splits if_splits)
  have "if pm_registered pm then chain_present zk ly tbl ev (rid_account r) idc (pm_state pm) (pm_leaf_index pm) (pm_rate_limit pm)
      else chain_absent ly tbl ev (rid_account r) idc"
    using membership_answer [of ev jt sb zk ly tbl "rid_account r" idc ?raw pm] assms(1-3) raw by (simp add: serves_membership_def)
  then show ?thesis by (cases "pm_registered pm") (auto simp: chain_present_def chain_absent_def)
qed

definition lez_sibling :: "(nat \<Rightarrow> lez_env) \<Rightarrow> sibling" where
  "lez_sibling ev = sample_sibling
     \<lparr> sb_get_membership := \<lambda>a c. Replied (get_membership_handler sample_zk sample_layouts [] ev a c),
       parse_json := jt_parse codec_text \<rparr>"

definition lez_registry :: canonical_registry_id where
  "lez_registry = sample_registry \<lparr> rid_account := bytes_to_hex sample_config_id \<rparr>"

lemma sample_membership_reply:
  "get_membership_handler sample_zk sample_layouts [] (\<lambda>_. lez_sample_env True h) (bytes_to_hex sample_config_id)
     (bytes_to_hex sample_commitment) = enc_json (JObj
       [(''clock_timestamp'', j_u64 5), (''grace_period_duration'', j_u64 1), (''grace_period_start_timestamp'', j_u64 10),
        (''leaf_index'', JInt 1), (''rate_limit'', JInt 3), (''registered'', JBool True), (''state'', JStr ''active'')])"
proof -
  have "hex_to_bytes32 (bytes_to_hex sample_commitment) = Some sample_commitment"
    by (simp add: sample_commitment_def)
  moreover have "membership_status sample_layouts 10 1 5 = ''active''"
    by (simp add: membership_status_def sample_layouts_def Let_def)
  moreover have "rp_membership_account_id sample_plan = sample_program" by (simp add: sample_plan_def)
  moreover have "config_context sample_layouts [] (lez_sample_env True h) (bytes_to_hex sample_config_id) = Inr sample_ctx"
    by (simp add: sample_context sample_ctx_def)
  moreover have "cc_registration_program sample_ctx = sample_program" by (simp add: sample_ctx_def)
  moreover have "render (lez_sample_env True h) v = enc_json v" for v by (simp add: render_def lez_sample_env_def codec_text_def)
  ultimately show ?thesis
    by (simp add: get_membership_handler_def lez_sample_derive sample_member_read sample_decode sample_clock sample_leaf del: enc_json.simps)
qed

theorem membership_reply_truthful_witness:
  "\<exists>pm plan leaf. get_membership (lez_sibling (\<lambda>_. lez_sample_env True Inl)) lez_registry (bytes_to_hex sample_commitment) [''local'' \<mapsto> Inr ()] =
       (Inr pm, [''local'' \<mapsto> Inr ()]) \<and> pm_registered pm \<and>
     derive_register_plan sample_layouts (lez_sample_env True Inl) sample_ctx sample_commitment = Some plan \<and>
     find_leaf_index sample_layouts sample_shard leaf = Some (pm_leaf_index pm)"
proof -
  let ?ev = "\<lambda>_. lez_sample_env True Inl"
  have serves: "serves_membership sample_zk sample_layouts [] ?ev codec_text (lez_sibling ?ev)"
    by (simp add: serves_membership_def lez_sibling_def lez_sample_env_def)
  have acc: "rid_account lez_registry = bytes_to_hex sample_config_id" "rid_reference lez_registry = ''local''"
    by (simp_all add: lez_registry_def sample_registry_def)
  let ?reply = "get_membership_handler sample_zk sample_layouts [] ?ev (bytes_to_hex sample_config_id) (bytes_to_hex sample_commitment)"
  have "sb_get_membership (lez_sibling ?ev) (bytes_to_hex sample_config_id) (bytes_to_hex sample_commitment) = Replied ?reply"
    "parse_json (lez_sibling ?ev) ?reply = Inr (JObj
       [(''clock_timestamp'', j_u64 5), (''grace_period_duration'', j_u64 1), (''grace_period_start_timestamp'', j_u64 10),
        (''leaf_index'', JInt 1), (''rate_limit'', JInt 3), (''registered'', JBool True), (''state'', JStr ''active'')])"
    "?reply \<noteq> []"
    unfolding sample_membership_reply by (simp_all add: lez_sibling_def codec_text_def sample_membership_reply del: enc_json.simps)
  then have g: "get_membership (lez_sibling ?ev) lez_registry (bytes_to_hex sample_commitment) [''local'' \<mapsto> Inr ()] =
      (Inr \<lparr> pm_registered = True, pm_state = Active, pm_leaf_index = 1, pm_rate_limit = 3 \<rparr>, [''local'' \<mapsto> Inr ()])"
    by (simp add: get_membership_def gated_read_def ensure_network_def acc read_reply_def await_reply_def
        parse_membership_reply_def parsed_as_def membership_required_def state_of_wire_def del: enc_json.simps)
  have "\<forall>v. jt_render codec_text v \<noteq> []" by (simp add: codec_text_def)
  from membership_reply_truthful [OF serves codec_text_roundtrip this g] obtain ctx plan leaf tree m where
    "config_context sample_layouts [] (lez_sample_env True Inl) (bytes_to_hex sample_config_id) = Inr ctx"
    "fetch_tree_shard sample_layouts (lez_sample_env True Inl) ctx = Some tree"
    "find_leaf_index sample_layouts tree leaf = Some 1"
    unfolding acc by auto
  then have "find_leaf_index sample_layouts sample_shard leaf = Some 1"
    using sample_tree [unfolded sample_ctx_def] by (auto simp: sample_context)
  then show ?thesis using g lez_sample_derive by auto
qed

text \<open>A record of a member the small registry does not have.\<close>

definition gone_registry :: canonical_registry_id where
  "gone_registry = \<lparr> rid_namespace = ''logos'', rid_reference = ''local'', rid_account = bytes_to_hex sample_config_id,
     rid_canonical = ''logos'' @ '':'' @ ''local'' @ '':'' @ bytes_to_hex sample_config_id \<rparr>"

lemma gone_registry_canonical: "canonical_id gone_registry"
proof -
  have "\<exists>bs. length bs = 32 \<and> bytes_to_hex sample_config_id = bytes_to_hex bs"
    using sample_lengths by (intro exI [of _ sample_config_id]) simp
  then show ?thesis
    using hex_account_bytes
    by (simp add: canonical_id_def gone_registry_def namespace_byte_def reference_byte_def ascii_defs
        to_ascii_lowercase_def lower_char_def)
qed

definition gone_record :: membership_record where
  "gone_record = own_record \<lparr> mr_identity := own_identity
     \<lparr> ib_registry_id := rid_canonical gone_registry, ib_identity_commitment := bytes_to_hex sample_commitment \<rparr> \<rparr>"

definition gone_store :: store where
  "gone_store = own_store
     \<lparr> st_inner := (st_inner own_store) \<lparr> in_sealed := Some (own_sealed
         \<lparr> sf_credentials := [(''h'', \<lparr> se_identity = mr_identity gone_record, se_nonce = [], se_ct = [] \<rparr>)] \<rparr>) \<rparr>,
       st_snapshot := [(''h'', gone_record)] \<rparr>"

definition gone_module :: module_state where
  "gone_module = own_module \<lparr> ms_store := Inr gone_store, ms_gate := [''local'' \<mapsto> Inr ()] \<rparr>"

abbreviation gone_sibling :: sibling where
  "gone_sibling \<equiv> lez_answers sample_zk sample_layouts [] (\<lambda>_ _ _. lez_sample_env False Inl) codec_text sample_sibling"

lemma gone_read:
  "get_membership gone_sibling gone_registry (bytes_to_hex sample_commitment) [''local'' \<mapsto> Inr ()] =
     (Inr \<lparr> pm_registered = False, pm_state = Unknown, pm_leaf_index = 0, pm_rate_limit = 0 \<rparr>, [''local'' \<mapsto> Inr ()])"
proof -
  let ?e = "lez_sample_env False Inl"
  have t: "on_text codec_text (\<lambda>_. ?e) = (\<lambda>_. ?e)" by (rule ext) (simp add: on_text_def lez_sample_env_def)
  have "hex_to_bytes32 (bytes_to_hex sample_commitment) = Some sample_commitment" by (simp add: sample_commitment_def)
  moreover have "rp_membership_account_id sample_plan = sample_program" "cc_registration_program sample_ctx = sample_program"
    by (simp_all add: sample_plan_def sample_ctx_def)
  moreover have "config_context sample_layouts [] ?e (bytes_to_hex sample_config_id) = Inr sample_ctx"
    by (simp add: sample_context sample_ctx_def)
  moreover have "render ?e v = enc_json v" for v by (simp add: render_def lez_sample_env_def codec_text_def)
  ultimately have "get_membership_handler sample_zk sample_layouts [] (\<lambda>_. ?e) (bytes_to_hex sample_config_id) (bytes_to_hex sample_commitment) =
      enc_json (JObj [(''registered'', JBool False)])"
    by (simp add: get_membership_handler_def lez_sample_derive sample_member_read del: enc_json.simps)
  then have "sb_get_membership gone_sibling (bytes_to_hex sample_config_id) (bytes_to_hex sample_commitment) =
      Replied (enc_json (JObj [(''registered'', JBool False)]))"
    unfolding lez_answers_def t by (simp del: enc_json.simps)
  moreover have "parse_json gone_sibling (enc_json v) = Inr v" for v
    by (simp add: lez_answers_def codec_text_def del: enc_json.simps)
  moreover have "enc_json (JObj [(''registered'', JBool False)]) \<noteq> []" by simp
  ultimately show ?thesis
    by (simp add: get_membership_def gated_read_def ensure_network_def gone_registry_def read_reply_def await_reply_def
        parse_membership_reply_def parsed_as_def del: enc_json.simps)
qed

lemma gone_identity: "stored_identity gone_store ''h'' ib \<Longrightarrow> ib = mr_identity gone_record"
  by (auto simp: stored_identity_def gone_store_def)

theorem erased_only_when_absent_witness:
  "\<exists>evs ms' s'. tick sample_zk gone_sibling quiet_io quiet_io 600 600 (\<lambda>_. False) True gone_module = (evs, ms') \<and>
     ms_store ms' = Inr s' \<and> cs_state (cache_row s' ''h'') = Erased \<and> cs_state (cache_row gone_store ''h'') \<noteq> Erased \<and>
     chain_absent sample_layouts [] (on_text codec_text (\<lambda>_. lez_sample_env False Inl)) (bytes_to_hex sample_config_id)
       (bytes_to_hex sample_commitment)"
proof -
  let ?i = "(st_inner gone_store) \<lparr> in_cache := bt_insert ''h'' (stamp_first_active 600 (erased_row default_cache_state)) (in_cache (st_inner gone_store)) \<rparr>"
  let ?s' = "swap_snapshot (with_inner gone_store ?i)"
  have store: "ms_store gone_module = Inr gone_store" "ms_gate gone_module = [''local'' \<mapsto> Inr ()]" by (simp_all add: gone_module_def)
  have row: "cache_row gone_store ''h'' = default_cache_state" "in_lock (st_inner gone_store)" "sealed_contains (st_inner gone_store) ''h''"
    by (simp_all add: gone_store_def cache_row_def own_store_def sample_inner_def sealed_contains_def own_sealed_def bt_contains_def bt_get_Cons)
  have lists: "pending_records gone_store = []" "refreshable_records gone_store = [gone_record]"
    by (simp_all add: pending_records_def refreshable_records_def gone_store_def gone_record_def own_record_def)
  have obs: "observe gone_sibling gone_record [''local'' \<mapsto> Inr ()] = (Some record_update.Absent, [''local'' \<mapsto> Inr ()])"
    using gone_read
    by (simp add: observe_def gone_record_def parse_canonical [OF gone_registry_canonical] provider_for_def update_of_def)
      (simp add: gone_registry_def)
  obtain d' where u: "update_cache WriteOk 600 ''h'' erased_row gone_store (ms_disk gone_module) = (Inr Unknown, ?s', d')"
    using row by (auto simp: update_cache_def ensure_open_def cache_row_def write_cache_def default_cache_state_def Let_def)
  have hash: "mr_hash gone_record = ''h''" by (simp add: gone_record_def own_record_def)
  obtain evs ms1 where p: "poll_records gone_sibling quiet_io (\<lambda>_. refresh_write) [gone_record] gone_module = (evs, ms1)" "ms_store ms1 = Inr ?s'"
    by (simp add: poll_record_def store obs refresh_write_def apply_write_def hash quiet_io_def u)
  obtain evs2 ms' where t: "tick sample_zk gone_sibling quiet_io quiet_io 600 600 (\<lambda>_. False) True gone_module = (evs2, ms')" by fastforce
  have "ms' = refresh_paths sample_zk gone_sibling 600 (\<lambda>_. False) ms1"
    using t by (simp add: tick_def store lists p(1) del: poll_records.simps(2))
  then have s': "ms_store ms' = Inr ?s'"
    using refresh_paths_same [of ms1 sample_zk gone_sibling 600 "\<lambda>_. False"] p(2) by (simp add: same_store_def)
  have "cache_row ?s' ''h'' = stamp_first_active 600 (erased_row default_cache_state)"
    by (simp add: cache_row_def swap_snapshot_def with_inner_def)
  then have er: "cs_state (cache_row ?s' ''h'') = Erased" by (simp add: erased_row_def)
  have q: "quiet quiet_io" by (simp add: quiet_def quiet_io_def)
  have nz: "\<And>v. jt_render codec_text v \<noteq> []" by (simp add: codec_text_def)
  have "cs_state (cache_row gone_store ''h'') = Unknown" by (simp add: row default_cache_state_def)
  then have moved: "cs_state (cache_row ?s' ''h'') \<noteq> cs_state (cache_row gone_store ''h'')" unfolding er by simp
  define s1 where "s1 = ?s'"
  note at_s1 = s' [folded s1_def] er [folded s1_def] moved [folded s1_def]
  have changed: "cache_row s1 ''h'' \<noteq> cache_row gone_store ''h''" using at_s1(3) by metis
  have other: "cs_state (cache_row s1 ''h'') \<notin> {Active, GracePeriod, Expired}" by (simp add: at_s1(2))
  from erased_only_when_absent [OF codec_text_roundtrip nz q q store(1) t]
  obtain ib registry where ib: "stored_identity gone_store ''h'' ib" "parse (ib_registry_id ib) = Inr registry"
    "chain_absent sample_layouts [] (on_text codec_text (\<lambda>_. lez_sample_env False Inl)) (rid_account registry) (ib_identity_commitment ib)"
    unfolding at_s1(1) sum.inject Let_def using changed other by blast
  have "ib = mr_identity gone_record" using gone_identity ib(1) by blast
  moreover have "registry = gone_registry"
    using ib(2) parse_canonical [OF gone_registry_canonical] calculation by (simp add: gone_record_def)
  ultimately have "chain_absent sample_layouts [] (on_text codec_text (\<lambda>_. lez_sample_env False Inl)) (bytes_to_hex sample_config_id)
      (bytes_to_hex sample_commitment)"
    using ib(3) by (simp add: gone_record_def gone_registry_def)
  then show ?thesis using t at_s1 moved by metis
qed

section \<open>A registered member can prove\<close>

definition serves_proofs ::
  "layouts \<Rightarrow> network_entry list \<Rightarrow> (nat \<Rightarrow> lez_env) \<Rightarrow> json_text \<Rightarrow> 'z sibling_scheme \<Rightarrow> bool"
where
  "serves_proofs ly tbl ev jt sb \<longleftrightarrow>
     (\<forall>account idx. sb_get_merkle_proofs sb account idx = Replied (get_merkle_proofs_impl ly tbl ev account idx)) \<and>
     parse_json sb = jt_parse jt \<and> (\<forall>i. le_text (ev i) = jt)"

definition proof_fields :: "rln_merkle_proof \<Rightarrow> (string \<times> json) list" where
  "proof_fields p = (case proof_json p of JObj fs \<Rightarrow> fs | _ \<Rightarrow> [])"

definition served_proof :: "rln_merkle_proof \<Rightarrow> bytes list \<Rightarrow> json" where
  "served_proof p roots = JObj (bt_insert ''valid_roots'' (roots_to_json_array roots) (proof_fields p))"

lemma served_proof_fields:
  "j_get (served_proof p roots) ''valid_roots'' = Some (JArr (map JStr (map bytes_to_hex roots)))"
  "j_get (served_proof p roots) ''path_elements'' = Some (JArr (map JStr (map bytes_to_hex (mp_path_elements p))))"
  "j_get (served_proof p roots) ''path_indices'' = Some (JArr (map (\<lambda>b. j_u64 (ucast b)) (mp_path_indices p)))"
  "j_get (served_proof p roots) ''depth'' = Some (JInt (uint (mp_depth p)))"
  using bt_get_insert [of "''valid_roots''" "roots_to_json_array roots" "proof_fields p"]
  by (simp_all add: served_proof_def bt_get_def proof_fields_def proof_json_def roots_to_json_array_def comp_def)

lemma leaf_indices_one: "leaf_indices [JInt (uint (i :: u64))] = Some [i]"
  using uint_lt2p [of i] by simp

lemma proofs_reply:
  assumes "jt_parse (le_text (ev 0)) idx = Inr (JArr [JInt (uint i)])"
    and "config_context ly tbl (ev 0) account = Inr ctx" "fetch_tree_shard ly (ev 1) ctx = Some shard"
    and "core_valid_roots ly shard = Inr roots" "build_merkle_proof ly shard i = Inr p"
  shows "get_merkle_proofs_impl ly tbl ev account idx = render (ev 1) (JArr [served_proof p roots])"
  using assms leaf_indices_one [of i]
  by (simp add: get_merkle_proofs_impl_def parse_doc_def proofs_with_roots_json_def served_proof_def proof_fields_def
      del: leaf_indices.simps)

lemma proof_depth: "build_merkle_proof ly shard i = Inr p \<Longrightarrow> mp_depth p = of_nat (ly_tree_depth ly) \<and> mp_root p = slice (ly_offset_root ly) 32 shard"
  by (auto simp: build_merkle_proof_def Let_def split: if_splits)

lemma served_path:
  assumes "serves_proofs ly tbl ev jt sb" "json_roundtrip jt" "\<forall>v. jt_render jt v \<noteq> []"
    and "jt_parse jt (''['' @ show_nat (unat i) @ '']'') = Inr (JArr [JInt (uint i)])"
    and "config_context ly tbl (ev 0) (rid_account r) = Inr ctx" "fetch_tree_shard ly (ev 1) ctx = Some shard"
    and "core_valid_roots ly shard = Inr roots" "build_merkle_proof ly shard i = Inr p"
    and "g (rid_reference r) = Some (Inr ())"
  shows "get_merkle_proof sb r i g = (Inr (served_proof p roots), g)"
proof -
  have jt: "le_text (ev i) = jt" for i using assms(1) by (simp add: serves_proofs_def)
  have "get_merkle_proofs_impl ly tbl ev (rid_account r) (''['' @ show_nat (unat i) @ '']'') = render (ev 1) (JArr [served_proof p roots])"
    by (rule proofs_reply) (use assms(4-8) jt in simp_all)
  moreover have "parse_json sb (render (ev 1) v) = Inr v" "render (ev 1) v \<noteq> []" for v
    using assms(1-3) jt by (simp_all add: serves_proofs_def render_def json_roundtrip_def)
  ultimately show ?thesis
    using assms(1,9)
    by (simp add: get_merkle_proof_def gated_read_def ensure_network_known serves_proofs_def read_reply_def await_reply_def
        parsed_as_def first_proof_def)
qed

text \<open>
  C31: a registered member can prove. When the tree shard of the registry is hashed as the merkle program
  keeps it, the registry module's proof reply for the index it reports for a member gives the membership
  module, through \<open>fill_path_cache\<close>, a path of the circuit's depth from the member's rate commitment to a
  root that is in the window it validates proofs against.
\<close>
theorem registered_member_proves:
  assumes "fr_roundtrip zk" "hashed_tree zk ly shard node" "0 < ly_tree_depth ly" "ly_tree_depth ly \<le> RLN_TREE_DEPTH"
    and "zk_fr_de zk id_commitment = Inr idc" "registration_leaf zk id_commitment rate_limit = Some leaf"
    and "find_leaf_index ly shard leaf = Some i"
    and "ly_header_size ly \<le> length shard" "th_root (ly_header ly shard) = slice (ly_offset_root ly) 32 shard"
    and "serves_proofs ly tbl ev jt sb" "json_roundtrip jt" "\<forall>v. jt_render jt v \<noteq> []"
    and "jt_parse jt (''['' @ show_nat (unat i) @ '']'') = Inr (JArr [JInt (uint i)])"
    and "config_context ly tbl (ev 0) (rid_account r) = Inr ctx" "fetch_tree_shard ly (ev 1) ctx = Some shard"
    and "g (rid_reference r) = Some (Inr ())"
  shows "\<exists>paths' st' pe pidx els rs.
    fill_path_cache zk sb now r hash i paths st g = (Inr (), paths', st', g) \<and> hit paths' hash i = Some (pe, pidx) \<and>
    length pe = RLN_TREE_DEPTH \<and> length pidx = RLN_TREE_DEPTH \<and>
    collect_results (map (\<lambda>h. hex_to_fr zk h ''path_element'') pe) = Inr els \<and>
    window now (rid_canonical r) st' = Some rs \<and>
    zk_fr_ser zk (merkle_root zk (zk_hash_pair zk idc (zk_fr_of_u64 zk rate_limit)) (zip els pidx)) \<in> set rs"
proof -
  let ?rc = "zk_hash_pair zk idc (zk_fr_of_u64 zk rate_limit)"
  have d: "RLN_TREE_DEPTH < 64" by (simp add: RLN_TREE_DEPTH_def)
  obtain p els where p: "build_merkle_proof ly shard i = Inr p" "mp_path_elements p = map (zk_fr_ser zk) els"
    "length els = ly_tree_depth ly" "length (mp_path_indices p) = ly_tree_depth ly"
    "mp_root p = zk_fr_ser zk (merkle_root zk ?rc (zip els (mp_path_indices p)))"
    using registered_path_verifies [OF assms(2,1,3) _ assms(5-7)] assms(4) d by auto
  obtain history where roots: "core_valid_roots ly shard = Inr (mp_root p # history)"
    using assms(8,9) proof_depth [OF p(1)] by (simp add: core_valid_roots_def Let_def)
  have served: "get_merkle_proof sb r i g = (Inr (served_proof p (mp_root p # history)), g)"
    using served_path [of ly tbl ev jt sb i r ctx shard "mp_root p # history" p g] assms(10-16) roots p(1) by blast
  have depth: "get_u64 (served_proof p (mp_root p # history)) ''depth'' = Some (of_nat (ly_tree_depth ly))"
    "unat (of_nat (ly_tree_depth ly) :: u64) = ly_tree_depth ly"
  proof -
    have small: "ly_tree_depth ly < 2 ^ 32" using assms(4) by (simp add: RLN_TREE_DEPTH_def)
    then have u: "uint (of_nat (ly_tree_depth ly) :: 32 word) = int (ly_tree_depth ly)"
      by (subst unsigned_of_nat) (simp add: take_bit_nat_eq_self)
    show "unat (of_nat (ly_tree_depth ly) :: u64) = ly_tree_depth ly"
      using small by (subst unsigned_of_nat) (simp add: take_bit_nat_eq_self)
    show "get_u64 (served_proof p (mp_root p # history)) ''depth'' = Some (of_nat (ly_tree_depth ly))"
      using small proof_depth [OF p(1)] unfolding get_u64_def served_proof_fields(4) by (simp add: u)
  qed
  have els: "j_get (served_proof p (mp_root p # history)) ''path_elements'' = Some (JArr (map JStr (map (fr_to_hex zk) els)))"
    unfolding served_proof_fields(2) p(2) by (simp add: fr_to_hex_def)
  have root: "fr_to_hex zk (merkle_root zk ?rc (zip els (mp_path_indices p))) \<in> set (map bytes_to_hex (mp_root p # history))"
    by (simp add: fr_to_hex_def p(5))
  show ?thesis
    using own_path_root_served [OF assms(1) served els served_proof_fields(3) depth(1) _ _ _ served_proof_fields(1) root]
      p(3,4) assms(4) unfolding depth(2) by blast
qed

definition lez_proof_sibling :: "(nat \<Rightarrow> lez_env) \<Rightarrow> sibling" where
  "lez_proof_sibling ev = sample_sibling
     \<lparr> sb_get_merkle_proofs := \<lambda>a i. Replied (get_merkle_proofs_impl sample_layouts [] ev a i), parse_json := jt_parse codec_text \<rparr>"

theorem registered_member_proves_witness:
  "\<exists>paths' st' pe pidx els rs.
     fill_path_cache sample_zk (lez_proof_sibling (\<lambda>_. lez_sample_env True Inl)) 100 lez_registry ''h'' 1 Map.empty
       \<lparr> rs_windows = Map.empty, rs_tracked = [], rs_last_nudge = 0 \<rparr> [''local'' \<mapsto> Inr ()] = (Inr (), paths', st', [''local'' \<mapsto> Inr ()]) \<and>
     hit paths' ''h'' 1 = Some (pe, pidx) \<and> length pe = RLN_TREE_DEPTH \<and>
     window 100 (rid_canonical lez_registry) st' = Some rs \<and>
     zk_fr_ser sample_zk (merkle_root sample_zk 24 (zip els pidx)) \<in> set rs"
proof -
  let ?ev = "\<lambda>_. lez_sample_env True Inl"
  have rt: "fr_roundtrip sample_zk" by (simp add: fr_roundtrip_def sample_zk_def)
  have td: "ly_tree_depth sample_layouts = 2" by (simp add: sample_layouts_def)
  have ic: "zk_fr_de sample_zk sample_commitment = Inr 7" "registration_leaf sample_zk sample_commitment 3 = Some (24 # replicate 31 0)"
    "zk_hash_pair sample_zk 7 (zk_fr_of_u64 sample_zk 3) = 24"
    by (simp_all add: registration_leaf_def sample_zk_def sample_commitment_def)
  have hd: "ly_header_size sample_layouts \<le> length sample_shard"
    "th_root (ly_header sample_layouts sample_shard) = slice (ly_offset_root sample_layouts) 32 sample_shard"
    by (simp_all add: sample_layouts_def sample_shard_def)
  have sv: "serves_proofs sample_layouts [] ?ev codec_text (lez_proof_sibling ?ev)"
    by (simp add: serves_proofs_def lez_proof_sibling_def lez_sample_env_def)
  have jn: "\<forall>v. jt_render codec_text v \<noteq> []" by (simp add: codec_text_def)
  have ji: "jt_parse codec_text (''['' @ show_nat (unat (1 :: u64)) @ '']'') = Inr (JArr [JInt (uint (1 :: u64))])"
    using parse_enc_decimal [of 1] by (simp add: codec_text_def)
  have cx: "config_context sample_layouts [] (?ev 0) (rid_account lez_registry) = Inr sample_ctx"
    by (simp add: lez_registry_def sample_context sample_ctx_def)
  have gt: "[''local'' \<mapsto> Inr ()] (rid_reference lez_registry) = Some (Inr ())"
    by (simp add: lez_registry_def sample_registry_def)
  have t: "0 < ly_tree_depth sample_layouts" "ly_tree_depth sample_layouts \<le> RLN_TREE_DEPTH"
    by (simp_all add: td RLN_TREE_DEPTH_def)
  show ?thesis
    using registered_member_proves [where ev = "\<lambda>_. lez_sample_env True Inl" and g = "[''local'' \<mapsto> Inr ()]"
        and r = lez_registry, OF rt sample_hashed t ic(1,2) sample_find hd sv
        codec_text_roundtrip jn ji cx sample_tree gt, where hash = "''h''" and now = 100 and paths = Map.empty and st = "\<lparr> rs_windows = Map.empty, rs_tracked = [], rs_last_nudge = 0 \<rparr>"]
    unfolding ic(3) by blast
qed

section \<open>Money over the wire\<close>

definition serves_money ::
  "layouts \<Rightarrow> network_entry list \<Rightarrow> lez_env \<Rightarrow> lez_env \<Rightarrow> lez_env \<Rightarrow> json_text \<Rightarrow> 'z sibling_scheme \<Rightarrow> bool"
where
  "serves_money ly tbl bounds_env balance_env fee_env jt sb \<longleftrightarrow>
     (\<forall>account. sb_get_registry_bounds sb account = Replied (get_registry_bounds_handler ly tbl bounds_env account)) \<and>
     (\<forall>account. sb_get_native_balance sb account = Replied (get_native_balance_handler balance_env account)) \<and>
     sb_get_fee_state sb = Replied (get_fee_state fee_env) \<and> parse_json sb = jt_parse jt \<and>
     le_text bounds_env = jt \<and> le_text balance_env = jt \<and> le_text fee_env = jt"

lemma wire_balance:
  assumes "serves_money ly tbl bounds_env balance_env fee_env jt sb" "json_roundtrip jt" "\<forall>v. jt_render jt v \<noteq> []"
  shows "payer_balance sb = (case native_balance balance_env [] of
      None \<Rightarrow> Inl (provider_failure ''get_native_balance'') | Some (_, balance) \<Rightarrow> Inr balance)"
  using assms
  by (auto simp: payer_balance_def serves_money_def get_native_balance_handler_def read_reply_def await_reply_def parsed_as_def
      render_def json_roundtrip_def split: option.splits)

lemma wire_price:
  assumes "serves_money ly tbl bounds_env balance_env fee_env jt sb" "json_roundtrip jt" "\<forall>v. jt_render jt v \<noteq> []"
    and "g (rid_reference r) = Some (Inr ())" "config_context ly tbl bounds_env (rid_account r) = Inr ctx"
  shows "registration_price sb r rate g =
    (Inr (saturating_mul (config_field_u128 (cc_config_data ctx) CONFIG_OFFSET_PRICE_PER_UNIT) (ucast rate)), g)"
  using assms
  by (simp add: registration_price_def get_registry_bounds_def gated_read_def ensure_network_known read_reply_def await_reply_def
      parsed_as_def get_registry_bounds_handler_def render_def serves_money_def json_roundtrip_def Let_def)

lemma wire_no_price:
  assumes "serves_money ly tbl bounds_env balance_env fee_env jt sb"
    and "g (rid_reference r) = Some (Inr ())" "config_context ly tbl bounds_env (rid_account r) = Inl p"
  shows "\<exists>e. fst (registration_price sb r rate g) = Inl e"
  using assms
  by (auto simp: registration_price_def get_registry_bounds_def gated_read_def ensure_network_known read_reply_def await_reply_def
      get_registry_bounds_handler_def serves_money_def Let_def split: prod.splits)

text \<open>
  C32: amounts cross the wire whole. A balance the membership module reads is the 128-bit value the wallet
  library reported, a price per unit the one in the registry's config times the rate, saturating, and
  when the registry module could not read the value the membership module gets a failure, never a zero.
\<close>
theorem amounts_cross_whole:
  assumes "serves_money ly tbl bounds_env balance_env fee_env jt sb" "json_roundtrip jt" "\<forall>v. jt_render jt v \<noteq> []"
    and "g (rid_reference r) = Some (Inr ())"
  shows "payer_balance sb = (case native_balance balance_env [] of
      None \<Rightarrow> Inl (provider_failure ''get_native_balance'') | Some (_, balance) \<Rightarrow> Inr balance) \<and>
    (\<forall>ctx. config_context ly tbl bounds_env (rid_account r) = Inr ctx \<longrightarrow>
      registration_price sb r rate g =
        (Inr (saturating_mul (config_field_u128 (cc_config_data ctx) CONFIG_OFFSET_PRICE_PER_UNIT) (ucast rate)), g)) \<and>
    (\<forall>p. config_context ly tbl bounds_env (rid_account r) = Inl p \<longrightarrow> (\<exists>e. fst (registration_price sb r rate g) = Inl e))"
proof (intro conjI allI impI)
  show "payer_balance sb = (case native_balance balance_env [] of
      None \<Rightarrow> Inl (provider_failure ''get_native_balance'') | Some (_, balance) \<Rightarrow> Inr balance)"
    by (rule wire_balance [OF assms(1-3)])
next
  fix ctx
  assume "config_context ly tbl bounds_env (rid_account r) = Inr ctx"
  with assms show "registration_price sb r rate g =
      (Inr (saturating_mul (config_field_u128 (cc_config_data ctx) CONFIG_OFFSET_PRICE_PER_UNIT) (ucast rate)), g)"
    by (rule wire_price)
next
  fix p
  assume "config_context ly tbl bounds_env (rid_account r) = Inl p"
  with assms(1,4) show "\<exists>e. fst (registration_price sb r rate g) = Inl e"
    by (rule wire_no_price)
qed

definition lez_money_sibling :: "lez_env \<Rightarrow> lez_env \<Rightarrow> lez_env \<Rightarrow> sibling" where
  "lez_money_sibling bounds_env balance_env fee_env = sample_sibling
     \<lparr> sb_get_registry_bounds := \<lambda>a. Replied (get_registry_bounds_handler sample_layouts [] bounds_env a),
       sb_get_native_balance := \<lambda>a. Replied (get_native_balance_handler balance_env a),
       sb_get_fee_state := Replied (get_fee_state fee_env), parse_json := jt_parse codec_text \<rparr>"

lemma sample_serves_money:
  "le_text e1 = codec_text \<Longrightarrow> le_text e2 = codec_text \<Longrightarrow> le_text e3 = codec_text \<Longrightarrow>
     serves_money sample_layouts [] e1 e2 e3 codec_text (lez_money_sibling e1 e2 e3)"
  by (simp add: serves_money_def lez_money_sibling_def)

lemma sample_balance: "native_balance (lez_sample_env b h) [] = Some (bytes_to_hex sample_payer, 0)"
proof -
  have "ws_payer_hex (le_state (lez_sample_env b h)) = bytes_to_hex sample_payer" by (simp add: lez_sample_env_def)
  moreover have "bytes_to_hex sample_payer \<noteq> []" by (simp add: sample_payer_def bytes_to_hex_def hex_of_byte_def)
  moreover have "le_balance (lez_sample_env b h) acct = Inr (replicate 16 0)" for acct by (simp add: lez_sample_env_def)
  ultimately show ?thesis
    using sample_wallet [of b h] sample_lengths by (simp add: native_balance_def Let_def)
qed

definition sample_money :: sibling where
  "sample_money = lez_money_sibling (lez_sample_env True Inl) (lez_sample_env True Inl) (lez_sample_env True Inl)"

theorem amounts_cross_whole_witness:
  "payer_balance sample_money = Inr 0 \<and>
   registration_price sample_money lez_registry 3 [''local'' \<mapsto> Inr ()] = (Inr 3, [''local'' \<mapsto> Inr ()])"
proof -
  let ?e = "lez_sample_env True Inl"
  have s: "serves_money sample_layouts [] ?e ?e ?e codec_text sample_money"
    unfolding sample_money_def by (rule sample_serves_money) (simp_all add: lez_sample_env_def)
  have jn: "\<forall>v. jt_render codec_text v \<noteq> []" by (simp add: codec_text_def)
  have gt: "[''local'' \<mapsto> Inr ()] (rid_reference lez_registry) = Some (Inr ())"
    by (simp add: lez_registry_def sample_registry_def)
  have cx: "config_context sample_layouts [] ?e (rid_account lez_registry) = Inr sample_ctx"
    by (simp add: lez_registry_def sample_context sample_ctx_def)
  have "saturating_mul (1 :: u128) 3 = 3" by (simp add: saturating_mul_def)
  then show ?thesis
    using amounts_cross_whole [where g = "[''local'' \<mapsto> Inr ()]" and r = lez_registry and rate = 3,
        OF s codec_text_roundtrip jn gt] cx sample_config_fields(4)
    by (simp add: sample_balance sample_ctx_def)
qed

text \<open>The reserve the membership module asks for, without saturation.\<close>

lemma fee_parts:
  fixes x y :: u64
  shows "unat (saturating_mul (ucast GAS_LIMIT :: u128) (ucast x)) = 10000000 * unat x"
    "unat (saturating_mul REGISTER_DATA_ALLOWANCE (ucast x)) = 100000 * unat x"
    "unat (saturating_add (saturating_mul (ucast GAS_LIMIT :: u128) (ucast x)) (saturating_mul REGISTER_DATA_ALLOWANCE (ucast y))) =
       10000000 * unat x + 100000 * unat y"
    "unat (saturating_mul (saturating_add (saturating_mul DECLARED_GAS_LIMIT (ucast x)) (saturating_mul ASSUMED_DATA_BYTES (ucast y)))
       BASE_FEE_HEADROOM) = 2 * (10000000 * unat x + 100000 * unat y)"
proof -
  have b: "unat x < 2 ^ 64" "unat y < 2 ^ 64" using unsigned_less [of x, where 'a = nat] unsigned_less [of y, where 'a = nat] by simp_all
  have u: "unat (ucast x :: u128) = unat x" "unat (ucast y :: u128) = unat y"
    using b by (subst unsigned_ucast_eq, simp add: take_bit_nat_eq_self)+
  have c: "unat (ucast GAS_LIMIT :: u128) = 10000000" by (simp add: GAS_LIMIT_def)
  show a: "unat (saturating_mul (ucast GAS_LIMIT :: u128) (ucast x)) = 10000000 * unat x"
    using b by (simp add: unat_saturating_mul u c)
  show d: "unat (saturating_mul REGISTER_DATA_ALLOWANCE (ucast x)) = 100000 * unat x"
    using b by (simp add: unat_saturating_mul u REGISTER_DATA_ALLOWANCE_def)
  have d': "unat (saturating_mul REGISTER_DATA_ALLOWANCE (ucast y)) = 100000 * unat y"
    using b by (simp add: unat_saturating_mul u REGISTER_DATA_ALLOWANCE_def)
  show s: "unat (saturating_add (saturating_mul (ucast GAS_LIMIT :: u128) (ucast x)) (saturating_mul REGISTER_DATA_ALLOWANCE (ucast y))) =
       10000000 * unat x + 100000 * unat y"
    using b by (simp add: unat_saturating_add a d')
  have e: "DECLARED_GAS_LIMIT = ucast GAS_LIMIT" "ASSUMED_DATA_BYTES = REGISTER_DATA_ALLOWANCE"
    by (simp_all add: DECLARED_GAS_LIMIT_def GAS_LIMIT_def ASSUMED_DATA_BYTES_def REGISTER_DATA_ALLOWANCE_def)
  show "unat (saturating_mul (saturating_add (saturating_mul DECLARED_GAS_LIMIT (ucast x)) (saturating_mul ASSUMED_DATA_BYTES (ucast y)))
       BASE_FEE_HEADROOM) = 2 * (10000000 * unat x + 100000 * unat y)"
    using b unfolding e unat_saturating_mul [of _ BASE_FEE_HEADROOM] s by (simp add: BASE_FEE_HEADROOM_def)
qed

lemma saturating_add_mono:
  "unat a \<le> unat c \<Longrightarrow> unat b \<le> unat d \<Longrightarrow> saturating_add (a :: 'a::len word) b \<le> saturating_add c d"
  by (simp add: word_le_nat_alt unat_saturating_add)

text \<open>
  C33: what the membership module waits for, the registry module's pre-flight accepts. When the balance the
  membership module read covers the price and the reserve it sized from a fee quote, and until the
  pre-flight the balance has not dropped, the price per unit is the one read, and each base fee ceiling has
  at most doubled, then the pre-flight never refuses for an insufficient balance.
\<close>
theorem funding_gates_agree:
  fixes x' y' :: u64
  assumes "serves_money ly tbl bounds_env balance_env fee_env jt sb" "json_roundtrip jt" "\<forall>v. jt_render jt v \<noteq> []"
    and "g (rid_reference r) = Some (Inr ())" "config_context ly tbl bounds_env (rid_account r) = Inr ctx"
    and "get_fee_state fee_env \<noteq> []" "jt_parse jt (get_fee_state fee_env) = Inr q"
    and "get_u64 q ''next_base_fee_exec_ceiling'' = Some x" "get_u64 q ''next_base_fee_stor_ceiling'' = Some y"
    and "registration_price sb r rate g = (Inr price, g')" "payer_balance sb = Inr balance"
    and "saturating_add price (fst (fee_reserve (fee_state sb))) \<le> balance"
    and "fee_ceiling fee_later ''next_base_fee_exec_ceiling'' = Some (ucast x')" "unat x' \<le> 2 * unat x"
    and "fee_ceiling fee_later ''next_base_fee_stor_ceiling'' = Some (ucast y')" "unat y' \<le> 2 * unat y"
    and "native_balance balance_later payer_hex = Some (payer, balance')" "balance \<le> balance'"
    and "rp_price_per_unit plan = config_field_u128 (cc_config_data ctx) CONFIG_OFFSET_PRICE_PER_UNIT"
  shows "preflight_register ly fee_later balance_later ctx plan id_commitment rate payer_hex =
    check_register ly (cc_config_data ctx) (rp_next_leaf_index plan) id_commitment rate"
proof -
  let ?reserve = "saturating_add (saturating_mul (ucast GAS_LIMIT) (ucast x')) (saturating_mul REGISTER_DATA_ALLOWANCE (ucast y')) :: u128"
  have price: "price = saturating_mul (rp_price_per_unit plan) (ucast rate)"
    using wire_price [where ly = ly and g = g and r = r and rate = rate, OF assms(1-5)] assms(10,19) by simp
  have "fee_state sb = Inr q"
    using assms(1,6,7) by (simp add: fee_state_def serves_money_def read_reply_def await_reply_def parsed_as_def)
  then have "fst (fee_reserve (fee_state sb)) =
      saturating_mul (saturating_add (saturating_mul DECLARED_GAS_LIMIT (ucast x)) (saturating_mul ASSUMED_DATA_BYTES (ucast y))) BASE_FEE_HEADROOM"
    using assms(8,9) by (simp add: fee_reserve_def fee_reserve_from_def)
  then have "unat ?reserve \<le> unat (fst (fee_reserve (fee_state sb)))"
    using assms(14,16) by (simp add: fee_parts)
  then have "saturating_add price ?reserve \<le> saturating_add price (fst (fee_reserve (fee_state sb)))"
    by (rule saturating_add_mono [OF order_refl])
  then have "\<not> balance' < saturating_add (saturating_mul (rp_price_per_unit plan) (ucast rate)) ?reserve"
    using assms(12,18) unfolding price by simp
  then show ?thesis
    using assms(13,15,17)
    by (cases "check_register ly (cc_config_data ctx) (rp_next_leaf_index plan) id_commitment rate")
      (simp_all add: preflight_register_def Let_def)
qed

definition quote_json :: json where
  "quote_json = JObj [(''next_base_fee_exec_ceiling'', JInt 1), (''next_base_fee_stor_ceiling'', JInt 1)]"

definition quote_reply :: string where
  "quote_reply = enc_json (JObj [(''result'', quote_json)])"

abbreviation quote_env :: lez_env where "quote_env \<equiv> lez_sample_env True (\<lambda>_. Inr quote_reply)"

definition rich_env :: lez_env where
  "rich_env = lez_sample_env True Inl \<lparr> le_balance := \<lambda>_. Inr ([255, 255, 255, 255] @ replicate 12 0) \<rparr>"

lemma quote_state: "get_fee_state quote_env = enc_json quote_json"
proof -
  have "valid_utf8 quote_reply" "length quote_reply \<le> MAX_REPLY"
    by (rule ascii_valid_utf8) (simp_all add: quote_reply_def quote_json_def enc_int_def MAX_REPLY_def)
  then have p: "post quote_env ''http://s/'' REQUEST = Inr quote_reply"
    by (simp add: post_def starts_with_def lez_sample_env_def)
  have "parse_doc quote_env quote_reply = Inr (JObj [(''result'', quote_json)])"
    unfolding quote_reply_def by (simp add: parse_doc_def lez_sample_env_def codec_text_def del: enc_json.simps)
  moreover have "render quote_env v = enc_json v" for v by (simp add: render_def lez_sample_env_def codec_text_def)
  ultimately show ?thesis
    by (simp add: get_fee_state_def sample_sequencer fee_fetch_def p result_of_def del: enc_json.simps) (simp add: quote_json_def)
qed

lemma rich_balance: "native_balance rich_env [] = Some (bytes_to_hex sample_payer, 4294967295)"
proof -
  have "ws_payer_hex (le_state rich_env) = bytes_to_hex sample_payer" "wallet (le_state rich_env) (le_wakes rich_env)"
    by (simp_all add: rich_env_def lez_sample_env_def wallet.simps)
  moreover have "bytes_to_hex sample_payer \<noteq> []" by (simp add: sample_payer_def bytes_to_hex_def hex_of_byte_def)
  moreover have "(from_le_bytes ([255, 255, 255, 255] @ replicate 12 0) :: u128) = 4294967295"
    by simp
  ultimately show ?thesis
    using sample_lengths by (simp add: native_balance_def Let_def) (simp add: rich_env_def)
qed

theorem funding_gates_agree_witness:
  "preflight_register sample_layouts quote_env rich_env sample_ctx sample_plan sample_commitment 3 [] = Inr ()"
proof -
  let ?e = "lez_sample_env True Inl"
  let ?sb = "lez_money_sibling ?e rich_env quote_env"
  let ?g = "[''local'' \<mapsto> Inr ()]"
  have s: "serves_money sample_layouts [] ?e rich_env quote_env codec_text ?sb"
    by (rule sample_serves_money) (simp_all add: lez_sample_env_def rich_env_def)
  have jn: "\<forall>v. jt_render codec_text v \<noteq> []" by (simp add: codec_text_def)
  have gt: "?g (rid_reference lez_registry) = Some (Inr ())" by (simp add: lez_registry_def sample_registry_def)
  have cx: "config_context sample_layouts [] ?e (rid_account lez_registry) = Inr sample_ctx"
    by (simp add: lez_registry_def sample_context sample_ctx_def)
  have q: "get_fee_state quote_env \<noteq> []" "jt_parse codec_text (get_fee_state quote_env) = Inr quote_json"
    unfolding quote_state by (simp_all add: codec_text_def del: enc_json.simps)
  have c: "get_u64 quote_json ''next_base_fee_exec_ceiling'' = Some 1" "get_u64 quote_json ''next_base_fee_stor_ceiling'' = Some 1"
    by (simp_all add: quote_json_def)
  have "saturating_mul (1 :: u128) 3 = 3" by (simp add: saturating_mul_def)
  then have p: "registration_price ?sb lez_registry 3 ?g = (Inr 3, ?g)"
    using wire_price [where g = ?g and r = lez_registry and rate = 3, OF s codec_text_roundtrip jn gt cx] sample_config_fields(4)
    by (simp add: sample_ctx_def)
  have b: "payer_balance ?sb = Inr 4294967295"
    using wire_balance [OF s codec_text_roundtrip jn] by (simp add: rich_balance)
  have f: "fee_state ?sb = Inr quote_json"
    using q by (simp add: fee_state_def lez_money_sibling_def read_reply_def await_reply_def parsed_as_def)
  have r: "saturating_add 3 (fst (fee_reserve (fee_state ?sb))) \<le> (4294967295 :: u128)"
    unfolding f by (simp add: fee_reserve_def fee_reserve_from_def c DECLARED_GAS_LIMIT_def ASSUMED_DATA_BYTES_def BASE_FEE_HEADROOM_def
        saturating_mul_def saturating_add_def)
  have l: "fee_ceiling quote_env ''next_base_fee_exec_ceiling'' = Some (ucast (1 :: u64))"
    "fee_ceiling quote_env ''next_base_fee_stor_ceiling'' = Some (ucast (1 :: u64))"
    using q(2) c by (simp_all add: fee_ceiling_def parse_doc_def lez_sample_env_def)
  have pl: "rp_price_per_unit sample_plan = config_field_u128 (cc_config_data sample_ctx) CONFIG_OFFSET_PRICE_PER_UNIT"
    using sample_config_fields(4) by (simp add: sample_plan_def sample_ctx_def)
  show ?thesis
    using funding_gates_agree [where g = ?g and r = lez_registry and rate = 3 and id_commitment = sample_commitment,
        OF s codec_text_roundtrip jn gt cx q c p b r l(1) _ l(2) _ rich_balance _ pl] sample_check
    by (simp add: sample_ctx_def sample_plan_def)
qed

end
