(* ===== verification/Module_Context.thy ===== *)
theory Module_Context
  imports Wallet_Home
begin

text \<open>
  Which store a handler reaches (\<open>StoreCell\<close> and \<open>on_context_ready\<close> in \<open>lib.rs\<close>, the published slot in
  \<open>sealed_store/store.rs\<close>). A process keeps one cell with the adopted store or the reason there is none,
  and publishes the adopted store for its workers. A new context closes the store before it, opens the
  new directory and adopts the result; handlers that took a handle earlier keep it and may call it later.

  The world of this theory has any number of processes that share the machine's directories. A store is
  its position in \<open>kw_stores\<close>, which never changes, so a position is an \<open>Arc\<close>. The operating system grants
  the lock file of a directory to one open store; directories are told apart by their path text.
\<close>

section \<open>The store cell\<close>

datatype store_cell = Unready string | Ready nat

definition default_cell :: store_cell where
  "default_cell = Unready UNINIT_MSG"

record host_process =
  hp_cell :: store_cell
  hp_published :: "nat option"
  hp_swapping :: bool

record keystore_world =
  kw_stores :: "(nat \<times> store) list"
  kw_process :: "nat \<Rightarrow> host_process"
  kw_disk :: "string \<Rightarrow> disk"
  kw_seen :: "string \<Rightarrow> string set"

definition fresh_process :: host_process where
  "fresh_process = \<lparr> hp_cell = default_cell, hp_published = None, hp_swapping = False \<rparr>"

abbreviation store_at :: "keystore_world \<Rightarrow> nat \<Rightarrow> store" where
  "store_at w i \<equiv> snd (kw_stores w ! i)"

abbreviation owner_of :: "keystore_world \<Rightarrow> nat \<Rightarrow> nat" where
  "owner_of w i \<equiv> fst (kw_stores w ! i)"

definition set_store :: "nat \<Rightarrow> store \<Rightarrow> keystore_world \<Rightarrow> keystore_world" where
  "set_store i s w = w \<lparr> kw_stores := (kw_stores w)[i := (owner_of w i, s)] \<rparr>"

definition set_process :: "nat \<Rightarrow> host_process \<Rightarrow> keystore_world \<Rightarrow> keystore_world" where
  "set_process p h w = w \<lparr> kw_process := (kw_process w)(p := h) \<rparr>"

definition set_disk :: "string \<Rightarrow> disk \<Rightarrow> keystore_world \<Rightarrow> keystore_world" where
  "set_disk dir d w = w \<lparr> kw_disk := (kw_disk w)(dir := d) \<rparr>"

text \<open>The handlers' access, and the workers'.\<close>

definition module_store :: "keystore_world \<Rightarrow> nat \<Rightarrow> api_error + nat" where
  "module_store w p =
     (case hp_cell (kw_process w p) of Ready i \<Rightarrow> Inr i | Unready cause \<Rightarrow> Inl (api_internal cause))"

definition current :: "keystore_world \<Rightarrow> nat \<Rightarrow> nat option" where
  "current w p = hp_published (kw_process w p)"

section \<open>A new context\<close>

fun open_error_text :: "open_error \<Rightarrow> string" where
  "open_error_text (DirLockHeld m) = m"
| "open_error_text (OldFormatPresent m) = m"
| "open_error_text (Unreadable m) = m"

text \<open>
  All of \<open>open_store\<close> runs under the cell's write lock, which \<open>hp_swapping\<close> stands for; the directory may
  change hands between its parts. The published slot has a mutex of its own, so a worker may see it emptied
  before the store behind it is closed; the machine below takes the two as one step, and
  \<open>unpublish_before_call\<close> shows that nothing is lost: a call that falls between them might as well have come
  before both.
\<close>

definition unpublish :: "nat \<Rightarrow> keystore_world \<Rightarrow> keystore_world" where
  "unpublish p w = set_process p ((kw_process w p) \<lparr> hp_published := None, hp_swapping := True \<rparr>) w"

definition close_cell :: "nat \<Rightarrow> keystore_world \<Rightarrow> keystore_world" where
  "close_cell p w =
     (case hp_cell (kw_process w p) of
        Ready i \<Rightarrow> set_store i (close_store (store_at w i)) w
      | Unready _ \<Rightarrow> w)"

definition close_previous :: "nat \<Rightarrow> keystore_world \<Rightarrow> keystore_world" where
  "close_previous p w = close_cell p (unpublish p w)"

lemma close_previous_whole:
  "close_previous p w =
     (let h = kw_process w p; w' = set_process p (h \<lparr> hp_published := None, hp_swapping := True \<rparr>) w
      in case hp_cell h of
           Ready i \<Rightarrow> set_store i (close_store (store_at w i)) w'
         | Unready _ \<Rightarrow> w')"
  by (simp add: close_previous_def close_cell_def unpublish_def set_process_def Let_def split: store_cell.split)

definition open_and_adopt ::
  "'z crypto_scheme \<Rightarrow> nat \<Rightarrow> string \<Rightarrow> lock_outcome \<Rightarrow> renames \<Rightarrow> keystore_world \<Rightarrow> keystore_world"
where
  "open_and_adopt env p dir lk rn w =
     (case open_store env dir lk rn (kw_disk w dir) of
        (Inr s, d') \<Rightarrow>
          (let i = length (kw_stores w) in
           set_process p \<lparr> hp_cell = Ready i, hp_published = Some i, hp_swapping = False \<rparr>
             (set_disk dir d' w \<lparr> kw_stores := kw_stores w @ [(p, s)] \<rparr>))
      | (Inl e, d') \<Rightarrow>
          set_process p ((kw_process w p) \<lparr> hp_cell := Unready (open_error_text e), hp_swapping := False \<rparr>) (set_disk dir d' w))"

definition open_store_cell ::
  "'z crypto_scheme \<Rightarrow> nat \<Rightarrow> string \<Rightarrow> lock_outcome \<Rightarrow> renames \<Rightarrow> keystore_world \<Rightarrow> keystore_world"
where
  "open_store_cell env p dir lk rn w = open_and_adopt env p dir lk rn (close_previous p w)"

definition no_path_cause :: string where
  "no_path_cause = ''no instance persistence path from the host '' @ em_dash @ '' keystore ops are '' @
     ''disabled (no silent cwd fallback; see README)''"

definition refuse_path :: "nat \<Rightarrow> keystore_world \<Rightarrow> keystore_world" where
  "refuse_path p w = set_process p ((kw_process w p) \<lparr> hp_cell := Unready no_path_cause, hp_swapping := False \<rparr>) w"

text \<open>The module state the handlers of the other theories run on, with the process's store in it.\<close>

definition module_view :: "keystore_world \<Rightarrow> nat \<Rightarrow> module_state \<Rightarrow> module_state" where
  "module_view w p ms =
     (case module_store w p of
        Inl e \<Rightarrow> ms \<lparr> ms_store := Inl e \<rparr>
      | Inr i \<Rightarrow> ms \<lparr> ms_store := Inr (store_at w i), ms_disk := kw_disk w (st_dir (store_at w i)) \<rparr>)"

definition published_view :: "keystore_world \<Rightarrow> nat \<Rightarrow> module_state \<Rightarrow> module_state" where
  "published_view w p ms =
     (case current w p of
        None \<Rightarrow> ms \<lparr> ms_store := Inl (api_internal UNINIT_MSG) \<rparr>
      | Some i \<Rightarrow> ms \<lparr> ms_store := Inr (store_at w i), ms_disk := kw_disk w (st_dir (store_at w i)) \<rparr>)"

definition write_back :: "nat \<Rightarrow> module_state \<Rightarrow> keystore_world \<Rightarrow> keystore_world" where
  "write_back i ms w =
     (case ms_store ms of
        Inl _ \<Rightarrow> w
      | Inr s \<Rightarrow> set_store i s (set_disk (st_dir s) (ms_disk ms) w))"

text \<open>The boolean of the result: whether the poller is asked to run.\<close>

definition on_context_ready where
  "on_context_ready env ai disabled path lk rn p ms cu w =
     (if path = [] then (False, cu, refuse_path p (close_previous p w))
      else
        (let w' = open_store_cell env p path lk rn w in
         case hp_cell (kw_process w' p) of
           Unready _ \<Rightarrow> (False, cu, w')
         | Ready i \<Rightarrow>
             (let (cu', ms') = lazy_auto_unlock env ai disabled cu (published_view w' p ms) in
              (pending_records (store_at w' i) \<noteq> [], cu', write_back i ms' w'))))"

section \<open>Methods with a body of their own\<close>

text \<open>Two wire dialects: an error inside the reply text, or beside it.\<close>

definition reply :: "(json \<Rightarrow> string) \<Rightarrow> api_error + json \<Rightarrow> string" where
  "reply text r = (case r of Inr value \<Rightarrow> text value | Inl e \<Rightarrow> text (JObj [(''error'', error_body e)]))"

definition reply_result :: "(json \<Rightarrow> string) \<Rightarrow> api_error + json \<Rightarrow> string + json" where
  "reply_result text r = map_err (\<lambda>e. text (error_body e)) r"

definition unlock_keystore ::
  "(json \<Rightarrow> string) \<Rightarrow> 'z store_env_scheme \<Rightarrow> unlock_inputs \<Rightarrow> string \<Rightarrow> module_state \<Rightarrow> string \<times> module_state"
where
  "unlock_keystore text env ui password ms =
     (case ms_store ms of
        Inl e \<Rightarrow> (reply text (Inl e), ms)
      | Inr s \<Rightarrow>
          (let (r, s', d') = unlock_with env password ui s (ms_disk ms) in
           (reply text (and_then r (\<lambda>count. Inr (JObj [(''membership_count'', JInt (int count)), (''unlocked'', JBool True)]))),
            ms \<lparr> ms_store := Inr s', ms_disk := d' \<rparr>)))"

definition lock_keystore :: "(json \<Rightarrow> string) \<Rightarrow> module_state \<Rightarrow> string \<times> module_state" where
  "lock_keystore text ms =
     (case ms_store ms of
        Inl e \<Rightarrow> (reply text (Inl e), ms)
      | Inr s \<Rightarrow> (reply text (Inr (JObj [(''locked'', JBool True)])), ms \<lparr> ms_store := Inr (lock_store s) \<rparr>))"

definition get_merkle_proof_method ::
  "(json \<Rightarrow> string) \<Rightarrow> 'y sibling_scheme \<Rightarrow> string \<Rightarrow> u64 \<Rightarrow> network_gate \<Rightarrow> string \<times> network_gate"
where
  "get_merkle_proof_method text sb registry_id leaf_index g =
     (case and_then (parse_registry registry_id) (\<lambda>registry. and_then (provider_of registry) (\<lambda>_.
           if sint leaf_index < 0 then Inl (api_new InvalidArgument ''leaf_index must be non-negative'') else Inr registry)) of
        Inl e \<Rightarrow> (reply text (Inl e), g)
      | Inr registry \<Rightarrow> (let (r, g') = get_merkle_proof sb registry leaf_index g in (reply text r, g')))"

definition get_valid_roots_method ::
  "(json \<Rightarrow> string) \<Rightarrow> ('fr, 'zp) zerokit \<Rightarrow> 'y sibling_scheme \<Rightarrow> string \<Rightarrow> network_gate \<Rightarrow> string \<times> network_gate"
where
  "get_valid_roots_method text zk sb registry_id g =
     (case and_then (parse_registry registry_id) (\<lambda>registry. and_then (provider_of registry) (\<lambda>_. Inr registry)) of
        Inl e \<Rightarrow> (reply text (Inl e), g)
      | Inr registry \<Rightarrow>
          (let (r, g') = get_valid_roots zk sb registry g in
           (reply text (and_then r (\<lambda>roots. Inr (JObj [(''valid_roots'', JArr (map JStr roots))]))), g')))"

section \<open>Processes side by side\<close>

text \<open>
  A handler's or a worker's call on the store it holds a handle of. A hash is used up by an insert the
  store looked at, which a closed one refuses to do.
\<close>

inductive store_call ::
  "'z store_env_scheme \<Rightarrow> store \<Rightarrow> disk \<Rightarrow> string set \<Rightarrow> (issue_key \<times> nat) option \<Rightarrow> store \<Rightarrow> disk \<Rightarrow> string set \<Rightarrow> bool"
  for env s d seen
where
  call_unlock: "unlock env pw salt uuid w s d = (r, s', d') \<Longrightarrow> store_call env s d seen None s' d' seen"
| call_lock: "store_call env s d seen None (lock_store s) d seen"
| call_insert: "h \<notin> seen \<Longrightarrow> insert_membership env nonce wa wc ws h ident cred rl s d = (r, s', d') \<Longrightarrow>
     seen' = (if in_lock (st_inner s) then insert h seen else seen) \<Longrightarrow> store_call env s d seen None s' d' seen'"
| call_update: "update_cache w now h f s d = (r, s', d') \<Longrightarrow> store_call env s d seen None s' d' seen"
| call_reserve: "reserve_message_id env w h rid ep c rl sz s d = (Inr slot, s', d') \<Longrightarrow>
     store_call env s d seen (Some ((h, rid, ep), unat slot)) s' d' seen"
| call_refused: "reserve_message_id env w h rid ep c rl sz s d = (Inl e, s', d') \<Longrightarrow> store_call env s d seen None s' d' seen"

definition holds_dir :: "string \<Rightarrow> store \<Rightarrow> bool" where
  "holds_dir dir s \<longleftrightarrow> in_lock (st_inner s) \<and> st_dir s = dir"

definition dir_locked :: "keystore_world \<Rightarrow> string \<Rightarrow> bool" where
  "dir_locked w dir \<longleftrightarrow> list_ex (\<lambda>x. holds_dir dir (snd x)) (kw_stores w)"

text \<open>A process that dies loses its stores, and with them the locks.\<close>

definition kill_process :: "nat \<Rightarrow> keystore_world \<Rightarrow> keystore_world" where
  "kill_process p w = set_process p fresh_process
     (w \<lparr> kw_stores := map (\<lambda>(q, s). (q, if q = p then close_store s else s)) (kw_stores w) \<rparr>)"

definition with_ledger :: "string \<Rightarrow> allocations_file file_state \<Rightarrow> keystore_world \<Rightarrow> keystore_world" where
  "with_ledger dir f w = set_disk dir ((kw_disk w dir) \<lparr> dk_allocations := f \<rparr>) w"

definition lock_granted :: "keystore_world \<Rightarrow> string \<Rightarrow> lock_outcome \<Rightarrow> bool" where
  "lock_granted w dir lk \<longleftrightarrow> (lk = LockTaken \<longrightarrow> \<not> dir_locked w dir)"

inductive world_step ::
  "'z store_env_scheme \<Rightarrow> keystore_world \<Rightarrow> ((string \<times> issue_key) \<times> nat) option \<Rightarrow> keystore_world \<Rightarrow> bool" for env w
where
  world_close: "\<not> hp_swapping (kw_process w p) \<Longrightarrow> world_step env w None (close_previous p w)"
| world_adopt: "hp_swapping (kw_process w p) \<Longrightarrow> lock_granted w dir lk \<Longrightarrow> world_step env w None (open_and_adopt env p dir lk rn w)"
| world_adopt_fault: "hp_swapping (kw_process w p) \<Longrightarrow> lock_granted w dir lk \<Longrightarrow> fault = MetaError e \<or> fault = ReadError e \<Longrightarrow>
     world_step env w None (with_ledger dir (dk_allocations (kw_disk w dir)) (open_and_adopt env p dir lk rn (with_ledger dir fault w)))"
| world_refuse: "hp_swapping (kw_process w p) \<Longrightarrow> world_step env w None (refuse_path p w)"
| world_call: "i < length (kw_stores w) \<Longrightarrow> dir = st_dir (store_at w i) \<Longrightarrow>
     store_call env (store_at w i) (kw_disk w dir) (kw_seen w dir) l s' d' seen' \<Longrightarrow>
     world_step env w (map_option (\<lambda>(k, m). ((dir, k), m)) l)
       (set_store i s' (set_disk dir d' w) \<lparr> kw_seen := (kw_seen w)(dir := seen') \<rparr>)"
| world_crash: "world_step env w None (kill_process p w)"
| world_files: "world_step env w None
     (set_disk dir ((kw_disk w dir) \<lparr> dk_sealed := sf, dk_cache := cf, dk_old_format := old \<rparr>) w)"
| world_ledger_lost: "unreadable lf \<Longrightarrow> world_step env w None (with_ledger dir lf w)"

text \<open>
  Between the two halves of \<open>close_previous\<close> the process's workers find no store, and a call that anybody
  makes on a handle already taken, to the store about to be closed or to another, has the effect it would
  have had before the first half; so does a crash.
\<close>

lemma unpublished_hides: "current (unpublish p w) p = None"
  by (simp add: current_def unpublish_def set_process_def)

lemma unpublish_before_call:
  assumes "i < length (kw_stores (unpublish p w))" "dir = st_dir (store_at (unpublish p w) i)"
    and "store_call env (store_at (unpublish p w) i) (kw_disk (unpublish p w) dir) (kw_seen (unpublish p w) dir) l s' d' seen'"
  shows "\<exists>w'. world_step env w (map_option (\<lambda>(k, m). ((dir, k), m)) l) w' \<and>
    set_store i s' (set_disk dir d' (unpublish p w)) \<lparr> kw_seen := (kw_seen (unpublish p w))(dir := seen') \<rparr> = unpublish p w'"
proof -
  have same: "kw_stores (unpublish p w) = kw_stores w" "kw_disk (unpublish p w) = kw_disk w" "kw_seen (unpublish p w) = kw_seen w"
    by (simp_all add: unpublish_def set_process_def)
  from world_call [of i w dir env l s' d' seen'] assms show ?thesis
    by (intro exI conjI) (auto simp: same unpublish_def set_process_def set_store_def set_disk_def)
qed

lemma unpublish_before_crash: "kill_process p (unpublish p w) = kill_process p w"
  by (simp add: kill_process_def unpublish_def set_process_def)

section \<open>What calls keep\<close>

lemma store_call_step:
  assumes "store_call env s d seen l s' d' seen'" "in_lock (st_inner s)"
  shows "store_step env \<lparr> m_disk = d, m_store = Some s, m_seen = seen \<rparr> l \<lparr> m_disk = d', m_store = Some s', m_seen = seen' \<rparr>"
  using assms(1)
proof cases
  case (call_unlock pw salt uuid w r)
  then show ?thesis using step_unlock [of "\<lparr> m_disk = d, m_store = Some s, m_seen = seen \<rparr>" s env] by simp
next
  case call_lock
  then show ?thesis using step_lock [of "\<lparr> m_disk = d, m_store = Some s, m_seen = seen \<rparr>" s env] by simp
next
  case (call_insert h nonce wa wc ws ident cred rl r)
  then show ?thesis using step_insert [of "\<lparr> m_disk = d, m_store = Some s, m_seen = seen \<rparr>" s h env] assms(2) by simp
next
  case (call_update w now h f r)
  then show ?thesis using step_update_cache [of "\<lparr> m_disk = d, m_store = Some s, m_seen = seen \<rparr>" s] by simp
next
  case (call_reserve w h rid ep c rl sz slot)
  then show ?thesis using step_reserve_ok [of "\<lparr> m_disk = d, m_store = Some s, m_seen = seen \<rparr>" s env] by simp
next
  case (call_refused w h rid ep c rl sz e)
  then show ?thesis using step_reserve_err [of "\<lparr> m_disk = d, m_store = Some s, m_seen = seen \<rparr>" s env] by simp
qed

text \<open>No call takes or gives up the lock, and none moves the store to another directory.\<close>

definition same_place :: "store \<Rightarrow> store \<Rightarrow> bool" where
  "same_place s s' \<longleftrightarrow> st_dir s' = st_dir s \<and> in_lock (st_inner s') = in_lock (st_inner s)"

lemma same_place_simps [simp]:
  "same_place s s" "same_place s (swap_snapshot t) \<longleftrightarrow> same_place s t"
  "same_place s (with_inner t i) \<longleftrightarrow> st_dir t = st_dir s \<and> in_lock i = in_lock (st_inner s)"
  by (simp_all add: same_place_def swap_snapshot_def with_inner_def)

lemma write_allocations_lock: "write_allocations cr w i d = (r, i', d') \<Longrightarrow> in_lock i' = in_lock i"
  by (rule write_allocations_cases) auto

lemma insert_sealed_place: "insert_sealed env n w h ident cred s d = (r, s', d') \<Longrightarrow> same_place s s'"
  by (auto simp: insert_sealed_def Let_def split: option.splits sum.splits prod.splits)

lemma insert_rows_lock: "in_lock (insert_section h i) = in_lock i" "in_lock (insert_cache_row h rl i) = in_lock i"
  by (simp_all add: insert_section_def insert_cache_row_def Let_def)

lemma insert_membership_place:
  assumes "insert_membership env nonce wa wc ws h ident cred rl s d = (r, s', d')"
  shows "same_place s s'"
proof -
  obtain r1 i1 d1 where w: "write_allocations env wa (insert_section h (st_inner s)) d = (r1, i1, d1)" by (metis prod_cases3)
  then have l1: "in_lock i1 = in_lock (st_inner s)" using write_allocations_lock insert_rows_lock by metis
  let ?i2 = "insert_cache_row h rl i1"
  have "same_place s (with_inner s ?i2)" using l1 by (simp add: insert_rows_lock)
  moreover have "same_place (with_inner s ?i2) t \<Longrightarrow> same_place s t" for t
    using l1 by (simp add: same_place_def with_inner_def insert_rows_lock)
  ultimately show ?thesis
    using assms w l1 insert_sealed_place [of env nonce ws h ident cred "with_inner s ?i2"]
    by (auto simp: insert_membership_def Let_def split: sum.splits prod.splits if_splits)
qed

lemma reserve_place:
  assumes "reserve_message_id env w h rid ep c rl sz s d = (r, s', d')"
  shows "same_place s s'"
  using assms
  by (auto simp: reserve_message_id_def Let_def dest: write_allocations_lock split: sum.splits option.splits prod.splits if_splits)

lemma store_call_place:
  assumes "store_call env s d seen l s' d' seen'"
  shows "same_place s s'"
  using assms
proof cases
  case (call_unlock pw salt uuid w r)
  then show ?thesis
    by (auto simp: unlock_def unlock_provision_def unlock_existing_def Let_def split: sum.splits option.splits if_splits prod.splits)
next
  case (call_update w now h f r)
  then show ?thesis by (auto simp: update_cache_def Let_def split: sum.splits if_splits prod.splits)
qed (auto simp: lock_store_def dest: insert_membership_place reserve_place)

lemma store_call_dir: "store_call env s d seen l s' d' seen' \<Longrightarrow> st_dir s' = st_dir s"
  by (drule store_call_place) (simp add: same_place_def)

text \<open>A closed store is inert.\<close>

lemma closed_call:
  assumes "store_call env s d seen l s' d' seen'" "\<not> in_lock (st_inner s)"
  shows "l = None \<and> d' = d \<and> seen' = seen \<and> (s' = s \<or> s' = lock_store s)"
  using assms
  by cases (auto simp: unlock_def insert_membership_def update_cache_def reserve_message_id_def ensure_open_def Let_def)

section \<open>The invariant\<close>

definition adopted :: "host_process \<Rightarrow> nat option" where
  "adopted h = (case hp_cell h of Unready _ \<Rightarrow> None | Ready i \<Rightarrow> if hp_swapping h then None else Some i)"

lemma adopted_simps:
  "hp_cell h = Unready c \<Longrightarrow> adopted h = None" "hp_swapping h \<Longrightarrow> adopted h = None"
  "hp_cell h = Ready i \<Longrightarrow> \<not> hp_swapping h \<Longrightarrow> adopted h = Some i"
  by (simp_all add: adopted_def split: store_cell.split)

definition world_inv :: "keystore_world \<Rightarrow> bool" where
  "world_inv w \<longleftrightarrow>
     (\<forall>p i. hp_cell (kw_process w p) = Ready i \<longrightarrow> i < length (kw_stores w) \<and> owner_of w i = p) \<and>
     (\<forall>i < length (kw_stores w). in_lock (st_inner (store_at w i)) \<longleftrightarrow>
        hp_cell (kw_process w (owner_of w i)) = Ready i \<and> \<not> hp_swapping (kw_process w (owner_of w i))) \<and>
     (\<forall>p. hp_published (kw_process w p) = adopted (kw_process w p)) \<and>
     (\<forall>i < length (kw_stores w). \<forall>j < length (kw_stores w).
        in_lock (st_inner (store_at w i)) \<and> in_lock (st_inner (store_at w j)) \<and>
        st_dir (store_at w i) = st_dir (store_at w j) \<longrightarrow> i = j)"

lemma world_invD:
  assumes "world_inv w"
  shows "hp_cell (kw_process w p) = Ready i \<Longrightarrow> i < length (kw_stores w) \<and> owner_of w i = p"
    "i < length (kw_stores w) \<Longrightarrow> in_lock (st_inner (store_at w i)) \<longleftrightarrow>
       hp_cell (kw_process w (owner_of w i)) = Ready i \<and> \<not> hp_swapping (kw_process w (owner_of w i))"
    "hp_published (kw_process w p) = adopted (kw_process w p)"
    "i < length (kw_stores w) \<Longrightarrow> j < length (kw_stores w) \<Longrightarrow> in_lock (st_inner (store_at w i)) \<Longrightarrow>
       in_lock (st_inner (store_at w j)) \<Longrightarrow> st_dir (store_at w i) = st_dir (store_at w j) \<Longrightarrow> i = j"
  using assms unfolding world_inv_def by blast+

lemma world_invI:
  assumes "\<And>p i. hp_cell (kw_process w p) = Ready i \<Longrightarrow> i < length (kw_stores w) \<and> owner_of w i = p"
    and "\<And>i. i < length (kw_stores w) \<Longrightarrow> in_lock (st_inner (store_at w i)) \<longleftrightarrow>
       hp_cell (kw_process w (owner_of w i)) = Ready i \<and> \<not> hp_swapping (kw_process w (owner_of w i))"
    and "\<And>p. hp_published (kw_process w p) = adopted (kw_process w p)"
    and "\<And>i j. i < length (kw_stores w) \<Longrightarrow> j < length (kw_stores w) \<Longrightarrow> in_lock (st_inner (store_at w i)) \<Longrightarrow>
       in_lock (st_inner (store_at w j)) \<Longrightarrow> st_dir (store_at w i) = st_dir (store_at w j) \<Longrightarrow> i = j"
  shows "world_inv w"
  using assms unfolding world_inv_def by blast

lemma closed_inner [simp]:
  "in_lock (st_inner (close_store s)) = False" "st_dir (close_store s) = st_dir s"
  by (simp_all add: close_store_def with_inner_def)

lemma world_parts [simp]:
  "kw_stores (set_disk dir d w) = kw_stores w" "kw_process (set_disk dir d w) = kw_process w" "kw_seen (set_disk dir d w) = kw_seen w"
  "kw_stores (set_process p h w) = kw_stores w" "kw_process (set_process p h w) = (kw_process w)(p := h)"
  "kw_disk (set_process p h w) = kw_disk w" "kw_seen (set_process p h w) = kw_seen w"
  "kw_process (set_store i s w) = kw_process w" "kw_disk (set_store i s w) = kw_disk w" "kw_seen (set_store i s w) = kw_seen w"
  "length (kw_stores (set_store i s w)) = length (kw_stores w)"
  "kw_disk (set_disk dir d w) = (kw_disk w)(dir := d)"
  by (simp_all add: set_disk_def set_process_def set_store_def)

lemma set_store_nth:
  "j < length (kw_stores w) \<Longrightarrow> kw_stores (set_store i s w) ! j = (if j = i then (owner_of w i, s) else kw_stores w ! j)"
  by (simp add: set_store_def nth_list_update)

text \<open>Only stores and processes matter to the invariant.\<close>

lemma world_inv_cong:
  "kw_stores w' = kw_stores w \<Longrightarrow> kw_process w' = kw_process w \<Longrightarrow> world_inv w' \<longleftrightarrow> world_inv w"
  unfolding world_inv_def by (simp only:)

lemma inv_set_disk: "world_inv w \<Longrightarrow> world_inv (set_disk dir d w)"
  using world_inv_cong [of "set_disk dir d w" w] by simp

lemma inv_close_previous:
  assumes "world_inv w"
  shows "world_inv (close_previous p w)"
proof (cases "hp_cell (kw_process w p)")
  case (Unready cause)
  then show ?thesis using assms by (auto simp: close_previous_whole world_inv_def Let_def adopted_simps)
next
  case (Ready i)
  have i: "i < length (kw_stores w)" "owner_of w i = p" using world_invD(1) [OF assms Ready] by simp_all
  let ?w' = "set_process p ((kw_process w p) \<lparr> hp_published := None, hp_swapping := True \<rparr>) w"
  have w': "close_previous p w = set_store i (close_store (store_at w i)) ?w'"
    using Ready by (simp add: close_previous_whole Let_def)
  have nth: "kw_stores (close_previous p w) ! j = (if j = i then (p, close_store (store_at w i)) else kw_stores w ! j)"
    if "j < length (kw_stores w)" for j
    using that i(2) by (simp add: w' set_store_nth)
  have len: "length (kw_stores (close_previous p w)) = length (kw_stores w)"
    and proc: "kw_process (close_previous p w) = kw_process ?w'"
    by (simp_all add: w')
  have cell: "hp_cell (kw_process (close_previous p w) q) = hp_cell (kw_process w q)" for q by (simp add: proc)
  show ?thesis
  proof (rule world_invI)
    fix q j assume "hp_cell (kw_process (close_previous p w) q) = Ready j"
    then show "j < length (kw_stores (close_previous p w)) \<and> owner_of (close_previous p w) j = q"
      using world_invD(1) [OF assms, of q j] i(2) unfolding cell len by (auto simp: nth)
  next
    fix j assume "j < length (kw_stores (close_previous p w))"
    then have j: "j < length (kw_stores w)" unfolding len .
    have pr: "kw_process (close_previous p w) q =
        (if q = p then (kw_process w p) \<lparr> hp_published := None, hp_swapping := True \<rparr> else kw_process w q)" for q
      by (simp add: proc)
    then show "in_lock (st_inner (store_at (close_previous p w) j)) \<longleftrightarrow>
        hp_cell (kw_process (close_previous p w) (owner_of (close_previous p w) j)) = Ready j \<and>
        \<not> hp_swapping (kw_process (close_previous p w) (owner_of (close_previous p w) j))"
      using world_invD(2) [OF assms j] Ready i(2) by (cases "j = i") (simp_all add: pr nth [OF j] nth [OF i(1)])
  next
    fix q show "hp_published (kw_process (close_previous p w) q) = adopted (kw_process (close_previous p w) q)"
      using world_invD(3) [OF assms, of q] by (simp add: proc adopted_simps)
  next
    fix j k
    assume "j < length (kw_stores (close_previous p w))" "k < length (kw_stores (close_previous p w))"
      "in_lock (st_inner (store_at (close_previous p w) j))" "in_lock (st_inner (store_at (close_previous p w) k))"
      "st_dir (store_at (close_previous p w) j) = st_dir (store_at (close_previous p w) k)"
    then show "j = k" using world_invD(4) [OF assms, of j k] unfolding len by (auto simp: nth split: if_splits)
  qed
qed

lemma open_store_place:
  assumes "open_store env dir lk rn d = (Inr s, d')"
  shows "lk = LockTaken" "in_lock (st_inner s)" "st_dir s = dir"
  using assms by (auto simp: open_store_def Let_def split: lock_outcome.splits if_splits sum.splits prod.splits option.splits)

lemma not_locked: "\<not> dir_locked w dir \<Longrightarrow> i < length (kw_stores w) \<Longrightarrow> in_lock (st_inner (store_at w i)) \<Longrightarrow> st_dir (store_at w i) \<noteq> dir"
  by (auto simp: dir_locked_def list_ex_iff holds_dir_def dest: nth_mem)

lemma inv_adopt:
  assumes "world_inv w" "hp_swapping (kw_process w p)" "lock_granted w dir lk"
  shows "world_inv (open_and_adopt env p dir lk rn w)"
proof (cases "open_store env dir lk rn (kw_disk w dir)")
  case (Pair r d')
  show ?thesis
  proof (cases r)
    case (Inl e)
    have closed: "in_lock (st_inner (store_at w i)) \<Longrightarrow> owner_of w i \<noteq> p" if "i < length (kw_stores w)" for i
      using world_invD(2) [OF assms(1) that] assms(2) by auto
    show ?thesis
      using world_invD [OF assms(1)] closed assms(2) Pair Inl by (auto simp: open_and_adopt_def world_inv_def adopted_simps)
  next
    case (Inr s)
    note o = open_store_place [OF Pair [unfolded Inr]]
    have free: "st_dir (store_at w i) \<noteq> dir" if "i < length (kw_stores w)" "in_lock (st_inner (store_at w i))" for i
      using not_locked that assms(3) o(1) by (auto simp: lock_granted_def)
    have closed: "in_lock (st_inner (store_at w i)) \<Longrightarrow> owner_of w i \<noteq> p" if "i < length (kw_stores w)" for i
      using world_invD(2) [OF assms(1) that] assms(2) by auto
    let ?n = "length (kw_stores w)" and ?w' = "open_and_adopt env p dir lk rn w"
    have st: "kw_stores ?w' = kw_stores w @ [(p, s)]"
      and proc: "kw_process ?w' = (kw_process w)(p := \<lparr> hp_cell = Ready ?n, hp_published = Some ?n, hp_swapping = False \<rparr>)"
      using Pair Inr by (simp_all add: open_and_adopt_def Let_def)
    have new: "store_at ?w' ?n = s" "owner_of ?w' ?n = p" and old: "j < ?n \<Longrightarrow> kw_stores ?w' ! j = kw_stores w ! j" for j
      by (simp_all add: st nth_append)
    have len: "length (kw_stores ?w') = Suc ?n" by (simp add: st)
    show ?thesis
    proof (rule world_invI)
      fix q j assume "hp_cell (kw_process ?w' q) = Ready j"
      then show "j < length (kw_stores ?w') \<and> owner_of ?w' j = q"
        using world_invD(1) [OF assms(1), of q j] new(2) old [of j] by (auto simp: len proc split: if_splits)
    next
      fix j assume "j < length (kw_stores ?w')"
      then consider "j = ?n" | "j < ?n" unfolding len by linarith
      then show "in_lock (st_inner (store_at ?w' j)) \<longleftrightarrow>
          hp_cell (kw_process ?w' (owner_of ?w' j)) = Ready j \<and> \<not> hp_swapping (kw_process ?w' (owner_of ?w' j))"
        using world_invD(2) [OF assms(1), of j] new o(2) old [of j] closed [of j] by cases (auto simp: proc)
    next
      fix q show "hp_published (kw_process ?w' q) = adopted (kw_process ?w' q)"
        using world_invD(3) [OF assms(1), of q] by (simp add: proc adopted_simps)
    next
      fix j k
      assume jk: "j < length (kw_stores ?w')" "k < length (kw_stores ?w')"
        "in_lock (st_inner (store_at ?w' j))" "in_lock (st_inner (store_at ?w' k))" "st_dir (store_at ?w' j) = st_dir (store_at ?w' k)"
      then have "j = ?n \<longleftrightarrow> k = ?n"
        using free [of j] free [of k] new o(3) old [of j] old [of k] unfolding len by (metis less_SucE)
      then show "j = k"
        using jk world_invD(4) [OF assms(1), of j k] old [of j] old [of k] unfolding len by (metis less_SucE)
    qed
  qed
qed

lemma inv_refuse:
  assumes "world_inv w" "hp_swapping (kw_process w p)"
  shows "world_inv (refuse_path p w)"
proof (rule world_invI)
  fix i assume i: "i < length (kw_stores (refuse_path p w))"
  then show "in_lock (st_inner (store_at (refuse_path p w) i)) \<longleftrightarrow>
      hp_cell (kw_process (refuse_path p w) (owner_of (refuse_path p w) i)) = Ready i \<and>
      \<not> hp_swapping (kw_process (refuse_path p w) (owner_of (refuse_path p w) i))"
    using world_invD(2) [OF assms(1), of i] assms(2) by (cases "owner_of w i = p") (simp_all add: refuse_path_def)
qed (use world_invD [OF assms(1)] assms(2) in \<open>auto simp: refuse_path_def adopted_simps split: if_splits\<close>)

lemma inv_kill:
  assumes "world_inv w"
  shows "world_inv (kill_process p w)"
proof -
  let ?w' = "kill_process p w"
  have len: "length (kw_stores ?w') = length (kw_stores w)" by (simp add: kill_process_def)
  have proc: "kw_process ?w' q = (if q = p then fresh_process else kw_process w q)" for q by (simp add: kill_process_def)
  have nth: "owner_of ?w' i = owner_of w i" "store_at ?w' i = (if owner_of w i = p then close_store (store_at w i) else store_at w i)"
    if "i < length (kw_stores w)" for i
    using that by (simp_all add: kill_process_def split: prod.splits)
  show ?thesis
  proof (rule world_invI)
    fix q i assume "hp_cell (kw_process ?w' q) = Ready i"
    then show "i < length (kw_stores ?w') \<and> owner_of ?w' i = q"
      using world_invD(1) [OF assms, of q i] nth(1) [of i]
      by (auto simp: proc len fresh_process_def default_cell_def split: if_splits)
  next
    fix i assume "i < length (kw_stores ?w')"
    then have i: "i < length (kw_stores w)" unfolding len .
    show "in_lock (st_inner (store_at ?w' i)) \<longleftrightarrow>
        hp_cell (kw_process ?w' (owner_of ?w' i)) = Ready i \<and> \<not> hp_swapping (kw_process ?w' (owner_of ?w' i))"
      using world_invD(2) [OF assms i] by (simp add: nth [OF i] proc fresh_process_def default_cell_def)
  next
    fix q show "hp_published (kw_process ?w' q) = adopted (kw_process ?w' q)"
      using world_invD(3) [OF assms, of q] by (simp add: proc adopted_def fresh_process_def default_cell_def)
  next
    fix i j
    assume "i < length (kw_stores ?w')" "j < length (kw_stores ?w')" "in_lock (st_inner (store_at ?w' i))"
      "in_lock (st_inner (store_at ?w' j))" "st_dir (store_at ?w' i) = st_dir (store_at ?w' j)"
    then show "i = j" using world_invD(4) [OF assms, of i j] unfolding len by (auto simp: nth split: if_splits)
  qed
qed

lemma inv_same_place:
  assumes "world_inv w" "same_place (store_at w i) s" "i < length (kw_stores w)"
  shows "world_inv (set_store i s w)"
proof -
  have nth: "owner_of (set_store i s w) j = owner_of w j" "st_dir (store_at (set_store i s w) j) = st_dir (store_at w j)"
    "in_lock (st_inner (store_at (set_store i s w) j)) = in_lock (st_inner (store_at w j))" if "j < length (kw_stores w)" for j
    using that assms(2) by (simp_all add: set_store_nth same_place_def)
  show ?thesis
  proof (rule world_invI)
    fix j k
    assume "j < length (kw_stores (set_store i s w))" "k < length (kw_stores (set_store i s w))"
      "in_lock (st_inner (store_at (set_store i s w) j))" "in_lock (st_inner (store_at (set_store i s w) k))"
      "st_dir (store_at (set_store i s w) j) = st_dir (store_at (set_store i s w) k)"
    then show "j = k" using world_invD(4) [OF assms(1), of j k] by (simp add: nth)
  qed (use world_invD(1-3) [OF assms(1)] in \<open>auto simp: nth\<close>)
qed

lemma inv_seen: "world_inv (w \<lparr> kw_seen := m \<rparr>) \<longleftrightarrow> world_inv w"
  by (rule world_inv_cong) simp_all

lemma world_step_inv:
  assumes "world_step env w l w'" "world_inv w"
  shows "world_inv w'"
  using assms(1)
proof cases
  case (world_close p)
  then show ?thesis using inv_close_previous assms(2) by simp
next
  case (world_adopt p dir lk rn)
  then show ?thesis using inv_adopt assms(2) by simp
next
  case (world_adopt_fault p dir lk fault e rn)
  have "lock_granted (with_ledger dir fault w) dir lk" using world_adopt_fault by (simp add: lock_granted_def dir_locked_def with_ledger_def)
  moreover have "hp_swapping (kw_process (with_ledger dir fault w) p)" using world_adopt_fault by (simp add: with_ledger_def)
  moreover have "world_inv (with_ledger dir fault w)" unfolding with_ledger_def by (rule inv_set_disk [OF assms(2)])
  ultimately have "world_inv (open_and_adopt env p dir lk rn (with_ledger dir fault w))" using inv_adopt by blast
  then show ?thesis using world_adopt_fault(2) inv_set_disk by (simp add: with_ledger_def)
next
  case (world_refuse p)
  then show ?thesis using inv_refuse assms(2) by simp
next
  case (world_call i dir l' s' d' seen')
  have "world_inv (set_disk dir d' w)" by (rule inv_set_disk [OF assms(2)])
  moreover have "same_place (store_at (set_disk dir d' w) i) s'" using store_call_place world_call by simp
  ultimately show ?thesis using world_call inv_same_place by (simp add: inv_seen)
next
  case (world_crash p)
  then show ?thesis using inv_kill assms(2) by simp
qed (auto simp: with_ledger_def intro: inv_set_disk [OF assms(2)])

lemma world_run_inv: "trace (world_step env) w ls w' \<Longrightarrow> world_inv w \<Longrightarrow> world_inv w'"
  by (induction rule: trace.induct) (auto dest: world_step_inv)

section \<open>One directory is one store machine\<close>

definition open_at :: "keystore_world \<Rightarrow> string \<Rightarrow> store option" where
  "open_at w dir = map_option snd (find (\<lambda>x. holds_dir dir (snd x)) (kw_stores w))"

definition dir_machine :: "keystore_world \<Rightarrow> string \<Rightarrow> machine" where
  "dir_machine w dir = \<lparr> m_disk = kw_disk w dir, m_store = open_at w dir, m_seen = kw_seen w dir \<rparr>"

lemma open_at_None: "open_at w dir = None \<longleftrightarrow> \<not> dir_locked w dir"
  by (auto simp: open_at_def dir_locked_def find_None_iff list_ex_iff)

lemma open_at_Some:
  assumes "world_inv w" "i < length (kw_stores w)" "holds_dir dir (store_at w i)"
  shows "open_at w dir = Some (store_at w i)"
proof -
  have "find (\<lambda>x. holds_dir dir (snd x)) (kw_stores w) \<noteq> None"
    using assms(3) nth_mem [OF assms(2)] unfolding find_None_iff by blast
  then obtain j where j: "j < length (kw_stores w)" "holds_dir dir (store_at w j)"
      "find (\<lambda>x. holds_dir dir (snd x)) (kw_stores w) = Some (kw_stores w ! j)"
    by (auto simp: find_Some_iff)
  have "j = i" using world_invD(4) [OF assms(1) j(1) assms(2)] j(2) assms(3) by (simp add: holds_dir_def)
  then show ?thesis using j(3) by (simp add: open_at_def)
qed

lemma open_at_SomeD:
  assumes "open_at w dir = Some s"
  shows "\<exists>i < length (kw_stores w). holds_dir dir (store_at w i) \<and> s = store_at w i"
proof -
  obtain x where "find (\<lambda>x. holds_dir dir (snd x)) (kw_stores w) = Some x" "s = snd x" using assms by (auto simp: open_at_def)
  then show ?thesis unfolding find_Some_iff by blast
qed

text \<open>Closing stores, for whatever reason, looks like a crash to a directory, or like nothing.\<close>

lemma closing_machine:
  assumes "world_inv w" "world_inv w'" "length (kw_stores w') = length (kw_stores w)"
    and "\<And>i. i < length (kw_stores w) \<Longrightarrow> store_at w' i = store_at w i \<or> store_at w' i = close_store (store_at w i)"
    and "kw_disk w' = kw_disk w" "kw_seen w' = kw_seen w"
  shows "\<exists>ls. trace (store_step env) (dir_machine w dir) ls (dir_machine w' dir)"
proof -
  have "open_at w' dir = None \<or> open_at w' dir = open_at w dir"
  proof (cases "open_at w' dir")
    case (Some s)
    then obtain i where i: "i < length (kw_stores w')" "holds_dir dir (store_at w' i)" "s = store_at w' i" using open_at_SomeD by blast
    have "store_at w' i = store_at w i" using assms(3) assms(4) [of i] i(1,2) by (auto simp: holds_dir_def)
    then show ?thesis using open_at_Some [OF assms(1), of i dir] i Some assms(3) by simp
  qed simp
  then consider "dir_machine w' dir = dir_machine w dir" | "dir_machine w' dir = (dir_machine w dir) \<lparr> m_store := None \<rparr>"
    using assms(5,6) by (auto simp: dir_machine_def)
  then show ?thesis
  proof cases
    case 1
    then show ?thesis using trace_nil by metis
  next
    case 2
    have "store_step env (dir_machine w dir) None ((dir_machine w dir) \<lparr> m_store := None \<rparr>)" by (rule step_crash)
    from trace_cons [of "store_step env", OF this trace_nil] show ?thesis using 2 by metis
  qed
qed

lemma close_previous_machine:
  assumes "world_inv w"
  shows "\<exists>ls. trace (store_step env) (dir_machine w dir) ls (dir_machine (close_previous p w) dir)"
proof (rule closing_machine [OF assms inv_close_previous [OF assms]])
  show "length (kw_stores (close_previous p w)) = length (kw_stores w)"
    "kw_disk (close_previous p w) = kw_disk w" "kw_seen (close_previous p w) = kw_seen w"
    by (simp_all add: close_previous_whole Let_def split: store_cell.split)
  show "store_at (close_previous p w) i = store_at w i \<or> store_at (close_previous p w) i = close_store (store_at w i)"
    if "i < length (kw_stores w)" for i
    using that by (auto simp: close_previous_whole Let_def set_store_nth split: store_cell.split)
qed

lemma kill_machine:
  assumes "world_inv w"
  shows "\<exists>ls. trace (store_step env) (dir_machine w dir) ls (dir_machine (kill_process p w) dir)"
  by (rule closing_machine [OF assms inv_kill [OF assms]]) (auto simp: kill_process_def split: prod.splits)

text \<open>Opening is the machine's opening in its own directory and nothing in any other.\<close>

lemma open_needs_lock: "lk \<noteq> LockTaken \<Longrightarrow> \<exists>e. open_store env dir lk rn d = (Inl e, d)"
  by (cases lk) (simp_all add: open_store_def)

lemma adopt_world:
  assumes "open_store env dir lk rn (kw_disk w dir) = (r, d')"
  shows "kw_stores (open_and_adopt env p dir lk rn w) = kw_stores w @ (case r of Inr s \<Rightarrow> [(p, s)] | Inl _ \<Rightarrow> [])"
    "kw_disk (open_and_adopt env p dir lk rn w) = (kw_disk w)(dir := d')"
    "kw_seen (open_and_adopt env p dir lk rn w) = kw_seen w"
  using assms by (cases r; simp add: open_and_adopt_def Let_def)+

lemma open_at_append:
  "kw_stores w' = kw_stores w @ xs \<Longrightarrow>
     open_at w' dir = (case open_at w dir of Some x \<Rightarrow> Some x | None \<Rightarrow> map_option snd (find (\<lambda>x. holds_dir dir (snd x)) xs))"
  by (simp add: open_at_def find_append split: option.split)

lemma adopt_machine:
  assumes "lock_granted w dir' lk" "open_store env dir' lk rn (kw_disk w dir') = (r, d')"
  shows "dir \<noteq> dir' \<Longrightarrow> dir_machine (open_and_adopt env p dir' lk rn w) dir = dir_machine w dir"
    and "dir_locked w dir' \<Longrightarrow> dir_machine (open_and_adopt env p dir' lk rn w) dir' = dir_machine w dir'"
    and "\<not> dir_locked w dir' \<Longrightarrow> dir_machine (open_and_adopt env p dir' lk rn w) dir' =
        (dir_machine w dir') \<lparr> m_disk := d', m_store := (case r of Inr s \<Rightarrow> Some s | Inl _ \<Rightarrow> None) \<rparr>"
proof -
  note aw = adopt_world [OF assms(2), of p]
  note app = open_at_append [OF aw(1)]
  have s: "st_dir s = dir'" "in_lock (st_inner s)" if "r = Inr s" for s
    using open_store_place [OF assms(2) [unfolded that]] by simp_all
  show "dir_machine (open_and_adopt env p dir' lk rn w) dir = dir_machine w dir" if "dir \<noteq> dir'"
  proof -
    have "open_at (open_and_adopt env p dir' lk rn w) dir = open_at w dir"
      using that s by (cases r) (auto simp: app holds_dir_def split: option.split)
    then show ?thesis using that by (simp add: dir_machine_def aw)
  qed
  show "dir_machine (open_and_adopt env p dir' lk rn w) dir' = dir_machine w dir'" if "dir_locked w dir'"
  proof -
    have "lk \<noteq> LockTaken" using that assms(1) by (simp add: lock_granted_def)
    then obtain e where "r = Inl e" "d' = kw_disk w dir'" using open_needs_lock assms(2) by (metis prod.inject)
    then show ?thesis by (simp add: dir_machine_def aw app split: option.split)
  qed
  show "dir_machine (open_and_adopt env p dir' lk rn w) dir' =
      (dir_machine w dir') \<lparr> m_disk := d', m_store := (case r of Inr s \<Rightarrow> Some s | Inl _ \<Rightarrow> None) \<rparr>" if "\<not> dir_locked w dir'"
  proof -
    have none: "open_at w dir' = None" using that by (simp add: open_at_None)
    show ?thesis using s by (cases r) (simp_all add: dir_machine_def aw app none holds_dir_def)
  qed
qed

lemma one_step: "store_step env m l m' \<Longrightarrow> trace (store_step env) m [l] m'"
  by (rule trace_cons [of "store_step env", OF _ trace_nil])

lemma adopt_trace:
  assumes "lock_granted w dir' lk"
  shows "\<exists>ls. trace (store_step env) (dir_machine w dir) ls (dir_machine (open_and_adopt env p dir' lk rn w) dir)"
proof -
  obtain r d' where o: "open_store env dir' lk rn (kw_disk w dir') = (r, d')" by fastforce
  note m = adopt_machine [OF assms o, where p = p]
  consider "dir \<noteq> dir' \<or> dir_locked w dir'" | "dir = dir'" "\<not> dir_locked w dir'" by blast
  then show ?thesis
  proof cases
    case 1
    then have "dir_machine (open_and_adopt env p dir' lk rn w) dir = dir_machine w dir" using m(1) [of dir] m(2) by metis
    then show ?thesis using trace_nil by metis
  next
    case 2
    have "m_store (dir_machine w dir) = None" using 2 open_at_None by (simp add: dir_machine_def)
    then have "store_step env (dir_machine w dir) None
        ((dir_machine w dir) \<lparr> m_disk := d', m_store := (case r of Inr s \<Rightarrow> Some s | Inl _ \<Rightarrow> None) \<rparr>)"
      using o 2(1) by (intro step_open [where dir = dir']) (simp_all add: dir_machine_def)
    then show ?thesis using one_step m(3) 2 by metis
  qed
qed

text \<open>An opening that met a fault while it read the ledger.\<close>

lemma dir_machine_ledger:
  "dir_machine (with_ledger dir' f w) dir = (if dir = dir' then (dir_machine w dir) \<lparr> m_disk := (kw_disk w dir) \<lparr> dk_allocations := f \<rparr> \<rparr> else dir_machine w dir)"
  by (simp add: dir_machine_def with_ledger_def open_at_def)

lemma adopt_fault_trace:
  assumes "lock_granted w dir' lk" "fault = MetaError e \<or> fault = ReadError e"
  shows "\<exists>ls. trace (store_step env) (dir_machine w dir) ls
    (dir_machine (with_ledger dir' (dk_allocations (kw_disk w dir')) (open_and_adopt env p dir' lk rn (with_ledger dir' fault w))) dir)"
proof -
  let ?f = "with_ledger dir' fault w"
  obtain r d' where o: "open_store env dir' lk rn (kw_disk ?f dir') = (r, d')" by fastforce
  have granted: "lock_granted ?f dir' lk" and locked: "dir_locked ?f dir' = dir_locked w dir'"
    using assms(1) by (simp_all add: lock_granted_def dir_locked_def with_ledger_def)
  note m = adopt_machine [OF granted o, where p = p]
  have disk: "kw_disk (open_and_adopt env p dir' lk rn ?f) dir' = d'" using adopt_world(2) [OF o, of p] by simp
  consider "dir \<noteq> dir'" | "dir = dir'" "dir_locked w dir'" | "dir = dir'" "\<not> dir_locked w dir'" by blast
  then show ?thesis
  proof cases
    case 1
    then show ?thesis using m(1) [of dir] by (auto simp: dir_machine_ledger intro: exI [of _ "[]"])
  next
    case 2
    have "lk \<noteq> LockTaken" using 2 assms(1) by (simp add: lock_granted_def)
    then have "d' = kw_disk ?f dir'" using open_needs_lock o by (metis prod.inject)
    then have "dir_machine (with_ledger dir' (dk_allocations (kw_disk w dir')) (open_and_adopt env p dir' lk rn ?f)) dir = dir_machine w dir"
      using m(2) 2 locked disk by (simp add: dir_machine_ledger) (simp add: dir_machine_def with_ledger_def)
    then show ?thesis using trace_nil by metis
  next
    case 3
    have none: "m_store (dir_machine w dir) = None" using 3 open_at_None by (simp add: dir_machine_def)
    have o': "open_store env dir' lk rn ((m_disk (dir_machine w dir)) \<lparr> dk_allocations := fault \<rparr>) = (r, d')"
      using o 3(1) by (simp add: dir_machine_def with_ledger_def)
    have "dir_machine (with_ledger dir' (dk_allocations (kw_disk w dir')) (open_and_adopt env p dir' lk rn ?f)) dir =
        (dir_machine w dir) \<lparr> m_disk := d' \<lparr> dk_allocations := dk_allocations (m_disk (dir_machine w dir)) \<rparr>,
          m_store := (case r of Inr s \<Rightarrow> Some s | Inl _ \<Rightarrow> None) \<rparr>"
      using m(3) 3 locked disk by (simp add: dir_machine_ledger) (simp add: dir_machine_def)
    then show ?thesis using one_step [OF step_open_fault [OF none assms(2) o']] by metis
  qed
qed

lemma call_machine:
  assumes "world_inv w" "i < length (kw_stores w)" "dir' = st_dir (store_at w i)"
    and "store_call env (store_at w i) (kw_disk w dir') (kw_seen w dir') l s' d' seen'"
    and "w' = set_store i s' (set_disk dir' d' w) \<lparr> kw_seen := (kw_seen w)(dir' := seen') \<rparr>"
  shows "\<exists>ls. trace (store_step env) (dir_machine w dir) ls (dir_machine w' dir) \<and> (dir = dir' \<longrightarrow> issued ls = issued [l])"
proof -
  have place: "same_place (store_at w i) s'" using store_call_place assms(4) by blast
  have inv': "world_inv w'"
  proof -
    have "same_place (store_at (set_disk dir' d' w) i) s'" using place by simp
    then show ?thesis using inv_same_place [OF inv_set_disk [OF assms(1)]] assms(2,5) by (simp add: inv_seen)
  qed
  have st: "kw_stores w' = (kw_stores w)[i := (owner_of w i, s')]" by (simp add: assms(5) set_store_def)
  then have len: "length (kw_stores w') = length (kw_stores w)" and new: "store_at w' i = s'"
    and old: "j \<noteq> i \<Longrightarrow> store_at w' j = store_at w j" for j using assms(2) by simp_all
  have other: "open_at w' dir = open_at w dir" if "dir \<noteq> dir' \<or> \<not> in_lock (st_inner (store_at w i))"
  proof -
    have keep: "holds_dir dir (store_at w' j) \<longleftrightarrow> holds_dir dir (store_at w j)" "holds_dir dir (store_at w j) \<Longrightarrow> j \<noteq> i" for j
      using that old [of j] new place assms(3) by (cases "j = i"; auto simp: holds_dir_def same_place_def)+
    show ?thesis
    proof (cases "open_at w dir")
      case None
      then show ?thesis
        using open_at_SomeD [of w' dir] open_at_Some [OF assms(1), of _ dir] keep(1) len by (metis not_Some_eq)
    next
      case (Some s)
      then obtain j where j: "j < length (kw_stores w)" "holds_dir dir (store_at w j)" "s = store_at w j" using open_at_SomeD by blast
      then show ?thesis using open_at_Some [OF inv', of j dir] keep(1) [of j] keep(2) [of j] old [of j] len Some by simp
    qed
  qed
  consider "dir \<noteq> dir'" | "dir = dir'" "\<not> in_lock (st_inner (store_at w i))" | "dir = dir'" "in_lock (st_inner (store_at w i))" by blast
  then show ?thesis
  proof cases
    case 1
    then have "dir_machine w' dir = dir_machine w dir" using other by (simp add: dir_machine_def assms(5))
    then show ?thesis using 1 trace_nil by metis
  next
    case 2
    note c = closed_call [OF assms(4) 2(2)]
    have "dir_machine w' dir = dir_machine w dir"
      using other 2 c by (simp add: dir_machine_def assms(5))
    moreover have "issued [l] = []" using c by simp
    ultimately show ?thesis using trace_nil by (metis issued.simps(1))
  next
    case 3
    have "open_at w dir = Some (store_at w i)" "open_at w' dir = Some s'"
      using open_at_Some [OF assms(1,2), of dir] open_at_Some [OF inv', of i dir] place 3 assms(2,3) len new
      by (simp_all add: holds_dir_def same_place_def)
    then have "store_step env (dir_machine w dir) l (dir_machine w' dir)"
      using store_call_step [OF assms(4) 3(2)] 3(1) by (simp add: dir_machine_def assms(5))
    then show ?thesis using one_step by metis
  qed
qed

lemma world_step_machine:
  assumes "world_inv w" "world_step env w l w'"
  shows "\<exists>ls. trace (store_step env) (dir_machine w dir) ls (dir_machine w' dir) \<and>
    (\<forall>k m. l = Some ((dir, k), m) \<longrightarrow> issued ls = [(k, m)])"
  using assms(2)
proof cases
  case (world_close p)
  then show ?thesis using close_previous_machine [OF assms(1)] by auto
next
  case (world_adopt p dir' lk rn)
  then show ?thesis using adopt_trace by auto
next
  case (world_adopt_fault p dir' lk fault e rn)
  then show ?thesis using adopt_fault_trace [OF world_adopt_fault(4,5)] by auto
next
  case (world_refuse p)
  then have "dir_machine w' dir = dir_machine w dir" by (simp add: dir_machine_def refuse_path_def open_at_def)
  then show ?thesis using world_refuse(1) by (auto intro: exI [of _ "[]"])
next
  case (world_call i dir' l' s' d' seen')
  from call_machine [OF assms(1) world_call(3,4,5) world_call(2)] obtain ls where
    "trace (store_step env) (dir_machine w dir) ls (dir_machine w' dir)" "dir = dir' \<Longrightarrow> issued ls = issued [l']" by blast
  then show ?thesis using world_call(1) by auto
next
  case (world_crash p)
  then show ?thesis using kill_machine [OF assms(1)] by auto
next
  case (world_files dir' old cf sf)
  show ?thesis
  proof (cases "dir = dir'")
    case True
    then have "dir_machine w' dir = (dir_machine w dir) \<lparr> m_disk := (m_disk (dir_machine w dir)) \<lparr> dk_sealed := sf, dk_cache := cf, dk_old_format := old \<rparr> \<rparr>"
      using world_files by (simp add: dir_machine_def open_at_def)
    then show ?thesis using one_step [OF step_env_files] world_files(1) by (metis option.distinct(1))
  next
    case False
    then have "dir_machine w' dir = dir_machine w dir" using world_files by (simp add: dir_machine_def open_at_def)
    then show ?thesis using world_files(1) by (auto intro: exI [of _ "[]"])
  qed
next
  case (world_ledger_lost lf dir')
  show ?thesis
  proof (cases "dir = dir'")
    case True
    then have "dir_machine w' dir = (dir_machine w dir) \<lparr> m_disk := (m_disk (dir_machine w dir)) \<lparr> dk_allocations := lf \<rparr> \<rparr>"
      using world_ledger_lost by (simp add: dir_machine_ledger) (simp add: dir_machine_def)
    then show ?thesis using one_step [OF step_env_ledger_lost [OF world_ledger_lost(3)]] world_ledger_lost(1) by (metis option.distinct(1))
  next
    case False
    then show ?thesis using world_ledger_lost by (auto simp: dir_machine_ledger intro: exI [of _ "[]"])
  qed
qed

text \<open>The processes together hand out slots as one issuer, whose keys name the directory first.\<close>

definition keystores_inv :: "keystore_world \<Rightarrow> bool" where
  "keystores_inv w \<longleftrightarrow> world_inv w \<and> (\<forall>dir. machine_inv (dir_machine w dir))"

definition keystores_next :: "keystore_world \<Rightarrow> string \<times> issue_key \<Rightarrow> enat" where
  "keystores_next w k = machine_next (dir_machine w (fst k)) (snd k)"

interpretation keystores: slot_issuer keystores_inv "world_step env" keystores_next for env
proof unfold_locales
  fix w l w' assume inv: "keystores_inv w" and st: "world_step env w l w'"
  then have "machine_inv (dir_machine w' dir)" for dir
    using world_step_machine [of w env l w' dir] store.inv_trace [of env "dir_machine w dir"] by (auto simp: keystores_inv_def)
  then show "keystores_inv w'" using world_step_inv inv st by (auto simp: keystores_inv_def)
next
  fix w l w' k assume "keystores_inv w" "world_step env w l w'"
  then show "keystores_next w k \<le> keystores_next w' k"
    using world_step_machine [of w env l w' "fst k"] store.next_mono_trace [of env "dir_machine w (fst k)" _ _ "snd k"]
    by (auto simp: keystores_inv_def keystores_next_def)
next
  fix w k m w' assume inv: "keystores_inv w" and st: "world_step env w (Some (k, m)) w'"
  obtain ls where t: "trace (store_step env) (dir_machine w (fst k)) ls (dir_machine w' (fst k))" "issued ls = [(snd k, m)]"
    using world_step_machine [of w env "Some (k, m)" w' "fst k"] inv st by (cases k) (auto simp: keystores_inv_def)
  have mi: "machine_inv (dir_machine w (fst k))" using inv by (simp add: keystores_inv_def)
  have "(snd k, m) \<in> set (issued ls)" using t(2) by simp
  from store.issued_ge_next [OF t(1) mi this] store.issued_below_next [OF t(1) mi this]
  show "keystores_next w k \<le> enat m \<and> enat m < keystores_next w' k" by (simp add: keystores_next_def)
qed

section \<open>A context is a run of the machine\<close>

text \<open>Auto-unlock reaches the store through unlock calls only.\<close>

definition unlock_call :: "'z store_env_scheme \<Rightarrow> store \<times> disk \<Rightarrow> store \<times> disk \<Rightarrow> bool" where
  "unlock_call env x y \<longleftrightarrow> (\<exists>r pw ui. unlock_with env pw ui (fst x) (snd x) = (r, fst y, snd y))"

lemma unlock_callI: "unlock_with env pw ui s d = (r, s', d') \<Longrightarrow> (unlock_call env)\<^sup>*\<^sup>* (s, d) (s', d')"
  by (rule r_into_rtranclp) (auto simp: unlock_call_def)

lemma self_provision_calls:
  assumes "self_provision env ai cu s d = (r, cu', s', d')"
  shows "(unlock_call env)\<^sup>*\<^sup>* (s, d) (s', d')"
  using assms by (auto simp: self_provision_def Let_def dest: unlock_callI split: sum.splits prod.splits)

lemma after_file_calls:
  assumes "after_file env ai rejected fnote cu s d = (r, cu', s', d')"
  shows "(unlock_call env)\<^sup>*\<^sup>* (s, d) (s', d')"
  using assms
  by (auto simp: after_file_def Let_def dest: unlock_callI self_provision_calls split: sum.splits prod.splits option.splits if_splits)

lemma auto_unlock_calls:
  assumes "auto_unlock_core env ai cu s d = (r, cu', s', d')"
  shows "(unlock_call env)\<^sup>*\<^sup>* (s, d) (s', d')"
proof -
  obtain fsec fnote where f: "read_file_secret (cu_file cu) = (fsec, fnote)" by fastforce
  show ?thesis
  proof (cases fsec)
    case None
    then show ?thesis using assms f by (auto simp: auto_unlock_core_def dest: after_file_calls)
  next
    case (Some pw)
    obtain ru su du where u: "unlock_with env pw (ai_file ai) s d = (ru, su, du)" by (metis prod_cases3)
    have "(unlock_call env)\<^sup>*\<^sup>* (su, du) (s', d')"
      using assms f Some u by (auto simp: auto_unlock_core_def dest: after_file_calls split: sum.splits if_splits)
    then show ?thesis using rtranclp_trans [OF unlock_callI [OF u]] by blast
  qed
qed

text \<open>What is at position \<open>i\<close>, with its directory's content, after calls.\<close>

definition put_store :: "nat \<Rightarrow> string \<Rightarrow> store \<times> disk \<Rightarrow> keystore_world \<Rightarrow> keystore_world" where
  "put_store i dir x w = set_store i (fst x) (set_disk dir (snd x) w)"

lemma put_store_parts:
  assumes "i < length (kw_stores w)"
  shows "store_at (put_store i dir x w) i = fst x" "kw_disk (put_store i dir x w) dir = snd x"
    "put_store i dir y (put_store i dir x w) = put_store i dir y w"
    "length (kw_stores (put_store i dir x w)) = length (kw_stores w)" "kw_seen (put_store i dir x w) = kw_seen w"
  using assms by (simp_all add: put_store_def set_store_def set_disk_def)

lemma put_store_same: "i < length (kw_stores w) \<Longrightarrow> put_store i dir (store_at w i, kw_disk w dir) w = w"
  by (simp add: put_store_def set_store_def set_disk_def)

lemma unlock_calls_run:
  assumes "(unlock_call env)\<^sup>*\<^sup>* x y" "i < length (kw_stores w)" "x = (store_at w i, kw_disk w dir)" "dir = st_dir (store_at w i)"
  shows "\<exists>ls. trace (world_step env) w ls (put_store i dir y w) \<and> issued ls = [] \<and> st_dir (fst y) = dir"
  using assms(1)
proof (induction rule: rtranclp_induct)
  case base
  then show ?case
    using put_store_same [OF assms(2), of dir] assms(3,4) by (auto intro: exI [of _ "[]"])
next
  case (step y z)
  let ?w = "put_store i dir y w"
  obtain ls where ls: "trace (world_step env) w ls ?w" "issued ls = []" "st_dir (fst y) = dir" using step.IH by blast
  note parts = put_store_parts [OF assms(2), of dir]
  obtain r pw ui where u: "unlock_with env pw ui (fst y) (snd y) = (r, fst z, snd z)" using step.hyps(2) by (auto simp: unlock_call_def)
  then have c: "store_call env (store_at ?w i) (kw_disk ?w dir) (kw_seen ?w dir) None (fst z) (snd z) (kw_seen ?w dir)"
    unfolding parts(1,2) unlock_with_def by (rule call_unlock)
  have "world_step env ?w (map_option (\<lambda>(k, m). ((dir, k), m)) None)
      (set_store i (fst z) (set_disk dir (snd z) ?w) \<lparr> kw_seen := (kw_seen ?w)(dir := kw_seen ?w dir) \<rparr>)"
    by (rule world_call [OF _ _ c]) (simp_all add: parts assms(2) ls(3))
  moreover have "set_store i (fst z) (set_disk dir (snd z) ?w) \<lparr> kw_seen := (kw_seen ?w)(dir := kw_seen ?w dir) \<rparr> = put_store i dir z w"
    using parts(3) [of z y] by (simp add: put_store_def)
  ultimately have "world_step env ?w None (put_store i dir z w)" by simp
  from trace_append [OF ls(1) trace_cons [of "world_step env", OF this trace_nil]]
  have "trace (world_step env) w (ls @ [None]) (put_store i dir z w)" .
  moreover have "st_dir (fst z) = dir" using store_call_place [OF c] ls(3) parts(1) [of y] by (simp add: same_place_def)
  ultimately show ?case using ls(2) by (intro exI [of _ "ls @ [None]"]) simp
qed

lemma open_cell_run:
  assumes "\<not> hp_swapping (kw_process w p)" "lock_granted (close_previous p w) dir lk"
  shows "trace (world_step env) w [None, None] (open_store_cell env p dir lk rn w)"
proof -
  have s: "hp_swapping (kw_process (close_previous p w) p)" by (simp add: close_previous_whole Let_def split: store_cell.split)
  have "world_step env (close_previous p w) None (open_store_cell env p dir lk rn w)"
    unfolding open_store_cell_def by (rule world_adopt [OF s assms(2)])
  from trace_cons [of "world_step env", OF world_close [OF assms(1)] trace_cons [of "world_step env", OF this trace_nil]] show ?thesis .
qed

lemma lazy_unlock_run:
  assumes "world_inv w" "current w p = Some i" "lazy_auto_unlock env ai disabled cu (published_view w p ms) = (cu', ms')"
  shows "(\<exists>ls. trace (world_step env) w ls (write_back i ms' w) \<and> issued ls = []) \<and>
    st_dir (store_at (write_back i ms' w) i) = st_dir (store_at w i)"
proof -
  have i: "i < length (kw_stores w)"
    using world_invD(1) [OF assms(1), of p i] world_invD(3) [OF assms(1), of p] assms(2)
    by (auto simp: current_def adopted_def split: store_cell.splits if_splits)
  let ?d = "st_dir (store_at w i)"
  have view: "ms_store (published_view w p ms) = Inr (store_at w i)" "ms_disk (published_view w p ms) = kw_disk w ?d"
    using assms(2) by (simp_all add: published_view_def)
  show ?thesis
  proof (cases "disabled \<or> session_password (store_at w i) \<noteq> None")
    case True
    then have "ms' = published_view w p ms" using assms(3) by (cases disabled) (auto simp: lazy_auto_unlock_def view)
    then have "write_back i ms' w = w" using view put_store_same [OF i, of ?d] by (simp add: write_back_def put_store_def)
    then show ?thesis by (auto intro: exI [of _ "[]"])
  next
    case False
    obtain r c s' d' where u: "auto_unlock_core env ai cu (store_at w i) (kw_disk w ?d) = (r, c, s', d')" by (metis prod_cases4)
    have ms': "ms_store ms' = Inr s'" "ms_disk ms' = d'" using assms(3) u False by (auto simp: lazy_auto_unlock_def view)
    obtain ls where "trace (world_step env) w ls (put_store i ?d (s', d') w)" "issued ls = []" "st_dir s' = ?d"
      using unlock_calls_run [OF auto_unlock_calls [OF u] i refl refl] by auto
    then show ?thesis using ms' put_store_parts(1) [OF i, of ?d "(s', d')"] by (auto simp: write_back_def put_store_def)
  qed
qed

lemma write_back_process [simp]: "kw_process (write_back i ms w) = kw_process w"
  by (simp add: write_back_def split: sum.split)

lemma closing_swaps: "hp_swapping (kw_process (close_previous p w) p)"
  by (simp add: close_previous_whole Let_def split: store_cell.split)

text \<open>Where a context ends: nothing adopted, or the next position.\<close>

lemma context_run:
  assumes "world_inv w" "\<not> hp_swapping (kw_process w p)"
    and "path \<noteq> [] \<longrightarrow> lock_granted (close_previous p w) path lk"
    and "on_context_ready env ai disabled path lk rn p ms cu w = (poll, cu', w')"
  shows "(\<exists>ls. trace (world_step env) w ls w' \<and> issued ls = []) \<and> \<not> hp_swapping (kw_process w' p) \<and>
    ((\<exists>cause. hp_cell (kw_process w' p) = Unready cause) \<or>
     path \<noteq> [] \<and> hp_cell (kw_process w' p) = Ready (length (kw_stores w)) \<and> st_dir (store_at w' (length (kw_stores w))) = path)"
proof (cases "path = []")
  case True
  have w': "w' = refuse_path p (close_previous p w)" using assms(4) True by (simp add: on_context_ready_def)
  then have "trace (world_step env) w [None, None] w'"
    using trace_cons [of "world_step env", OF world_close [OF assms(2)] trace_cons [of "world_step env", OF world_refuse [OF closing_swaps] trace_nil]]
    by simp
  moreover have "\<not> hp_swapping (kw_process w' p)" "hp_cell (kw_process w' p) = Unready no_path_cause" by (simp_all add: w' refuse_path_def)
  ultimately show ?thesis by (auto intro!: exI [of _ "[None, None]"])
next
  case False
  let ?w1 = "open_store_cell env p path lk rn w"
  have run: "trace (world_step env) w [None, None] ?w1" using open_cell_run assms(2,3) False by blast
  have inv1: "world_inv ?w1" by (rule world_run_inv [OF run assms(1)])
  have ns: "\<not> hp_swapping (kw_process ?w1 p)"
    by (simp add: open_store_cell_def open_and_adopt_def Let_def split: prod.split sum.split)
  show ?thesis
  proof (cases "hp_cell (kw_process ?w1 p)")
    case (Unready c)
    then have "w' = ?w1" using assms(4) False by (simp add: on_context_ready_def Let_def)
    then show ?thesis using run Unready ns by (auto intro!: exI [of _ "[None, None]"])
  next
    case (Ready i)
    have len: "length (kw_stores (close_previous p w)) = length (kw_stores w)"
      by (simp add: close_previous_whole Let_def split: store_cell.split)
    obtain r d' where o: "open_store env path lk rn (kw_disk (close_previous p w) path) = (r, d')" by fastforce
    then obtain s where s: "r = Inr s" using Ready by (cases r) (auto simp: open_store_cell_def open_and_adopt_def)
    have i: "i = length (kw_stores w)" "st_dir (store_at ?w1 i) = path"
      using Ready o s len open_store_place(3) [OF o [unfolded s]] by (auto simp: open_store_cell_def open_and_adopt_def Let_def nth_append)
    have cur: "current ?w1 p = Some i"
      using world_invD(3) [OF inv1, of p] Ready ns by (simp add: current_def adopted_simps)
    obtain c' ms' where l: "lazy_auto_unlock env ai disabled cu (published_view ?w1 p ms) = (c', ms')" by fastforce
    have w': "w' = write_back i ms' ?w1" using assms(4) False Ready l by (simp add: on_context_ready_def Let_def)
    from lazy_unlock_run [OF inv1 cur l] obtain ls where
      "trace (world_step env) ?w1 ls w'" "issued ls = []" "st_dir (store_at w' i) = path" unfolding w' i(2) by blast
    then show ?thesis
      using trace_append [OF run] False Ready i(1) ns by (auto simp: w' intro!: exI [of _ "[None, None] @ ls"])
  qed
qed

lemma own_lock_released:
  assumes "world_inv w" "\<not> hp_swapping (kw_process w p)" "module_store w p = Inr i"
  shows "\<not> dir_locked (close_previous p w) (st_dir (store_at w i))"
proof
  let ?w = "close_previous p w"
  have cell: "hp_cell (kw_process w p) = Ready i" using assms(3) by (simp add: module_store_def split: store_cell.splits)
  have i: "i < length (kw_stores w)" "owner_of w i = p" using world_invD(1) [OF assms(1) cell] by simp_all
  then have li: "in_lock (st_inner (store_at w i))" using world_invD(2) [OF assms(1) i(1)] cell assms(2) by simp
  have len: "length (kw_stores ?w) = length (kw_stores w)"
    by (simp add: close_previous_whole Let_def split: store_cell.split)
  have nth: "store_at ?w j = (if j = i then close_store (store_at w i) else store_at w j)" if "j < length (kw_stores w)" for j
    using that cell by (simp add: close_previous_whole Let_def set_store_nth)
  assume "dir_locked ?w (st_dir (store_at w i))"
  then obtain j where "j < length (kw_stores w)" "holds_dir (st_dir (store_at w i)) (store_at ?w j)"
    unfolding dir_locked_def list_ex_iff by (metis in_set_conv_nth len)
  then show False using world_invD(4) [OF assms(1) _ i(1), of j] li nth [of j] by (auto simp: holds_dir_def split: if_splits)
qed

text \<open>Positions and owners stay.\<close>

lemma step_owner:
  assumes "world_step env w l w'" "i < length (kw_stores w)"
  shows "i < length (kw_stores w') \<and> owner_of w' i = owner_of w i"
  using assms
  by cases (auto simp: close_previous_whole open_and_adopt_def refuse_path_def kill_process_def with_ledger_def Let_def set_store_nth nth_append
      split: store_cell.splits prod.splits sum.splits)

lemma run_owner:
  assumes "trace (world_step env) w ls w'" "i < length (kw_stores w)"
  shows "i < length (kw_stores w') \<and> owner_of w' i = owner_of w i"
  using assms by (induction rule: trace.induct) (auto dest: step_owner)

section \<open>Properties\<close>

definition fresh_world :: "(string \<Rightarrow> disk) \<Rightarrow> (string \<Rightarrow> string set) \<Rightarrow> keystore_world" where
  "fresh_world disks seen = \<lparr> kw_stores = [], kw_process = (\<lambda>_. fresh_process), kw_disk = disks, kw_seen = seen \<rparr>"

lemma fresh_world_inv: "world_inv (fresh_world disks seen)"
  by (rule world_invI) (simp_all add: fresh_world_def fresh_process_def default_cell_def adopted_def)

lemma fresh_keystores_inv:
  assumes "\<And>dir. machine_inv \<lparr> m_disk = disks dir, m_store = None, m_seen = seen dir \<rparr>"
  shows "keystores_inv (fresh_world disks seen)"
  using assms fresh_world_inv by (simp add: keystores_inv_def dir_machine_def open_at_def fresh_world_def)

subsection \<open>A concrete world\<close>

abbreviation empty_world :: keystore_world where
  "empty_world \<equiv> fresh_world (\<lambda>_. empty_disk) (\<lambda>_. {})"

definition sample_world :: "store \<Rightarrow> disk \<Rightarrow> string set \<Rightarrow> keystore_world" where
  "sample_world s d seen =
     \<lparr> kw_stores = [(0, s)],
       kw_process = (\<lambda>_. fresh_process)(0 := \<lparr> hp_cell = Ready 0, hp_published = Some 0, hp_swapping = False \<rparr>),
       kw_disk = (\<lambda>_. empty_disk)(''dir'' := d), kw_seen = (\<lambda>_. {})(''dir'' := seen) \<rparr>"

lemma sample_first_context:
  "open_store_cell sample_env 0 ''dir'' LockTaken sample_renames empty_world = sample_world sample_opened empty_disk {}"
  by (simp add: open_store_cell_def close_previous_whole open_and_adopt_def fresh_world_def fresh_process_def default_cell_def
      sample_open sample_world_def set_process_def set_disk_def Let_def fun_eq_iff)

lemma sample_lock_granted: "lock_granted (close_previous 0 empty_world) ''dir'' LockTaken"
  by (simp add: lock_granted_def dir_locked_def close_previous_whole fresh_world_def fresh_process_def default_cell_def Let_def)

lemma sample_first_run:
  "trace (world_step sample_env) empty_world [None, None] (sample_world sample_opened empty_disk {})"
  unfolding sample_first_context [symmetric]
  by (rule open_cell_run [OF _ sample_lock_granted]) (simp add: fresh_world_def fresh_process_def)

lemma sample_world_call:
  assumes "store_call sample_env s d seen l s' d' seen'" "st_dir s = ''dir''"
  shows "world_step sample_env (sample_world s d seen) (map_option (\<lambda>(k, m). ((''dir'', k), m)) l) (sample_world s' d' seen')"
proof -
  let ?w = "sample_world s d seen"
  have "set_store 0 s' (set_disk ''dir'' d' ?w) \<lparr> kw_seen := (kw_seen ?w)(''dir'' := seen') \<rparr> = sample_world s' d' seen'"
    unfolding sample_world_def set_store_def set_disk_def by simp
  moreover have "store_call sample_env (store_at ?w 0) (kw_disk ?w ''dir'') (kw_seen ?w ''dir'') l s' d' seen'"
    using assms(1) unfolding sample_world_def by simp
  then have "world_step sample_env ?w (map_option (\<lambda>(k, m). ((''dir'', k), m)) l)
      (set_store 0 s' (set_disk ''dir'' d' ?w) \<lparr> kw_seen := (kw_seen ?w)(''dir'' := seen') \<rparr>)"
    by (rule world_call [rotated 2]) (use assms(2) in \<open>simp_all add: sample_world_def\<close>)
  ultimately show ?thesis by argo
qed

text \<open>
  Process 0 registers a membership and reserves twice, then dies; process 1 takes the directory over.
\<close>

lemma sample_world_run:
  "\<exists>w. trace (world_step sample_env) empty_world
     [None, None, None, None, Some ((''dir'', ''h'', ''app'', 5), 0), Some ((''dir'', ''h'', ''app'', 5), 1), None, None, None] w"
proof -
  obtain s2 d2 s3 d3 s4 d4 s5 d5 where
    u: "unlock sample_env ''pw'' (Some (replicate 16 0)) (Some (replicate 16 1)) WriteOk sample_opened empty_disk = (Inr 0, s2, d2)"
    and ins: "insert_membership sample_env (Some (replicate 24 0)) WriteOk WriteOk WriteOk ''h'' sample_identity sample_credential 3
      s2 d2 = (Inr (), s3, d3)"
    and r1: "reserve_message_id sample_env WriteOk ''h'' ''app'' 5 4 3 600 s3 d3 = (Inr 0, s4, d4)"
    and r2: "reserve_message_id sample_env WriteOk ''h'' ''app'' 5 4 3 600 s4 d4 = (Inr 1, s5, d5)"
    by (rule sample_calls)
  have c1: "store_call sample_env sample_opened empty_disk {} None s2 d2 {}" by (rule call_unlock [OF u])
  then have p2: "same_place sample_opened s2" by (rule store_call_place)
  have c2: "store_call sample_env s2 d2 {} None s3 d3 {''h''}"
    using p2 by (intro call_insert [OF _ ins]) (simp_all add: same_place_def sample_inner_def)
  have p2': "st_dir s2 = ''dir''" using p2 by (simp add: same_place_def)
  have p3: "st_dir s3 = ''dir''" using store_call_dir [OF c2] p2' by simp
  have c3: "store_call sample_env s3 d3 {''h''} (Some ((''h'', ''app'', 5), unat (0 :: u64))) s4 d4 {''h''}" by (rule call_reserve [OF r1])
  then have p4: "st_dir s4 = ''dir''" using store_call_dir p3 by metis
  have c4: "store_call sample_env s4 d4 {''h''} (Some ((''h'', ''app'', 5), unat (1 :: u64))) s5 d5 {''h''}" by (rule call_reserve [OF r2])
  let ?w = "sample_world s5 d5 {''h''}" and ?k = "kill_process 0 (sample_world s5 d5 {''h''})"
  have k: "\<not> hp_swapping (kw_process ?k 1)" "lock_granted (close_previous 1 ?k) ''dir'' LockTaken"
    by (simp_all add: kill_process_def sample_world_def fresh_process_def lock_granted_def dir_locked_def close_previous_whole
        default_cell_def holds_dir_def set_process_def Let_def)
  note tc = trace_cons [of "world_step sample_env"]
  have "trace (world_step sample_env) ?w [None, None, None] (open_store_cell sample_env 1 ''dir'' LockTaken sample_renames ?k)"
    by (rule tc [OF world_crash open_cell_run [OF k]])
  from tc [OF sample_world_call [OF c1] tc [OF sample_world_call [OF c2 p2'] tc [OF sample_world_call [OF c3 p3]
      tc [OF sample_world_call [OF c4 p4] this]]]]
  have "trace (world_step sample_env) (sample_world sample_opened empty_disk {})
      [None, None, Some ((''dir'', ''h'', ''app'', 5), 0), Some ((''dir'', ''h'', ''app'', 5), 1), None, None, None]
      (open_store_cell sample_env 1 ''dir'' LockTaken sample_renames ?k)"
    by simp
  from trace_append [OF sample_first_run this] show ?thesis by auto
qed

text \<open>
  C35: one open store for a directory, one for a process. Start any number of module processes with nothing
  open and run them in any order: new contexts at any moment, handlers and workers calling stores whose
  handles they took earlier, crashes, edits of the files. Then no two open stores, of whatever processes,
  have the same directory; a store is open exactly if it is the one its process publishes to its workers;
  that one is also the one its handlers reach; and a call on any other handle changes nothing and hands
  out no message id.
\<close>
theorem one_open_store:
  assumes "trace (world_step env) (fresh_world disks seen) ls w"
  shows "(\<forall>i < length (kw_stores w). \<forall>j < length (kw_stores w).
      in_lock (st_inner (store_at w i)) \<and> in_lock (st_inner (store_at w j)) \<and> st_dir (store_at w i) = st_dir (store_at w j) \<longrightarrow> i = j) \<and>
    (\<forall>i < length (kw_stores w). in_lock (st_inner (store_at w i)) \<longleftrightarrow> current w (owner_of w i) = Some i) \<and>
    (\<forall>p i. current w p = Some i \<longrightarrow> module_store w p = Inr i \<and> owner_of w i = p) \<and>
    (\<forall>i < length (kw_stores w). \<forall>d ids l s' d' ids'.
      current w (owner_of w i) \<noteq> Some i \<and> store_call env (store_at w i) d ids l s' d' ids' \<longrightarrow> l = None \<and> d' = d)"
proof -
  have inv: "world_inv w" by (rule world_run_inv [OF assms fresh_world_inv])
  note D = world_invD [OF inv]
  have cur: "current w p = adopted (kw_process w p)" for p using D(3) by (simp add: current_def)
  have own: "module_store w p = Inr i \<and> owner_of w i = p" if "current w p = Some i" for p i
    using that D(1) [of p i] by (auto simp: cur adopted_def module_store_def split: store_cell.splits if_splits)
  have lock: "in_lock (st_inner (store_at w i)) \<longleftrightarrow> current w (owner_of w i) = Some i" if "i < length (kw_stores w)" for i
    using D(2) [OF that] by (auto simp: cur adopted_def split: store_cell.splits)
  have "l = None \<and> d' = d"
    if "i < length (kw_stores w)" "current w (owner_of w i) \<noteq> Some i" "store_call env (store_at w i) d ids l s' d' ids'"
    for i d ids l s' d' ids'
    using closed_call [OF that(3)] lock [OF that(1)] that(2) by simp
  then show ?thesis using D(4) own lock by blast
qed

text \<open>
  C36: processes that share keystore directories never hand out a message id twice. Run any number of them in
  any order, with contexts, crashes, failed writes, edits of files and lost ledgers: all message ids
  issued, with directory, membership, application and epoch, differ, and those of one key increase.
\<close>
theorem processes_never_reissue:
  assumes "\<And>dir. machine_inv \<lparr> m_disk = disks dir, m_store = None, m_seen = seen dir \<rparr>"
    and "trace (world_step env) (fresh_world disks seen) ls w"
  shows "distinct (issued ls) \<and> sorted_wrt (<) (map snd (filter (\<lambda>x. fst x = k) (issued ls)))"
proof -
  have "keystores_inv (fresh_world disks seen)" by (rule fresh_keystores_inv) (rule assms(1))
  then show ?thesis
    using keystores.issued_distinct [OF assms(2)] keystores.issued_increasing [OF assms(2), of k] by blast
qed

text \<open>
  C37: a new context fails closed or switches whole. After \<open>on_context_ready\<close> the store the process had
  is closed, handlers and workers agree on what they reach, and it is nothing, with the cause at hand, or
  a store open in the directory of the context; a store the process held in that very directory never
  stands in the way of its successor. No message id is handed out on the way.
\<close>
theorem context_switches_whole:
  assumes "world_inv w" "\<not> hp_swapping (kw_process w p)"
    and "path \<noteq> [] \<longrightarrow> lock_granted (close_previous p w) path lk"
    and "on_context_ready env ai disabled path lk rn p ms cu w = (poll, cu', w')"
  shows "world_inv w' \<and> (\<exists>ls. trace (world_step env) w ls w' \<and> issued ls = []) \<and>
    (\<forall>i. module_store w p = Inr i \<longrightarrow> \<not> in_lock (st_inner (store_at w' i)) \<and>
       (path = st_dir (store_at w i) \<longrightarrow> \<not> dir_locked (close_previous p w) path)) \<and>
    (case module_store w' p of
       Inl e \<Rightarrow> current w' p = None \<and> ae_kind e = Internal
     | Inr j \<Rightarrow> current w' p = Some j \<and> in_lock (st_inner (store_at w' j)) \<and> st_dir (store_at w' j) = path \<and> path \<noteq> [])"
proof -
  note run = context_run [OF assms]
  then have inv: "world_inv w'" using world_run_inv assms(1) by blast
  note D = world_invD [OF inv]
  have old: "\<not> in_lock (st_inner (store_at w' i))" if "module_store w p = Inr i" for i
  proof
    assume l: "in_lock (st_inner (store_at w' i))"
    have i: "i < length (kw_stores w)" "owner_of w i = p"
      using that world_invD(1) [OF assms(1), of p i] by (auto simp: module_store_def split: store_cell.splits)
    then have "i < length (kw_stores w')" "owner_of w' i = p" using run_owner run by blast+
    then show False using D(2) [of i] l run i(1) by auto
  qed
  have here: "case module_store w' p of
       Inl e \<Rightarrow> current w' p = None \<and> ae_kind e = Internal
     | Inr j \<Rightarrow> current w' p = Some j \<and> in_lock (st_inner (store_at w' j)) \<and> st_dir (store_at w' j) = path \<and> path \<noteq> []"
  proof (cases "hp_cell (kw_process w' p)")
    case (Unready cause)
    then show ?thesis using D(3) [of p] by (simp add: module_store_def current_def adopted_simps)
  next
    case (Ready j)
    then show ?thesis
      using D(1) [OF Ready] D(2) [of j] D(3) [of p] run by (auto simp: module_store_def current_def adopted_simps)
  qed
  show ?thesis using inv run old own_lock_released [OF assms(1,2)] here by blast
qed

theorem one_open_store_witness:
  "current (sample_world sample_opened empty_disk {}) 0 = Some 0 \<and>
   module_store (sample_world sample_opened empty_disk {}) 0 = Inr 0 \<and>
   in_lock (st_inner (store_at (sample_world sample_opened empty_disk {}) 0))"
  using one_open_store [OF sample_first_run] by (simp add: sample_world_def current_def)

theorem processes_never_reissue_witness:
  "\<exists>w. trace (world_step sample_env) empty_world
       [None, None, None, None, Some ((''dir'', ''h'', ''app'', 5), 0), Some ((''dir'', ''h'', ''app'', 5), 1), None, None, None] w \<and>
     distinct (issued [None, None, None, None, Some ((''dir'', ''h'', ''app'', 5 :: u64), 0), Some ((''dir'', ''h'', ''app'', 5), 1 :: nat), None, None, None])"
proof -
  have m: "machine_inv \<lparr> m_disk = empty_disk, m_store = None, m_seen = {} \<rparr>"
    using fresh_machine_inv by (simp add: fresh_machine_def)
  from sample_world_run obtain w where t: "trace (world_step sample_env) empty_world
     [None, None, None, None, Some ((''dir'', ''h'', ''app'', 5), 0), Some ((''dir'', ''h'', ''app'', 5), 1), None, None, None] w" by blast
  show ?thesis using processes_never_reissue [OF _ t] m t by blast
qed

theorem context_switches_whole_witness:
  "\<exists>cu' w'. on_context_ready sample_env sample_auto True ''dir'' LockTaken sample_renames 0 own_module
      \<lparr> cu_file = ReadMissing, cu_keychain = (\<lambda>sv a. Inr None) \<rparr> empty_world = (False, cu', w') \<and>
    current w' 0 = Some 0 \<and> st_dir (store_at w' 0) = ''dir''"
proof -
  let ?w = "sample_world sample_opened empty_disk {}"
  let ?cu = "\<lparr> cu_file = ReadMissing, cu_keychain = (\<lambda>sv a. Inr None) \<rparr>"
  have w: "hp_cell (kw_process ?w 0) = Ready 0" "store_at ?w 0 = sample_opened" "current ?w 0 = Some 0"
    "module_store ?w 0 = Inr 0" by (simp_all add: sample_world_def current_def module_store_def)
  have "write_back 0 (published_view ?w 0 own_module) ?w = ?w"
    by (simp add: write_back_def published_view_def w) (simp add: sample_world_def set_store_def set_disk_def)
  then have c: "on_context_ready sample_env sample_auto True ''dir'' LockTaken sample_renames 0 own_module ?cu empty_world = (False, ?cu, ?w)"
    by (simp add: on_context_ready_def sample_first_context w lazy_auto_unlock_def pending_records_def Let_def)
  have g: "''dir'' \<noteq> [] \<longrightarrow> lock_granted (close_previous 0 empty_world) ''dir'' LockTaken" using sample_lock_granted by simp
  have "\<not> hp_swapping (kw_process empty_world 0)" by (simp add: fresh_world_def fresh_process_def)
  from context_switches_whole [OF fresh_world_inv this g c] c w show ?thesis by simp
qed

end
