(* ===== verification/Keychain_Backend.thy ===== *)
theory Keychain_Backend
  imports Keychain
begin

text \<open>
  The macOS keychain behind the \<open>Keychain\<close> trait (\<open>SecurityCli\<close> in \<open>keychain.rs\<close>): reads and writes through the
  \<open>security\<close> command, whose exit code and output are arguments, and the backend of the other platforms,
  which has none. With it, the round trip of a remembered password.
\<close>

section \<open>Text from a command\<close>

text \<open>
  \<open>String::from_utf8_lossy\<close>, character by character: a byte that starts no character, or a character
  cut short, becomes one replacement character.
\<close>

definition is_cont :: "byte \<Rightarrow> bool" where
  "is_cont b \<longleftrightarrow> 0x80 \<le> b \<and> b \<le> 0xBF"

definition second_ok :: "byte \<Rightarrow> byte \<Rightarrow> bool" where
  "second_ok a b \<longleftrightarrow> is_cont b \<and> (a = 0xE0 \<longrightarrow> 0xA0 \<le> b) \<and> (a = 0xED \<longrightarrow> b \<le> 0x9F) \<and> (a = 0xF0 \<longrightarrow> 0x90 \<le> b) \<and>
     (a = 0xF4 \<longrightarrow> b \<le> 0x8F)"

fun conts :: "nat \<Rightarrow> bytes \<Rightarrow> bool \<times> nat" where
  "conts 0 r = (True, 0)"
| "conts (Suc n) [] = (False, 0)"
| "conts (Suc n) (b # r) = (if is_cont b then (let (whole, k) = conts n r in (whole, Suc k)) else (False, 0))"

definition char_span :: "byte \<Rightarrow> bytes \<Rightarrow> bool \<times> nat" where
  "char_span a r =
     (if a < 0x80 then (True, 0)
      else if 0xC2 \<le> a \<and> a \<le> 0xDF then conts 1 r
      else if 0xE0 \<le> a \<and> a \<le> 0xF4
      then (case r of
              [] \<Rightarrow> (False, 0)
            | b # r' \<Rightarrow> if second_ok a b then (let (whole, k) = conts (if a \<le> 0xEF then 1 else 2) r' in (whole, Suc k)) else (False, 0))
      else (False, 0))"

function lossy_chars :: "bytes \<Rightarrow> bytes list" where
  "lossy_chars [] = []"
| "lossy_chars (a # r) =
     (case char_span a r of (whole, k) \<Rightarrow> (if whole then a # take k r else [0xEF, 0xBF, 0xBD]) # lossy_chars (drop k r))"
  by pat_completeness auto
termination by (relation "measure length") auto

definition stderr_head :: "bytes \<Rightarrow> string" where
  "stderr_head stderr = map (\<lambda>b. char_of (unat b)) (concat (take 200 (lossy_chars stderr)))"

section \<open>The command\<close>

record command_output =
  co_code :: "int option"
  co_stdout :: bytes
  co_stderr :: bytes

definition SECURITY_BIN :: string where "SECURITY_BIN = ''/usr/bin/security''"

definition LABEL :: string where "LABEL = ''logos-rln-membership-keystore''"

fun show_code :: "int option \<Rightarrow> string" where
  "show_code None = ''None''"
| "show_code (Some c) = ''Some('' @ (if c < 0 then ''-'' else []) @ show_nat (nat \<bar>c\<bar>) @ '')''"

definition line_end :: "char \<Rightarrow> bool" where
  "line_end c \<longleftrightarrow> c = CHR 0x0A \<or> c = CHR 0x0D"

definition strip_line_ends :: "string \<Rightarrow> string" where
  "strip_line_ends s = rev (dropWhile line_end (rev s))"

definition security_read :: "string + command_output \<Rightarrow> string + string option" where
  "security_read r =
     (case r of
        Inl e \<Rightarrow> Inl (''spawn '' @ SECURITY_BIN @ '': '' @ e)
      | Inr out \<Rightarrow>
          if co_code out = Some 0
          then (case from_utf8 (co_stdout out) of
                  None \<Rightarrow> Inl ''keychain payload is not utf-8''
                | Some payload \<Rightarrow> Inr (Some (strip_line_ends payload)))
          else if co_code out = Some 44 then Inr None
          else Inl (''find-generic-password exit '' @ show_code (co_code out) @ '': '' @ stderr_head (co_stderr out)))"

record batch_io =
  bi_spawn :: "string option"
  bi_stdin :: bool
  bi_write :: "string option"
  bi_wait :: "string + command_output"

definition run_security_batch :: "batch_io \<Rightarrow> string + unit" where
  "run_security_batch bi =
     (case bi_spawn bi of
        Some e \<Rightarrow> Inl (''spawn '' @ SECURITY_BIN @ '' -i: '' @ e)
      | None \<Rightarrow>
      if \<not> bi_stdin bi then Inl ''no stdin pipe''
      else case bi_write bi of
        Some e \<Rightarrow> Inl (''write batch line: '' @ e)
      | None \<Rightarrow>
      case bi_wait bi of
        Inl e \<Rightarrow> Inl (''wait '' @ SECURITY_BIN @ '': '' @ e)
      | Inr out \<Rightarrow>
          if co_code out = Some 0 then Inr ()
          else Inl (''security -i exit '' @ show_code (co_code out) @ '': '' @ stderr_head (co_stderr out)))"

definition batch_line :: "string \<Rightarrow> string \<Rightarrow> string \<Rightarrow> string" where
  "batch_line service account payload_hex =
     ''add-generic-password -U -s '' @ service @ '' -a '' @ account @ '' -l '' @ LABEL @ '' -T '' @ SECURITY_BIN @
     '' -w '' @ payload_hex @ [CHR 0x0A]"

text \<open>
  The update in place, or after a failure the delete, whose result is ignored, and one more try. The
  second run meets its own outcome.
\<close>

definition security_write :: "(string \<Rightarrow> batch_io) \<Rightarrow> (string \<Rightarrow> batch_io) \<Rightarrow> string \<Rightarrow> string \<Rightarrow> string \<Rightarrow> string + unit" where
  "security_write first second service account payload_hex =
     (let line = batch_line service account payload_hex in
      case run_security_batch (first line) of
        Inr _ \<Rightarrow> Inr ()
      | Inl _ \<Rightarrow> run_security_batch (second line))"

definition no_backend :: "string + 'a" where
  "no_backend = Inl ''no OS keychain backend on this platform''"

section \<open>A remembered password comes back\<close>

lemma strip_line_ends_append:
  assumes "s = [] \<or> \<not> line_end (last s)" "\<forall>c \<in> set t. line_end c"
  shows "strip_line_ends (s @ t) = s"
proof -
  have "dropWhile line_end (rev t @ rev s) = dropWhile line_end (rev s)" using assms(2) by (intro dropWhile_append2) auto
  also have "\<dots> = rev s" using assms(1) by (cases s rule: rev_cases) simp_all
  finally show ?thesis by (simp add: strip_line_ends_def)
qed

lemma unat_of_char: "unat (of_char c :: byte) = (of_char c :: nat)"
proof -
  have "unat (of_nat (of_char c) :: byte) = (of_char c :: nat)" by (simp add: unat_of_nat)
  then show ?thesis by (simp only: of_nat_of_char)
qed

lemma char_of_byte: "char_of (unat (of_char c :: byte)) = c"
  by (simp add: unat_of_char)

lemma chars_of_bytes: "map (\<lambda>x. char_of (unat x)) (as_bytes s) = s"
  by (induction s) (simp_all add: as_bytes_def char_of_byte)

lemma from_utf8_ascii:
  assumes "\<forall>c \<in> set s. (of_char c :: byte) < 0x80"
  shows "from_utf8 (as_bytes s) = Some s"
proof -
  have "utf8_valid (as_bytes s)" using assms by (induction s) (simp_all add: as_bytes_def)
  then show ?thesis by (simp add: from_utf8_def chars_of_bytes)
qed

lemma alphanumeric_byte:
  assumes "is_ascii_alphanumeric c"
  shows "(of_char c :: byte) < 0x80" "\<not> line_end c"
proof -
  have "(of_char c :: nat) < 128" "CHR ''0'' \<le> c" using assms by (auto simp: ascii_defs)
  then show "(of_char c :: byte) < 0x80" by (simp add: word_less_nat_alt unat_of_char)
  show "\<not> line_end c" using \<open>CHR ''0'' \<le> c\<close> by (auto simp: line_end_def less_eq_char_def)
qed

lemma line_end_byte: "line_end c \<Longrightarrow> (of_char c :: byte) < 0x80"
  by (auto simp: line_end_def)

text \<open>What the command prints for an item holding a hex payload, whatever line ends it adds.\<close>

lemma security_read_payload:
  assumes "co_code out = Some 0" "co_stdout out = as_bytes (bytes_to_hex b @ ends)" "\<forall>c \<in> set ends. line_end c"
  shows "security_read (Inr out) = Inr (Some (bytes_to_hex b))"
proof -
  have h: "\<forall>c \<in> set (bytes_to_hex b). (of_char c :: byte) < 0x80 \<and> \<not> line_end c"
    using bytes_to_hex_alphanumeric [of b] alphanumeric_byte by blast
  have "from_utf8 (co_stdout out) = Some (bytes_to_hex b @ ends)"
    unfolding assms(2) by (rule from_utf8_ascii) (use h assms(3) line_end_byte in auto)
  moreover have "strip_line_ends (bytes_to_hex b @ ends) = bytes_to_hex b"
    by (rule strip_line_ends_append [OF _ assms(3)]) (use h last_in_set in blast)
  ultimately show ?thesis using assms(1) by (simp add: security_read_def)
qed

text \<open>
  C39: a password the operator chose to have remembered opens the keystore by itself. After a successful
  \<open>remember_keystore_password\<close>, and without a secret file in the directory, an auto-unlock whose keychain
  read is answered with the item as it was written, with any line ends the command adds, makes exactly one
  unlock call with exactly that password, and reports its outcome; nothing is generated or written.
\<close>
theorem remembered_password_reopens:
  assumes "remember_impl env (security_write first second SERVICE (account_for_dir env (st_dir s))
      (bytes_to_hex (as_bytes pw))) cu ms = (Inr v, cu')"
    and "ms_store ms = Inr s" "session_password s = Some pw" "utf8_valid (as_bytes pw)"
    and "cu_keychain cu' SERVICE (account_for_dir env (st_dir s)) = Inr (Some item)"
    and "co_code out = Some 0" "co_stdout out = as_bytes (item @ ends)" "\<forall>c \<in> set ends. line_end c"
    and "cu_file later = ReadMissing" "cu_keychain later SERVICE (account_for_dir env (st_dir s)) = security_read (Inr out)"
    and "st_dir s2 = st_dir s"
  shows "(\<exists>bi. (bi = first \<or> bi = second) \<and> run_security_batch
        (bi (batch_line SERVICE (account_for_dir env (st_dir s)) item)) = Inr ()) \<and>
    auto_unlock_core env ai later s2 d2 =
      (case unlock_with env pw (ai_keychain ai) s2 d2 of
         (Inl e, s', d') \<Rightarrow> (Inl e, later, s', d')
       | (Inr n, s', d') \<Rightarrow> (Inr (n, ''existing'', pw), later, s', d'))"
proof -
  let ?acct = "account_for_dir env (st_dir s)" and ?hex = "bytes_to_hex (as_bytes pw)"
  have item: "item = ?hex" and ok: "security_write first second SERVICE ?acct ?hex = Inr ()"
    using assms(1-3,5) by (auto simp: remember_impl_def current_or_uninit_def Let_def split: sum.splits)
  have "security_read (Inr out) = Inr (Some ?hex)" using security_read_payload assms(6-8) unfolding item by blast
  moreover have "from_utf8 (as_bytes pw) = Some pw"
    using assms(4) by (simp add: from_utf8_def chars_of_bytes)
  ultimately have "read_keychain_secret (cu_keychain later) (account_for_dir env (st_dir s2)) = Inr (Some pw, None)"
    using assms(10,11) by (simp add: read_keychain_secret_def)
  then have "auto_unlock_core env ai later s2 d2 =
      (case unlock_with env pw (ai_keychain ai) s2 d2 of
         (Inl e, s', d') \<Rightarrow> (Inl e, later, s', d')
       | (Inr n, s', d') \<Rightarrow> (Inr (n, ''existing'', pw), later, s', d'))"
    using assms(9)
    by (cases "unlock_with env pw (ai_keychain ai) s2 d2")
      (auto simp: auto_unlock_core_def after_file_def read_file_secret_def split: sum.split)
  moreover have "\<exists>bi. (bi = first \<or> bi = second) \<and> run_security_batch (bi (batch_line SERVICE ?acct item)) = Inr ()"
    using ok unfolding item by (auto simp: security_write_def Let_def split: sum.splits)
  ultimately show ?thesis by blast
qed

definition printed :: "string \<Rightarrow> command_output" where
  "printed item = \<lparr> co_code = Some 0, co_stdout = as_bytes (item @ [CHR 0x0A]), co_stderr = [] \<rparr>"

definition quiet_batch :: batch_io where
  "quiet_batch = \<lparr> bi_spawn = None, bi_stdin = True, bi_write = None, bi_wait = Inr \<lparr> co_code = Some 0, co_stdout = [], co_stderr = [] \<rparr> \<rparr>"

text \<open>The password of the concrete store, remembered and read back; here the first write fails and the second succeeds.\<close>

theorem remembered_password_reopens_witness:
  "\<exists>v cu'. remember_impl own_env (security_write (\<lambda>_. quiet_batch \<lparr> bi_stdin := False \<rparr>) (\<lambda>_. quiet_batch) SERVICE
       (account_for_dir own_env (st_dir own_store)) (bytes_to_hex (as_bytes ''pw'')))
       \<lparr> cu_file = ReadMissing, cu_keychain = (\<lambda>sv a. Inr None) \<rparr> own_module = (Inr v, cu') \<and>
     auto_unlock_core own_env sample_auto \<lparr> cu_file = ReadMissing,
         cu_keychain = (\<lambda>sv a. security_read (Inr (printed (bytes_to_hex (as_bytes ''pw''))))) \<rparr> own_store empty_disk =
       (case unlock_with own_env ''pw'' (ai_keychain sample_auto) own_store empty_disk of
          (Inl e, s', d') \<Rightarrow> (Inl e, \<lparr> cu_file = ReadMissing,
             cu_keychain = (\<lambda>sv a. security_read (Inr (printed (bytes_to_hex (as_bytes ''pw''))))) \<rparr>, s', d')
        | (Inr n, s', d') \<Rightarrow> (Inr (n, ''existing'', ''pw''), \<lparr> cu_file = ReadMissing,
             cu_keychain = (\<lambda>sv a. security_read (Inr (printed (bytes_to_hex (as_bytes ''pw''))))) \<rparr>, s', d'))"
proof -
  let ?item = "bytes_to_hex (as_bytes ''pw'')" and ?acct = "account_for_dir own_env (st_dir own_store)"
  let ?cu = "\<lparr> cu_file = ReadMissing, cu_keychain = (\<lambda>sv a. Inr None) \<rparr> :: custody"
  let ?later = "\<lparr> cu_file = ReadMissing, cu_keychain = (\<lambda>sv a. security_read (Inr (printed ?item))) \<rparr> :: custody"
  have store: "ms_store own_module = Inr own_store" "session_password own_store = Some ''pw''"
    by (simp_all add: own_module_def session_password_def own_store_def)
  have wrote: "security_write (\<lambda>_. quiet_batch \<lparr> bi_stdin := False \<rparr>) (\<lambda>_. quiet_batch) SERVICE ?acct ?item = Inr ()"
    by (simp add: security_write_def run_security_batch_def quiet_batch_def Let_def)
  obtain v cu' where r: "remember_impl own_env (security_write (\<lambda>_. quiet_batch \<lparr> bi_stdin := False \<rparr>) (\<lambda>_. quiet_batch) SERVICE ?acct ?item)
      ?cu own_module = (Inr v, cu')" and item: "cu_keychain cu' SERVICE ?acct = Inr (Some ?item)"
    by (simp add: remember_impl_def current_or_uninit_def store wrote Let_def)
  have p: "co_code (printed ?item) = Some 0" "co_stdout (printed ?item) = as_bytes (?item @ [CHR 0x0A])"
    "\<forall>c \<in> set [CHR 0x0A]. line_end c" by (simp_all add: printed_def line_end_def)
  have pw: "utf8_valid (as_bytes ''pw'')" by (simp add: as_bytes_def)
  have later: "cu_file ?later = ReadMissing" "cu_keychain ?later SERVICE ?acct = security_read (Inr (printed ?item))" by simp_all
  from remembered_password_reopens [OF r store pw item p later refl] r show ?thesis by blast
qed

end
