(* ===== verification/Panic_Hook.thy ===== *)
theory Panic_Hook
  imports Rust_Text
begin

text \<open>
  The panic hook of the membership module (\<open>panic_hook.rs\<close>): a process-wide hook is what it writes to stderr
  for a panic, and installing wraps the one that was there. Handlers call \<open>install_once\<close> on every first
  contact of the host.
\<close>

datatype panic_payload = StrPayload string | StringPayload string | OtherPayload

record panic_location =
  pl_file :: string
  pl_line :: nat
  pl_column :: nat

record panic_info =
  pi_payload :: panic_payload
  pi_location :: "panic_location option"

type_synonym hook = "panic_info \<Rightarrow> string list"

record panic_state =
  pn_installed :: bool
  pn_hook :: hook

fun panic_msg :: "panic_payload \<Rightarrow> string" where
  "panic_msg (StrPayload s) = s"
| "panic_msg (StringPayload s) = s"
| "panic_msg OtherPayload = ''<non-string panic payload>''"

definition panic_line :: "panic_info \<Rightarrow> string" where
  "panic_line info =
     (case pi_location info of
        Some loc \<Rightarrow> ''membership panic at '' @ pl_file loc @ '':'' @ show_nat (pl_line loc) @ '':'' @ show_nat (pl_column loc) @
          '': '' @ panic_msg (pi_payload info)
      | None \<Rightarrow> ''membership panic at <unknown location>: '' @ panic_msg (pi_payload info))"

definition install_once :: "panic_state \<Rightarrow> panic_state" where
  "install_once p =
     (if pn_installed p then p
      else (let previous = pn_hook p in
        \<lparr> pn_installed = True, pn_hook = (\<lambda>info. panic_line info # previous info) \<rparr>))"

text \<open>However often the host comes back, a panic is told once by this module and once by the hook it found.\<close>

lemma install_once_idempotent: "install_once (install_once p) = install_once p"
  by (simp add: install_once_def Let_def)

lemma install_any_times:
  assumes "\<not> pn_installed p"
  shows "pn_hook ((install_once ^^ Suc n) p) info = panic_line info # pn_hook p info"
proof -
  have "(install_once ^^ Suc n) p = install_once p"
    by (induction n) (simp_all add: install_once_idempotent)
  then show ?thesis using assms by (simp add: install_once_def Let_def)
qed

end
