(* ===== verification/Shared_Home.thy ===== *)
theory Shared_Home
  imports Wallet_Home Lez_Network
begin

text \<open>
  One wallet home, both modules: the membership module provisions it (\<open>wallet_home.rs\<close>), the registry module
  is pointed at it by its environment and adopts it (\<open>networks.rs\<close>, \<open>wallet.rs\<close>).
\<close>

lemma same_config: "wallet_config_json jt seq = jt_render jt (wallet_config seq)"
  by (simp add: wallet_config_json_def wallet_config_def GAS_LIMIT_def)

text \<open>
  The directory as either module sees it. The membership module writes no \<open>network.json\<close>; a torn config
  is some text.
\<close>

definition same_home :: "json_text \<Rightarrow> wallet_home \<Rightarrow> home_files \<Rightarrow> bool" where
  "same_home jt h f \<longleftrightarrow> hf_marker f = None \<and>
     (case wh_config h of
        None \<Rightarrow> hf_config f = None
      | Some (Whole c) \<Rightarrow> hf_config f = Some (jt_render jt c)
      | Some Torn \<Rightarrow> hf_config f \<noteq> None)"

lemma unmarked_home_adopted:
  assumes "hf_config f = Some raw" "hf_marker f = None" "hs_marker_read hs = None"
    and "trim d = home" "home \<noteq> []" "se_selection sel = Unresolved"
  shows "spawn_bring_up jt tbl hs (Some d) env path sel f = (ActStart home, sel \<lparr> se_selection := Bound home Operator \<rparr>, f)"
  using assms by (simp add: spawn_bring_up_def plan_home_def read_marker_def apply_plan_def Let_def)

lemma operator_home_unchecked:
  assumes "se_selection sel = Bound home Operator"
  shows "select_network jt tbl hs ref sel f =
    (\<lparr> nr_accepted = True, nr_detail = ''operator-configured home; the network is not checked'',
       nr_network = to_ascii_lowercase (trim ref), nr_retry = False, nr_source = ''operator'' \<rparr>, ActNone,
     sel \<lparr> se_operator_noted := True \<rparr>, f)"
  using assms by (simp add: select_network_def answer_bound_def Let_def)


text \<open>A single call on an empty directory, then a start of the registry module.\<close>

definition one_provision :: "home_event list" where
  "one_provision = Call ''s'' # replicate 5 (Advance 0 fine_io)"

definition provisioned_files :: home_files where
  "provisioned_files = \<lparr> hf_config = Some (wallet_config_json codec_text ''s''), hf_marker = None \<rparr>"

lemma one_provision_run:
  "trace (home_step ''d'') \<lparr> pv_home = fresh_home, pv_calls = [] \<rparr> (map Some one_provision)
     \<lparr> pv_home = fresh_home \<lparr> wh_config := Some (Whole (wallet_config ''s'')) \<rparr>, pv_calls = [Answered (Inr False)] \<rparr>"
  by (rule home_exec_trace) (simp add: one_provision_def fine_io_def fresh_home_def numeral_eq_Suc)


end
