(* ===== verification/Spec2Isabelle.thy ===== *)
theory Spec2Isabelle
  imports Lez_Service Module_Context Keychain_Backend Panic_Hook Shared_Home
begin

text \<open>
  Rate-limiting nullifiers for Logos: a verification development of the two Rust modules of this repository.

  The program. \<open>logos-rln-module\<close> (the membership module) keeps RLN identities in a sealed store on disk, issues
  rate-limit slots from an allocation ledger, generates and validates RLN proofs, registers memberships and
  follows their lifecycle. It never talks to a chain itself: it calls a sibling module behind a small interface
  (\<open>provider.rs\<close>). \<open>logos-lez-rln-module\<close> (the registry module) is such a sibling: it owns a wallet of the LEZ
  chain, reads the registry's accounts, and submits registrations. Both are services whose handlers run on
  several threads, beside background workers.

  The membership module, under \<open>src/logos-rln-module/rust-lib/src\<close>, theory by theory:

  \<^item> \<open>Rln_Prelude\<close>, \<open>Rust_Text\<close>, \<open>Json\<close>, \<open>Json_Codec\<close>: words, results, ordered maps, the parts of \<open>std\<close> and of
    \<open>serde_json\<close>'s values the sources use, with the generic lemmas, collected in \<open>named_theorems\<close>.
  \<^item> \<open>Registry_Id\<close>, \<open>Api_Error\<close>, \<open>Lifecycle\<close>, \<open>Views\<close>: registry ids and membership hashes (\<open>registry_id.rs\<close>), error
    values (\<open>lib.rs\<close>), membership states and cache rows (\<open>lifecycle.rs\<close>), typed replies (\<open>views.rs\<close>).
  \<^item> \<open>Slot_Issuer\<close>: the interface of everything that hands out slots, as a locale over labelled runs;
    \<open>Rate_Limit\<close> (\<open>rate_limit.rs\<close>), \<open>Store_Safety\<close>, \<open>Module_Machine\<close> and \<open>Module_Context\<close> interpret it, from the allocator
    alone, to the store with its disk, to the module as a whole, to many processes on shared directories.
  \<^item> \<open>Sealed_Crypto\<close>, \<open>Sealed_Format\<close>, \<open>Durable_File\<close>, \<open>Sealed_Store\<close> (\<open>sealed_store/*.rs\<close>): key derivation and sealing,
    the canonical encodings under every MAC, the durable write call by call over a medium that may lose what was
    not synced, and every method of the store. \<open>Store_Safety\<close>, \<open>Store_Props\<close>, \<open>Store_Methods\<close> hold what they guarantee.
  \<^item> \<open>Nullifier_Log\<close>, \<open>Selection\<close>, \<open>Proof_Engine\<close>, \<open>Provider\<close>, \<open>Root_Window\<close>: \<open>nullifier_log.rs\<close>, \<open>select.rs\<close>, \<open>proof.rs\<close>,
    \<open>provider.rs\<close>, \<open>roots.rs\<close> and \<open>path_cache.rs\<close>.
  \<^item> \<open>Module_Config\<close>, \<open>Proof_Api\<close>, \<open>Membership_Api\<close> (\<open>lib.rs\<close>): scopes and configuration, then the handlers, whole.
    \<open>Validate_Props\<close>, \<open>Generate_Props\<close>, \<open>Membership_Props\<close> hold their properties.
  \<^item> \<open>Worker\<close>, \<open>Poller\<close>, \<open>Ensure\<close> (\<open>worker.rs\<close>, \<open>poller.rs\<close>, \<open>ensure.rs\<close>): the supervisor as interleaved critical
    sections, the background passes, and the detached provisioning pass.
  \<^item> \<open>Module_Context\<close> (\<open>lib.rs\<close>, \<open>sealed_store/store.rs\<close>): \<open>on_context_ready\<close>, the store a handler reaches and the store
    the workers reach, and any number of processes that open, close, crash and share directories. Emptying the
    published slot and closing the old store are two effects taken as one step, which \<open>unpublish_before_call\<close> justifies.
  \<^item> \<open>Keychain\<close>, \<open>Keychain_Backend\<close>, \<open>Wallet_Home\<close> (\<open>keychain.rs\<close>, \<open>wallet_home.rs\<close>): password custody, the macOS backend
    over the \<open>security\<close> command, and wallet homes under concurrent provisioning and crashes.
  \<^item> \<open>Registry_Service\<close>: the interface of a sibling module as a locale, whose law is that its answers are true of the
    chain, with what a poller tick concludes from them. \<open>Panic_Hook\<close> (\<open>panic_hook.rs\<close>): the hook, installed once.

  The registry module, under \<open>src/logos-lez-rln-module/rust-lib/src\<close>:

  \<^item> \<open>Base58\<close> (\<open>base58.rs\<close>), \<open>Lez_Core\<close> (\<open>rln_core.rs\<close>): account ids; checks, config offsets, tree roots and paths,
    the plan of a registration, membership states.
  \<^item> \<open>Lez_Network\<close> (\<open>networks.rs\<close>, \<open>wallet.rs\<close>): which chain a wallet home is bound to, and \<open>use_network\<close>.
  \<^item> \<open>Lez_Wallet\<close> (\<open>wallet.rs\<close>): bring-up, payer, readiness. \<open>Lez_Chain\<close> (\<open>wallet.rs\<close>, \<open>fee_state.rs\<close>): the calls into the
    wallet library and to the sequencer.
  \<^item> \<open>Lez_Module\<close>, \<open>Lez_Reads\<close>, \<open>Lez_Register\<close>, \<open>Lez_Watch\<close> (\<open>lib.rs\<close>): the read handlers and what they say about the
    chain, registration, and the watcher of a submitted registration.
  \<^item> \<open>Lez_Service\<close>: both modules together; the registry module's handlers satisfy \<open>registry_service\<close> (a \<open>sublocale\<close>).
    \<open>Shared_Home\<close>: one wallet home, provisioned by the membership module and adopted by the registry module.

  What is proved.

  \<^item> Slots: no message id is issued twice under one nullifier key over any run (allocator, store, module, many
    processes), the ledger counts a slot before the caller sees it, and a tampered ledger is refused or exhibits a collision of HMAC.
  \<^item> Proofs: verdicts of \<open>validate_proof\<close> on every branch, detection of a second share, one reservation for one
    generated proof, and acceptance of the module's own proofs.
  \<^item> Memberships: registration is idempotent per scope, state reads compare and set, late replies never move a
    confirmed state, the poller agrees with the handler, provisioning spends only on a funded wallet.
  \<^item> Workers: exclusive and retired after \<open>stop()\<close>, under any interleaving of the supervisor's sections; the bodies
    of \<open>start\<close> and \<open>stop\<close> hold the \<open>LIFECYCLE\<close> mutex, so the program runs fewer of them, and each takes effect whole.
  \<^item> The registry module: decoders and pre-flight checks are exact, a network is accepted only when the wallet talks
    to it, a recorded payer stays while it can be read, one submission at a time for one membership, a bounded number of re-sends.
  \<^item> Both: what the membership module believes of a membership is what the chain holds, the path it is served
    leads to a root it accepts, amounts arrive whole, the two funding gates agree, and a home one
    module provisioned is the one the other runs on.
  \<^item> Divergences: a few theorems show a run on which the code does not do what it means to, such as a payer record
    lost to a failed read, or a refused send reported as pending.

  Parameters. Code outside \<open>src\<close> is an argument: the field, circuit and Poseidon of zerokit (record \<open>zerokit\<close>),
  Argon2id, HKDF, HMAC and XChaCha20-Poly1305 (record \<open>crypto\<close>), the on-chain layouts (record \<open>layouts\<close>),
  \<open>serde_json\<close>'s text (record \<open>json_text\<close>, with the law that a rendered value parses to itself), the wallet library,
  the HTTP client and the file system, whose answers a definition takes as records of results. Hypotheses about
  them, such as \<open>fr_roundtrip\<close> or \<open>json_roundtrip\<close>, are named definitions, and the witnesses discharge them on
  concrete instances.

  Time and fuel. There is no fuel. A wait without a deadline is a \<open>partial_function (option)\<close> whose \<open>None\<close> is a wait
  that never ends; the theorems say when it ends. Loops with a bound are structural or have a measure. Instants and
  durations are numbers handed in by the caller, in the unit the theory names. A handler that makes several calls
  takes one surroundings record for each of them, so the chain may move in between; a handler that holds a lock
  throughout is one step of its machine.

  Not modelled, and why: log lines; the generated module scaffold and the rendering
  of typed replies by \<open>serde\<close>; the process-wide statics that hold the state, which is passed explicitly here; the
  thread primitives themselves (a critical section is a step); the trait methods that only forward to a handler;
  test code and the tests against a live network.
\<close>

end
